(* ===== verification/Prelude.thy ===== *)
theory Prelude
  imports Main "HOL-Library.Word" "HOL-Library.Char_ord" "HOL-Library.List_Lexorder"
begin

text \<open>
  Shared vocabulary of the development: the outcome of a C++ call (a value, or the reason the
  process stops), C integer arithmetic, the algorithms of the C++ standard library that the
  sources call (\<^verbatim>\<open>std::find\<close>, \<^verbatim>\<open>std::search\<close>, \<^verbatim>\<open>std::copy\<close>, \<^verbatim>\<open>std::map\<close> on sorted keys) and of
  \<^verbatim>\<open>snprintf\<close> (decimal fields with padding), the lemmas on lists and numbers that the
  component theories share, and the event systems that the objects of a loop are.

  Characters are bytes, \<^typ>\<open>string\<close> is a sequence of bytes. Sizes and indices are \<^typ>\<open>nat\<close>;
  the places where a \<^verbatim>\<open>size_t\<close> computation can wrap around use \<open>sz_add\<close> and \<open>sz_sub\<close>.
\<close>

section \<open>Outcomes\<close>

text \<open>
  Every way in which a modelled call does not return normally. \<open>Assert_failed\<close> is a violated
  \<^verbatim>\<open>assert\<close> (the model is that of the build without \<^verbatim>\<open>NDEBUG\<close>), \<open>Fatal\<close> a \<^verbatim>\<open>LOG_FATAL\<close> or
  \<^verbatim>\<open>abort\<close>, \<open>Length_error\<close>, \<open>Out_of_range\<close> and \<open>Logic_error\<close> the exceptions of the standard
  library, \<open>Undefined\<close> an access the language leaves undefined.
\<close>

datatype fault =
    Assert_failed
  | Fatal
  | Length_error
  | Out_of_range
  | Logic_error string
  | Undefined

type_synonym 'a res = "fault + 'a"

fun rbind :: "'a res \<Rightarrow> ('a \<Rightarrow> 'b res) \<Rightarrow> 'b res" where
  "rbind (Inl e) f = Inl e"
| "rbind (Inr x) f = f x"

definition require :: "bool \<Rightarrow> 'a res \<Rightarrow> 'a res" where
  "require c k = (if c then k else Inl Assert_failed)"

fun rfold :: "('a \<Rightarrow> 's \<Rightarrow> 's res) \<Rightarrow> 'a list \<Rightarrow> 's \<Rightarrow> 's res" where
  "rfold f [] s = Inr s"
| "rfold f (x # xs) s = rbind (f x s) (rfold f xs)"

lemma require_True [simp]: "c \<Longrightarrow> require c k = k"
  by (simp add: require_def)

lemma require_False [simp]: "\<not> c \<Longrightarrow> require c k = Inl Assert_failed"
  by (simp add: require_def)

lemma require_Inr_iff: "require c k = Inr x \<longleftrightarrow> c \<and> k = Inr x"
  by (simp add: require_def)

lemma rbind_Inr_iff: "rbind m f = Inr y \<longleftrightarrow> (\<exists>x. m = Inr x \<and> f x = Inr y)"
  by (cases m) auto

lemma rbind_assoc: "rbind (rbind m f) g = rbind m (\<lambda>x. rbind (f x) g)"
  by (cases m) auto

lemma rbind_Inr_right [simp]: "rbind m Inr = m"
  by (cases m) auto

lemma rfold_append: "rfold f (xs @ ys) s = rbind (rfold f xs s) (rfold f ys)"
proof (induction xs arbitrary: s)
  case Nil
  then show ?case by simp
next
  case (Cons x xs)
  then show ?case by (cases "f x s") auto
qed

text \<open>The invariant rule for a sequence of fallible steps.\<close>

lemma rfold_fun: "rfold f [] = Inr" "rfold f (x # xs) = (\<lambda>s. rbind (f x s) (rfold f xs))"
  by (simp_all add: fun_eq_iff)

lemma rfold_cong_set:
  "(\<And>x s. x \<in> set xs \<Longrightarrow> f x s = g x s) \<Longrightarrow> rfold f xs s = rfold g xs s"
proof (induction xs arbitrary: s)
  case (Cons x xs)
  then show ?case by (cases "g x s") auto
qed simp

lemma concat_concat_map: "concat (concat (map f xs)) = concat (map (\<lambda>x. concat (f x)) xs)"
  by (induction xs) auto

lemma length_le_concat: "x \<in> set xs \<Longrightarrow> length x \<le> length (concat xs)"
  by (induction xs) auto

lemma rfold_inv:
  assumes "P s" and "\<And>x s. x \<in> set xs \<Longrightarrow> P s \<Longrightarrow> \<exists>s'. f x s = Inr s' \<and> P s'"
  shows "\<exists>s'. rfold f xs s = Inr s' \<and> P s'"
  using assms
proof (induction xs arbitrary: s)
  case Nil
  then show ?case by simp
next
  case (Cons x xs)
  then obtain s1 where s1: "f x s = Inr s1" "P s1"
    by (metis list.set_intros(1))
  with Cons show ?case
    by (metis list.set_intros(2) rbind.simps(2) rfold.simps(2))
qed

section \<open>C integers\<close>

text \<open>Integer division of C++ truncates towards zero; the remainder has the dividend's sign.\<close>

definition cdiv :: "int \<Rightarrow> int \<Rightarrow> int" where
  "cdiv a b = sgn a * sgn b * (\<bar>a\<bar> div \<bar>b\<bar>)"

definition cmod :: "int \<Rightarrow> int \<Rightarrow> int" where
  "cmod a b = a - cdiv a b * b"

definition in_int32 :: "int \<Rightarrow> bool" where
  "in_int32 x \<longleftrightarrow> - (2 ^ 31) \<le> x \<and> x < 2 ^ 31"

definition in_int64 :: "int \<Rightarrow> bool" where
  "in_int64 x \<longleftrightarrow> - (2 ^ 63) \<le> x \<and> x < 2 ^ 63"

lemma cdiv_nonneg: "0 \<le> a \<Longrightarrow> 0 < b \<Longrightarrow> cdiv a b = a div b"
  by (cases "a = 0") (auto simp: cdiv_def)

lemma cmod_nonneg: "0 \<le> a \<Longrightarrow> 0 < b \<Longrightarrow> cmod a b = a mod b"
  by (simp add: cmod_def cdiv_nonneg minus_div_mult_eq_mod)

lemma cdiv_neg: "a < 0 \<Longrightarrow> 0 < b \<Longrightarrow> cdiv a b = - ((- a) div b)"
  by (simp add: cdiv_def)

lemma cmod_neg: "a < 0 \<Longrightarrow> 0 < b \<Longrightarrow> cmod a b = - ((- a) mod b)"
proof -
  assume ab: "a < 0" "0 < b"
  have "(- a) mod b = (- a) - (- a) div b * b" by (rule minus_div_mult_eq_mod [symmetric])
  with ab show ?thesis by (simp add: cmod_def cdiv_neg)
qed

lemma cdiv_cmod: "cdiv a b * b + cmod a b = a"
  by (simp add: cmod_def)

text \<open>Conversion of an integer to \<^verbatim>\<open>int\<close> and to \<^verbatim>\<open>unsigned\<close>.\<close>

definition cast_int32 :: "int \<Rightarrow> int" where
  "cast_int32 x = (x + 2 ^ 31) mod 2 ^ 32 - 2 ^ 31"

definition cast_uint32 :: "int \<Rightarrow> int" where
  "cast_uint32 x = x mod 2 ^ 32"

definition cast_int64 :: "int \<Rightarrow> int" where
  "cast_int64 x = (x + 2 ^ 63) mod 2 ^ 64 - 2 ^ 63"

lemma cast_int32_id [simp]: "in_int32 x \<Longrightarrow> cast_int32 x = x"
  by (simp add: in_int32_def cast_int32_def)

lemma cast_int64_id [simp]: "in_int64 x \<Longrightarrow> cast_int64 x = x"
  by (simp add: in_int64_def cast_int64_def)

lemma cast_uint32_id [simp]: "0 \<le> x \<Longrightarrow> x < 2 ^ 32 \<Longrightarrow> cast_uint32 x = x"
  by (simp add: cast_uint32_def)

text \<open>\<^verbatim>\<open>size_t\<close> is 64 bits wide.\<close>

definition sz_add :: "nat \<Rightarrow> nat \<Rightarrow> nat" where
  "sz_add a b = (a + b) mod 2 ^ 64"

definition sz_sub :: "nat \<Rightarrow> nat \<Rightarrow> nat" where
  "sz_sub a b = (a + (2 ^ 64 - b mod 2 ^ 64)) mod 2 ^ 64"

lemma sz_add_small [simp]: "a + b < 18446744073709551616 \<Longrightarrow> sz_add a b = a + b"
  by (simp add: sz_add_def)

lemma sz_sub_small [simp]:
  assumes "b \<le> a" and "a < 18446744073709551616"
  shows "sz_sub a b = a - b"
proof -
  have "a + (2 ^ 64 - b mod 2 ^ 64) = (a - b) + 2 ^ 64"
    using assms by simp
  then have "sz_sub a b = ((a - b) + 2 ^ 64) mod 2 ^ 64"
    by (simp only: sz_sub_def)
  also have "\<dots> = a - b"
    using assms by (subst mod_add_self2) simp
  finally show ?thesis .
qed

section \<open>Standard algorithms on byte ranges\<close>

text \<open>
  \<open>find_char c s\<close> is the offset \<^verbatim>\<open>std::find\<close> returns in the range \<open>s\<close>, the length of the range
  standing for its end; \<open>search_seq p s\<close> is that of \<^verbatim>\<open>std::search\<close> for a non-empty pattern.
\<close>

definition find_char :: "char \<Rightarrow> string \<Rightarrow> nat" where
  "find_char c s = length (takeWhile (\<lambda>x. x \<noteq> c) s)"

fun starts_with :: "string \<Rightarrow> string \<Rightarrow> bool" where
  "starts_with s [] = True"
| "starts_with [] (p # ps) = False"
| "starts_with (x # xs) (p # ps) = (x = p \<and> starts_with xs ps)"

fun search_seq :: "string \<Rightarrow> string \<Rightarrow> nat" where
  "search_seq p [] = 0"
| "search_seq p (x # xs) = (if starts_with (x # xs) p then 0 else Suc (search_seq p xs))"

text \<open>
  \<^verbatim>\<open>std::copy(src, src + n, v.begin() + i)\<close> and \<^verbatim>\<open>memcpy\<close> into a vector: undefined unless the
  destination range lies inside the vector.
\<close>

definition vec_write :: "'a list \<Rightarrow> nat \<Rightarrow> 'a list \<Rightarrow> 'a list res" where
  "vec_write v i xs =
     (if i + length xs \<le> length v then Inr (take i v @ xs @ drop (i + length xs) v)
      else Inl Undefined)"

definition subrange :: "nat \<Rightarrow> nat \<Rightarrow> 'a list \<Rightarrow> 'a list" where
  "subrange i j xs = take (j - i) (drop i xs)"

lemma length_subrange [simp]: "length (subrange i j xs) = min (j - i) (length xs - i)"
  by (simp add: subrange_def min.commute)

lemma subrange_self [simp]: "subrange i i xs = []"
  by (simp add: subrange_def)

lemma subrange_all [simp]: "subrange 0 (length xs) xs = xs"
  by (simp add: subrange_def)

lemma subrange_append_split: "i \<le> j \<Longrightarrow> j \<le> k \<Longrightarrow> subrange i j xs @ subrange j k xs = subrange i k xs"
proof -
  assume "i \<le> j" "j \<le> k"
  then obtain a b where "j = i + a" "k = j + b"
    by (metis le_iff_add)
  then show ?thesis by (simp add: subrange_def take_add ac_simps)
qed

lemma subrange_drop: "n \<le> j - i \<Longrightarrow> subrange (i + n) j xs = drop n (subrange i j xs)"
  by (simp add: subrange_def drop_take add.commute diff_diff_left)

lemma subrange_take: "n \<le> j - i \<Longrightarrow> subrange i (i + n) xs = take n (subrange i j xs)"
  by (simp add: subrange_def min_def)

lemma vec_write_length: "vec_write v i xs = Inr v' \<Longrightarrow> length v' = length v"
  by (auto simp: vec_write_def split: if_splits)

lemma vec_write_ok [simp]:
  "i + length xs \<le> length v \<Longrightarrow>
     vec_write v i xs = Inr (take i v @ xs @ drop (i + length xs) v)"
  by (simp add: vec_write_def)

lemma subrange_written:
  "i + length xs \<le> length v \<Longrightarrow>
     subrange i (i + length xs) (take i v @ xs @ drop (i + length xs) v) = xs"
  by (simp add: subrange_def)

lemma subrange_alt: "subrange i j xs = drop i (take j xs)"
  by (simp add: subrange_def drop_take)

lemma subrange_before_written:
  "j \<le> i \<Longrightarrow> i \<le> length v \<Longrightarrow> subrange k j (take i v @ ys) = subrange k j v"
  by (simp add: subrange_alt min_def)

lemma find_char_Nil [simp]: "find_char c [] = 0"
  by (simp add: find_char_def)

lemma find_char_Cons [simp]: "find_char c (x # xs) = (if x = c then 0 else Suc (find_char c xs))"
  by (simp add: find_char_def)

lemma find_char_le: "find_char c s \<le> length s"
  by (induction s) auto

lemma find_char_absent: "find_char c s = length s \<longleftrightarrow> c \<notin> set s"
  by (induction s) auto

lemma find_char_append: "c \<notin> set xs \<Longrightarrow> find_char c (xs @ c # ys) = length xs"
  by (induction xs) auto

lemma find_char_append_absent:
  "c \<notin> set xs \<Longrightarrow> find_char c (xs @ ys) = length xs + find_char c ys"
  by (induction xs) auto

lemma find_char_nth: "find_char c s < length s \<Longrightarrow> s ! find_char c s = c"
  by (induction s) (auto split: if_splits)

lemma find_char_take: "c \<notin> set (take (find_char c s) s)"
  by (induction s) auto

lemma starts_with_iff: "starts_with s p \<longleftrightarrow> (\<exists>t. s = p @ t)"
  by (induction s p rule: starts_with.induct) auto

lemma starts_with_append: "starts_with s p \<Longrightarrow> starts_with (s @ t) p"
  by (auto simp: starts_with_iff)

lemma starts_with_prefix: "length p \<le> length s \<Longrightarrow> starts_with (s @ t) p = starts_with s p"
  by (induction s p rule: starts_with.induct) auto

lemma search_seq_le: "search_seq p s \<le> length s"
  by (induction s) auto

lemma search_seq_found:
  "search_seq p s < length s \<Longrightarrow> starts_with (drop (search_seq p s) s) p"
  by (induction s) (auto split: if_splits)

lemma search_seq_before:
  "i < search_seq p s \<Longrightarrow> \<not> starts_with (drop i s) p"
proof (induction s arbitrary: i)
  case Nil
  then show ?case by simp
next
  case (Cons x xs)
  then show ?case by (cases i) (auto split: if_splits)
qed

lemma search_seq_found_append:
  "search_seq p s < length s \<Longrightarrow> search_seq p (s @ t) = search_seq p s"
proof (induction s)
  case Nil
  then show ?case by simp
next
  case (Cons x xs)
  show ?case
  proof (cases "starts_with (x # xs) p")
    case True
    then show ?thesis using starts_with_append [OF True, of t] by simp
  next
    case False
    with Cons.prems have less: "search_seq p xs < length xs" by (simp split: if_splits)
    from search_seq_found [OF less] have "length p \<le> length (drop (search_seq p xs) xs)"
      by (auto simp: starts_with_iff simp del: length_drop)
    then have "length p \<le> length (x # xs)" by simp
    with False have "\<not> starts_with (x # xs @ t) p"
      using starts_with_prefix [of p "x # xs" t] by simp
    with Cons.IH less False show ?thesis by simp
  qed
qed

lemma search_seq_room:
  assumes "search_seq p s < length s"
  shows "search_seq p s + length p \<le> length s"
proof -
  from search_seq_found [OF assms] obtain t where "drop (search_seq p s) s = p @ t"
    by (auto simp: starts_with_iff)
  then have "length s - search_seq p s = length p + length t"
    by (metis length_append length_drop)
  with assms show ?thesis by simp
qed

section \<open>Decimal output\<close>

text \<open>
  The conversions of \<^verbatim>\<open>snprintf\<close> the sources use: \<^verbatim>\<open>%d\<close> with optional zero or blank padding,
  and the truncation to the size of the destination.
\<close>

definition digit_char :: "nat \<Rightarrow> char" where
  "digit_char d = char_of (48 + d)"

fun dec_nat :: "nat \<Rightarrow> string" where
  "dec_nat n = (if n < 10 then [digit_char n] else dec_nat (n div 10) @ [digit_char (n mod 10)])"

declare dec_nat.simps [simp del]

definition dec_int :: "int \<Rightarrow> string" where
  "dec_int i = (if i < 0 then CHR ''-'' # dec_nat (nat (- i)) else dec_nat (nat i))"

definition dec_zero_pad :: "nat \<Rightarrow> int \<Rightarrow> string" where
  "dec_zero_pad w i =
     (let ds = dec_nat (nat \<bar>i\<bar>); sign = (if i < 0 then ''-'' else [])
      in sign @ replicate (w - length sign - length ds) (CHR ''0'') @ ds)"

definition dec_blank_pad :: "nat \<Rightarrow> int \<Rightarrow> string" where
  "dec_blank_pad w i = replicate (w - length (dec_int i)) (CHR '' '') @ dec_int i"

definition snprintf_buf :: "nat \<Rightarrow> string \<Rightarrow> string" where
  "snprintf_buf n s = take (n - 1) s"

definition digit_val :: "char \<Rightarrow> nat" where
  "digit_val c = of_char c - 48"

definition dec_value :: "string \<Rightarrow> nat" where
  "dec_value s = foldl (\<lambda>a c. 10 * a + digit_val c) 0 s"

lemma digit_chars:
  "digit_char 0 = CHR ''0''" "digit_char (Suc 0) = CHR ''1''" "digit_char 1 = CHR ''1''"
  "digit_char 2 = CHR ''2''" "digit_char 3 = CHR ''3''" "digit_char 4 = CHR ''4''"
  "digit_char 5 = CHR ''5''" "digit_char 6 = CHR ''6''" "digit_char 7 = CHR ''7''"
  "digit_char 8 = CHR ''8''" "digit_char 9 = CHR ''9''"
  by code_simp+

lemma digit_val_char [simp]: "d < 10 \<Longrightarrow> digit_val (digit_char d) = d"
  by (simp add: digit_val_def digit_char_def)

lemma dec_value_snoc [simp]: "dec_value (s @ [c]) = 10 * dec_value s + digit_val c"
  by (simp add: dec_value_def)

lemma dec_value_dec_nat [simp]: "dec_value (dec_nat n) = n"
proof (induction n rule: dec_nat.induct)
  case (1 n)
  show ?case
  proof (cases "n < 10")
    case True
    then show ?thesis
      by (simp add: dec_nat.simps [of n] dec_value_def)
  next
    case False
    with 1 show ?thesis by (simp add: dec_nat.simps [of n])
  qed
qed

lemma dec_nat_inj: "dec_nat m = dec_nat n \<Longrightarrow> m = n"
  by (metis dec_value_dec_nat)

lemma dec_nat_nonempty [simp]: "dec_nat n \<noteq> []"
  by (subst dec_nat.simps) simp

lemma length_dec_nat: "n < 10 ^ k \<Longrightarrow> 0 < k \<Longrightarrow> length (dec_nat n) \<le> k"
proof (induction k arbitrary: n)
  case 0
  then show ?case by simp
next
  case (Suc k)
  show ?case
  proof (cases "n < 10")
    case True
    then show ?thesis by (subst dec_nat.simps) simp
  next
    case False
    with Suc.prems have k: "0 < k"
      by (cases k) auto
    from Suc.prems have "n div 10 < 10 ^ k"
      by (simp add: less_mult_imp_div_less mult.commute)
    from Suc.IH [OF this k] False show ?thesis by (subst dec_nat.simps) simp
  qed
qed

lemma length_zero_pad:
  assumes "0 \<le> i" "i < 10 ^ w" "0 < w"
  shows "length (dec_zero_pad w i) = w"
proof -
  have "nat i < 10 ^ w" using assms(1,2) by (simp add: nat_less_iff)
  then have "length (dec_nat (nat i)) \<le> w" using assms(3) by (rule length_dec_nat)
  then show ?thesis using assms(1) by (simp add: dec_zero_pad_def Let_def)
qed

lemma dec_nat_digits: "c \<in> set (dec_nat n) \<Longrightarrow> \<exists>d<10. c = digit_char d"
proof (induction n rule: dec_nat.induct)
  case (1 n)
  show ?case
  proof (cases "n < 10")
    case True
    with 1 show ?thesis by (subst (asm) dec_nat.simps) auto
  next
    case False
    with "1.prems" have "c \<in> set (dec_nat (n div 10)) \<or> c = digit_char (n mod 10)"
      by (subst (asm) dec_nat.simps) auto
    with 1 False show ?thesis
      by (metis mod_less_divisor zero_less_numeral)
  qed
qed

section \<open>Ordered associative containers\<close>

text \<open>
  \<^verbatim>\<open>std::map\<close> as the list of its entries in key order: what iteration visits, and what
  \<^verbatim>\<open>operator[]=\<close>, \<^verbatim>\<open>find\<close> and \<^verbatim>\<open>erase\<close> do.
\<close>

type_synonym ('k, 'v) omap = "('k \<times> 'v) list"

fun om_update :: "'k::linorder \<Rightarrow> 'v \<Rightarrow> ('k, 'v) omap \<Rightarrow> ('k, 'v) omap" where
  "om_update k v [] = [(k, v)]"
| "om_update k v ((k', v') # m) =
     (if k < k' then (k, v) # (k', v') # m
      else if k = k' then (k, v) # m
      else (k', v') # om_update k v m)"

definition om_lookup :: "('k, 'v) omap \<Rightarrow> 'k \<Rightarrow> 'v option" where
  "om_lookup m k = map_of m k"

definition om_erase :: "'k \<Rightarrow> ('k, 'v) omap \<Rightarrow> ('k, 'v) omap" where
  "om_erase k m = filter (\<lambda>e. fst e \<noteq> k) m"

definition om_wf :: "('k::linorder, 'v) omap \<Rightarrow> bool" where
  "om_wf m \<longleftrightarrow> sorted_wrt (<) (map fst m)"

lemma set_om_update_keys: "set (map fst (om_update k v m)) = insert k (set (map fst m))"
  by (induction k v m rule: om_update.induct) auto

lemma om_wf_update: "om_wf m \<Longrightarrow> om_wf (om_update k v m)"
proof (induction k v m rule: om_update.induct)
  case (1 k v)
  then show ?case by (simp add: om_wf_def)
next
  case (2 k v k' v' m)
  then show ?case
    using set_om_update_keys [of k v m] by (fastforce simp: om_wf_def)
qed

lemma om_wf_erase: "om_wf m \<Longrightarrow> om_wf (om_erase k m)"
  unfolding om_wf_def om_erase_def
  by (induction m) auto

lemma om_lookup_update: "om_lookup (om_update k v m) = (om_lookup m)(k \<mapsto> v)"
  by (induction k v m rule: om_update.induct) (auto simp: om_lookup_def fun_eq_iff)

lemma om_lookup_erase: "om_lookup (om_erase k m) = (om_lookup m)(k := None)"
  by (induction m) (auto simp: om_lookup_def om_erase_def fun_eq_iff)

lemma om_lookup_Nil [simp]: "om_lookup [] k = None"
  by (simp add: om_lookup_def)

lemma om_wf_Nil [simp]: "om_wf []"
  by (simp add: om_wf_def)

text \<open>
  The contract of an associative container that the clients of \<^verbatim>\<open>std::map\<close> rely on, and its
  instance on the sorted entry list.
\<close>

locale assoc_container =
  fixes empty :: "'m"
    and update :: "'k \<Rightarrow> 'v \<Rightarrow> 'm \<Rightarrow> 'm"
    and erase :: "'k \<Rightarrow> 'm \<Rightarrow> 'm"
    and lookup :: "'m \<Rightarrow> 'k \<Rightarrow> 'v option"
    and wf :: "'m \<Rightarrow> bool"
  assumes wf_empty: "wf empty"
    and wf_update: "wf m \<Longrightarrow> wf (update k v m)"
    and wf_erase: "wf m \<Longrightarrow> wf (erase k m)"
    and lookup_empty: "lookup empty k = None"
    and lookup_update: "wf m \<Longrightarrow> lookup (update k v m) = (lookup m)(k \<mapsto> v)"
    and lookup_erase: "wf m \<Longrightarrow> lookup (erase k m) = (lookup m)(k := None)"
begin

lemma wf_foldr_update: "wf m \<Longrightarrow> wf (fold (\<lambda>(k, v). update k v) kvs m)"
  by (induction kvs arbitrary: m) (auto simp: wf_update)

lemma lookup_fold_update:
  "wf m \<Longrightarrow> lookup (fold (\<lambda>(k, v). update k v) kvs m) = lookup m ++ map_of (rev kvs)"
  by (induction kvs arbitrary: m) (auto simp: wf_update lookup_update)

end

interpretation om: assoc_container "[]" om_update om_erase om_lookup om_wf
  by unfold_locales
     (auto simp: om_wf_update om_wf_erase om_lookup_update om_lookup_erase)

section \<open>Systems of events\<close>

text \<open>
  The objects driven by a loop are systems of events: an initial state, the events that may happen in a state, and
  the outcome of each. The contract \<open>event_system\<close> is an invariant that every event keeps, with the faults
  that an event may end in.
\<close>

inductive reach :: "'s set \<Rightarrow> ('e \<Rightarrow> 's \<Rightarrow> bool) \<Rightarrow> ('e \<Rightarrow> 's \<Rightarrow> 's res) \<Rightarrow> 's \<Rightarrow> bool"
  for init enabled step where
  reach_init: "s \<in> init \<Longrightarrow> reach init enabled step s"
| reach_step: "reach init enabled step s \<Longrightarrow> enabled e s \<Longrightarrow> step e s = Inr s' \<Longrightarrow> reach init enabled step s'"

locale event_system =
  fixes enabled :: "'e \<Rightarrow> 's \<Rightarrow> bool"
    and step :: "'e \<Rightarrow> 's \<Rightarrow> 's res"
    and inv :: "'s \<Rightarrow> bool"
    and faults :: "fault set"
  assumes step_inv: "inv s \<Longrightarrow> enabled e s \<Longrightarrow> step e s = Inr s' \<Longrightarrow> inv s'"
    and step_faults: "inv s \<Longrightarrow> enabled e s \<Longrightarrow> step e s = Inl f \<Longrightarrow> f \<in> faults"
begin

lemma reach_inv: "reach init enabled step s \<Longrightarrow> (\<And>s. s \<in> init \<Longrightarrow> inv s) \<Longrightarrow> inv s"
  by (induction rule: reach.induct) (auto intro: step_inv)

lemma inv_steps:
  assumes "inv s" "enabled e s"
  shows "(\<exists>s'. step e s = Inr s' \<and> inv s') \<or> (\<exists>f\<in>faults. step e s = Inl f)"
  using assms by (cases "step e s") (auto intro: step_inv step_faults)

end

end
