(* ===== verification/String_Piece.thy ===== *)
theory String_Piece
  imports Prelude
begin

text \<open>
  \<^verbatim>\<open>utility/StringPiece.h\<close>: a pointer and an \<^verbatim>\<open>int\<close> length into memory owned by somebody else.
  The record holds the bytes readable from the pointer on and the length field, which the code
  keeps as a 32-bit signed integer and may differ from the number of readable bytes.
  The comparison operators go through \<^verbatim>\<open>memcmp\<close>; they are shown to be the lexicographic order on
  the bytes of the two pieces, and \<^verbatim>\<open>compare\<close> to be consistent with them.
\<close>

record StringPiece =
  sp_ptr :: string
  sp_length :: int

text \<open>\<^verbatim>\<open>static_cast<int>(size_t)\<close> keeps the low 32 bits; \<^verbatim>\<open>static_cast<size_t>(int)\<close> sign-extends.\<close>

definition int32_of_size :: "nat \<Rightarrow> int" where
  "int32_of_size n = (let m = int n mod 2 ^ 32 in if m < 2 ^ 31 then m else m - 2 ^ 32)"

definition size_of_int32 :: "int \<Rightarrow> nat" where
  "size_of_int32 i = nat (i mod 2 ^ 64)"

definition StringPiece_of_string :: "string \<Rightarrow> StringPiece" where
  "StringPiece_of_string s = \<lparr>sp_ptr = s, sp_length = int32_of_size (length s)\<rparr>"

definition StringPiece_of_range :: "string \<Rightarrow> int \<Rightarrow> StringPiece" where
  "StringPiece_of_range mem len = \<lparr>sp_ptr = mem, sp_length = len\<rparr>"

definition StringPiece_empty :: "StringPiece \<Rightarrow> bool" where
  "StringPiece_empty p \<longleftrightarrow> sp_length p = 0"

definition StringPiece_clear :: "StringPiece \<Rightarrow> StringPiece" where
  "StringPiece_clear p = \<lparr>sp_ptr = [], sp_length = 0\<rparr>"

definition StringPiece_remove_prefix :: "int \<Rightarrow> StringPiece \<Rightarrow> StringPiece" where
  "StringPiece_remove_prefix n p =
     \<lparr>sp_ptr = drop (nat n) (sp_ptr p), sp_length = sp_length p - n\<rparr>"

definition StringPiece_remove_suffix :: "int \<Rightarrow> StringPiece \<Rightarrow> StringPiece" where
  "StringPiece_remove_suffix n p = p\<lparr>sp_length := sp_length p - n\<rparr>"

definition as_string :: "StringPiece \<Rightarrow> string" where
  "as_string p = take (nat (sp_length p)) (sp_ptr p)"

text \<open>\<^verbatim>\<open>memcmp\<close> compares bytes as unsigned values; only the sign of its result is specified.\<close>

fun memcmp :: "string \<Rightarrow> string \<Rightarrow> nat \<Rightarrow> int" where
  "memcmp (x # xs) (y # ys) (Suc n) =
     (if x < y then - 1 else if y < x then 1 else memcmp xs ys n)"
| "memcmp xs ys n = 0"

definition min_len :: "StringPiece \<Rightarrow> StringPiece \<Rightarrow> int" where
  "min_len a b = (if sp_length a < sp_length b then sp_length a else sp_length b)"

definition StringPiece_eq :: "StringPiece \<Rightarrow> StringPiece \<Rightarrow> bool" where
  "StringPiece_eq a b \<longleftrightarrow>
     sp_length a = sp_length b \<and> memcmp (sp_ptr a) (sp_ptr b) (nat (sp_length a)) = 0"

definition StringPiece_less :: "StringPiece \<Rightarrow> StringPiece \<Rightarrow> bool" where
  "StringPiece_less a b \<longleftrightarrow>
     (let r = memcmp (sp_ptr a) (sp_ptr b) (nat (min_len a b))
      in r < 0 \<or> r = 0 \<and> sp_length a < sp_length b)"

definition StringPiece_less_eq :: "StringPiece \<Rightarrow> StringPiece \<Rightarrow> bool" where
  "StringPiece_less_eq a b \<longleftrightarrow>
     (let r = memcmp (sp_ptr a) (sp_ptr b) (nat (min_len a b))
      in r < 0 \<or> r = 0 \<and> sp_length a \<le> sp_length b)"

definition StringPiece_compare :: "StringPiece \<Rightarrow> StringPiece \<Rightarrow> int" where
  "StringPiece_compare a b =
     (let r = memcmp (sp_ptr a) (sp_ptr b) (nat (min_len a b))
      in if r = 0 then if sp_length a < sp_length b then - 1
                       else if sp_length a > sp_length b then 1 else 0
         else r)"

definition StringPiece_starts_with :: "StringPiece \<Rightarrow> StringPiece \<Rightarrow> bool" where
  "StringPiece_starts_with a x \<longleftrightarrow>
     sp_length a \<ge> sp_length x \<and> memcmp (sp_ptr a) (sp_ptr x) (nat (sp_length x)) = 0"

text \<open>A piece is well-formed when its length is non-negative and within the memory it points to.\<close>

definition sp_wf :: "StringPiece \<Rightarrow> bool" where
  "sp_wf p \<longleftrightarrow> 0 \<le> sp_length p \<and> nat (sp_length p) \<le> length (sp_ptr p)"

section \<open>Lemmas\<close>

lemma int32_of_size_small [simp]: "n < 2147483648 \<Longrightarrow> int32_of_size n = int n"
  by (simp add: int32_of_size_def)

lemma size_of_int32_small [simp]: "n < 2147483648 \<Longrightarrow> size_of_int32 (int n) = n"
  by (simp add: size_of_int32_def flip: of_nat_mod)

lemma sp_wf_of_string: "length s < 2 ^ 31 \<Longrightarrow> sp_wf (StringPiece_of_string s)"
  by (simp add: sp_wf_def StringPiece_of_string_def)

lemma as_string_of_string [simp]: "length s < 2 ^ 31 \<Longrightarrow> as_string (StringPiece_of_string s) = s"
  by (simp add: as_string_def StringPiece_of_string_def)

lemma length_as_string: "sp_wf p \<Longrightarrow> int (length (as_string p)) = sp_length p"
  by (simp add: sp_wf_def as_string_def)

lemma memcmp_take: "memcmp (take n xs) (take n ys) n = memcmp xs ys n"
  by (induction xs ys n rule: memcmp.induct) auto

text \<open>The three outcomes of \<^verbatim>\<open>memcmp\<close> followed by the length comparison, on lists.\<close>

definition len_cmp :: "string \<Rightarrow> string \<Rightarrow> int" where
  "len_cmp xs ys = (if length xs < length ys then - 1 else if length ys < length xs then 1 else 0)"

definition lex_cmp :: "string \<Rightarrow> string \<Rightarrow> int" where
  "lex_cmp xs ys =
     (let r = memcmp xs ys (min (length xs) (length ys)) in if r = 0 then len_cmp xs ys else r)"

lemma lex_cmp_simps [simp]:
  "lex_cmp [] [] = 0" "lex_cmp [] (y # ys) = - 1" "lex_cmp (x # xs) [] = 1"
  "lex_cmp (x # xs) (y # ys) = (if x < y then - 1 else if y < x then 1 else lex_cmp xs ys)"
  by (auto simp: lex_cmp_def len_cmp_def Let_def)

lemma lex_cmp_order:
  "lex_cmp xs ys = (if xs < ys then - 1 else if ys < xs then 1 else 0)"
  by (induction xs ys rule: list_induct2') auto

lemma memcmp_lex:
  assumes "sp_wf a" "sp_wf b"
  shows "memcmp (sp_ptr a) (sp_ptr b) (nat (min_len a b)) =
    memcmp (as_string a) (as_string b) (min (length (as_string a)) (length (as_string b)))"
proof -
  let ?n = "nat (min_len a b)"
  have n: "?n = min (length (as_string a)) (length (as_string b))"
    using length_as_string [OF assms(1)] length_as_string [OF assms(2)]
    by (auto simp: min_len_def min_def)
  have "take ?n (as_string a) = take ?n (sp_ptr a)" "take ?n (as_string b) = take ?n (sp_ptr b)"
    by (auto simp: as_string_def min_len_def min_def)
  then have "memcmp (as_string a) (as_string b) ?n = memcmp (sp_ptr a) (sp_ptr b) ?n"
    by (metis memcmp_take)
  then show ?thesis using n by simp
qed

lemma compare_lex:
  assumes "sp_wf a" "sp_wf b"
  shows "StringPiece_compare a b = lex_cmp (as_string a) (as_string b)"
  using memcmp_lex [OF assms] length_as_string [OF assms(1)] length_as_string [OF assms(2)]
  by (simp add: StringPiece_compare_def lex_cmp_def len_cmp_def Let_def)

lemma less_compare: "StringPiece_less a b \<longleftrightarrow> StringPiece_compare a b < 0"
  by (simp add: StringPiece_less_def StringPiece_compare_def Let_def)

lemma less_eq_compare: "StringPiece_less_eq a b \<longleftrightarrow> StringPiece_compare a b \<le> 0"
  by (auto simp: StringPiece_less_eq_def StringPiece_compare_def Let_def)

lemma eq_compare: "StringPiece_eq a b \<longleftrightarrow> StringPiece_compare a b = 0"
  by (auto simp: StringPiece_eq_def StringPiece_compare_def Let_def min_len_def)

lemma memcmp_eq_0_iff:
  "n \<le> length xs \<Longrightarrow> n \<le> length ys \<Longrightarrow> memcmp xs ys n = 0 \<longleftrightarrow> take n xs = take n ys"
  by (induction xs ys n rule: memcmp.induct) auto

lemma starts_with_prefix_piece:
  assumes "sp_wf a" "sp_wf x"
  shows "StringPiece_starts_with a x \<longleftrightarrow> starts_with (as_string a) (as_string x)"
proof
  assume h: "StringPiece_starts_with a x"
  then have le: "nat (sp_length x) \<le> nat (sp_length a)"
    by (intro nat_mono) (simp add: StringPiece_starts_with_def)
  moreover have "take (nat (sp_length x)) (sp_ptr a) = take (nat (sp_length x)) (sp_ptr x)"
    using h assms le memcmp_eq_0_iff [of "nat (sp_length x)" "sp_ptr a" "sp_ptr x"]
    by (simp add: sp_wf_def StringPiece_starts_with_def)
  ultimately have "take (nat (sp_length x)) (as_string a) = as_string x"
    by (simp add: as_string_def min_def)
  then show "starts_with (as_string a) (as_string x)"
    unfolding starts_with_iff by (metis append_take_drop_id)
next
  assume "starts_with (as_string a) (as_string x)"
  then obtain t where t: "as_string a = as_string x @ t"
    by (auto simp: starts_with_iff)
  have le: "sp_length x \<le> sp_length a"
    using length_as_string [OF assms(1)] length_as_string [OF assms(2)] t by simp
  have "length (as_string x) = nat (sp_length x)"
    using length_as_string [OF assms(2)] by simp
  with t have "take (nat (sp_length x)) (as_string a) = as_string x"
    by simp
  then have "take (nat (sp_length x)) (sp_ptr a) = take (nat (sp_length x)) (sp_ptr x)"
    using nat_mono [OF le] by (simp add: as_string_def min_def)
  then show "StringPiece_starts_with a x"
    using assms le memcmp_eq_0_iff [of "nat (sp_length x)" "sp_ptr a" "sp_ptr x"]
    by (auto simp: sp_wf_def StringPiece_starts_with_def)
qed

section \<open>Properties\<close>

text \<open>
  The comparison operators of \<^verbatim>\<open>StringPiece\<close> are the lexicographic order on the strings the
  pieces denote, with bytes compared unsigned; \<^verbatim>\<open>starts_with\<close> is the prefix test.
\<close>

lemma StringPiece_order:
  assumes "sp_wf a" "sp_wf b"
  shows "StringPiece_eq a b = (as_string a = as_string b) \<and>
    StringPiece_less a b = (as_string a < as_string b) \<and>
    StringPiece_less_eq a b = (as_string a \<le> as_string b) \<and>
    StringPiece_compare a b = (if as_string a < as_string b then - 1
       else if as_string b < as_string a then 1 else 0) \<and>
    StringPiece_starts_with a b = (\<exists>t. as_string a = as_string b @ t)"
  using assms
  by (auto simp: eq_compare less_compare less_eq_compare compare_lex lex_cmp_order
      starts_with_prefix_piece starts_with_iff not_less split: if_splits)

end
