(* ===== verification/Endian.thy ===== *)
theory Endian
  imports Prelude
begin

text \<open>
  \<^verbatim>\<open>networking/Endian.h\<close> and the object representation of integers. Integers are words of their width.
\<close>

text \<open>
  The object representation of an integer on the little-endian hosts the build targets
  (x86-64), and \<^verbatim>\<open>htobe16/32/64\<close> and \<^verbatim>\<open>be16/32/64toh\<close>, which reverse its bytes.
\<close>

primrec bytes_of_nat :: "nat \<Rightarrow> nat \<Rightarrow> string" where
  "bytes_of_nat 0 x = []"
| "bytes_of_nat (Suc n) x = char_of (x mod 256) # bytes_of_nat n (x div 256)"

primrec nat_of_bytes :: "string \<Rightarrow> nat" where
  "nat_of_bytes [] = 0"
| "nat_of_bytes (c # cs) = of_char c + 256 * nat_of_bytes cs"

definition mem_of_word :: "'a::len word \<Rightarrow> string" where
  "mem_of_word w = bytes_of_nat (LENGTH('a) div 8) (unat w)"

definition word_of_mem :: "string \<Rightarrow> 'a::len word" where
  "word_of_mem s = word_of_nat (nat_of_bytes s)"

definition hostToNetwork64 :: "64 word \<Rightarrow> 64 word" where
  "hostToNetwork64 host = word_of_mem (rev (mem_of_word host))"

definition hostToNetwork32 :: "32 word \<Rightarrow> 32 word" where
  "hostToNetwork32 host = word_of_mem (rev (mem_of_word host))"

definition hostToNetwork16 :: "16 word \<Rightarrow> 16 word" where
  "hostToNetwork16 host = word_of_mem (rev (mem_of_word host))"

definition networkToHost64 :: "64 word \<Rightarrow> 64 word" where
  "networkToHost64 net = word_of_mem (rev (mem_of_word net))"

definition networkToHost32 :: "32 word \<Rightarrow> 32 word" where
  "networkToHost32 net = word_of_mem (rev (mem_of_word net))"

definition networkToHost16 :: "16 word \<Rightarrow> 16 word" where
  "networkToHost16 net = word_of_mem (rev (mem_of_word net))"

lemma length_bytes_of_nat [simp]: "length (bytes_of_nat n x) = n"
  by (induction n arbitrary: x) auto

lemma nat_of_bytes_of_nat: "nat_of_bytes (bytes_of_nat n x) = x mod 256 ^ n"
proof (induction n arbitrary: x)
  case 0
  then show ?case by simp
next
  case (Suc n)
  have "x mod (256 * 256 ^ n) = 256 * (x div 256 mod 256 ^ n) + x mod 256"
    by (rule mod_mult2_eq)
  with Suc show ?case by simp
qed

lemma nat_of_bytes_less: "nat_of_bytes s < 256 ^ length s"
proof (induction s)
  case Nil
  then show ?case by simp
next
  case (Cons c s)
  have "(of_char c :: nat) < 256" by (rule nat_of_char_less_256)
  moreover have "256 * nat_of_bytes s + 256 \<le> 256 * 256 ^ length s"
    using Cons by linarith
  ultimately show ?case by (simp only: nat_of_bytes.simps length_Cons power_Suc)
qed

lemma bytes_of_nat_of_bytes: "bytes_of_nat (length s) (nat_of_bytes s) = s"
proof (induction s)
  case Nil
  then show ?case by simp
next
  case (Cons c s)
  have lt: "(of_char c :: nat) < 256" by (rule nat_of_char_less_256)
  have "char_of ((of_char c :: nat) mod 256) = c" using lt by simp
  moreover have "(of_char c + 256 * nat_of_bytes s) div 256 = nat_of_bytes s"
    using lt by simp
  moreover have "(of_char c + 256 * nat_of_bytes s) mod 256 = (of_char c :: nat) mod 256"
    by simp
  ultimately show ?case using Cons by simp
qed

lemma power_256_width:
  assumes "8 dvd n"
  shows "(256::nat) ^ (n div 8) = 2 ^ n"
proof -
  have "(256::nat) ^ (n div 8) = (2 ^ 8) ^ (n div 8)" by simp
  also have "\<dots> = 2 ^ (8 * (n div 8))" by (rule power_mult [symmetric])
  also have "8 * (n div 8) = n" using assms by simp
  finally show ?thesis .
qed

lemma word_of_mem_of_word:
  assumes "8 dvd LENGTH('a::len)"
  shows "word_of_mem (mem_of_word (w :: 'a word)) = w"
proof -
  from power_256_width [OF assms] show ?thesis
    by (simp add: word_of_mem_def mem_of_word_def nat_of_bytes_of_nat)
qed

lemma mem_of_word_of_mem:
  assumes "8 dvd LENGTH('a::len)" "length s = LENGTH('a) div 8"
  shows "mem_of_word (word_of_mem s :: 'a word) = s"
proof -
  have "nat_of_bytes s < 2 ^ LENGTH('a)"
    using nat_of_bytes_less [of s] assms(2) power_256_width [OF assms(1)] by simp
  then have "unat (word_of_nat (nat_of_bytes s) :: 'a word) = nat_of_bytes s"
    by (simp add: unat_of_nat)
  then show ?thesis
    using bytes_of_nat_of_bytes [of s] assms(2) by (simp add: mem_of_word_def word_of_mem_def)
qed

lemma length_mem_of_word [simp]: "length (mem_of_word (w :: 'a::len word)) = LENGTH('a) div 8"
  by (simp add: mem_of_word_def)

text \<open>The bytes on the wire: most significant first.\<close>

definition be_bytes :: "'a::len word \<Rightarrow> string" where
  "be_bytes w = rev (mem_of_word w)"

lemma mem_hostToNetwork:
  "mem_of_word (hostToNetwork64 x) = be_bytes x"
  "mem_of_word (hostToNetwork32 y) = be_bytes y"
  "mem_of_word (hostToNetwork16 z) = be_bytes z"
  by (simp_all add: hostToNetwork64_def hostToNetwork32_def hostToNetwork16_def be_bytes_def
      mem_of_word_of_mem)

lemma networkToHost_be_bytes:
  "networkToHost64 (word_of_mem (be_bytes x)) = x"
  "networkToHost32 (word_of_mem (be_bytes y)) = y"
  "networkToHost16 (word_of_mem (be_bytes z)) = z"
  by (simp_all add: networkToHost64_def networkToHost32_def networkToHost16_def be_bytes_def
      mem_of_word_of_mem word_of_mem_of_word)

lemma length_be_bytes [simp]: "length (be_bytes (w :: 'a::len word)) = LENGTH('a) div 8"
  by (simp add: be_bytes_def)

end
