(* ===== verification/Buffer.thy ===== *)
theory Buffer
  imports String_Piece Endian
begin

text \<open>
  \<^verbatim>\<open>networking/Buffer.h\<close> and \<^verbatim>\<open>networking/Buffer.cpp\<close>: the byte buffer under
  every connection. The record has the three fields of the class; every member function is one
  definition. An \<^verbatim>\<open>assert\<close> of the source is a \<open>require\<close>, \<^verbatim>\<open>size_t\<close> arithmetic wraps at 64 bits,
  \<^verbatim>\<open>std::vector::resize\<close> throws \<open>Length_error\<close> beyond \<^verbatim>\<open>max_size()\<close>, and a copy outside the vector
  is \<open>Undefined\<close>. Pointers into the vector are indices. Allocation failure is not modelled.

  The abstraction \<open>content\<close> is the string of readable bytes. The locale \<open>byte_queue\<close> states what the
  clients of a buffer rely on; its interpretation on the model carries their proofs.
\<close>

section \<open>The class\<close>

definition kCheapPrepend :: nat where
  "kCheapPrepend = 8"

definition kInitialSize :: nat where
  "kInitialSize = 1024"

definition kCRLF :: string where
  "kCRLF = [CHR 0x0D, CHR 0x0A]"

record Buffer =
  buffer :: string
  readerIndex :: nat
  writerIndex :: nat

text \<open>\<^verbatim>\<open>std::vector<char>\<close>: \<^verbatim>\<open>max_size()\<close> and \<^verbatim>\<open>resize\<close>, which fills new elements with zero bytes.\<close>

definition max_size :: nat where
  "max_size = 2 ^ 63 - 1"

definition vec_resize :: "string \<Rightarrow> nat \<Rightarrow> string res" where
  "vec_resize v n =
     (if n > max_size then Inl Length_error
      else Inr (take n v @ replicate (n - length v) (CHR 0x00)))"

definition readableBytes :: "Buffer \<Rightarrow> nat" where
  "readableBytes b = sz_sub (writerIndex b) (readerIndex b)"

definition writableBytes :: "Buffer \<Rightarrow> nat" where
  "writableBytes b = sz_sub (length (buffer b)) (writerIndex b)"

definition prependableBytes :: "Buffer \<Rightarrow> nat" where
  "prependableBytes b = readerIndex b"

definition Buffer_new :: "nat \<Rightarrow> Buffer res" where
  "Buffer_new initialSize =
     rbind (vec_resize [] (sz_add kCheapPrepend initialSize)) (\<lambda>d.
       let b = \<lparr>buffer = d, readerIndex = kCheapPrepend, writerIndex = kCheapPrepend\<rparr>
       in require (readableBytes b = 0)
           (require (writableBytes b = initialSize)
             (require (prependableBytes b = kCheapPrepend) (Inr b))))"

definition Buffer_swap :: "Buffer \<Rightarrow> Buffer \<Rightarrow> Buffer \<times> Buffer" where
  "Buffer_swap a b =
     (\<lparr>buffer = buffer b, readerIndex = readerIndex b, writerIndex = writerIndex b\<rparr>,
      \<lparr>buffer = buffer a, readerIndex = readerIndex a, writerIndex = writerIndex a\<rparr>)"

text \<open>The bytes from \<^verbatim>\<open>peek()\<close> up to \<^verbatim>\<open>beginWrite()\<close>: the abstract value of the buffer.\<close>

definition content :: "Buffer \<Rightarrow> string" where
  "content b = subrange (readerIndex b) (writerIndex b) (buffer b)"

definition beginWrite :: "Buffer \<Rightarrow> nat" where
  "beginWrite b = writerIndex b"

definition peek :: "Buffer \<Rightarrow> nat" where
  "peek b = readerIndex b"

text \<open>The searches return an index into the vector, \<^verbatim>\<open>nullptr\<close> being \<^term>\<open>None\<close>.\<close>

definition findCRLF_from :: "nat \<Rightarrow> Buffer \<Rightarrow> nat option res" where
  "findCRLF_from start b =
     require (peek b \<le> start) (require (start \<le> beginWrite b)
       (let crlf = start + search_seq kCRLF (subrange start (beginWrite b) (buffer b))
        in Inr (if crlf = beginWrite b then None else Some crlf)))"

definition findCRLF :: "Buffer \<Rightarrow> nat option" where
  "findCRLF b =
     (let crlf = peek b + search_seq kCRLF (content b)
      in if crlf = beginWrite b then None else Some crlf)"

definition findEOL_from :: "nat \<Rightarrow> Buffer \<Rightarrow> nat option res" where
  "findEOL_from start b =
     require (peek b \<le> start) (require (start \<le> beginWrite b)
       (let s = subrange start (beginWrite b) (buffer b); k = find_char (CHR 0x0A) s
        in Inr (if k = length s then None else Some (start + k))))"

definition findEOL :: "Buffer \<Rightarrow> nat option" where
  "findEOL b =
     (let k = find_char (CHR 0x0A) (content b)
      in if k = length (content b) then None else Some (peek b + k))"

definition retrieveAll :: "Buffer \<Rightarrow> Buffer" where
  "retrieveAll b = b\<lparr>readerIndex := kCheapPrepend, writerIndex := kCheapPrepend\<rparr>"

definition retrieve :: "nat \<Rightarrow> Buffer \<Rightarrow> Buffer res" where
  "retrieve len b =
     require (len \<le> readableBytes b)
       (Inr (if len < readableBytes b then b\<lparr>readerIndex := sz_add (readerIndex b) len\<rparr>
             else retrieveAll b))"

definition retrieveInt64 :: "Buffer \<Rightarrow> Buffer res" where "retrieveInt64 b = retrieve 8 b"

definition retrieveInt32 :: "Buffer \<Rightarrow> Buffer res" where "retrieveInt32 b = retrieve 4 b"

definition retrieveInt16 :: "Buffer \<Rightarrow> Buffer res" where "retrieveInt16 b = retrieve 2 b"

definition retrieveInt8 :: "Buffer \<Rightarrow> Buffer res" where "retrieveInt8 b = retrieve 1 b"

definition retrieveUntil :: "nat \<Rightarrow> Buffer \<Rightarrow> Buffer res" where
  "retrieveUntil end b =
     require (peek b \<le> end) (require (end \<le> beginWrite b) (retrieve (end - peek b) b))"

definition retrieveAsString :: "nat \<Rightarrow> Buffer \<Rightarrow> (string \<times> Buffer) res" where
  "retrieveAsString len b =
     require (len \<le> readableBytes b)
       (rbind (retrieve len b) (\<lambda>b'. Inr (take len (content b), b')))"

definition retrieveAllAsString :: "Buffer \<Rightarrow> (string \<times> Buffer) res" where
  "retrieveAllAsString b = retrieveAsString (readableBytes b) b"

definition toStringPiece :: "Buffer \<Rightarrow> StringPiece" where
  "toStringPiece b =
     StringPiece_of_range (drop (peek b) (buffer b)) (int32_of_size (readableBytes b))"

definition makeSpace :: "nat \<Rightarrow> Buffer \<Rightarrow> Buffer res" where
  "makeSpace len b =
     (if sz_add (writableBytes b) (prependableBytes b) < sz_add len kCheapPrepend then
        rbind (vec_resize (buffer b) (sz_add (writerIndex b) len)) (\<lambda>d. Inr (b\<lparr>buffer := d\<rparr>))
      else
        require (kCheapPrepend < readerIndex b)
          (let readable = readableBytes b in
           rbind (vec_write (buffer b) kCheapPrepend (content b)) (\<lambda>d.
             let b' = b\<lparr>buffer := d, readerIndex := kCheapPrepend,
                        writerIndex := sz_add kCheapPrepend readable\<rparr>
             in require (readable = readableBytes b') (Inr b'))))"

definition ensureWritableBytes :: "nat \<Rightarrow> Buffer \<Rightarrow> Buffer res" where
  "ensureWritableBytes len b =
     rbind (if writableBytes b < len then makeSpace len b else Inr b) (\<lambda>b'.
       require (len \<le> writableBytes b') (Inr b'))"

definition hasWritten :: "nat \<Rightarrow> Buffer \<Rightarrow> Buffer res" where
  "hasWritten len b =
     require (len \<le> writableBytes b) (Inr (b\<lparr>writerIndex := sz_add (writerIndex b) len\<rparr>))"

definition unwrite :: "nat \<Rightarrow> Buffer \<Rightarrow> Buffer res" where
  "unwrite len b =
     require (len \<le> readableBytes b) (Inr (b\<lparr>writerIndex := sz_sub (writerIndex b) len\<rparr>))"

text \<open>\<^verbatim>\<open>append(data, len)\<close>: \<open>mem\<close> holds the bytes readable at \<^verbatim>\<open>data\<close>.\<close>

definition append_mem :: "string \<Rightarrow> nat \<Rightarrow> Buffer \<Rightarrow> Buffer res" where
  "append_mem mem len b =
     rbind (ensureWritableBytes len b) (\<lambda>b.
       if len \<le> length mem then
         rbind (vec_write (buffer b) (beginWrite b) (take len mem)) (\<lambda>d.
           hasWritten len (b\<lparr>buffer := d\<rparr>))
       else Inl Undefined)"

definition append_piece :: "StringPiece \<Rightarrow> Buffer \<Rightarrow> Buffer res" where
  "append_piece str b = append_mem (sp_ptr str) (size_of_int32 (sp_length str)) b"

text \<open>A \<^verbatim>\<open>std::string\<close> or literal argument converts to a \<^verbatim>\<open>StringPiece\<close> first.\<close>

definition append_string :: "string \<Rightarrow> Buffer \<Rightarrow> Buffer res" where
  "append_string s b = append_piece (StringPiece_of_string s) b"

definition appendInt64 :: "64 word \<Rightarrow> Buffer \<Rightarrow> Buffer res" where
  "appendInt64 x b = append_mem (mem_of_word (hostToNetwork64 x)) 8 b"

definition appendInt32 :: "32 word \<Rightarrow> Buffer \<Rightarrow> Buffer res" where
  "appendInt32 x b = append_mem (mem_of_word (hostToNetwork32 x)) 4 b"

definition appendInt16 :: "16 word \<Rightarrow> Buffer \<Rightarrow> Buffer res" where
  "appendInt16 x b = append_mem (mem_of_word (hostToNetwork16 x)) 2 b"

definition appendInt8 :: "8 word \<Rightarrow> Buffer \<Rightarrow> Buffer res" where
  "appendInt8 x b = append_mem (mem_of_word x) 1 b"

definition peekInt64 :: "Buffer \<Rightarrow> 64 word res" where
  "peekInt64 b =
     require (8 \<le> readableBytes b) (Inr (networkToHost64 (word_of_mem (take 8 (content b)))))"

definition peekInt32 :: "Buffer \<Rightarrow> 32 word res" where
  "peekInt32 b =
     require (4 \<le> readableBytes b) (Inr (networkToHost32 (word_of_mem (take 4 (content b)))))"

definition peekInt16 :: "Buffer \<Rightarrow> 16 word res" where
  "peekInt16 b =
     require (2 \<le> readableBytes b) (Inr (networkToHost16 (word_of_mem (take 2 (content b)))))"

definition peekInt8 :: "Buffer \<Rightarrow> 8 word res" where
  "peekInt8 b = require (1 \<le> readableBytes b) (Inr (word_of_mem (take 1 (content b))))"

definition readInt64 :: "Buffer \<Rightarrow> (64 word \<times> Buffer) res" where
  "readInt64 b = rbind (peekInt64 b) (\<lambda>x. rbind (retrieveInt64 b) (\<lambda>b'. Inr (x, b')))"

definition readInt32 :: "Buffer \<Rightarrow> (32 word \<times> Buffer) res" where
  "readInt32 b = rbind (peekInt32 b) (\<lambda>x. rbind (retrieveInt32 b) (\<lambda>b'. Inr (x, b')))"

definition readInt16 :: "Buffer \<Rightarrow> (16 word \<times> Buffer) res" where
  "readInt16 b = rbind (peekInt16 b) (\<lambda>x. rbind (retrieveInt16 b) (\<lambda>b'. Inr (x, b')))"

definition readInt8 :: "Buffer \<Rightarrow> (8 word \<times> Buffer) res" where
  "readInt8 b = rbind (peekInt8 b) (\<lambda>x. rbind (retrieveInt8 b) (\<lambda>b'. Inr (x, b')))"

definition prepend :: "string \<Rightarrow> Buffer \<Rightarrow> Buffer res" where
  "prepend data b =
     require (length data \<le> prependableBytes b)
       (let r = sz_sub (readerIndex b) (length data) in
        rbind (vec_write (buffer b) r data) (\<lambda>d. Inr (b\<lparr>buffer := d, readerIndex := r\<rparr>)))"

definition prependInt64 :: "64 word \<Rightarrow> Buffer \<Rightarrow> Buffer res" where
  "prependInt64 x b = prepend (mem_of_word (hostToNetwork64 x)) b"

definition prependInt32 :: "32 word \<Rightarrow> Buffer \<Rightarrow> Buffer res" where
  "prependInt32 x b = prepend (mem_of_word (hostToNetwork32 x)) b"

definition prependInt16 :: "16 word \<Rightarrow> Buffer \<Rightarrow> Buffer res" where
  "prependInt16 x b = prepend (mem_of_word (hostToNetwork16 x)) b"

definition prependInt8 :: "8 word \<Rightarrow> Buffer \<Rightarrow> Buffer res" where
  "prependInt8 x b = prepend (mem_of_word x) b"

definition shrink :: "nat \<Rightarrow> Buffer \<Rightarrow> Buffer res" where
  "shrink reserve b =
     rbind (Buffer_new kInitialSize) (\<lambda>other.
       rbind (ensureWritableBytes (sz_add (readableBytes b) reserve) other) (\<lambda>other.
         rbind (append_piece (toStringPiece b) other) (\<lambda>other.
           Inr (fst (Buffer_swap b other)))))"

text \<open>
  \<^verbatim>\<open>readFd\<close>. The kernel is a parameter: \<open>readv\<close> is given the lengths of the scatter list and answers
  with an error number or with the bytes received, which fill the first area before the second.
\<close>

datatype read_result = Read_error int | Read_data string

definition extraBuf_size :: nat where
  "extraBuf_size = 65536"

definition readFd :: "(nat list \<Rightarrow> read_result) \<Rightarrow> Buffer \<Rightarrow> (read_result \<times> Buffer) res" where
  "readFd readv b =
     (let writable = writableBytes b;
          iov = (if writable < extraBuf_size then [writable, extraBuf_size] else [writable])
      in case readv iov of
           Read_error savedErrno \<Rightarrow> Inr (Read_error savedErrno, b)
         | Read_data bytes \<Rightarrow>
             let n = length bytes;
                 received = (let v0 = take writable bytes in vec_write (buffer b) (writerIndex b) v0);
                 extraBuf = drop writable bytes
             in rbind received (\<lambda>d.
                  if n \<le> writable then
                    Inr (Read_data bytes,
                         b\<lparr>buffer := d, writerIndex := sz_add (writerIndex b) n\<rparr>)
                  else
                    rbind (append_mem extraBuf (n - writable)
                             (b\<lparr>buffer := d, writerIndex := length d\<rparr>))
                      (\<lambda>b'. Inr (Read_data bytes, b'))))"

section \<open>Invariant\<close>

definition Buffer_wf :: "Buffer \<Rightarrow> bool" where
  "Buffer_wf b \<longleftrightarrow>
     readerIndex b \<le> writerIndex b \<and> writerIndex b \<le> length (buffer b) \<and>
     kCheapPrepend \<le> length (buffer b) \<and> length (buffer b) \<le> max_size"


lemmas buffer_consts = kCheapPrepend_def kInitialSize_def max_size_def extraBuf_size_def

lemma Buffer_wfD:
  assumes "Buffer_wf b"
  shows "readerIndex b \<le> writerIndex b" "writerIndex b \<le> length (buffer b)"
    "8 \<le> length (buffer b)" "length (buffer b) \<le> 9223372036854775807"
  using assms by (auto simp: Buffer_wf_def buffer_consts)

lemma readableBytes_wf [simp]:
  "Buffer_wf b \<Longrightarrow> readableBytes b = writerIndex b - readerIndex b"
  using Buffer_wfD [of b] by (simp add: readableBytes_def)

lemma writableBytes_wf [simp]:
  "Buffer_wf b \<Longrightarrow> writableBytes b = length (buffer b) - writerIndex b"
  using Buffer_wfD [of b] by (simp add: writableBytes_def)

lemma length_content [simp]:
  "Buffer_wf b \<Longrightarrow> length (content b) = writerIndex b - readerIndex b"
  using Buffer_wfD [of b] by (simp add: content_def)

lemma readableBytes_content: "Buffer_wf b \<Longrightarrow> readableBytes b = length (content b)"
  by simp

section \<open>Growing\<close>

lemma vec_resize_grow:
  "n \<le> max_size \<Longrightarrow> length v \<le> n \<Longrightarrow>
     vec_resize v n = Inr (v @ replicate (n - length v) (CHR 0x00))"
  by (simp add: vec_resize_def)

lemma content_extend: "Buffer_wf b \<Longrightarrow> content (b\<lparr>buffer := buffer b @ ys\<rparr>) = content b"
  using Buffer_wfD [of b] by (simp add: content_def subrange_alt)

text \<open>The resizing branch of \<^verbatim>\<open>makeSpace\<close>.\<close>

lemma makeSpace_resize:
  assumes wf: "Buffer_wf b" and few: "length (buffer b) - writerIndex b < len"
    and len: "len \<le> max_size"
    and cond: "length (buffer b) - writerIndex b + readerIndex b < len + kCheapPrepend"
  shows "if writerIndex b + len > max_size then makeSpace len b = Inl Length_error
     else makeSpace len b =
       Inr (b\<lparr>buffer := buffer b @ replicate (writerIndex b + len - length (buffer b)) (CHR 0x00)\<rparr>)"
proof -
  note w = Buffer_wfD [OF wf]
  have "sz_add (writableBytes b) (prependableBytes b) < sz_add len kCheapPrepend"
    using wf w cond len by (simp add: prependableBytes_def buffer_consts)
  moreover have "sz_add (writerIndex b) len = writerIndex b + len"
    using w len by (simp add: buffer_consts)
  ultimately show ?thesis
    using w few by (auto simp: makeSpace_def vec_resize_def)
qed

text \<open>The compacting branch: the readable bytes move down to \<^verbatim>\<open>kCheapPrepend\<close>.\<close>

lemma makeSpace_compact:
  assumes wf: "Buffer_wf b" and few: "length (buffer b) - writerIndex b < len"
    and len: "len \<le> max_size"
    and cond: "\<not> length (buffer b) - writerIndex b + readerIndex b < len + kCheapPrepend"
  obtains b' where "makeSpace len b = Inr b'" "Buffer_wf b'" "content b' = content b"
    "length (buffer b') = length (buffer b)" "readerIndex b' = kCheapPrepend"
    "writerIndex b' = kCheapPrepend + (writerIndex b - readerIndex b)"
    "len \<le> length (buffer b') - writerIndex b'" "writerIndex b' \<le> writerIndex b"
proof -
  note w = Buffer_wfD [OF wf]
  let ?n = "writerIndex b - readerIndex b"
  have r: "kCheapPrepend < readerIndex b"
    using cond few by (simp add: buffer_consts)
  have fits: "kCheapPrepend + length (content b) \<le> length (buffer b)"
    using wf w r by (simp add: buffer_consts)
  define d where "d = take kCheapPrepend (buffer b) @ content b @
    drop (kCheapPrepend + length (content b)) (buffer b)"
  define b' where "b' = b\<lparr>buffer := d, readerIndex := kCheapPrepend, writerIndex := kCheapPrepend + ?n\<rparr>"
  have len_d: "length d = length (buffer b)"
    using fits by (simp add: d_def)
  have wf': "Buffer_wf b'"
    using w fits len_d length_content [OF wf] by (simp add: Buffer_wf_def b'_def buffer_consts)
  have cont: "content b' = content b"
    using fits subrange_written [of kCheapPrepend "content b" "buffer b"] length_content [OF wf]
    unfolding content_def [of b'] by (simp add: b'_def d_def)
  have "\<not> sz_add (writableBytes b) (prependableBytes b) < sz_add len kCheapPrepend"
    using wf w cond len by (simp add: prependableBytes_def buffer_consts)
  moreover have "sz_add kCheapPrepend (readableBytes b) = kCheapPrepend + ?n"
    using wf w by (simp add: buffer_consts)
  moreover have "vec_write (buffer b) kCheapPrepend (content b) = Inr d"
    using fits unfolding d_def by (rule vec_write_ok)
  moreover have "readableBytes b = readableBytes b'"
    using wf wf' by (simp add: b'_def)
  ultimately have "makeSpace len b = Inr b'"
    using r by (simp add: makeSpace_def b'_def Let_def)
  moreover have "len \<le> length (buffer b') - writerIndex b'" "writerIndex b' \<le> writerIndex b"
    using w cond r len_d by (auto simp: b'_def buffer_consts)
  ultimately show thesis
    using that wf' cont len_d by (simp add: b'_def)
qed

lemma ensureWritableBytes_total:
  assumes wf: "Buffer_wf b" and len: "len \<le> max_size"
  shows "ensureWritableBytes len b = Inl Length_error \<and> max_size < writerIndex b + len \<or>
    (\<exists>b'. ensureWritableBytes len b = Inr b' \<and> Buffer_wf b' \<and> content b' = content b \<and>
       len \<le> length (buffer b') - writerIndex b' \<and> writerIndex b' \<le> writerIndex b)"
proof -
  note w = Buffer_wfD [OF wf]
  consider (room) "len \<le> length (buffer b) - writerIndex b"
    | (resize) "length (buffer b) - writerIndex b < len"
        "length (buffer b) - writerIndex b + readerIndex b < len + kCheapPrepend"
    | (compact) "length (buffer b) - writerIndex b < len"
        "\<not> length (buffer b) - writerIndex b + readerIndex b < len + kCheapPrepend"
    by linarith
  then show ?thesis
  proof cases
    case room
    then show ?thesis using wf by (simp add: ensureWritableBytes_def)
  next
    case resize
    show ?thesis
    proof (cases "writerIndex b + len > max_size")
      case True
      with makeSpace_resize [OF wf resize(1) len resize(2)] wf resize show ?thesis
        by (simp add: ensureWritableBytes_def)
    next
      case False
      let ?b = "b\<lparr>buffer := buffer b @ replicate (writerIndex b + len - length (buffer b)) (CHR 0x00)\<rparr>"
      have wf': "Buffer_wf ?b" using w False by (simp add: Buffer_wf_def buffer_consts)
      from False makeSpace_resize [OF wf resize(1) len resize(2)] wf resize wf' w
      have "ensureWritableBytes len b = Inr ?b"
        by (simp add: ensureWritableBytes_def)
      with wf' w wf content_extend [OF wf] show ?thesis
        by auto
    qed
  next
    case compact
    from makeSpace_compact [OF wf compact(1) len compact(2)]
    obtain b' where b': "makeSpace len b = Inr b'" "Buffer_wf b'" "content b' = content b"
      "len \<le> length (buffer b') - writerIndex b'" "writerIndex b' \<le> writerIndex b"
      by metis
    with wf compact have "ensureWritableBytes len b = Inr b'"
      by (simp add: ensureWritableBytes_def)
    with b' show ?thesis by blast
  qed
qed

lemma write_at_end:
  assumes "Buffer_wf b" "length xs \<le> length (buffer b) - writerIndex b"
  defines "b' \<equiv> b\<lparr>buffer := take (writerIndex b) (buffer b) @ xs @
    drop (writerIndex b + length xs) (buffer b), writerIndex := writerIndex b + length xs\<rparr>"
  shows "Buffer_wf b'" "content b' = content b @ xs"
proof -
  note w = Buffer_wfD [OF assms(1)]
  show "Buffer_wf b'"
    using w assms(2) by (simp add: Buffer_wf_def b'_def buffer_consts)
  let ?d = "take (writerIndex b) (buffer b) @ xs @ drop (writerIndex b + length xs) (buffer b)"
  have "content b' = subrange (readerIndex b) (writerIndex b) ?d @
      subrange (writerIndex b) (writerIndex b + length xs) ?d"
    using w by (simp add: content_def b'_def subrange_append_split)
  also have "subrange (readerIndex b) (writerIndex b) ?d = content b"
    using w by (simp add: content_def subrange_before_written)
  also have "subrange (writerIndex b) (writerIndex b + length xs) ?d = xs"
    using w assms(2) by (intro subrange_written) simp
  finally show "content b' = content b @ xs" .
qed

lemma append_mem_total:
  assumes wf: "Buffer_wf b" and mem: "len \<le> length mem" and len: "len \<le> max_size"
  shows "append_mem mem len b = Inl Length_error \<and> max_size < writerIndex b + len \<or>
    (\<exists>b'. append_mem mem len b = Inr b' \<and> Buffer_wf b' \<and>
       content b' = content b @ take len mem \<and> writerIndex b' \<le> writerIndex b + len)"
  using ensureWritableBytes_total [OF wf len]
proof (elim disjE exE conjE)
  assume "ensureWritableBytes len b = Inl Length_error" "max_size < writerIndex b + len"
  then show ?thesis by (simp add: append_mem_def)
next
  fix b1
  assume b1: "ensureWritableBytes len b = Inr b1" "Buffer_wf b1" "content b1 = content b"
    "len \<le> length (buffer b1) - writerIndex b1" "writerIndex b1 \<le> writerIndex b"
  note w = Buffer_wfD [OF b1(2)]
  let ?xs = "take len mem"
  let ?b2 = "b1\<lparr>buffer := take (writerIndex b1) (buffer b1) @ ?xs @
    drop (writerIndex b1 + length ?xs) (buffer b1), writerIndex := writerIndex b1 + length ?xs\<rparr>"
  have xs: "length ?xs = len" using mem by simp
  then have r: "Buffer_wf ?b2" "content ?b2 = content b1 @ ?xs"
    using write_at_end [OF b1(2), of ?xs] b1(4) by simp_all
  have "append_mem mem len b = Inr ?b2"
    using b1 w mem by (simp add: append_mem_def beginWrite_def hasWritten_def writableBytes_def)
  with r b1 mem show ?thesis by auto
qed

lemma append_mem_ok:
  assumes "Buffer_wf b" "len \<le> length mem" "writerIndex b + len \<le> max_size"
  shows "\<exists>b'. append_mem mem len b = Inr b' \<and> Buffer_wf b' \<and>
       content b' = content b @ take len mem \<and> writerIndex b' \<le> writerIndex b + len"
  using append_mem_total [of b len mem] assms by auto

lemma append_string_eq:
  "length s < 2 ^ 31 \<Longrightarrow> append_string s b = append_mem s (length s) b"
  by (simp add: append_string_def append_piece_def StringPiece_of_string_def)

section \<open>Consuming\<close>

lemma content_drop:
  "Buffer_wf b \<Longrightarrow> n \<le> writerIndex b - readerIndex b \<Longrightarrow>
     content (b\<lparr>readerIndex := readerIndex b + n\<rparr>) = drop n (content b)"
  by (simp add: content_def subrange_drop)

lemma content_retrieveAll [simp]: "content (retrieveAll b) = []"
  by (simp add: content_def retrieveAll_def)

lemma retrieveAll_wf [simp]: "Buffer_wf b \<Longrightarrow> Buffer_wf (retrieveAll b)"
  by (simp add: Buffer_wf_def retrieveAll_def)

lemma retrieve_ok:
  assumes wf: "Buffer_wf b" and len: "len \<le> length (content b)"
  shows "\<exists>b'. retrieve len b = Inr b' \<and> Buffer_wf b' \<and> content b' = drop len (content b) \<and>
    buffer b' = buffer b \<and> writerIndex b' \<le> max kCheapPrepend (writerIndex b)"
proof (cases "len < length (content b)")
  case True
  note w = Buffer_wfD [OF wf]
  let ?b = "b\<lparr>readerIndex := readerIndex b + len\<rparr>"
  have "retrieve len b = Inr ?b"
    using wf w True by (simp add: retrieve_def)
  moreover have "Buffer_wf ?b" using wf True by (simp add: Buffer_wf_def)
  ultimately show ?thesis
    using wf True by (intro exI [of _ ?b]) (simp add: content_drop)
next
  case False
  with len wf have "retrieve len b = Inr (retrieveAll b)"
    by (simp add: retrieve_def)
  moreover have "writerIndex (retrieveAll b) = kCheapPrepend" "buffer (retrieveAll b) = buffer b"
    by (simp_all add: retrieveAll_def)
  ultimately show ?thesis
    using wf False by (intro exI [of _ "retrieveAll b"]) simp
qed

lemma retrieve_too_much:
  "Buffer_wf b \<Longrightarrow> length (content b) < len \<Longrightarrow> retrieve len b = Inl Assert_failed"
  by (simp add: retrieve_def)

lemma retrieveUntil_ok:
  assumes wf: "Buffer_wf b" and k: "k \<le> length (content b)"
  shows "retrieveUntil (peek b + k) b = retrieve k b"
  using wf k Buffer_wfD [OF wf] by (simp add: retrieveUntil_def peek_def beginWrite_def)

lemma retrieveAsString_ok:
  assumes wf: "Buffer_wf b" and len: "len \<le> length (content b)"
  shows "\<exists>b'. retrieveAsString len b = Inr (take len (content b), b') \<and> Buffer_wf b' \<and>
    content b' = drop len (content b)"
  using retrieve_ok [OF assms] len wf by (auto simp: retrieveAsString_def)

lemma retrieveAllAsString_ok:
  assumes wf: "Buffer_wf b"
  shows "\<exists>b'. retrieveAllAsString b = Inr (content b, b') \<and> Buffer_wf b' \<and> content b' = []"
  using retrieveAsString_ok [OF wf, of "length (content b)"] wf
  by (auto simp: retrieveAllAsString_def)

lemma unwrite_ok:
  assumes wf: "Buffer_wf b" and len: "len \<le> length (content b)"
  shows "\<exists>b'. unwrite len b = Inr b' \<and> Buffer_wf b' \<and>
    content b' = take (length (content b) - len) (content b)"
proof -
  note w = Buffer_wfD [OF wf]
  let ?b = "b\<lparr>writerIndex := writerIndex b - len\<rparr>"
  have "unwrite len b = Inr ?b" using wf w len by (simp add: unwrite_def)
  moreover have "Buffer_wf ?b"
    using w len length_content [OF wf] by (auto simp: Buffer_wf_def buffer_consts)
  moreover have "content ?b = take (length (content b) - len) (content b)"
  proof -
    let ?n = "length (content b) - len"
    have "readerIndex b + ?n = writerIndex b - len" "?n \<le> writerIndex b - readerIndex b"
      using w len length_content [OF wf] by auto
    then show ?thesis
      using subrange_take [of ?n "writerIndex b" "readerIndex b" "buffer b"]
      by (simp add: content_def)
  qed
  ultimately show ?thesis by blast
qed

lemma prepend_ok:
  assumes wf: "Buffer_wf b" and len: "length data \<le> readerIndex b"
  shows "\<exists>b'. prepend data b = Inr b' \<and> Buffer_wf b' \<and> content b' = data @ content b \<and>
    writerIndex b' = writerIndex b"
proof -
  note w = Buffer_wfD [OF wf]
  let ?r = "readerIndex b - length data"
  let ?d = "take ?r (buffer b) @ data @ drop (?r + length data) (buffer b)"
  let ?b = "b\<lparr>buffer := ?d, readerIndex := ?r\<rparr>"
  have sub: "sz_sub (readerIndex b) (length data) = ?r"
    using w len by simp
  have "prepend data b = Inr ?b"
    using w len by (simp add: prepend_def prependableBytes_def sub Let_def)
  moreover have "Buffer_wf ?b"
    using w wf len by (simp add: Buffer_wf_def buffer_consts)
  moreover have "content ?b = data @ content b"
  proof -
    have "content ?b = subrange ?r (?r + length data) ?d @ subrange (?r + length data) (writerIndex b) ?d"
      using w len by (simp add: content_def subrange_append_split)
    also have "subrange ?r (?r + length data) ?d = data"
      using w len by (intro subrange_written) simp
    also have "subrange (?r + length data) (writerIndex b) ?d = content b"
      using w len by (simp add: content_def subrange_def)
    finally show ?thesis .
  qed
  ultimately show ?thesis by auto
qed

lemma prepend_too_much:
  "readerIndex b < length data \<Longrightarrow> prepend data b = Inl Assert_failed"
  by (simp add: prepend_def prependableBytes_def)

section \<open>Construction and shrinking\<close>

lemma Buffer_new_ok:
  assumes "n \<le> max_size - kCheapPrepend"
  shows "\<exists>b. Buffer_new n = Inr b \<and> Buffer_wf b \<and> content b = [] \<and> writerIndex b = kCheapPrepend \<and>
    length (buffer b) = kCheapPrepend + n"
proof -
  let ?b = "\<lparr>buffer = replicate (kCheapPrepend + n) (CHR 0x00), readerIndex = kCheapPrepend,
    writerIndex = kCheapPrepend\<rparr>"
  have "Buffer_wf ?b" using assms by (simp add: Buffer_wf_def buffer_consts)
  moreover from this have "Buffer_new n = Inr ?b"
    using assms by (simp add: Buffer_new_def vec_resize_def prependableBytes_def buffer_consts)
  ultimately show ?thesis by (simp add: content_def)
qed

lemma toStringPiece_content:
  "Buffer_wf b \<Longrightarrow> length (content b) < 2 ^ 31 \<Longrightarrow> as_string (toStringPiece b) = content b"
proof -
  assume "Buffer_wf b" "length (content b) < 2 ^ 31"
  then have "nat (int32_of_size (readableBytes b)) = writerIndex b - readerIndex b"
    by simp
  then show ?thesis
    by (simp add: toStringPiece_def StringPiece_of_range_def as_string_def content_def subrange_def
        peek_def)
qed

lemma append_piece_toStringPiece:
  assumes wf: "Buffer_wf b" and small: "length (content b) < 2 ^ 31"
    and other: "Buffer_wf other" "writerIndex other + length (content b) \<le> max_size"
  shows "\<exists>b'. append_piece (toStringPiece b) other = Inr b' \<and> Buffer_wf b' \<and>
    content b' = content other @ content b"
proof -
  let ?mem = "drop (peek b) (buffer b)" and ?n = "length (content b)"
  have eq: "append_piece (toStringPiece b) other = append_mem ?mem ?n other"
    using wf small by (simp add: append_piece_def toStringPiece_def StringPiece_of_range_def)
  have "?n \<le> length ?mem" "take ?n ?mem = content b"
    using wf Buffer_wfD [OF wf] by (auto simp: peek_def content_def subrange_def)
  with append_mem_ok [OF other(1), of ?n ?mem] other(2) show ?thesis
    unfolding eq by auto
qed

lemma shrink_ok:
  assumes wf: "Buffer_wf b" and small: "length (content b) < 2 ^ 31"
    and room: "kCheapPrepend + length (content b) + reserve \<le> max_size"
  shows "\<exists>b'. shrink reserve b = Inr b' \<and> Buffer_wf b' \<and> content b' = content b"
proof -
  obtain o1 where o1: "Buffer_new kInitialSize = Inr o1" "Buffer_wf o1" "content o1 = []"
      "writerIndex o1 = kCheapPrepend"
    using Buffer_new_ok [of kInitialSize] by (auto simp: buffer_consts)
  have sz: "sz_add (readableBytes b) reserve = length (content b) + reserve"
    using wf room Buffer_wfD [OF wf] by (simp add: buffer_consts)
  have "length (content b) + reserve \<le> max_size" using room by simp
  from ensureWritableBytes_total [OF o1(2) this] room o1
  obtain o2 where o2: "ensureWritableBytes (length (content b) + reserve) o1 = Inr o2"
      "Buffer_wf o2" "content o2 = []" "writerIndex o2 \<le> kCheapPrepend"
    by auto
  have "writerIndex o2 + length (content b) \<le> max_size" using o2(4) room by simp
  from append_piece_toStringPiece [OF wf small o2(2) this]
  obtain o3 where o3: "append_piece (toStringPiece b) o2 = Inr o3" "Buffer_wf o3"
      "content o3 = content b"
    using o2(3) by auto
  let ?b = "\<lparr>buffer = buffer o3, readerIndex = readerIndex o3, writerIndex = writerIndex o3\<rparr>"
  have "shrink reserve b = Inr ?b"
    using o1(1) o2(1) o3(1) by (simp only: shrink_def sz rbind.simps Buffer_swap_def fst_conv)
  with o3 show ?thesis by (simp add: Buffer_wf_def content_def)
qed

section \<open>Integers on the wire\<close>

lemmas wire_defs = appendInt64_def appendInt32_def appendInt16_def appendInt8_def
  prependInt64_def prependInt32_def prependInt16_def prependInt8_def mem_hostToNetwork

lemma append_wire:
  assumes "Buffer_wf b" "writerIndex b + n \<le> max_size" "length bs = n"
  shows "\<exists>b'. append_mem bs n b = Inr b' \<and> Buffer_wf b' \<and> content b' = content b @ bs"
  using append_mem_ok [OF assms(1), of n bs] assms(2,3) by auto

lemma retrieve_prefix:
  assumes "Buffer_wf b" "content b = p @ rest" "length p = n"
  shows "\<exists>b'. retrieve n b = Inr b' \<and> Buffer_wf b' \<and> content b' = rest"
  using retrieve_ok [OF assms(1), of n] assms(2,3) by auto

lemma readInt_wire:
  assumes wf: "Buffer_wf b"
  shows "content b = be_bytes (x :: 64 word) @ rest \<Longrightarrow>
      \<exists>b'. readInt64 b = Inr (x, b') \<and> Buffer_wf b' \<and> content b' = rest"
    and "content b = be_bytes (y :: 32 word) @ rest \<Longrightarrow>
      \<exists>b'. readInt32 b = Inr (y, b') \<and> Buffer_wf b' \<and> content b' = rest"
    and "content b = be_bytes (z :: 16 word) @ rest \<Longrightarrow>
      \<exists>b'. readInt16 b = Inr (z, b') \<and> Buffer_wf b' \<and> content b' = rest"
    and "content b = mem_of_word (v :: 8 word) @ rest \<Longrightarrow>
      \<exists>b'. readInt8 b = Inr (v, b') \<and> Buffer_wf b' \<and> content b' = rest"
proof -
  note rp = retrieve_prefix [OF wf] and rc = readableBytes_content [OF wf]
  show "\<exists>b'. readInt64 b = Inr (x, b') \<and> Buffer_wf b' \<and> content b' = rest"
    if "content b = be_bytes x @ rest"
    using rp [OF that] rc that
    by (auto simp: readInt64_def peekInt64_def retrieveInt64_def networkToHost_be_bytes
        simp del: readableBytes_wf length_content)
  show "\<exists>b'. readInt32 b = Inr (y, b') \<and> Buffer_wf b' \<and> content b' = rest"
    if "content b = be_bytes y @ rest"
    using rp [OF that] rc that
    by (auto simp: readInt32_def peekInt32_def retrieveInt32_def networkToHost_be_bytes
        simp del: readableBytes_wf length_content)
  show "\<exists>b'. readInt16 b = Inr (z, b') \<and> Buffer_wf b' \<and> content b' = rest"
    if "content b = be_bytes z @ rest"
    using rp [OF that] rc that
    by (auto simp: readInt16_def peekInt16_def retrieveInt16_def networkToHost_be_bytes
        simp del: readableBytes_wf length_content)
  show "\<exists>b'. readInt8 b = Inr (v, b') \<and> Buffer_wf b' \<and> content b' = rest"
    if "content b = mem_of_word v @ rest"
    using rp [OF that] rc that
    by (auto simp: readInt8_def peekInt8_def retrieveInt8_def word_of_mem_of_word
        simp del: readableBytes_wf length_content)
qed

section \<open>Reading from a descriptor\<close>

lemma readFd_fits:
  assumes wf: "Buffer_wf b"
    and data: "readv (if writableBytes b < extraBuf_size then [writableBytes b, extraBuf_size]
                     else [writableBytes b]) = Read_data bytes"
    and n: "length bytes \<le> writableBytes b"
  shows "\<exists>b'. readFd readv b = Inr (Read_data bytes, b') \<and> Buffer_wf b' \<and>
    content b' = content b @ bytes"
proof -
  note w = Buffer_wfD [OF wf]
  have n': "length bytes \<le> length (buffer b) - writerIndex b" using n wf by simp
  note r = write_at_end [OF wf n']
  have "take (writableBytes b) bytes = bytes" using n by simp
  moreover have "vec_write (buffer b) (writerIndex b) bytes =
      Inr (take (writerIndex b) (buffer b) @ bytes @ drop (writerIndex b + length bytes) (buffer b))"
    using n' w by simp
  moreover have "sz_add (writerIndex b) (length bytes) = writerIndex b + length bytes"
    using n' w by simp
  ultimately have "readFd readv b = Inr (Read_data bytes,
      b\<lparr>buffer := take (writerIndex b) (buffer b) @ bytes @
          drop (writerIndex b + length bytes) (buffer b),
        writerIndex := writerIndex b + length bytes\<rparr>)"
    using data n unfolding readFd_def Let_def by (simp del: writableBytes_wf)
  with r show ?thesis by blast
qed

lemma readFd_overflow_total:
  assumes wf: "Buffer_wf b"
    and data: "readv (if writableBytes b < extraBuf_size then [writableBytes b, extraBuf_size]
                     else [writableBytes b]) = Read_data bytes"
    and n: "writableBytes b < length bytes"
    and room: "length bytes - writableBytes b \<le> max_size"
  shows "readFd readv b = Inl Length_error \<and> max_size < writerIndex b + length bytes \<or>
    (\<exists>b'. readFd readv b = Inr (Read_data bytes, b') \<and> Buffer_wf b' \<and>
    content b' = content b @ bytes)"
proof -
  note w = Buffer_wfD [OF wf]
  let ?k = "length (buffer b) - writerIndex b"
  let ?v0 = "take ?k bytes"
  have k: "writableBytes b = ?k" using wf by simp
  have v0: "length ?v0 = ?k" using n k by simp
  then have at_end: "writerIndex b + length ?v0 = length (buffer b)" using w by simp
  let ?d = "take (writerIndex b) (buffer b) @ ?v0 @ drop (writerIndex b + length ?v0) (buffer b)"
  have len_d: "length ?d = length (buffer b)" using at_end w by simp
  let ?b1 = "b\<lparr>buffer := ?d, writerIndex := length ?d\<rparr>"
  have b1: "Buffer_wf ?b1" "content ?b1 = content b @ ?v0"
    using write_at_end [OF wf, of ?v0] v0 at_end len_d by (simp_all only: order_refl)
  have vec: "vec_write (buffer b) (writerIndex b) ?v0 = Inr ?d"
    using at_end by (intro vec_write_ok) simp
  have "\<not> length bytes \<le> ?k" using n k by simp
  with vec have eq: "readFd readv b = rbind (append_mem (drop ?k bytes) (length bytes - ?k) ?b1)
      (\<lambda>b'. Inr (Read_data bytes, b'))"
    using data unfolding readFd_def Let_def k
    by (simp only: if_False read_result.case rbind.simps)
  have wi: "writerIndex ?b1 + (length bytes - ?k) = writerIndex b + length bytes"
    using len_d n k w by simp
  have "append_mem (drop ?k bytes) (length bytes - ?k) ?b1 = Inl Length_error \<and>
        max_size < writerIndex ?b1 + (length bytes - ?k) \<or>
      (\<exists>b'. append_mem (drop ?k bytes) (length bytes - ?k) ?b1 = Inr b' \<and> Buffer_wf b' \<and>
        content b' = content ?b1 @ take (length bytes - ?k) (drop ?k bytes) \<and>
        writerIndex b' \<le> writerIndex ?b1 + (length bytes - ?k))"
    using room k by (intro append_mem_total [OF b1(1)]) simp_all
  then show ?thesis
  proof (elim disjE conjE exE)
    assume "append_mem (drop ?k bytes) (length bytes - ?k) ?b1 = Inl Length_error"
      "max_size < writerIndex ?b1 + (length bytes - ?k)"
    then show ?thesis unfolding eq wi by (simp only: rbind.simps simp_thms)
  next
    fix b'
    assume *: "append_mem (drop ?k bytes) (length bytes - ?k) ?b1 = Inr b'" "Buffer_wf b'"
      "content b' = content ?b1 @ take (length bytes - ?k) (drop ?k bytes)"
    then have "content b' = content b @ bytes" using b1(2) by simp
    with * show ?thesis unfolding eq by simp
  qed
qed

lemma readFd_overflow:
  assumes wf: "Buffer_wf b"
    and data: "readv (if writableBytes b < extraBuf_size then [writableBytes b, extraBuf_size]
                     else [writableBytes b]) = Read_data bytes"
    and n: "writableBytes b < length bytes"
    and room: "writerIndex b + length bytes \<le> max_size"
  shows "\<exists>b'. readFd readv b = Inr (Read_data bytes, b') \<and> Buffer_wf b' \<and>
    content b' = content b @ bytes"
  using readFd_overflow_total [of b readv bytes, OF wf data n] room by auto

text \<open>The kernel fills at most the areas it is given.\<close>

definition readv_bounded :: "(nat list \<Rightarrow> read_result) \<Rightarrow> bool" where
  "readv_bounded readv \<longleftrightarrow> (\<forall>iov bytes. readv iov = Read_data bytes \<longrightarrow> length bytes \<le> sum_list iov)"

lemma readFd_total:
  assumes wf: "Buffer_wf b" and bounded: "readv_bounded readv"
  shows "readFd readv b = Inl Length_error \<or>
    (\<exists>r b'. readFd readv b = Inr (r, b') \<and> Buffer_wf b' \<and>
       content b' = content b @ (case r of Read_data bytes \<Rightarrow> bytes | Read_error e \<Rightarrow> []))"
proof -
  define iov where "iov = (if writableBytes b < extraBuf_size then [writableBytes b, extraBuf_size]
    else [writableBytes b])"
  show ?thesis
  proof (cases "readv iov")
    case (Read_error e)
    with wf show ?thesis
      unfolding iov_def readFd_def Let_def by (simp del: writableBytes_wf)
  next
    case (Read_data bytes)
    then have "length bytes \<le> sum_list iov" using bounded by (simp add: readv_bounded_def)
    then have "length bytes - writableBytes b \<le> max_size"
      by (simp add: iov_def buffer_consts split: if_splits)
    then show ?thesis
      using readFd_fits [of b readv bytes, OF wf] readFd_overflow_total [of b readv bytes, OF wf]
        Read_data
      unfolding iov_def by (cases "length bytes \<le> writableBytes b") auto
  qed
qed

section \<open>The contract of a byte queue\<close>

text \<open>
  The operations a client calls, as transactions on a string: \<open>Put\<close> appends, \<open>Get\<close> removes a prefix
  and is refused when there are not enough bytes.
\<close>

datatype io_op = Put string | Get nat

fun io_step :: "(string \<Rightarrow> 'b \<Rightarrow> 'b res) \<Rightarrow> (nat \<Rightarrow> 'b \<Rightarrow> 'b res) \<Rightarrow> io_op \<Rightarrow> 'b \<Rightarrow> 'b res" where
  "io_step put get (Put xs) b = put xs b"
| "io_step put get (Get n) b = get n b"

fun fifo_run :: "io_op list \<Rightarrow> string \<Rightarrow> string option" where
  "fifo_run [] s = Some s"
| "fifo_run (Put xs # ops) s = fifo_run ops (s @ xs)"
| "fifo_run (Get n # ops) s = (if n \<le> length s then fifo_run ops (drop n s) else None)"

fun put_total :: "io_op list \<Rightarrow> nat" where
  "put_total [] = 0"
| "put_total (Put xs # ops) = length xs + put_total ops"
| "put_total (Get n # ops) = put_total ops"

locale byte_queue =
  fixes inv :: "'b \<Rightarrow> bool"
    and data :: "'b \<Rightarrow> string"
    and used :: "'b \<Rightarrow> nat"
    and base :: nat
    and cap :: nat
    and put :: "string \<Rightarrow> 'b \<Rightarrow> 'b res"
    and get :: "nat \<Rightarrow> 'b \<Rightarrow> 'b res"
  assumes put_ok: "inv b \<Longrightarrow> used b + length xs \<le> cap \<Longrightarrow>
      \<exists>b'. put xs b = Inr b' \<and> inv b' \<and> data b' = data b @ xs \<and> used b' \<le> used b + length xs"
    and get_ok: "inv b \<Longrightarrow> n \<le> length (data b) \<Longrightarrow>
      \<exists>b'. get n b = Inr b' \<and> inv b' \<and> data b' = drop n (data b) \<and> used b' \<le> max base (used b)"
    and get_refused: "inv b \<Longrightarrow> length (data b) < n \<Longrightarrow> get n b = Inl Assert_failed"
begin

lemma puts_ok:
  assumes "inv b" "used b + length (concat xss) \<le> cap"
  shows "\<exists>b'. rfold put xss b = Inr b' \<and> inv b' \<and> data b' = data b @ concat xss \<and>
    used b' \<le> used b + length (concat xss)"
  using assms
proof (induction xss arbitrary: b)
  case Nil
  then show ?case by simp
next
  case (Cons xs xss)
  then obtain b1 where b1: "put xs b = Inr b1" "inv b1" "data b1 = data b @ xs"
      "used b1 \<le> used b + length xs"
    using put_ok [of b xs] by auto
  with Cons.prems have "used b1 + length (concat xss) \<le> cap" by simp
  from Cons.IH [OF b1(2) this] b1 show ?case by auto
qed

lemma run_refines:
  assumes "inv b" "max base (used b) + put_total ops \<le> cap"
  shows "case fifo_run ops (data b) of
     None \<Rightarrow> rfold (io_step put get) ops b = Inl Assert_failed
   | Some s \<Rightarrow> \<exists>b'. rfold (io_step put get) ops b = Inr b' \<and> inv b' \<and> data b' = s"
  using assms
proof (induction ops arbitrary: b)
  case Nil
  then show ?case by simp
next
  case (Cons op ops)
  show ?case
  proof (cases op)
    case (Put xs)
    with Cons.prems have "used b + length xs \<le> cap" by simp
    then obtain b1 where b1: "put xs b = Inr b1" "inv b1" "data b1 = data b @ xs"
        "used b1 \<le> used b + length xs"
      using put_ok [OF Cons.prems(1), of xs] by auto
    have "max base (used b1) + put_total ops \<le> cap"
      using b1(4) Cons.prems(2) Put by simp
    moreover have "rfold (io_step put get) (op # ops) b = rfold (io_step put get) ops b1"
      using b1(1) Put by simp
    ultimately show ?thesis
      using Cons.IH [OF b1(2)] b1(3) Put by (simp only: fifo_run.simps)
  next
    case (Get n)
    show ?thesis
    proof (cases "n \<le> length (data b)")
      case True
      then obtain b1 where b1: "get n b = Inr b1" "inv b1" "data b1 = drop n (data b)"
          "used b1 \<le> max base (used b)"
        using get_ok [OF Cons.prems(1)] by auto
      have "max base (used b1) + put_total ops \<le> cap"
        using b1(4) Cons.prems(2) Get by simp
      moreover have "rfold (io_step put get) (op # ops) b = rfold (io_step put get) ops b1"
        using b1(1) Get by simp
      ultimately show ?thesis
        using Cons.IH [OF b1(2)] b1(3) Get True by (simp only: fifo_run.simps if_True)
    next
      case False
      with get_refused [OF Cons.prems(1), of n] Get show ?thesis by simp
    qed
  qed
qed

end

definition Buffer_put :: "string \<Rightarrow> Buffer \<Rightarrow> Buffer res" where
  "Buffer_put xs b = append_mem xs (length xs) b"

interpretation bq: byte_queue Buffer_wf content writerIndex kCheapPrepend max_size Buffer_put retrieve
proof unfold_locales
  fix b and xs :: string
  assume "Buffer_wf b" "writerIndex b + length xs \<le> max_size"
  then show "\<exists>b'. Buffer_put xs b = Inr b' \<and> Buffer_wf b' \<and> content b' = content b @ xs \<and>
      writerIndex b' \<le> writerIndex b + length xs"
    using append_mem_ok [of b "length xs" xs] by (simp add: Buffer_put_def)
next
  fix b n
  assume "Buffer_wf b" "n \<le> length (content b)"
  then show "\<exists>b'. retrieve n b = Inr b' \<and> Buffer_wf b' \<and> content b' = drop n (content b) \<and>
      writerIndex b' \<le> max kCheapPrepend (writerIndex b)"
    using retrieve_ok by blast
qed (simp add: retrieve_too_much)

section \<open>Properties\<close>

text \<open>A buffer of given readable bytes and no free space, for concrete examples.\<close>

definition sample_buffer :: "string \<Rightarrow> Buffer" where
  "sample_buffer s = \<lparr>buffer = replicate 8 (CHR 0x00) @ s, readerIndex = 8, writerIndex = 8 + length s\<rparr>"

lemma sample_buffer_ok:
  assumes "length s < 1000"
  shows "Buffer_wf (sample_buffer s)" "content (sample_buffer s) = s"
  using assms
  by (simp_all add: sample_buffer_def Buffer_wf_def content_def subrange_def buffer_consts)

lemma Buffer_put_fun: "Buffer_put = (\<lambda>xs. append_mem xs (length xs))"
  by (simp add: fun_eq_iff Buffer_put_def)

text \<open>
  C1: any sequence of appends and retrieves behaves as on a FIFO queue of bytes: as long as the
  total stays within the vector's limit the readable bytes are those of the queue, and a retrieve of
  more bytes than the queue holds stops at the assertion. Growing and moving the data to the front
  of the vector never shows.
\<close>

theorem Buffer_refines_fifo:
  assumes "Buffer_wf b" "max kCheapPrepend (writerIndex b) + put_total ops \<le> max_size"
  shows "case fifo_run ops (content b) of
     None \<Rightarrow> rfold (io_step (\<lambda>xs. append_mem xs (length xs)) retrieve) ops b = Inl Assert_failed
   | Some s \<Rightarrow> \<exists>b'. rfold (io_step (\<lambda>xs. append_mem xs (length xs)) retrieve) ops b = Inr b' \<and>
       Buffer_wf b' \<and> content b' = s"
  using bq.run_refines [OF assms] unfolding Buffer_put_fun .

theorem Buffer_refines_fifo_witness:
  "\<exists>b'. rfold (io_step (\<lambda>xs. append_mem xs (length xs)) retrieve)
      [Put ''cd'', Get 3, Put ''ef'', Get 1] (sample_buffer ''ab'') = Inr b' \<and>
    Buffer_wf b' \<and> content b' = ''ef''"
proof -
  have "max kCheapPrepend (writerIndex (sample_buffer ''ab'')) +
      put_total [Put ''cd'', Get 3, Put ''ef'', Get 1] \<le> max_size"
    by (simp add: sample_buffer_def buffer_consts)
  from Buffer_refines_fifo [OF sample_buffer_ok(1) this] show ?thesis
    by (simp add: sample_buffer_ok(2) numeral_nat del: rfold.simps)
qed

text \<open>
  C20: \<^verbatim>\<open>readFd\<close> appends exactly the bytes the kernel delivered, whether they fit in the free space or
  overflow into the stack buffer, and returns their number; on an error the buffer is unchanged.
\<close>

theorem readFd_appends_received:
  assumes "Buffer_wf b"
    and "iov = (if writableBytes b < extraBuf_size then [writableBytes b, extraBuf_size]
                else [writableBytes b])"
    and "\<forall>bytes. readv iov = Read_data bytes \<longrightarrow> writerIndex b + length bytes \<le> max_size"
  shows "\<exists>b'. readFd readv b = Inr (readv iov, b') \<and> Buffer_wf b' \<and>
    content b' = content b @ (case readv iov of Read_data bytes \<Rightarrow> bytes | Read_error e \<Rightarrow> [])"
proof (cases "readv iov")
  case (Read_error e)
  with assms(1,2) show ?thesis
    unfolding readFd_def Let_def by (simp del: writableBytes_wf)
next
  case (Read_data bytes)
  then have data: "readv (if writableBytes b < extraBuf_size then [writableBytes b, extraBuf_size]
      else [writableBytes b]) = Read_data bytes"
    using assms(2) by simp
  show ?thesis
    using readFd_fits [of b readv bytes, OF assms(1) data]
      readFd_overflow [of b readv bytes, OF assms(1) data] assms(3) Read_data
    by (cases "length bytes \<le> writableBytes b") auto
qed

theorem readFd_appends_received_witness:
  "\<exists>b'. readFd (\<lambda>iov. Read_data ''xyz'') (sample_buffer ''ab'') = Inr (Read_data ''xyz'', b') \<and>
     Buffer_wf b' \<and> content b' = ''abxyz''"
  using readFd_appends_received [OF sample_buffer_ok(1) refl, of "''ab''" "\<lambda>iov. Read_data ''xyz''"]
    sample_buffer_ok(2) [of "''ab''"]
  by (simp add: sample_buffer_def buffer_consts)

text \<open>
  C30: integers of every width written in network order come back as they were written, in the order
  written, and the readable bytes before them are not touched by writing.
\<close>

theorem wire_integers_roundtrip:
  fixes x :: "64 word" and y :: "32 word" and z :: "16 word" and w :: "8 word"
  assumes "Buffer_wf b" "content b = []" "writerIndex b + 15 \<le> max_size"
  shows "\<exists>b1 b2. rbind (appendInt64 x b) (\<lambda>b. rbind (appendInt32 y b) (\<lambda>b.
        rbind (appendInt16 z b) (appendInt8 w))) = Inr b1 \<and>
      content b1 = be_bytes x @ be_bytes y @ be_bytes z @ be_bytes w \<and>
      rbind (readInt64 b1) (\<lambda>(x', b). rbind (readInt32 b) (\<lambda>(y', b).
        rbind (readInt16 b) (\<lambda>(z', b). rbind (readInt8 b) (\<lambda>(w', b).
          Inr (x', y', z', w', b))))) = Inr (x, y, z, w, b2) \<and>
      Buffer_wf b2 \<and> content b2 = []"
proof -
  have int8: "appendInt8 w = append_mem (be_bytes w) 1"
    by (simp add: fun_eq_iff wire_defs be_bytes_def mem_of_word_def)
  have len: "length (be_bytes x) = 8" "length (be_bytes y) = 4" "length (be_bytes z) = 2"
      "length (be_bytes w) = 1" by simp_all
  have "\<exists>b1. rfold (\<lambda>bs b. append_mem bs (length bs) b)
      [be_bytes x, be_bytes y, be_bytes z, be_bytes w] b = Inr b1 \<and> Buffer_wf b1 \<and>
      content b1 = be_bytes x @ be_bytes y @ be_bytes z @ be_bytes w"
    using bq.puts_ok [OF assms(1), of "[be_bytes x, be_bytes y, be_bytes z, be_bytes w]"] assms(2,3)
    by (auto simp: Buffer_put_fun len simp del: length_be_bytes)
  then obtain b1 where b1: "rbind (appendInt64 x b) (\<lambda>b. rbind (appendInt32 y b) (\<lambda>b.
      rbind (appendInt16 z b) (appendInt8 w))) = Inr b1" "Buffer_wf b1"
      "content b1 = be_bytes x @ be_bytes y @ be_bytes z @ be_bytes w"
    by (auto simp: int8 wire_defs len rfold_fun simp del: length_be_bytes)
  obtain c1 where c1: "readInt64 b1 = Inr (x, c1)" "Buffer_wf c1"
      "content c1 = be_bytes y @ be_bytes z @ be_bytes w"
    using readInt_wire(1) [OF b1(2,3)] by blast
  obtain c2 where c2: "readInt32 c1 = Inr (y, c2)" "Buffer_wf c2" "content c2 = be_bytes z @ be_bytes w"
    using readInt_wire(2) [OF c1(2,3)] by blast
  obtain c3 where c3: "readInt16 c2 = Inr (z, c3)" "Buffer_wf c3" "content c3 = mem_of_word w @ []"
    using readInt_wire(3) [OF c2(2,3)] by (auto simp: be_bytes_def mem_of_word_def)
  obtain c4 where c4: "readInt8 c3 = Inr (w, c4)" "Buffer_wf c4" "content c4 = []"
    using readInt_wire(4) [OF c3(2,3)] by blast
  from b1 c1(1) c2(1) c3(1) c4 show ?thesis by auto
qed

theorem wire_integers_roundtrip_witness:
  "\<exists>b1 b2. rbind (appendInt64 1 (sample_buffer [])) (\<lambda>b. rbind (appendInt32 2 b) (\<lambda>b.
        rbind (appendInt16 3 b) (appendInt8 4))) = Inr b1 \<and>
      content b1 = be_bytes (1 :: 64 word) @ be_bytes (2 :: 32 word) @ be_bytes (3 :: 16 word) @
        be_bytes (4 :: 8 word) \<and>
      rbind (readInt64 b1) (\<lambda>(x', b). rbind (readInt32 b) (\<lambda>(y', b).
        rbind (readInt16 b) (\<lambda>(z', b). rbind (readInt8 b) (\<lambda>(w', b).
          Inr (x', y', z', w', b))))) = Inr (1, 2, 3, 4, b2) \<and>
      Buffer_wf b2 \<and> content b2 = []"
proof -
  have "writerIndex (sample_buffer []) + 15 \<le> max_size"
    by (simp add: sample_buffer_def buffer_consts)
  from wire_integers_roundtrip [OF sample_buffer_ok(1) sample_buffer_ok(2) this, of 1 2 3 4]
  show ?thesis by simp
qed

text \<open>
  A header of up to the eight reserved bytes can be put before the readable bytes of any buffer
  whose reader index is at least that far from the start, without moving them; a longer one stops at
  the assertion.
\<close>

lemma prepend_before_content:
  assumes "Buffer_wf b"
  shows "prepend data b = Inl Assert_failed \<and> readerIndex b < length data \<or>
    (\<exists>b'. prepend data b = Inr b' \<and> Buffer_wf b' \<and> content b' = data @ content b \<and>
       writerIndex b' = writerIndex b)"
  using prepend_ok [OF assms, of data] prepend_too_much [of b data] by (cases "length data \<le> readerIndex b") auto

end
