(* ===== verification/Http.thy ===== *)
theory Http
  imports Buffer
begin

text \<open>
  \<^verbatim>\<open>networking/http\<close>: the request object (\<^verbatim>\<open>HttpRequest.h\<close>), the incremental parser
  (\<^verbatim>\<open>HttpContext.h\<close>, \<^verbatim>\<open>HttpContext.cpp\<close>), the response serialiser (\<^verbatim>\<open>HttpResponse.h\<close>,
  \<^verbatim>\<open>HttpResponse.cpp\<close>) and the connection handlers of \<^verbatim>\<open>HttpServer.cpp\<close>.

  \<^verbatim>\<open>parseRequest\<close> loops while it has work and does not leave the loop in two of its four states, so it
  is a \<open>partial_function (option)\<close>: \<^term>\<open>None\<close> is a call that does not return. The string-level parser
  \<open>parse_str\<close> is its specification, and the refinement lemma transports the facts proved on strings
  to the loop on buffers.
\<close>

section \<open>HttpRequest\<close>

datatype Method = kInvalid | kGet | kPost | kHead | kPut | kDelete

datatype Version = kUnknown | kHttp10 | kHttp11

record HttpRequest =
  rq_method :: Method
  rq_version :: Version
  rq_path :: string
  rq_query :: string
  rq_receiveTime :: int
  rq_headers :: "(string, string) omap"

definition HttpRequest_new :: HttpRequest where
  "HttpRequest_new = \<lparr>rq_method = kInvalid, rq_version = kUnknown, rq_path = [], rq_query = [],
     rq_receiveTime = 0, rq_headers = []\<rparr>"

definition setVersion :: "Version \<Rightarrow> HttpRequest \<Rightarrow> HttpRequest" where
  "setVersion v r = r\<lparr>rq_version := v\<rparr>"

definition setPath :: "string \<Rightarrow> HttpRequest \<Rightarrow> HttpRequest" where
  "setPath s r = r\<lparr>rq_path := s\<rparr>"

definition setQuery :: "string \<Rightarrow> HttpRequest \<Rightarrow> HttpRequest" where
  "setQuery s r = r\<lparr>rq_query := s\<rparr>"

definition setReceiveTime :: "int \<Rightarrow> HttpRequest \<Rightarrow> HttpRequest" where
  "setReceiveTime t r = r\<lparr>rq_receiveTime := t\<rparr>"

declare setVersion_def [simp] setPath_def [simp] setQuery_def [simp] setReceiveTime_def [simp]

definition setMethod :: "string \<Rightarrow> HttpRequest \<Rightarrow> (bool \<times> HttpRequest) res" where
  "setMethod m r =
     require (rq_method r = kInvalid)
       (let v = (if m = ''GET'' then kGet else if m = ''POST'' then kPost
                 else if m = ''HEAD'' then kHead else if m = ''PUT'' then kPut
                 else if m = ''DELETE'' then kDelete else kInvalid)
        in Inr (v \<noteq> kInvalid, r\<lparr>rq_method := v\<rparr>))"

fun methodString :: "Method \<Rightarrow> string" where
  "methodString kGet = ''GET''"
| "methodString kPost = ''POST''"
| "methodString kHead = ''HEAD''"
| "methodString kPut = ''PUT''"
| "methodString kDelete = ''DELETE''"
| "methodString kInvalid = ''UNKNOWN''"

text \<open>\<^verbatim>\<open>isspace\<close> in the C locale.\<close>

definition is_space :: "char \<Rightarrow> bool" where
  "is_space c \<longleftrightarrow>
     c \<in> {CHR 0x20, CHR 0x09, CHR 0x0A, CHR 0x0B, CHR 0x0C, CHR 0x0D}"

definition rstrip :: "string \<Rightarrow> string" where
  "rstrip s = rev (dropWhile is_space (rev s))"

text \<open>\<^verbatim>\<open>addHeader(start, colon, end)\<close> on the line \<open>[start, end)\<close> with the colon's offset in it.\<close>

definition addHeader :: "string \<Rightarrow> nat \<Rightarrow> HttpRequest \<Rightarrow> HttpRequest" where
  "addHeader line colon r =
     (let field = take colon line;
          val = rstrip (dropWhile is_space (drop (Suc colon) line))
      in r\<lparr>rq_headers := om_update field val (rq_headers r)\<rparr>)"

definition getHeader :: "string \<Rightarrow> HttpRequest \<Rightarrow> string" where
  "getHeader field r = (case om_lookup (rq_headers r) field of Some v \<Rightarrow> v | None \<Rightarrow> [])"

definition HttpRequest_swap :: "HttpRequest \<Rightarrow> HttpRequest \<Rightarrow> HttpRequest \<times> HttpRequest" where
  "HttpRequest_swap r that =
     (r\<lparr>rq_method := rq_method that, rq_version := rq_version that, rq_path := rq_path that,
        rq_query := rq_query that, rq_receiveTime := rq_receiveTime that, rq_headers := rq_headers that\<rparr>,
      that\<lparr>rq_method := rq_method r, rq_version := rq_version r, rq_path := rq_path r,
        rq_query := rq_query r, rq_receiveTime := rq_receiveTime r, rq_headers := rq_headers r\<rparr>)"

section \<open>HttpContext\<close>

datatype HttpRequestParseState = kExpectRequestLine | kExpectHeaders | kExpectBody | kGotAll

record HttpContext =
  hc_state :: HttpRequestParseState
  hc_request :: HttpRequest

definition HttpContext_new :: HttpContext where
  "HttpContext_new = \<lparr>hc_state = kExpectRequestLine, hc_request = HttpRequest_new\<rparr>"

definition HttpContext_gotAll :: "HttpContext \<Rightarrow> bool" where
  "HttpContext_gotAll c \<longleftrightarrow> hc_state c = kGotAll"

definition HttpContext_reset :: "HttpContext \<Rightarrow> HttpContext" where
  "HttpContext_reset c =
     (let dummy = HttpRequest_new; (r, dummy) = HttpRequest_swap (hc_request c) dummy
      in c\<lparr>hc_state := kExpectRequestLine, hc_request := r\<rparr>)"

text \<open>
  \<^verbatim>\<open>processRequestLine(begin, end)\<close> on the bytes of the line. The request is returned in every case:
  the source mutates it before it knows whether the line is acceptable.
\<close>

definition processRequestLine :: "string \<Rightarrow> HttpRequest \<Rightarrow> (bool \<times> HttpRequest) res" where
  "processRequestLine line r =
     (let space = find_char (CHR '' '') line in
      if space = length line then Inr (False, r)
      else rbind (setMethod (take space line) r) (\<lambda>(known, r).
        if \<not> known then Inr (False, r)
        else
          let rest = drop (Suc space) line; space2 = find_char (CHR '' '') rest in
          if space2 = length rest then Inr (False, r)
          else
            let target = take space2 rest; question = find_char (CHR ''?'') target;
                r = (if question \<noteq> length target
                     then setQuery (drop question target) (setPath (take question target) r)
                     else setPath target r);
                version = drop (Suc space2) rest
            in if length version = 8 \<and> take 7 version = ''HTTP/1.'' then
                 if version ! 7 = CHR ''1'' then Inr (True, setVersion kHttp11 r)
                 else if version ! 7 = CHR ''0'' then Inr (True, setVersion kHttp10 r)
                 else Inr (False, r)
               else Inr (False, r)))"

partial_function (option) parseRequest ::
  "int \<Rightarrow> HttpContext \<Rightarrow> Buffer \<Rightarrow> (bool \<times> HttpContext \<times> Buffer) res option" where
  "parseRequest receiveTime c buf =
     (case hc_state c of
        kExpectRequestLine \<Rightarrow>
          (case findCRLF buf of
             None \<Rightarrow> Some (Inr (True, c, buf))
           | Some crlf \<Rightarrow>
               (case processRequestLine (subrange (peek buf) crlf (buffer buf)) (hc_request c) of
                  Inl e \<Rightarrow> Some (Inl e)
                | Inr (ok, r) \<Rightarrow>
                    if ok then
                      (case retrieveUntil (crlf + 2) buf of
                         Inl e \<Rightarrow> Some (Inl e)
                       | Inr buf' \<Rightarrow>
                           parseRequest receiveTime
                             (c\<lparr>hc_state := kExpectHeaders,
                                hc_request := setReceiveTime receiveTime r\<rparr>) buf')
                    else Some (Inr (False, c\<lparr>hc_request := r\<rparr>, buf))))
      | kExpectHeaders \<Rightarrow>
          (case findCRLF buf of
             None \<Rightarrow> Some (Inr (True, c, buf))
           | Some crlf \<Rightarrow>
               (let line = subrange (peek buf) crlf (buffer buf); colon = find_char (CHR '':'') line in
                if colon \<noteq> length line then
                  (case retrieveUntil (crlf + 2) buf of
                     Inl e \<Rightarrow> Some (Inl e)
                   | Inr buf' \<Rightarrow>
                       parseRequest receiveTime
                         (c\<lparr>hc_request := addHeader line colon (hc_request c)\<rparr>) buf')
                else
                  (case retrieveUntil (crlf + 2) buf of
                     Inl e \<Rightarrow> Some (Inl e)
                   | Inr buf' \<Rightarrow> Some (Inr (True, c\<lparr>hc_state := kGotAll\<rparr>, buf')))))
      | kExpectBody \<Rightarrow> parseRequest receiveTime c buf
      | kGotAll \<Rightarrow> parseRequest receiveTime c buf)"

section \<open>HttpResponse\<close>

datatype HttpStatusCode = kUnknownStatus | k200Ok | k301MovedPermanently | k400BadRequest | k404NotFound

fun status_number :: "HttpStatusCode \<Rightarrow> int" where
  "status_number kUnknownStatus = 0"
| "status_number k200Ok = 200"
| "status_number k301MovedPermanently = 301"
| "status_number k400BadRequest = 400"
| "status_number k404NotFound = 404"

record HttpResponse =
  rs_headers :: "(string, string) omap"
  rs_statusCode :: HttpStatusCode
  rs_statusMessage :: string
  rs_closeConnection :: bool
  rs_body :: string

definition HttpResponse_new :: "bool \<Rightarrow> HttpResponse" where
  "HttpResponse_new close = \<lparr>rs_headers = [], rs_statusCode = kUnknownStatus, rs_statusMessage = [],
     rs_closeConnection = close, rs_body = []\<rparr>"

definition response_addHeader :: "string \<Rightarrow> string \<Rightarrow> HttpResponse \<Rightarrow> HttpResponse" where
  "response_addHeader key val r = r\<lparr>rs_headers := om_update key val (rs_headers r)\<rparr>"

definition setContentType :: "string \<Rightarrow> HttpResponse \<Rightarrow> HttpResponse" where
  "setContentType contentType r = response_addHeader ''Content-Type'' contentType r"

definition setStatusCode :: "HttpStatusCode \<Rightarrow> HttpResponse \<Rightarrow> HttpResponse" where
  "setStatusCode code r = r\<lparr>rs_statusCode := code\<rparr>"

definition setStatusMessage :: "string \<Rightarrow> HttpResponse \<Rightarrow> HttpResponse" where
  "setStatusMessage message r = r\<lparr>rs_statusMessage := message\<rparr>"

definition setCloseConnection :: "bool \<Rightarrow> HttpResponse \<Rightarrow> HttpResponse" where
  "setCloseConnection on r = r\<lparr>rs_closeConnection := on\<rparr>"

definition setBody :: "string \<Rightarrow> HttpResponse \<Rightarrow> HttpResponse" where
  "setBody body r = r\<lparr>rs_body := body\<rparr>"

definition crlf :: string where
  "crlf = kCRLF"

text \<open>The arguments of the successive \<^verbatim>\<open>output->append\<close> calls.\<close>

definition response_pieces :: "HttpResponse \<Rightarrow> string list" where
  "response_pieces r =
     [snprintf_buf 32 (''HTTP/1.1 '' @ dec_int (status_number (rs_statusCode r)) @ '' ''),
      rs_statusMessage r, crlf] @
     (if rs_closeConnection r then [''Connection: close'' @ crlf]
      else [snprintf_buf 32 (''Content-Length: '' @ dec_nat (length (rs_body r)) @ crlf),
            ''Connection: Keep-Alive'' @ crlf]) @
     concat (map (\<lambda>(k, v). [k, '': '', v, crlf]) (rs_headers r)) @
     [crlf, rs_body r]"

definition appendToBuffer :: "HttpResponse \<Rightarrow> Buffer \<Rightarrow> Buffer res" where
  "appendToBuffer r output = rfold append_string (response_pieces r) output"

section \<open>HttpServer\<close>

text \<open>
  What the handlers do to the connection, in order. \<open>Send_piece\<close> is \<^verbatim>\<open>send(StringPiece)\<close>, \<open>Send_buffer\<close>
  is \<^verbatim>\<open>send(Buffer*)\<close>.
\<close>

datatype conn_action = Send_piece string | Send_buffer Buffer | Shutdown

type_synonym HttpCallback = "HttpRequest \<Rightarrow> HttpResponse \<Rightarrow> HttpResponse"

definition defaultHttpCallback :: HttpCallback where
  "defaultHttpCallback req resp =
     setCloseConnection True (setStatusMessage ''Not Found'' (setStatusCode k404NotFound resp))"

definition close_requested :: "HttpRequest \<Rightarrow> bool" where
  "close_requested req =
     (let connection = getHeader ''Connection'' req
      in connection = ''close'' \<or> (rq_version req = kHttp10 \<and> connection \<noteq> ''Keep-Alive''))"

definition onRequest :: "HttpCallback \<Rightarrow> HttpRequest \<Rightarrow> conn_action list res" where
  "onRequest httpCallback req =
     (let response = httpCallback req (HttpResponse_new (close_requested req)) in
      rbind (Buffer_new kInitialSize) (\<lambda>buf.
        rbind (appendToBuffer response buf) (\<lambda>buf.
          Inr (Send_buffer buf # (if rs_closeConnection response then [Shutdown] else [])))))"

definition onConnection :: "bool \<Rightarrow> HttpContext option \<Rightarrow> HttpContext option" where
  "onConnection connected context = (if connected then Some HttpContext_new else context)"

definition bad_request :: string where
  "bad_request = ''HTTP/1.1 400 Bad Request'' @ crlf @ crlf"

definition onMessage :: "HttpCallback \<Rightarrow> int \<Rightarrow> HttpContext \<Rightarrow> Buffer \<Rightarrow>
    (conn_action list \<times> HttpContext \<times> Buffer) res option" where
  "onMessage httpCallback receiveTime context buf =
     (case parseRequest receiveTime context buf of
        None \<Rightarrow> None
      | Some parsed \<Rightarrow> Some (rbind parsed (\<lambda>(ok, context, buf).
          let refusal = (if ok then [] else [Send_piece bad_request, Shutdown]) in
          if HttpContext_gotAll context then
            rbind (onRequest httpCallback (hc_request context)) (\<lambda>actions.
              Inr (refusal @ actions, HttpContext_reset context, buf))
          else Inr (refusal, context, buf))))"

lemmas response_setters = setStatusCode_def setStatusMessage_def setCloseConnection_def setBody_def
  response_addHeader_def setContentType_def

lemma HttpRequest_swap_fst [simp]: "HttpRequest_swap r that = (that, r)"
  by (cases r; cases that) (simp add: HttpRequest_swap_def)

section \<open>The parser on strings\<close>

lemma rbind_cong [fundef_cong]:
  "m = m' \<Longrightarrow> (\<And>x. m' = Inr x \<Longrightarrow> f x = g x) \<Longrightarrow> rbind m f = rbind m' g"
  by (cases m') auto

lemma nonempty_if_found: "search_seq p s \<noteq> length s \<Longrightarrow> s \<noteq> []"
  using search_seq_le [of p s] by auto

text \<open>
  The specification of \<^verbatim>\<open>parseRequest\<close> on the readable bytes, for the two states in which the loop makes
  progress; in the other two it is not used.
\<close>

function parse_str :: "int \<Rightarrow> HttpContext \<Rightarrow> string \<Rightarrow> (bool \<times> HttpContext \<times> string) res" where
  "parse_str t c s =
     (let k = search_seq kCRLF s; line = take k s; rest = drop (k + 2) s in
      if k = length s then Inr (True, c, s)
      else case hc_state c of
        kExpectRequestLine \<Rightarrow>
          rbind (processRequestLine line (hc_request c)) (\<lambda>(ok, r).
            if ok then
              parse_str t (c\<lparr>hc_state := kExpectHeaders, hc_request := r\<lparr>rq_receiveTime := t\<rparr>\<rparr>) rest
            else Inr (False, c\<lparr>hc_request := r\<rparr>, s))
      | kExpectHeaders \<Rightarrow>
          (let colon = find_char (CHR '':'') line in
           if colon \<noteq> length line
           then parse_str t (c\<lparr>hc_request := addHeader line colon (hc_request c)\<rparr>) rest
           else Inr (True, c\<lparr>hc_state := kGotAll\<rparr>, rest))
      | kExpectBody \<Rightarrow> Inr (True, c, s)
      | kGotAll \<Rightarrow> Inr (True, c, s))"
  by pat_completeness auto
termination
  by (relation "measure (\<lambda>(t, c, s). length s)") (auto simp: nonempty_if_found)

declare parse_str.simps [simp del]

definition live_state :: "HttpContext \<Rightarrow> bool" where
  "live_state c \<longleftrightarrow> hc_state c = kExpectRequestLine \<or> hc_state c = kExpectHeaders"

lemma kCRLF_length [simp]: "length kCRLF = 2"
  by (simp add: kCRLF_def)

lemma parse_str_none:
  "search_seq kCRLF s = length s \<Longrightarrow> parse_str t c s = Inr (True, c, s)"
  by (simp add: parse_str.simps Let_def)

lemma parse_str_line:
  assumes "hc_state c = kExpectRequestLine" "search_seq kCRLF s \<noteq> length s"
  shows "parse_str t c s =
    rbind (processRequestLine (take (search_seq kCRLF s) s) (hc_request c)) (\<lambda>(ok, r).
      if ok then parse_str t (c\<lparr>hc_state := kExpectHeaders, hc_request := r\<lparr>rq_receiveTime := t\<rparr>\<rparr>)
                   (drop (search_seq kCRLF s + 2) s)
      else Inr (False, c\<lparr>hc_request := r\<rparr>, s))"
  using assms by (subst parse_str.simps) (simp add: Let_def del: add_2_eq_Suc')

lemma parse_str_header:
  assumes "hc_state c = kExpectHeaders" "search_seq kCRLF s \<noteq> length s"
  shows "parse_str t c s =
    (let line = take (search_seq kCRLF s) s; colon = find_char (CHR '':'') line;
         rest = drop (search_seq kCRLF s + 2) s
     in if colon \<noteq> length line
        then parse_str t (c\<lparr>hc_request := addHeader line colon (hc_request c)\<rparr>) rest
        else Inr (True, c\<lparr>hc_state := kGotAll\<rparr>, rest))"
  using assms by (subst parse_str.simps) (simp add: Let_def del: add_2_eq_Suc')

section \<open>Refinement of the loop\<close>

lemma findCRLF_search:
  assumes "Buffer_wf b"
  shows "findCRLF b = (let k = search_seq kCRLF (content b)
     in if k = length (content b) then None else Some (peek b + k))"
  using assms Buffer_wfD [OF assms]
  by (auto simp: findCRLF_def Let_def peek_def beginWrite_def)

lemma line_content:
  "Buffer_wf b \<Longrightarrow> k \<le> length (content b) \<Longrightarrow>
     subrange (peek b) (peek b + k) (buffer b) = take k (content b)"
  by (simp add: peek_def content_def subrange_take)

lemma retrieve_line:
  assumes wf: "Buffer_wf b" and k: "search_seq kCRLF (content b) \<noteq> length (content b)"
  defines "n \<equiv> search_seq kCRLF (content b) + 2"
  obtains b' where "retrieveUntil (peek b + search_seq kCRLF (content b) + 2) b = Inr b'"
    "Buffer_wf b'" "content b' = drop n (content b)"
    "writerIndex b' \<le> max kCheapPrepend (writerIndex b)"
proof -
  have "search_seq kCRLF (content b) < length (content b)"
    using k search_seq_le [of kCRLF "content b"] by simp
  from search_seq_room [OF this] have n: "n \<le> length (content b)"
    by (simp add: n_def)
  have "retrieveUntil (peek b + search_seq kCRLF (content b) + 2) b = retrieve n b"
    using retrieveUntil_ok [OF wf n] by (simp add: n_def add.assoc)
  with retrieve_ok [OF wf n] that show thesis by auto
qed

fun abs_parsed :: "(bool \<times> HttpContext \<times> Buffer) res \<Rightarrow> (bool \<times> HttpContext \<times> string) res" where
  "abs_parsed (Inl e) = Inl e"
| "abs_parsed (Inr (ok, c, b)) = Inr (ok, c, content b)"

fun parsed_wf :: "Buffer \<Rightarrow> (bool \<times> HttpContext \<times> Buffer) res \<Rightarrow> bool" where
  "parsed_wf b (Inl e) \<longleftrightarrow> True"
| "parsed_wf b (Inr (ok, c, b')) \<longleftrightarrow>
     Buffer_wf b' \<and> writerIndex b' \<le> max kCheapPrepend (writerIndex b)"

lemma parsed_wf_trans:
  "parsed_wf b' r \<Longrightarrow> writerIndex b' \<le> max kCheapPrepend (writerIndex b) \<Longrightarrow> parsed_wf b r"
  by (cases "(b, r)" rule: parsed_wf.cases) auto

lemma res_bool_cases:
  obtains (fault) e where "m = Inl e"
    | (bad) r where "m = Inr (False, r)"
    | (ok) r where "m = Inr (True, r)"
proof (cases m)
  case (Inr p)
  with bad ok show thesis by (cases p; cases "fst p") auto
qed (rule fault)

text \<open>
  One iteration: either the loop returns what the specification returns, or both continue on shorter input.
\<close>

definition refined :: "int \<Rightarrow> HttpContext \<Rightarrow> Buffer \<Rightarrow> bool" where
  "refined t c b \<longleftrightarrow>
     (\<exists>r. parseRequest t c b = Some r \<and> abs_parsed r = parse_str t c (content b) \<and> parsed_wf b r)"

lemma refined_none:
  assumes "live_state c" "Buffer_wf b" "search_seq kCRLF (content b) = length (content b)"
  shows "refined t c b"
proof -
  have "findCRLF b = None"
    using findCRLF_search [OF assms(2)] assms(3) by (simp add: Let_def)
  then have "parseRequest t c b = Some (Inr (True, c, b))"
    using assms(1) by (subst parseRequest.simps) (auto simp: live_state_def)
  with assms show ?thesis by (simp add: refined_def parse_str_none)
qed

lemma refined_line:
  assumes wf: "Buffer_wf b" and k: "search_seq kCRLF (content b) \<noteq> length (content b)"
    and c: "hc_state c = kExpectRequestLine"
    and rest: "\<And>c' b'. live_state c' \<Longrightarrow> Buffer_wf b' \<Longrightarrow>
      length (content b') < length (content b) \<Longrightarrow> refined t c' b'"
  shows "refined t c b"
proof -
  let ?s = "content b" and ?k = "search_seq kCRLF (content b)"
  note line = line_content [OF wf search_seq_le [of kCRLF ?s]]
  have crlf: "findCRLF b = Some (peek b + ?k)"
    using k findCRLF_search [OF wf] by (simp add: Let_def)
  obtain b' where b': "retrieveUntil (peek b + ?k + 2) b = Inr b'" "Buffer_wf b'"
      "content b' = drop (?k + 2) ?s" "writerIndex b' \<le> max kCheapPrepend (writerIndex b)"
    using retrieve_line [OF wf k] by blast
  have shorter: "length (content b') < length ?s"
    using b'(3) k by (simp add: nonempty_if_found)
  consider (fault) e where "processRequestLine (take ?k ?s) (hc_request c) = Inl e"
    | (bad) r where "processRequestLine (take ?k ?s) (hc_request c) = Inr (False, r)"
    | (ok) r where "processRequestLine (take ?k ?s) (hc_request c) = Inr (True, r)"
    by (rule res_bool_cases)
  then show ?thesis
  proof cases
    case fault
    then have "parseRequest t c b = Some (Inl e)"
      using c crlf line by (subst parseRequest.simps) simp
    with fault c k show ?thesis by (simp add: refined_def parse_str_line)
  next
    case bad
    then have "parseRequest t c b = Some (Inr (False, c\<lparr>hc_request := r\<rparr>, b))"
      using c crlf line by (subst parseRequest.simps) simp
    with bad c k wf show ?thesis by (simp add: refined_def parse_str_line)
  next
    case ok
    let ?c = "c\<lparr>hc_state := kExpectHeaders, hc_request := r\<lparr>rq_receiveTime := t\<rparr>\<rparr>"
    have "parseRequest t c b = parseRequest t ?c b'"
      using ok c crlf line b'(1) by (subst parseRequest.simps) simp
    moreover have "parse_str t c ?s = parse_str t ?c (content b')"
      using ok c k b'(3) by (simp add: parse_str_line)
    ultimately show ?thesis
      using rest [of ?c b'] b'(2,4) shorter parsed_wf_trans
      by (fastforce simp: refined_def live_state_def)
  qed
qed

lemma refined_header:
  assumes wf: "Buffer_wf b" and k: "search_seq kCRLF (content b) \<noteq> length (content b)"
    and c: "hc_state c = kExpectHeaders"
    and rest: "\<And>c' b'. live_state c' \<Longrightarrow> Buffer_wf b' \<Longrightarrow>
      length (content b') < length (content b) \<Longrightarrow> refined t c' b'"
  shows "refined t c b"
proof -
  let ?s = "content b" and ?k = "search_seq kCRLF (content b)"
  let ?line = "take ?k ?s" and ?colon = "find_char (CHR '':'') (take ?k ?s)"
  note line = line_content [OF wf search_seq_le [of kCRLF ?s]]
  have crlf: "findCRLF b = Some (peek b + ?k)"
    using k findCRLF_search [OF wf] by (simp add: Let_def)
  obtain b' where b': "retrieveUntil (peek b + ?k + 2) b = Inr b'" "Buffer_wf b'"
      "content b' = drop (?k + 2) ?s" "writerIndex b' \<le> max kCheapPrepend (writerIndex b)"
    using retrieve_line [OF wf k] by blast
  have shorter: "length (content b') < length ?s"
    using b'(3) k by (simp add: nonempty_if_found)
  show ?thesis
  proof (cases "?colon = length ?line")
    case True
    then have "parseRequest t c b = Some (Inr (True, c\<lparr>hc_state := kGotAll\<rparr>, b'))"
      using c crlf line b'(1) by (subst parseRequest.simps) (simp add: Let_def)
    with True c k b' show ?thesis by (simp add: refined_def parse_str_header Let_def)
  next
    case False
    let ?c = "c\<lparr>hc_request := addHeader ?line ?colon (hc_request c)\<rparr>"
    have "parseRequest t c b = parseRequest t ?c b'"
      using False c crlf line b'(1) by (subst parseRequest.simps) (simp add: Let_def)
    moreover have "parse_str t c ?s = parse_str t ?c (content b')"
      using False c k b'(3) by (simp add: parse_str_header Let_def)
    ultimately show ?thesis
      using rest [of ?c b'] b'(2,4) shorter c parsed_wf_trans
      by (fastforce simp: refined_def live_state_def)
  qed
qed

lemma parseRequest_refined:
  assumes "live_state c" "Buffer_wf b"
  shows "refined t c b"
  using assms
proof (induction "length (content b)" arbitrary: c b rule: less_induct)
  case less
  show ?case
  proof (cases "search_seq kCRLF (content b) = length (content b)")
    case True
    with less.prems show ?thesis by (rule refined_none)
  next
    case False
    from less.prems(1) consider "hc_state c = kExpectRequestLine" | "hc_state c = kExpectHeaders"
      by (auto simp: live_state_def)
    then show ?thesis
      by cases (rule refined_line [OF less.prems(2) False] refined_header [OF less.prems(2) False],
        assumption, rule less.hyps; assumption)+
  qed
qed

end
