(* ===== verification/Http_Correct.thy ===== *)
theory Http_Correct
  imports Http
begin

text \<open>
  Correctness of the HTTP component: the incremental parser does not depend on how the stream is cut
  into segments, a well-formed request is parsed back to its parts with the following bytes left
  alone, the response serialiser writes the response text, and what the handlers of
  \<^verbatim>\<open>HttpServer.cpp\<close> do with both.
\<close>

section \<open>Segments\<close>

lemma found_less: "search_seq p s \<noteq> length s \<Longrightarrow> search_seq p s < length s"
  using search_seq_le [of p s] by simp

lemma found_append:
  assumes "search_seq kCRLF s \<noteq> length s"
  shows "search_seq kCRLF (s @ u) = search_seq kCRLF s"
    and "search_seq kCRLF (s @ u) \<noteq> length (s @ u)"
    and "take (search_seq kCRLF s) (s @ u) = take (search_seq kCRLF s) s"
    and "drop (search_seq kCRLF s + 2) (s @ u) = drop (search_seq kCRLF s + 2) s @ u"
  using found_less [OF assms] search_seq_room [OF found_less [OF assms]]
  by (simp_all add: search_seq_found_append)

text \<open>What parsing a prefix says of parsing the whole input.\<close>

fun resume :: "int \<Rightarrow> (bool \<times> HttpContext \<times> string) res \<Rightarrow> string \<Rightarrow> (bool \<times> HttpContext \<times> string) res" where
  "resume t (Inl e) u = Inl e"
| "resume t (Inr (ok, c, s)) u =
     (if ok \<and> live_state c then parse_str t c (s @ u) else Inr (ok, c, s @ u))"

lemma live_update [simp]:
  "live_state (c\<lparr>hc_state := kExpectHeaders, hc_request := r\<rparr>)"
  "\<not> live_state (c\<lparr>hc_state := kGotAll\<rparr>)"
  "live_state (c\<lparr>hc_request := r\<rparr>) = live_state c"
  by (simp_all add: live_state_def)

text \<open>The cases of the specification, as an induction rule: each case comes with its equation.\<close>

lemma parse_str_cases_induct [consumes 1, case_names none fault bad line header finish]:
  assumes "live_state c"
    and "\<And>c s. live_state c \<Longrightarrow> search_seq kCRLF s = length s \<Longrightarrow> P c s"
    and "\<And>c s e. hc_state c = kExpectRequestLine \<Longrightarrow> search_seq kCRLF s \<noteq> length s \<Longrightarrow>
      processRequestLine (take (search_seq kCRLF s) s) (hc_request c) = Inl e \<Longrightarrow> P c s"
    and "\<And>c s r. hc_state c = kExpectRequestLine \<Longrightarrow> search_seq kCRLF s \<noteq> length s \<Longrightarrow>
      processRequestLine (take (search_seq kCRLF s) s) (hc_request c) = Inr (False, r) \<Longrightarrow> P c s"
    and "\<And>c s r. hc_state c = kExpectRequestLine \<Longrightarrow> search_seq kCRLF s \<noteq> length s \<Longrightarrow>
      processRequestLine (take (search_seq kCRLF s) s) (hc_request c) = Inr (True, r) \<Longrightarrow>
      P (c\<lparr>hc_state := kExpectHeaders, hc_request := r\<lparr>rq_receiveTime := t\<rparr>\<rparr>)
        (drop (search_seq kCRLF s + 2) s) \<Longrightarrow> P c s"
    and "\<And>c s line. hc_state c = kExpectHeaders \<Longrightarrow> search_seq kCRLF s \<noteq> length s \<Longrightarrow>
      line = take (search_seq kCRLF s) s \<Longrightarrow> find_char (CHR '':'') line \<noteq> length line \<Longrightarrow>
      P (c\<lparr>hc_request := addHeader line (find_char (CHR '':'') line) (hc_request c)\<rparr>)
        (drop (search_seq kCRLF s + 2) s) \<Longrightarrow> P c s"
    and "\<And>c s line. hc_state c = kExpectHeaders \<Longrightarrow> search_seq kCRLF s \<noteq> length s \<Longrightarrow>
      line = take (search_seq kCRLF s) s \<Longrightarrow> find_char (CHR '':'') line = length line \<Longrightarrow> P c s"
  shows "P c s"
  using assms(1)
proof (induction "length s" arbitrary: c s rule: less_induct)
  case less
  show ?case
  proof (cases "search_seq kCRLF s = length s")
    case True
    with less.prems show ?thesis by (rule assms(2))
  next
    case False
    then have rest: "live_state c' \<Longrightarrow> P c' (drop (search_seq kCRLF s + 2) s)" for c'
      using less.hyps [of "drop (search_seq kCRLF s + 2) s" c'] by (simp add: nonempty_if_found)
    from less.prems consider (line) "hc_state c = kExpectRequestLine"
      | (header) "hc_state c = kExpectHeaders"
      by (auto simp: live_state_def)
    then show ?thesis
    proof cases
      case line
      show ?thesis
        by (cases "processRequestLine (take (search_seq kCRLF s) s) (hc_request c)"
            rule: res_bool_cases)
          (rule assms(3-5) [OF line False], assumption, ((rule rest)?, rule live_update)?)+
    next
      case header
      then show ?thesis
        using assms(6,7) [OF header False refl] rest less.prems live_update(3) by blast
    qed
  qed
qed

lemma parse_str_append:
  "live_state c \<Longrightarrow> parse_str t c (s @ u) = resume t (parse_str t c s) u"
proof (induction c s rule: parse_str_cases_induct [where t = t])
  case (none c s)
  then show ?case by (simp add: parse_str_none)
next
  case (fault c s e)
  note f = found_append [OF fault(2), of u]
  from fault f show ?case
    by (simp only: parse_str_line [OF fault(1,2)] parse_str_line [OF fault(1) f(2)]) simp
next
  case (bad c s r)
  note f = found_append [OF bad(2), of u]
  from bad f show ?case
    by (simp only: parse_str_line [OF bad(1,2)] parse_str_line [OF bad(1) f(2)]) simp
next
  case (line c s r)
  note f = found_append [OF line(2), of u]
  from line(3,4) show ?case
    by (simp only: parse_str_line [OF line(1,2)] parse_str_line [OF line(1) f(2)] f rbind.simps
        prod.case if_True)
next
  case (header c s l)
  note f = found_append [OF header(2), of u]
  from header(4,5) show ?case
    by (simp only: parse_str_header [OF header(1,2)] parse_str_header [OF header(1) f(2)] f
        header(3) Let_def if_True not_False_eq_True simp_thms if_False)
next
  case (finish c s l)
  note f = found_append [OF finish(2), of u]
  from finish(4) show ?case
    by (simp only: parse_str_header [OF finish(1,2)] parse_str_header [OF finish(1) f(2)] f
        finish(3) Let_def simp_thms if_False resume.simps live_update)
qed

text \<open>A parse that asks for more input leaves no complete line behind.\<close>

lemma parse_str_drained:
  "live_state c \<Longrightarrow> parse_str t c s = Inr (True, c', s') \<Longrightarrow> live_state c' \<Longrightarrow>
     search_seq kCRLF s' = length s'"
  by (induction c s rule: parse_str_cases_induct [where t = t])
    (auto simp: parse_str_none parse_str_line parse_str_header Let_def)

text \<open>
  The connection's input buffer over several read events: each segment is appended and parsed, as
  \<^verbatim>\<open>TcpConnection::handleRead\<close> and \<^verbatim>\<open>HttpServer::onMessage\<close> do, until the request is complete or refused;
  the segments not yet read are returned.
\<close>

fun feed :: "int \<Rightarrow> string list \<Rightarrow> HttpContext \<Rightarrow> Buffer \<Rightarrow>
    (bool \<times> HttpContext \<times> Buffer \<times> string list) res option" where
  "feed t [] c b = Some (Inr (True, c, b, []))"
| "feed t (x # xs) c b =
     (case append_mem x (length x) b of
        Inl e \<Rightarrow> Some (Inl e)
      | Inr b \<Rightarrow>
          (case parseRequest t c b of
             None \<Rightarrow> None
           | Some (Inl e) \<Rightarrow> Some (Inl e)
           | Some (Inr (ok, c, b)) \<Rightarrow>
               if ok \<and> \<not> HttpContext_gotAll c then feed t xs c b else Some (Inr (ok, c, b, xs))))"

fun unread :: "(bool \<times> HttpContext \<times> Buffer \<times> string list) res \<Rightarrow>
    (bool \<times> HttpContext \<times> string) res" where
  "unread (Inl e) = Inl e"
| "unread (Inr (ok, c, b, xs)) = Inr (ok, c, content b @ concat xs)"

lemma parse_str_ok_state:
  "live_state c \<Longrightarrow> parse_str t c s = Inr (ok, c', s') \<Longrightarrow>
     live_state c' \<or> ok \<and> hc_state c' = kGotAll"
  by (induction c s rule: parse_str_cases_induct [where t = t])
    (auto simp: parse_str_none parse_str_line parse_str_header Let_def live_state_def)

lemma feed_parses:
  assumes "live_state c" "Buffer_wf b" "search_seq kCRLF (content b) = length (content b)"
    and "max kCheapPrepend (writerIndex b) + length (concat xs) \<le> max_size"
  shows "\<exists>r. feed t xs c b = Some r \<and> unread r = parse_str t c (content b @ concat xs)"
  using assms
proof (induction xs arbitrary: c b)
  case Nil
  then show ?case by (simp add: parse_str_none)
next
  case (Cons x xs)
  have "writerIndex b + length x \<le> max_size"
    using Cons.prems(4) by (simp add: max_def split: if_splits)
  then obtain b1 where b1: "append_mem x (length x) b = Inr b1" "Buffer_wf b1"
      "content b1 = content b @ x" "writerIndex b1 \<le> writerIndex b + length x"
    using append_mem_ok [of b "length x" x] Cons.prems(2) by auto
  obtain r where r: "parseRequest t c b1 = Some r" "abs_parsed r = parse_str t c (content b @ x)"
      "parsed_wf b1 r"
    using parseRequest_refined [OF Cons.prems(1) b1(2)] b1(3) by (auto simp: refined_def)
  have whole: "parse_str t c (content b @ concat (x # xs)) = resume t (abs_parsed r) (concat xs)"
    using parse_str_append [OF Cons.prems(1), of t "content b @ x" "concat xs"] r(2) by simp
  show ?case
  proof (cases r)
    case (Inl e)
    with b1(1) r(1) whole show ?thesis by simp
  next
    case (Inr p)
    obtain ok c2 b2 where p: "p = (ok, c2, b2)" by (cases p)
    have parsed: "parse_str t c (content b @ x) = Inr (ok, c2, content b2)"
      using r(2) Inr p by simp
    show ?thesis
    proof (cases "ok \<and> \<not> HttpContext_gotAll c2")
      case True
      with parse_str_ok_state [OF Cons.prems(1) parsed] have live: "live_state c2"
        by (simp add: HttpContext_gotAll_def)
      have "search_seq kCRLF (content b2) = length (content b2)"
        using parse_str_drained [OF Cons.prems(1) _ live] parsed True by simp
      moreover have "max kCheapPrepend (writerIndex b2) + length (concat xs) \<le> max_size"
        using r(3) Inr p b1(4) Cons.prems(4) by (simp add: max_def split: if_splits)
      ultimately have "\<exists>r'. feed t xs c2 b2 = Some r' \<and>
          unread r' = parse_str t c2 (content b2 @ concat xs)"
        using Cons.IH [OF live] r(3) Inr p by simp
      with True live b1(1) r(1) Inr p whole show ?thesis by simp
    next
      case False
      then have "\<not> (ok \<and> live_state c2)"
        by (auto simp: HttpContext_gotAll_def live_state_def)
      with False b1(1) r(1) Inr p whole show ?thesis by auto
    qed
  qed
qed

section \<open>Requests\<close>

fun version_text :: "Version \<Rightarrow> string" where
  "version_text kHttp10 = ''HTTP/1.0''"
| "version_text kHttp11 = ''HTTP/1.1''"
| "version_text kUnknown = []"

definition header_line :: "string \<times> string \<Rightarrow> string" where
  "header_line h = fst h @ '': '' @ snd h"

definition request_line :: "Method \<Rightarrow> string \<Rightarrow> string \<Rightarrow> Version \<Rightarrow> string" where
  "request_line m path query v = methodString m @ '' '' @ path @ query @ '' '' @ version_text v"

definition request_text ::
  "Method \<Rightarrow> string \<Rightarrow> string \<Rightarrow> Version \<Rightarrow> (string \<times> string) list \<Rightarrow> string" where
  "request_text m path query v hs =
     request_line m path query v @ kCRLF @ concat (map (\<lambda>h. header_line h @ kCRLF) hs) @ kCRLF"

definition trimmed :: "string \<Rightarrow> bool" where
  "trimmed s \<longleftrightarrow> (s \<noteq> [] \<longrightarrow> \<not> is_space (hd s) \<and> \<not> is_space (last s))"

definition header_ok :: "string \<times> string \<Rightarrow> bool" where
  "header_ok h \<longleftrightarrow> CHR '':'' \<notin> set (fst h) \<and> CHR 0x0D \<notin> set (fst h) \<and>
     CHR 0x0D \<notin> set (snd h) \<and> trimmed (snd h)"

definition target_ok :: "string \<Rightarrow> string \<Rightarrow> bool" where
  "target_ok path query \<longleftrightarrow>
     CHR '' '' \<notin> set path \<and> CHR ''?'' \<notin> set path \<and> CHR 0x0D \<notin> set path \<and>
     CHR '' '' \<notin> set query \<and> CHR 0x0D \<notin> set query \<and> (query \<noteq> [] \<longrightarrow> hd query = CHR ''?'')"

definition parsed_request ::
  "int \<Rightarrow> Method \<Rightarrow> string \<Rightarrow> string \<Rightarrow> Version \<Rightarrow> (string \<times> string) list \<Rightarrow> HttpRequest" where
  "parsed_request t m path query v hs =
     \<lparr>rq_method = m, rq_version = v, rq_path = path, rq_query = query, rq_receiveTime = t,
      rq_headers = fold (\<lambda>(k, x). om_update k x) hs []\<rparr>"

lemma search_line:
  assumes "CHR 0x0D \<notin> set line"
  shows "search_seq kCRLF (line @ kCRLF @ rest) = length line"
  using assms by (induction line) (auto simp: kCRLF_def)

lemma line_found:
  assumes "CHR 0x0D \<notin> set line"
  shows "search_seq kCRLF (line @ kCRLF @ rest) \<noteq> length (line @ kCRLF @ rest)"
  unfolding search_line [OF assms] by simp

lemma parse_line_text:
  assumes "hc_state c = kExpectRequestLine" "CHR 0x0D \<notin> set line"
  shows "parse_str t c (line @ kCRLF @ rest) =
    rbind (processRequestLine line (hc_request c)) (\<lambda>(ok, r).
      if ok then parse_str t (c\<lparr>hc_state := kExpectHeaders, hc_request := r\<lparr>rq_receiveTime := t\<rparr>\<rparr>) rest
      else Inr (False, c\<lparr>hc_request := r\<rparr>, line @ kCRLF @ rest))"
proof -
  have "drop (length line + 2) (line @ kCRLF @ rest) = rest" by simp
  then show ?thesis
    unfolding parse_str_line [OF assms(1) line_found [OF assms(2)]] search_line [OF assms(2)]
    by (simp only:) simp
qed

lemma parse_header_text:
  assumes "hc_state c = kExpectHeaders" "CHR 0x0D \<notin> set line"
  shows "parse_str t c (line @ kCRLF @ rest) =
    (if CHR '':'' \<in> set line
     then parse_str t (c\<lparr>hc_request := addHeader line (find_char (CHR '':'') line) (hc_request c)\<rparr>) rest
     else Inr (True, c\<lparr>hc_state := kGotAll\<rparr>, rest))"
  unfolding parse_str_header [OF assms(1) line_found [OF assms(2)]] search_line [OF assms(2)] Let_def
  by (simp add: find_char_absent)

lemma rstrip_trimmed:
  assumes "trimmed s"
  shows "rstrip (dropWhile is_space (CHR '' '' # s)) = s"
proof (cases "s = []")
  case False
  with assms have "dropWhile is_space s = s" "dropWhile is_space (rev s) = rev s"
    by (simp_all add: trimmed_def dropWhile_eq_self_iff hd_rev)
  moreover have "is_space (CHR '' '')" by (simp add: is_space_def)
  ultimately show ?thesis by (simp add: rstrip_def)
qed (simp add: rstrip_def is_space_def)

lemma addHeader_line:
  assumes "header_ok h"
  shows "addHeader (header_line h) (length (fst h)) r =
    r\<lparr>rq_headers := om_update (fst h) (snd h) (rq_headers r)\<rparr>"
  using assms rstrip_trimmed [of "snd h"]
  by (simp add: addHeader_def header_line_def header_ok_def Let_def)

lemma header_line_colon:
  assumes "header_ok h"
  shows "find_char (CHR '':'') (header_line h) = length (fst h)"
    "CHR '':'' \<in> set (header_line h)" "CHR 0x0D \<notin> set (header_line h)"
  using assms by (auto simp: header_line_def header_ok_def find_char_append_absent)

lemma parse_header_line:
  assumes "hc_state c = kExpectHeaders" "header_ok h"
  shows "parse_str t c (header_line h @ kCRLF @ rest) =
    parse_str t (c\<lparr>hc_request := (hc_request c)\<lparr>rq_headers :=
      om_update (fst h) (snd h) (rq_headers (hc_request c))\<rparr>\<rparr>) rest"
  by (simp add: parse_header_text assms header_line_colon [OF assms(2)] addHeader_line)

lemma parse_headers:
  assumes "hc_state c = kExpectHeaders" "\<forall>h \<in> set hs. header_ok h"
  shows "parse_str t c (concat (map (\<lambda>h. header_line h @ kCRLF) hs) @ kCRLF @ rest) =
    Inr (True, c\<lparr>hc_state := kGotAll, hc_request := (hc_request c)\<lparr>rq_headers :=
      fold (\<lambda>(k, x). om_update k x) hs (rq_headers (hc_request c))\<rparr>\<rparr>, rest)"
  using assms
proof (induction hs arbitrary: c)
  case Nil
  then show ?case
    using parse_header_text [of c "[]" t rest] by simp
next
  case (Cons h hs)
  then show ?case
    by (simp add: parse_header_line split_beta)
qed

text \<open>The request line is taken apart into its fields.\<close>

lemma method_recognised:
  "m \<noteq> kInvalid \<Longrightarrow> rq_method r = kInvalid \<Longrightarrow>
     setMethod (methodString m) r = Inr (True, r\<lparr>rq_method := m\<rparr>)"
  by (cases m) (simp_all add: setMethod_def)

lemma method_no_blank: "CHR '' '' \<notin> set (methodString m)" "CHR 0x0D \<notin> set (methodString m)"
  by (cases m; simp)+

lemma version_recognised:
  "v \<noteq> kUnknown \<Longrightarrow> length (version_text v) = 8 \<and> take 7 (version_text v) = ''HTTP/1.'' \<and>
     version_text v ! 7 = (if v = kHttp11 then CHR ''1'' else CHR ''0'') \<and>
     CHR 0x0D \<notin> set (version_text v)"
  by (cases v) simp_all

lemma target_split:
  assumes "target_ok path query"
  shows "find_char (CHR ''?'') (path @ query) = length path"
proof (cases query)
  case (Cons q qs)
  with assms show ?thesis by (simp add: target_ok_def find_char_append)
qed (use assms in \<open>simp add: target_ok_def find_char_absent\<close>)

lemma process_request_line:
  assumes "m \<noteq> kInvalid" "v \<noteq> kUnknown" "target_ok path query" "rq_method r = kInvalid"
    "rq_query r = []"
  shows "processRequestLine (request_line m path query v) r =
    Inr (True, r\<lparr>rq_method := m, rq_path := path, rq_query := query, rq_version := v\<rparr>)"
proof -
  let ?rest = "(path @ query) @ CHR '' '' # version_text v"
  have line: "request_line m path query v = methodString m @ CHR '' '' # ?rest"
    by (simp add: request_line_def)
  have space: "find_char (CHR '' '') (request_line m path query v) = length (methodString m)"
    unfolding line by (rule find_char_append) (rule method_no_blank)
  have space2: "find_char (CHR '' '') ?rest = length (path @ query)"
    by (rule find_char_append) (use assms(3) in \<open>simp add: target_ok_def\<close>)
  have parts: "take (length (methodString m)) (request_line m path query v) = methodString m"
    "drop (Suc (length (methodString m))) (request_line m path query v) = ?rest"
    "length (methodString m) \<noteq> length (request_line m path query v)"
    by (simp_all add: line)
  have rest: "take (length (path @ query)) ?rest = path @ query"
    "drop (Suc (length (path @ query))) ?rest = version_text v"
    "length (path @ query) \<noteq> length ?rest"
    by simp_all
  note v = version_recognised [OF assms(2)] and s = method_recognised [OF assms(1,4)]
  show ?thesis
    unfolding processRequestLine_def space parts s rbind.simps prod.case Let_def space2 rest
      target_split [OF assms(3)]
    using v assms(2,5) parts(3) rest(3)
    by (cases v) simp_all
qed

lemma parse_request_text:
  assumes "m \<noteq> kInvalid" "v \<noteq> kUnknown" "target_ok path query" "\<forall>h \<in> set hs. header_ok h"
  shows "parse_str t HttpContext_new (request_text m path query v hs @ rest) =
    Inr (True, \<lparr>hc_state = kGotAll, hc_request = parsed_request t m path query v hs\<rparr>, rest)"
proof -
  have "CHR 0x0D \<notin> set (request_line m path query v)"
    using assms(3) version_recognised [OF assms(2)] method_no_blank
    by (auto simp: request_line_def target_ok_def)
  from parse_line_text [OF _ this, of HttpContext_new t]
    process_request_line [OF assms(1,2,3), of HttpRequest_new] parse_headers [OF _ assms(4)]
  show ?thesis
    by (simp add: request_text_def HttpContext_new_def HttpRequest_new_def parsed_request_def)
qed

section \<open>Responses\<close>

definition response_text :: "HttpResponse \<Rightarrow> string" where
  "response_text r =
     ''HTTP/1.1 '' @ dec_int (status_number (rs_statusCode r)) @ '' '' @ rs_statusMessage r @ crlf @
     (if rs_closeConnection r then ''Connection: close'' @ crlf
      else ''Content-Length: '' @ dec_nat (length (rs_body r)) @ crlf @
           ''Connection: Keep-Alive'' @ crlf) @
     concat (map (\<lambda>h. header_line h @ crlf) (rs_headers r)) @ crlf @ rs_body r"

lemma status_digits: "length (dec_int (status_number c)) \<le> 3"
  using length_dec_nat [of "nat (status_number c)" 3]
  by (cases c) (simp_all add: dec_int_def)

lemma snprintf_fits: "length s < n \<Longrightarrow> snprintf_buf n s = s"
  by (simp add: snprintf_buf_def)

lemma response_pieces_text:
  assumes "length (rs_body r) < 2 ^ 31"
  shows "concat (response_pieces r) = response_text r"
proof -
  have "length (dec_nat (length (rs_body r))) \<le> 10"
    using assms by (intro length_dec_nat) simp_all
  then show ?thesis
    using status_digits [of "rs_statusCode r"]
    by (auto simp: response_pieces_def response_text_def snprintf_fits crlf_def kCRLF_def
        header_line_def split_beta concat_concat_map)
qed

lemma appendToBuffer_text:
  assumes "Buffer_wf b" "writerIndex b + length (response_text r) \<le> max_size"
    and "length (response_text r) < 2 ^ 31"
  shows "\<exists>b'. appendToBuffer r b = Inr b' \<and> Buffer_wf b' \<and> content b' = content b @ response_text r"
proof -
  have "length (rs_body r) < 2 ^ 31"
    using assms(3) by (simp add: response_text_def)
  note pieces = response_pieces_text [OF this]
  have "rfold append_string (response_pieces r) b = rfold Buffer_put (response_pieces r) b"
    using length_le_concat [of _ "response_pieces r"] assms(3) pieces
    by (intro rfold_cong_set) (fastforce simp: append_string_eq Buffer_put_def)
  with bq.puts_ok [OF assms(1), of "response_pieces r"] assms(2) pieces show ?thesis
    by (auto simp: appendToBuffer_def)
qed

section \<open>Handlers\<close>

lemma onRequest_reply:
  fixes cb req
  defines "resp \<equiv> cb req (HttpResponse_new (close_requested req))"
  assumes "length (response_text resp) < 2 ^ 31"
  shows "\<exists>b. onRequest cb req =
      Inr (Send_buffer b # (if rs_closeConnection resp then [Shutdown] else [])) \<and>
    Buffer_wf b \<and> content b = response_text resp"
proof -
  obtain b0 where b0: "Buffer_new kInitialSize = Inr b0" "Buffer_wf b0" "content b0 = []"
      "writerIndex b0 = kCheapPrepend"
    using Buffer_new_ok [of kInitialSize] by (auto simp: buffer_consts)
  then have "\<exists>b. appendToBuffer resp b0 = Inr b \<and> Buffer_wf b \<and> content b = response_text resp"
    using appendToBuffer_text [of b0 resp] assms(2) by (simp add: buffer_consts)
  with b0(1) show ?thesis by (auto simp: onRequest_def Let_def resp_def)
qed

lemma onMessage_incomplete:
  assumes "parseRequest t c b = Some (Inr (True, c', b'))" "\<not> HttpContext_gotAll c'"
  shows "onMessage cb t c b = Some (Inr ([], c', b'))"
  using assms by (simp add: onMessage_def)

lemma onMessage_refused:
  assumes "parseRequest t c b = Some (Inr (False, c', b'))" "\<not> HttpContext_gotAll c'"
  shows "onMessage cb t c b = Some (Inr ([Send_piece bad_request, Shutdown], c', b'))"
  using assms by (simp add: onMessage_def)

lemma reset_new: "HttpContext_reset c = HttpContext_new"
  by (cases c) (simp add: HttpContext_reset_def HttpContext_new_def)

lemma onMessage_complete:
  assumes "parseRequest t c b = Some (Inr (True, c', b'))" "HttpContext_gotAll c'"
  shows "onMessage cb t c b = Some (rbind (onRequest cb (hc_request c')) (\<lambda>actions.
    Inr (actions, HttpContext_new, b')))"
  using assms by (simp add: onMessage_def reset_new)

lemma live_new [simp]: "live_state HttpContext_new"
  by (simp add: live_state_def HttpContext_new_def)

lemma parse_request_buffer:
  assumes "m \<noteq> kInvalid" "v \<noteq> kUnknown" "target_ok path query" "\<forall>h \<in> set hs. header_ok h"
    and "Buffer_wf b" "content b = request_text m path query v hs @ rest"
  shows "\<exists>b'. parseRequest t HttpContext_new b = Some (Inr (True,
      \<lparr>hc_state = kGotAll, hc_request = parsed_request t m path query v hs\<rparr>, b')) \<and>
    Buffer_wf b' \<and> content b' = rest"
proof -
  obtain r where r: "parseRequest t HttpContext_new b = Some r"
      "abs_parsed r = parse_str t HttpContext_new (content b)" "parsed_wf b r"
    using parseRequest_refined [OF live_new assms(5)] by (auto simp: refined_def)
  with parse_request_text [OF assms(1-4)] assms(6) show ?thesis
    by (cases r rule: abs_parsed.cases) auto
qed

lemma setMethod_again: "rq_method r \<noteq> kInvalid \<Longrightarrow> setMethod m r = Inl Assert_failed"
  by (simp add: setMethod_def)

lemma processRequestLine_again:
  assumes "processRequestLine line r = Inr (False, r')" "rq_method r' \<noteq> kInvalid" "rq_method r = kInvalid"
  shows "processRequestLine line r' = Inl Assert_failed"
proof -
  have "find_char (CHR '' '') line \<noteq> length line"
    using assms by (auto simp: processRequestLine_def Let_def)
  then show ?thesis by (simp add: processRequestLine_def setMethod_again assms(2) Let_def)
qed

lemma headers_accepted:
  assumes "hc_state c = kExpectHeaders" "parse_str t c s = Inr (ok, c', s')"
  shows ok
proof -
  have "live_state c" using assms(1) by (simp add: live_state_def)
  then show ?thesis
    using assms
    by (induction c s rule: parse_str_cases_induct [where t = t])
      (auto simp: parse_str_none parse_str_header Let_def)
qed

lemma parse_str_refusal:
  assumes "live_state c" "parse_str t c s = Inr (False, c', s')"
  shows "hc_state c = kExpectRequestLine \<and> s' = s \<and> search_seq kCRLF s \<noteq> length s \<and>
     processRequestLine (take (search_seq kCRLF s) s) (hc_request c) = Inr (False, hc_request c') \<and>
     hc_state c' = kExpectRequestLine"
  using assms
proof (induction c s rule: parse_str_cases_induct [where t = t])
  case (line c s r)
  then show ?case
    using headers_accepted
      [of "c\<lparr>hc_state := kExpectHeaders, hc_request := r\<lparr>rq_receiveTime := t\<rparr>\<rparr>" t _ False c' s']
    by (simp add: parse_str_line)
next
  case (header c s l)
  then show ?case
    using headers_accepted [of c t s False c' s'] by simp
next
  case (finish c s l)
  then show ?case
    using headers_accepted [of c t s False c' s'] by simp
qed (auto simp: parse_str_none parse_str_line live_state_def)

lemma parse_again:
  assumes "live_state c" "rq_method (hc_request c) = kInvalid"
    and "parse_str t c s = Inr (False, c', s')" "rq_method (hc_request c') \<noteq> kInvalid"
  shows "live_state c'" "parse_str t' c' (s' @ u) = Inl Assert_failed"
proof -
  note f = parse_str_refusal [OF assms(1,3)]
  then show "live_state c'" by (simp add: live_state_def)
  have "processRequestLine (take (search_seq kCRLF s) s) (hc_request c') = Inl Assert_failed"
    using processRequestLine_again [OF _ assms(4,2)] f by blast
  with f have "parse_str t' c' s' = Inl Assert_failed"
    by (simp add: parse_str_line)
  then show "parse_str t' c' (s' @ u) = Inl Assert_failed"
    by (simp add: parse_str_append [OF \<open>live_state c'\<close>])
qed

section \<open>Properties\<close>

text \<open>
  C19: in the two states in which a parse can be resumed, \<^verbatim>\<open>parseRequest\<close> returns on every
  well-formed buffer, with the result, the context and the remaining bytes that the string parser
  gives on the readable bytes, and the buffer stays well formed.
\<close>

theorem parseRequest_returns:
  assumes "live_state c" "Buffer_wf b"
  shows "\<exists>r. parseRequest t c b = Some r \<and> abs_parsed r = parse_str t c (content b) \<and> parsed_wf b r"
  using parseRequest_refined [OF assms] by (simp add: refined_def)

theorem parseRequest_returns_witness:
  "\<exists>r. parseRequest 7 HttpContext_new (sample_buffer ''GET / HTTP/1.1'') = Some r \<and>
     abs_parsed r = parse_str 7 HttpContext_new ''GET / HTTP/1.1'' \<and>
     parsed_wf (sample_buffer ''GET / HTTP/1.1'') r"
  using parseRequest_returns [of HttpContext_new "sample_buffer ''GET / HTTP/1.1''" 7]
    sample_buffer_ok [of "''GET / HTTP/1.1''"]
  by simp

text \<open>
  C8: the outcome of a request does not depend on how the network cuts the stream: appending and
  parsing the segments one read event at a time gives the verdict, the request and the unread bytes
  of parsing the whole stream at once. Every call returns.
\<close>

theorem segments_irrelevant:
  assumes "live_state c" "Buffer_wf b" "search_seq kCRLF (content b) = length (content b)"
    and "max kCheapPrepend (writerIndex b) + length (concat xs) \<le> max_size"
  shows "\<exists>r. feed t xs c b = Some r \<and> unread r = parse_str t c (content b @ concat xs)"
  using assms by (rule feed_parses)

theorem segments_irrelevant_witness:
  "\<exists>r. feed 3 [''GET /x HT'', ''TP/1.0'', kCRLF] HttpContext_new (sample_buffer []) = Some r \<and>
     unread r = parse_str 3 HttpContext_new ([] @ concat [''GET /x HT'', ''TP/1.0'', kCRLF])"
proof -
  have "max kCheapPrepend (writerIndex (sample_buffer [])) +
      length (concat [''GET /x HT'', ''TP/1.0'', kCRLF]) \<le> max_size"
    by (simp add: sample_buffer_def buffer_consts)
  from segments_irrelevant [OF live_new sample_buffer_ok(1) _ this] show ?thesis
    by (simp only: sample_buffer_ok(2)) simp
qed

text \<open>
  C3: a request written with any method, path, query, version and header fields is parsed back to
  exactly those parts, answered once with the text of the callback's response, followed by a
  shutdown when the response closes the connection; the context is ready for the next request and
  the bytes after the request (a pipelined request, too) stay in the buffer unanswered.
\<close>

theorem onMessage_answers_request:
  assumes "m \<noteq> kInvalid" "v \<noteq> kUnknown" "target_ok path query" "\<forall>h \<in> set hs. header_ok h"
    and "Buffer_wf b" "content b = request_text m path query v hs @ rest"
    and "resp = cb (parsed_request t m path query v hs)
           (HttpResponse_new (close_requested (parsed_request t m path query v hs)))"
    and "length (response_text resp) < 2 ^ 31"
  shows "\<exists>out b'. onMessage cb t HttpContext_new b =
      Some (Inr (Send_buffer out # (if rs_closeConnection resp then [Shutdown] else []),
                 HttpContext_new, b')) \<and>
    content out = response_text resp \<and> Buffer_wf b' \<and> content b' = rest"
proof -
  obtain b' where b': "parseRequest t HttpContext_new b = Some (Inr (True,
      \<lparr>hc_state = kGotAll, hc_request = parsed_request t m path query v hs\<rparr>, b'))"
      "Buffer_wf b'" "content b' = rest"
    using parse_request_buffer [OF assms(1-6)] by blast
  from onMessage_complete [OF b'(1)] onRequest_reply [of cb "parsed_request t m path query v hs"]
  show ?thesis
    using assms(7,8) b'(2,3) by (auto simp: HttpContext_gotAll_def)
qed

theorem onMessage_answers_request_witness:
  "\<exists>out b'. onMessage defaultHttpCallback 5 HttpContext_new
       (sample_buffer (request_text kGet ''/a'' ''?b'' kHttp11 [(''Host'', ''h'')] @ ''GET'')) =
     Some (Inr ([Send_buffer out, Shutdown], HttpContext_new, b')) \<and>
     content out = ''HTTP/1.1 404 Not Found'' @ kCRLF @ ''Connection: close'' @ kCRLF @ kCRLF \<and>
     Buffer_wf b' \<and> content b' = ''GET''"
proof -
  let ?s = "request_text kGet ''/a'' ''?b'' kHttp11 [(''Host'', ''h'')] @ ''GET''"
  let ?req = "parsed_request 5 kGet ''/a'' ''?b'' kHttp11 [(''Host'', ''h'')]"
  let ?resp = "defaultHttpCallback ?req (HttpResponse_new (close_requested ?req))"
  have len: "length ?s < 1000"
    by (simp add: request_text_def request_line_def header_line_def)
  have resp: "response_text ?resp =
      ''HTTP/1.1 404 Not Found'' @ kCRLF @ ''Connection: close'' @ kCRLF @ kCRLF"
    by (simp add: response_text_def defaultHttpCallback_def response_setters HttpResponse_new_def crlf_def
        dec_int_def dec_nat.simps digit_chars)
  have "target_ok ''/a'' ''?b''" "header_ok (''Host'', ''h'')"
    by (simp_all add: target_ok_def header_ok_def trimmed_def is_space_def)
  with onMessage_answers_request [of kGet kHttp11 "''/a''" "''?b''" "[(''Host'', ''h'')]"
      "sample_buffer ?s" "''GET''" ?resp defaultHttpCallback 5] sample_buffer_ok [OF len] resp
  show ?thesis
    by (simp add: defaultHttpCallback_def response_setters)
qed

text \<open>
  C37: when a request line is refused after its method was recognised, the method stays set in the
  context and the line stays in the buffer, so the next read event on the connection, whatever it
  brings, stops at the assertion of \<^verbatim>\<open>setMethod\<close>.
\<close>

theorem refused_line_asserts_on_next_message:
  assumes "live_state c" "rq_method (hc_request c) = kInvalid" "Buffer_wf b"
    and "parseRequest t c b = Some (Inr (False, c', b'))" "rq_method (hc_request c') \<noteq> kInvalid"
    and "Buffer_wf b''" "content b'' = content b' @ u"
  shows "onMessage cb t c b = Some (Inr ([Send_piece bad_request, Shutdown], c', b')) \<and>
    onMessage cb t' c' b'' = Some (Inl Assert_failed)"
proof -
  have first: "parse_str t c (content b) = Inr (False, c', content b')"
    using parseRequest_refined [OF assms(1,3), of t] assms(4) by (auto simp: refined_def)
  note again = parse_again [OF assms(1,2) first assms(5)]
  obtain r where "parseRequest t' c' b'' = Some r" "abs_parsed r = Inl Assert_failed"
    using parseRequest_refined [OF again(1) assms(6), of t'] again(2) assms(7)
    by (auto simp: refined_def)
  then have "parseRequest t' c' b'' = Some (Inl Assert_failed)"
    by (cases r rule: abs_parsed.cases) auto
  moreover have "\<not> HttpContext_gotAll c'"
    using again(1) by (auto simp: live_state_def HttpContext_gotAll_def)
  ultimately show ?thesis
    using onMessage_refused [OF assms(4)] by (simp add: onMessage_def)
qed

theorem refused_line_asserts_on_next_message_witness:
  "\<exists>c' b'. onMessage defaultHttpCallback 1 HttpContext_new (sample_buffer (''GET x'' @ kCRLF)) =
       Some (Inr ([Send_piece bad_request, Shutdown], c', b')) \<and>
     onMessage defaultHttpCallback 2 c' b' = Some (Inl Assert_failed)"
proof -
  let ?b = "sample_buffer (''GET x'' @ kCRLF)"
  let ?r = "HttpRequest_new\<lparr>rq_method := kGet\<rparr>"
  have b: "Buffer_wf ?b" "content ?b = ''GET x'' @ kCRLF"
    by (rule sample_buffer_ok; simp)+
  have inv: "rq_method (hc_request HttpContext_new) = kInvalid"
    "hc_state HttpContext_new = kExpectRequestLine" "hc_request HttpContext_new = HttpRequest_new"
    by (simp_all add: HttpContext_new_def HttpRequest_new_def)
  have "processRequestLine ''GET x'' HttpRequest_new = Inr (False, ?r)"
    by (simp add: processRequestLine_def setMethod_def HttpRequest_new_def Let_def)
  with parse_line_text [of HttpContext_new "''GET x''" 1 "[]"] inv
  have "parse_str 1 HttpContext_new (''GET x'' @ kCRLF) =
      Inr (False, HttpContext_new\<lparr>hc_request := ?r\<rparr>, ''GET x'' @ kCRLF)"
    by simp
  then obtain b' where b': "parseRequest 1 HttpContext_new ?b =
      Some (Inr (False, HttpContext_new\<lparr>hc_request := ?r\<rparr>, b'))" "Buffer_wf b'"
    using parseRequest_refined [OF live_new b(1), of 1] b(2)
    by (auto simp: refined_def elim!: abs_parsed.elims)
  have "rq_method (hc_request (HttpContext_new\<lparr>hc_request := ?r\<rparr>)) \<noteq> kInvalid" by simp
  from refused_line_asserts_on_next_message
      [OF live_new inv(1) b(1) b'(1) this b'(2), of "[]" defaultHttpCallback 2]
  show ?thesis by auto
qed

end
