(* ===== verification/Dates.thy ===== *)
theory Dates
  imports Prelude
begin

text \<open>
  \<^verbatim>\<open>utility/Date.h\<close>, \<^verbatim>\<open>utility/Date.cpp\<close>, \<^verbatim>\<open>utility/Timestamp.h\<close>, \<^verbatim>\<open>utility/Timestamp.cpp\<close>: Julian day
  numbers and microsecond time stamps. \<^verbatim>\<open>int\<close> and \<^verbatim>\<open>int64_t\<close> values are integers and \<^verbatim>\<open>/\<close>, \<^verbatim>\<open>%\<close> truncate; the
  bounds lemmas show which dates keep every intermediate value inside 32 bits.

  The calendar specification is the Gregorian rule for leap years and month lengths and the
  successor day; the lemmas show that the Julian day number counts days of that calendar and that
  the two conversions are inverse to each other.
\<close>

section \<open>Date\<close>

record YearMonthDay =
  ymd_year :: int
  ymd_month :: int
  ymd_day :: int

definition kDaysPerWeek :: int where
  "kDaysPerWeek = 7"

definition kJulianDayOf1970_01_01 :: int where
  "kJulianDayOf1970_01_01 = 2440588"

definition getJulianDayNumber :: "int \<Rightarrow> int \<Rightarrow> int \<Rightarrow> int" where
  "getJulianDayNumber year month day =
     (let a = cdiv (14 - month) 12;
          y = year + 4800 - a;
          m = month + 12 * a - 3
      in day + cdiv (153 * m + 2) 5 + y * 365 + cdiv y 4 - cdiv y 100 + cdiv y 400 - 32045)"

definition getYearMonthDay :: "int \<Rightarrow> YearMonthDay" where
  "getYearMonthDay julianDayNumber =
     (let a = julianDayNumber + 32044;
          b = cdiv (4 * a + 3) 146097;
          c = a - cdiv (b * 146097) 4;
          d = cdiv (4 * c + 3) 1461;
          e = c - cdiv (1461 * d) 4;
          m = cdiv (5 * e + 2) 153
      in \<lparr>ymd_year = b * 100 + d - 4800 + cdiv m 10,
          ymd_month = m + 3 - 12 * cdiv m 10,
          ymd_day = e - cdiv (153 * m + 2) 5 + 1\<rparr>)"

record Date =
  julianDayNumber :: int

record tm =
  tm_year :: int
  tm_mon :: int
  tm_mday :: int
  tm_hour :: int
  tm_min :: int
  tm_sec :: int

definition Date_invalid :: Date where
  "Date_invalid = \<lparr>julianDayNumber = 0\<rparr>"

definition Date_ymd :: "int \<Rightarrow> int \<Rightarrow> int \<Rightarrow> Date" where
  "Date_ymd y m d = \<lparr>julianDayNumber = getJulianDayNumber y m d\<rparr>"

definition Date_jdn :: "int \<Rightarrow> Date" where
  "Date_jdn julianDayNum = \<lparr>julianDayNumber = julianDayNum\<rparr>"

definition Date_tm :: "tm \<Rightarrow> Date" where
  "Date_tm t = \<lparr>julianDayNumber = getJulianDayNumber (tm_year t + 1900) (tm_mon t + 1) (tm_mday t)\<rparr>"

definition Date_valid :: "Date \<Rightarrow> bool" where
  "Date_valid d \<longleftrightarrow> 0 < julianDayNumber d"

definition yearMonthDay :: "Date \<Rightarrow> YearMonthDay" where
  "yearMonthDay d = getYearMonthDay (julianDayNumber d)"

definition Date_toIsoString :: "Date \<Rightarrow> string" where
  "Date_toIsoString d =
     (let ymd = yearMonthDay d
      in snprintf_buf 32 (dec_blank_pad 4 (ymd_year ymd) @ ''-'' @ dec_zero_pad 2 (ymd_month ymd) @
           ''-'' @ dec_zero_pad 2 (ymd_day ymd)))"

definition weekDay :: "Date \<Rightarrow> int" where
  "weekDay d = cmod (julianDayNumber d + 1) kDaysPerWeek"

definition Date_less :: "Date \<Rightarrow> Date \<Rightarrow> bool" where
  "Date_less x y \<longleftrightarrow> julianDayNumber x < julianDayNumber y"

definition Date_eq :: "Date \<Rightarrow> Date \<Rightarrow> bool" where
  "Date_eq x y \<longleftrightarrow> julianDayNumber x = julianDayNumber y"

section \<open>The Gregorian calendar\<close>

definition leap :: "int \<Rightarrow> bool" where
  "leap y \<longleftrightarrow> 4 dvd y \<and> (\<not> 100 dvd y \<or> 400 dvd y)"

definition days_in_month :: "int \<Rightarrow> int \<Rightarrow> int" where
  "days_in_month y m =
     (if m = 2 then (if leap y then 29 else 28)
      else if m = 4 \<or> m = 6 \<or> m = 9 \<or> m = 11 then 30 else 31)"

definition valid_date :: "int \<Rightarrow> int \<Rightarrow> int \<Rightarrow> bool" where
  "valid_date y m d \<longleftrightarrow> - 4799 \<le> y \<and> 1 \<le> m \<and> m \<le> 12 \<and> 1 \<le> d \<and> d \<le> days_in_month y m"

definition next_day :: "int \<times> int \<times> int \<Rightarrow> int \<times> int \<times> int" where
  "next_day = (\<lambda>(y, m, d).
     if d < days_in_month y m then (y, m, d + 1)
     else if m < 12 then (y, m + 1, 1)
     else (y + 1, 1, 1))"

text \<open>
  The formulas count years from March: \<open>Y\<close> is the year (shifted by 4800) that began in March, \<open>M\<close> the
  month in it, and \<open>day_index Y M d\<close> the number of days before the given day.
\<close>

definition leap_days :: "int \<Rightarrow> int" where
  "leap_days Y = Y div 4 - Y div 100 + Y div 400"

definition month_start :: "int \<Rightarrow> int" where
  "month_start M = (153 * M + 2) div 5"

definition day_index :: "int \<Rightarrow> int \<Rightarrow> int \<Rightarrow> int" where
  "day_index Y M d = (d - 1) + month_start M + 365 * Y + leap_days Y"

definition before_march :: "int \<Rightarrow> int" where
  "before_march m = (if m \<le> 2 then 1 else 0)"

definition march_year :: "int \<Rightarrow> int \<Rightarrow> int" where
  "march_year y m = y + 4800 - before_march m"

definition march_month :: "int \<Rightarrow> int" where
  "march_month m = m + 12 * before_march m - 3"

lemma div_eqI: "0 \<le> r \<Longrightarrow> r < k \<Longrightarrow> a = k * q + r \<Longrightarrow> a div k = (q :: int)"
  by (simp add: int_div_pos_eq)

lemma month_shift: "1 \<le> m \<Longrightarrow> m \<le> 12 \<Longrightarrow> cdiv (14 - m) 12 = before_march m"
  by (simp add: cdiv_nonneg before_march_def) presburger

lemma julian_day_index:
  assumes "- 4799 \<le> y" "1 \<le> m" "m \<le> 12"
  shows "getJulianDayNumber y m d = day_index (march_year y m) (march_month m) d - 32044"
proof -
  have pos: "0 \<le> march_year y m" "0 \<le> 153 * march_month m + 2"
    using assms by (auto simp: march_year_def march_month_def before_march_def)
  have "getJulianDayNumber y m d = (let Y = march_year y m; M = march_month m in
      d + cdiv (153 * M + 2) 5 + Y * 365 + cdiv Y 4 - cdiv Y 100 + cdiv Y 400 - 32045)"
    unfolding getJulianDayNumber_def month_shift [OF assms(2,3)] march_year_def march_month_def Let_def
    by (rule refl)
  then show ?thesis
    using pos by (simp add: Let_def cdiv_nonneg day_index_def month_start_def leap_days_def)
qed

lemma div_succ:
  fixes y k :: int
  assumes "0 < k"
  shows "(y + 1) div k = y div k + (if k dvd y + 1 then 1 else 0)"
proof (cases "k dvd y + 1")
  case True
  then obtain c where c: "y + 1 = k * c" ..
  then have "y = k * (c - 1) + (k - 1)" by (simp add: algebra_simps)
  then have "y div k = c - 1"
    using assms by (intro div_eqI [of "k - 1"]) auto
  with c assms True show ?thesis by simp
next
  case False
  then have "(y + 1) mod k \<noteq> 0" by (simp add: dvd_eq_mod_eq_0)
  then have r: "0 < (y + 1) mod k" using assms by (simp add: order_less_le)
  have "y = k * ((y + 1) div k) + ((y + 1) mod k - 1)"
    using mult_div_mod_eq [of k "y + 1"] by linarith
  then have "y div k = (y + 1) div k"
    using r pos_mod_bound [OF assms, of "y + 1"] by (intro div_eqI [of "(y + 1) mod k - 1"]) linarith+
  with False show ?thesis by simp
qed

lemma leap_dvd: "(100 :: int) dvd z \<Longrightarrow> 4 dvd z"
  by (rule dvd_trans [of _ 100]) simp_all

lemma leap_dvd': "(400 :: int) dvd z \<Longrightarrow> 100 dvd z"
  by (rule dvd_trans [of _ 400]) simp_all

text \<open>A March year has 366 days when the calendar year in which it ends is a leap year.\<close>

lemma leap_shift: "leap (y + 4800) = leap y"
  by (simp add: leap_def dvd_add_left_iff)

lemma leap_days_succ: "leap_days (Y + 1) = leap_days Y + (if leap (Y + 1) then 1 else 0)"
proof -
  define i where "i k = (if k dvd Y + 1 then 1 else (0 :: int))" for k
  have "(if leap (Y + 1) then 1 else 0) = i 4 - i 100 + i 400"
    using leap_dvd [of "Y + 1"] leap_dvd' [of "Y + 1"] unfolding leap_def i_def
    by (simp only: split: if_split) linarith
  moreover have "(Y + 1) div 4 = Y div 4 + i 4" "(Y + 1) div 100 = Y div 100 + i 100"
    "(Y + 1) div 400 = Y div 400 + i 400"
    unfolding i_def by (rule div_succ; simp)+
  moreover have "(a + x) - (b + y) + (c + z) = a - b + c + (x - y + z)" for a b c x y z :: int
    by simp
  ultimately show ?thesis
    unfolding leap_days_def by (simp only:)
qed

text \<open>Where the months start in a March year.\<close>

lemma month_start_table:
  "month_start 0 = 0" "month_start 1 = 31" "month_start 2 = 61" "month_start 3 = 92"
  "month_start 4 = 122" "month_start 5 = 153" "month_start 6 = 184" "month_start 7 = 214"
  "month_start 8 = 245" "month_start 9 = 275" "month_start 10 = 306" "month_start 11 = 337"
  by (simp_all add: month_start_def)

lemma month_cases:
  fixes m :: int
  assumes "1 \<le> m" "m \<le> 12"
  shows "m \<in> {1, 2, 3, 4, 5, 6, 7, 8, 9, 10, 11, 12}"
  using assms by simp presburger

lemma march_year_eq: "march_year y m = (if m \<le> 2 then y + 4799 else y + 4800)"
  by (simp add: march_year_def before_march_def)

lemma march_month_eq: "march_month m = (if m \<le> 2 then m + 9 else m - 3)"
  by (simp add: march_month_def before_march_def)

lemma next_day_index:
  assumes "valid_date y m d" and "next_day (y, m, d) = (y', m', d')"
  shows "day_index (march_year y' m') (march_month m') d' = day_index (march_year y m) (march_month m) d + 1"
proof -
  have m: "1 \<le> m" "m \<le> 12" "d \<le> days_in_month y m"
    using assms(1) by (auto simp: valid_date_def)
  consider (day) "d < days_in_month y m"
    | (feb) "d = days_in_month y m" "m = 2"
    | (month) "d = days_in_month y m" "m \<noteq> 2"
    using m(3) by fastforce
  then show ?thesis
  proof cases
    case day
    with assms(2) show ?thesis by (auto simp: next_day_def day_index_def)
  next
    case feb
    have "leap_days (y + 4800) = leap_days (y + 4799) + (if leap y then 1 else 0)"
      using leap_days_succ [of "y + 4799"] by (simp add: add.assoc leap_shift)
    with feb assms(2) show ?thesis
      by (auto simp: next_day_def march_year_eq march_month_eq days_in_month_def day_index_def
          month_start_table)
  next
    case month
    have "leap_days (4800 + y) = leap_days (y + 4800)" by (simp only: add.commute)
    with month assms(2) month_cases [OF m(1,2)] show ?thesis
      by (auto simp: next_day_def march_year_eq march_month_eq days_in_month_def day_index_def
          month_start_table)
  qed
qed

lemma next_day_valid:
  assumes "valid_date y m d" "next_day (y, m, d) = (y', m', d')"
  shows "valid_date y' m' d'"
  using assms by (auto simp: valid_date_def next_day_def days_in_month_def split: if_splits)

lemma julian_next_day:
  assumes "valid_date y m d" "next_day (y, m, d) = (y', m', d')"
  shows "getJulianDayNumber y' m' d' = getJulianDayNumber y m d + 1"
  using next_day_index [OF assms] next_day_valid [OF assms] assms(1)
  by (simp add: julian_day_index valid_date_def)

section \<open>The inverse conversion\<close>

text \<open>
  A day is given by its 400-year cycle, century, 4-year cycle, year in it, and day in the March year;
  only a leap year has day 365.
\<close>

lemma ymd_of_parts:
  fixes q r u v e M :: int
  assumes bounds: "0 \<le> q" "0 \<le> r" "r \<le> 3" "0 \<le> u" "u \<le> 24" "0 \<le> v" "v \<le> 3" "0 \<le> e" "e \<le> 365"
    and last: "e = 365 \<Longrightarrow> v = 3" "e = 365 \<Longrightarrow> u = 24 \<Longrightarrow> r = 3"
    and month: "0 \<le> M" "153 * M \<le> 5 * e + 2" "5 * e + 2 < 153 * (M + 1)"
  defines "n \<equiv> e + 365 * (4 * u + v) + u + 146097 * q + 36524 * r"
  shows "getYearMonthDay (n - 32044) =
    \<lparr>ymd_year = (4 * q + r) * 100 + (4 * u + v) - 4800 + M div 10,
     ymd_month = M + 3 - 12 * (M div 10),
     ymd_day = e - month_start M + 1\<rparr>"
proof -
  have year: "4 * e + 3 < 1461 + v"
    using bounds last(1) by (cases "e = 365") auto
  have century: "4 * (e + 365 * (4 * u + v) + u) + 3 < 146097 + r"
    using bounds last by (cases "e = 365"; cases "u = 24") auto
  have b: "cdiv (4 * n + 3) 146097 = 4 * q + r"
  proof -
    have "0 \<le> 4 * n + 3 - 146097 * (4 * q + r)" "4 * n + 3 - 146097 * (4 * q + r) < 146097"
      using bounds century unfolding n_def by (simp_all add: algebra_simps)
    moreover have "0 \<le> 4 * n + 3" using bounds unfolding n_def by simp
    ultimately show ?thesis
      by (simp add: cdiv_nonneg div_eqI [of "4 * n + 3 - 146097 * (4 * q + r)"])
  qed
  have c: "n - cdiv ((4 * q + r) * 146097) 4 = e + 365 * (4 * u + v) + u"
  proof -
    have "(4 * q + r) * 146097 div 4 = 146097 * q + 36524 * r"
      using bounds by (intro div_eqI [of r]) (simp_all add: algebra_simps)
    then show ?thesis using bounds by (simp add: cdiv_nonneg n_def)
  qed
  have d: "cdiv (4 * (e + 365 * (4 * u + v) + u) + 3) 1461 = 4 * u + v"
  proof -
    let ?x = "4 * (e + 365 * (4 * u + v) + u) + 3"
    have "?x div 1461 = 4 * u + v"
      using bounds year by (intro div_eqI [of "?x - 1461 * (4 * u + v)"]) (simp_all add: algebra_simps)
    then show ?thesis using bounds by (simp add: cdiv_nonneg)
  qed
  have e: "e + 365 * (4 * u + v) + u - cdiv (1461 * (4 * u + v)) 4 = e"
  proof -
    have "1461 * (4 * u + v) div 4 = 1461 * u + 365 * v"
      using bounds by (intro div_eqI [of v]) (simp_all add: algebra_simps)
    then show ?thesis using bounds by (simp add: cdiv_nonneg)
  qed
  have m: "cdiv (5 * e + 2) 153 = M"
  proof -
    have "(5 * e + 2) div 153 = M"
      using month by (intro div_eqI [of "5 * e + 2 - 153 * M"]) (simp_all add: algebra_simps)
    then show ?thesis using bounds by (simp add: cdiv_nonneg)
  qed
  have a: "n - 32044 + 32044 = n" by simp
  have "cdiv M 10 = M div 10" "cdiv (153 * M + 2) 5 = month_start M"
    using month(1) by (simp_all add: cdiv_nonneg month_start_def)
  then show ?thesis
    unfolding getYearMonthDay_def Let_def a b c d e m by (simp only:)
qed

lemma year_parts:
  fixes Y :: int
  assumes "0 \<le> Y"
  obtains q r u v where "Y = 400 * q + 100 * r + (4 * u + v)" "0 \<le> q" "0 \<le> r" "r \<le> 3"
    "0 \<le> u" "u \<le> 24" "0 \<le> v" "v \<le> 3" "leap_days Y = 97 * q + 24 * r + u"
    "leap (Y + 1) \<Longrightarrow> v = 3" "leap (Y + 1) \<Longrightarrow> u = 24 \<Longrightarrow> r = 3"
proof -
  define q s where "q = Y div 400" and "s = Y mod 400"
  define r t where "r = s div 100" and "t = s mod 100"
  define u v where "u = t div 4" and "v = t mod 4"
  have Y: "Y = 400 * q + 100 * r + (4 * u + v)"
    unfolding q_def r_def u_def v_def t_def s_def by simp
  have b: "0 \<le> q" "0 \<le> r" "r \<le> 3" "0 \<le> u" "u \<le> 24" "0 \<le> v" "v \<le> 3"
    using assms unfolding q_def r_def u_def v_def t_def s_def by auto
  have "Y div 4 = 100 * q + 25 * r + u" "Y div 100 = 4 * q + r" "Y div 400 = q"
    using b by (intro div_eqI [of v] div_eqI [of "4 * u + v"] div_eqI [of "100 * r + (4 * u + v)"];
        simp add: Y)+
  then have days: "leap_days Y = 97 * q + 24 * r + u"
    by (simp add: leap_days_def)
  show thesis
  proof (rule that [OF Y b days])
    assume "leap (Y + 1)"
    then have four: "4 dvd Y + 1" and century: "\<not> 100 dvd Y + 1 \<or> 400 dvd Y + 1"
      by (auto simp: leap_def)
    have "4 dvd v + 1"
    proof -
      have "Y + 1 = 4 * (100 * q + 25 * r + u) + (v + 1)" by (simp add: Y)
      with four show ?thesis by (simp add: dvd_add_right_iff)
    qed
    then show v: "v = 3" using b(6,7) by presburger
    assume u: "u = 24"
    have "Y + 1 = 100 * (4 * q + r + 1)" by (simp add: Y u v)
    with century obtain k where "100 * (4 * q + r + 1) = 400 * k" by auto
    then have "r + 1 = 4 * (k - q)" by simp
    then show "r = 3" using b(2,3) by presburger
  qed
qed

text \<open>The day in the March year determines the month.\<close>

lemma days_in_month_bound:
  assumes "1 \<le> m" "m \<le> 12"
  shows "m \<in> {3, 5, 7, 8, 10, 12, 1} \<and> days_in_month y m = 31 \<or>
    m \<in> {4, 6, 9, 11} \<and> days_in_month y m = 30 \<or> m = 2 \<and> days_in_month y m = 28 \<or>
    m = 2 \<and> days_in_month y m = 29 \<and> leap y"
  using month_cases [OF assms] by (auto simp: days_in_month_def)

lemma month_of_day_aux:
  assumes "1 \<le> m" "m \<le> 12" "1 \<le> d" "d \<le> days_in_month y m"
  defines "e \<equiv> month_start (march_month m) + (d - 1)"
  shows "0 \<le> march_month m \<and> march_month m \<le> 11 \<and> 0 \<le> e \<and> e \<le> 365 \<and>
    153 * march_month m \<le> 5 * e + 2 \<and> 5 * e + 2 < 153 * (march_month m + 1) \<and>
    (e = 365 \<longrightarrow> m = 2 \<and> leap y)"
  using days_in_month_bound [OF assms(1,2), of y] assms(3,4) unfolding e_def
  by (elim disjE conjE insertE emptyE; simp add: march_month_eq month_start_table)

lemma month_of_day:
  assumes "valid_date y m d"
  defines "e \<equiv> month_start (march_month m) + (d - 1)"
  shows "0 \<le> march_month m" "march_month m \<le> 11" "0 \<le> e" "e \<le> 365"
    "153 * march_month m \<le> 5 * e + 2" "5 * e + 2 < 153 * (march_month m + 1)"
    "e = 365 \<Longrightarrow> leap (march_year y m + 1)"
proof -
  note aux = month_of_day_aux [of m d y, folded e_def]
  from aux assms(1) show "0 \<le> march_month m" "march_month m \<le> 11" "0 \<le> e" "e \<le> 365"
    "153 * march_month m \<le> 5 * e + 2" "5 * e + 2 < 153 * (march_month m + 1)"
    by (simp_all add: valid_date_def)
  assume "e = 365"
  with aux assms(1) have "m = 2" "leap y" by (simp_all add: valid_date_def)
  then show "leap (march_year y m + 1)"
    using leap_shift [of y] by (simp add: march_year_eq add.assoc)
qed

lemma ymd_of_julian:
  assumes "valid_date y m d"
  shows "getYearMonthDay (getJulianDayNumber y m d) = \<lparr>ymd_year = y, ymd_month = m, ymd_day = d\<rparr>"
proof -
  let ?Y = "march_year y m" and ?M = "march_month m"
  let ?e = "month_start ?M + (d - 1)"
  note month = month_of_day [OF assms]
  have v: "- 4799 \<le> y" "1 \<le> m" "m \<le> 12" using assms by (auto simp: valid_date_def)
  then have "0 \<le> ?Y" by (simp add: march_year_eq)
  from year_parts [OF this] obtain q r u v where parts:
      "?Y = 400 * q + 100 * r + (4 * u + v)" "0 \<le> q" "0 \<le> r" "r \<le> 3"
      "0 \<le> u" "u \<le> 24" "0 \<le> v" "v \<le> 3" "leap_days ?Y = 97 * q + 24 * r + u"
      "leap (?Y + 1) \<Longrightarrow> v = 3" "leap (?Y + 1) \<Longrightarrow> u = 24 \<Longrightarrow> r = 3"
    by blast
  have "day_index ?Y ?M d = ?e + 365 * (4 * u + v) + u + 146097 * q + 36524 * r"
    unfolding day_index_def parts(9) using parts(1) by simp
  with julian_day_index [OF v]
  have "getYearMonthDay (getJulianDayNumber y m d) =
      getYearMonthDay (?e + 365 * (4 * u + v) + u + 146097 * q + 36524 * r - 32044)"
    by simp
  also have "\<dots> = \<lparr>ymd_year = (4 * q + r) * 100 + (4 * u + v) - 4800 + ?M div 10,
     ymd_month = ?M + 3 - 12 * (?M div 10), ymd_day = ?e - month_start ?M + 1\<rparr>"
    by (rule ymd_of_parts [OF parts(2-8) month(3,4) parts(10) [OF month(7)] parts(11) [OF month(7)]
          month(1,5,6)])
  also have "\<dots> = \<lparr>ymd_year = y, ymd_month = m, ymd_day = d\<rparr>"
  proof -
    have "?M div 10 = before_march m"
      using month_cases [OF v(2,3)] by (auto simp: march_month_eq before_march_def)
    then show ?thesis using parts(1) by (simp add: march_year_def march_month_def)
  qed
  finally show ?thesis .
qed

lemma epoch_day: "getJulianDayNumber 1970 1 1 = kJulianDayOf1970_01_01"
  by (simp add: getJulianDayNumber_def kJulianDayOf1970_01_01_def cdiv_nonneg)

lemma first_day: "valid_date (- 4799) 1 1" "getJulianDayNumber (- 4799) 1 1 = - 31738"
  by (simp_all add: valid_date_def days_in_month_def getJulianDayNumber_def cdiv_nonneg)

lemma julian_surj:
  assumes "- 31738 \<le> n"
  obtains y m d where "valid_date y m d" "getJulianDayNumber y m d = n"
proof -
  have "\<exists>y m d. valid_date y m d \<and> getJulianDayNumber y m d = n"
    using assms
  proof (induction n rule: int_ge_induct)
    case base
    from first_day show ?case by blast
  next
    case (step n)
    then obtain y m d where ymd: "valid_date y m d" "getJulianDayNumber y m d = n" by blast
    obtain y' m' d' where "next_day (y, m, d) = (y', m', d')" by (rule prod_cases3)
    with next_day_valid [OF ymd(1)] julian_next_day [OF ymd(1)] ymd(2) show ?case by blast
  qed
  with that show thesis by blast
qed

lemma julian_of_ymd:
  assumes "- 31738 \<le> n"
  defines "ymd \<equiv> getYearMonthDay n"
  shows "valid_date (ymd_year ymd) (ymd_month ymd) (ymd_day ymd)"
    "getJulianDayNumber (ymd_year ymd) (ymd_month ymd) (ymd_day ymd) = n"
proof -
  obtain y m d where "valid_date y m d" "getJulianDayNumber y m d = n"
    using julian_surj [OF assms(1)] by blast
  with ymd_of_julian [of y m d]
  show "valid_date (ymd_year ymd) (ymd_month ymd) (ymd_day ymd)"
    "getJulianDayNumber (ymd_year ymd) (ymd_month ymd) (ymd_day ymd) = n"
    by (auto simp: ymd_def)
qed

lemma leap_days_bounds:
  assumes "0 \<le> Y"
  shows "0 \<le> leap_days Y" "4 * leap_days Y \<le> Y"
proof -
  obtain q r u v where "Y = 400 * q + 100 * r + (4 * u + v)" "0 \<le> q" "0 \<le> r" "0 \<le> u" "0 \<le> v"
      "leap_days Y = 97 * q + 24 * r + u"
    using year_parts [OF assms] by metis
  then show "0 \<le> leap_days Y" "4 * leap_days Y \<le> Y" by simp_all
qed

lemma julian_bounds:
  assumes "valid_date y m d" "y \<le> 1000000"
  shows "- 31738 \<le> getJulianDayNumber y m d" "getJulianDayNumber y m d < 400000000"
proof -
  have m: "1 \<le> m" "m \<le> 12" "- 4799 \<le> y" "1 \<le> d" using assms(1) by (simp_all add: valid_date_def)
  note month = month_of_day [OF assms(1)]
  have Y: "0 \<le> march_year y m" "march_year y m \<le> 1004800"
    using m assms(2) by (simp_all add: march_year_eq)
  note leap = leap_days_bounds [OF Y(1)]
  have "306 \<le> month_start (march_month m) + 365 * march_year y m"
  proof (cases "m \<le> 2")
    case True
    with m have "m = 1 \<or> m = 2" by linarith
    with Y show ?thesis by (auto simp: march_month_eq month_start_table)
  next
    case False
    with m have "1 \<le> march_year y m" by (simp add: march_year_eq)
    moreover have "0 \<le> month_start (march_month m)"
      using month(1) by (simp add: month_start_def)
    ultimately show ?thesis by linarith
  qed
  with leap m show "- 31738 \<le> getJulianDayNumber y m d"
    by (simp add: julian_day_index day_index_def)
  from leap Y month(4) show "getJulianDayNumber y m d < 400000000"
    by (simp add: julian_day_index [OF m(3,1,2)] day_index_def)
qed

section \<open>Timestamp\<close>

text \<open>
  A time stamp is its \<^verbatim>\<open>microSecondsSinceEpoch_\<close>. \<^verbatim>\<open>gettimeofday\<close> gives \<^verbatim>\<open>now\<close> its argument; the \<^verbatim>\<open>double\<close>
  argument of \<^verbatim>\<open>addTime\<close> is represented by the \<^verbatim>\<open>int64_t\<close> number of microseconds it is converted to.
  \<open>gmtime_r\<close> is the C library's broken-down time in UTC.
\<close>

record Timestamp =
  microSecondsSinceEpoch :: int

definition kMicroSecondsPerSecond :: int where
  "kMicroSecondsPerSecond = 1000 * 1000"

definition Timestamp_invalid :: Timestamp where
  "Timestamp_invalid = \<lparr>microSecondsSinceEpoch = 0\<rparr>"

definition Timestamp_valid :: "Timestamp \<Rightarrow> bool" where
  "Timestamp_valid t \<longleftrightarrow> 0 < microSecondsSinceEpoch t"

definition Timestamp_swap :: "Timestamp \<Rightarrow> Timestamp \<Rightarrow> Timestamp \<times> Timestamp" where
  "Timestamp_swap t that =
     (t\<lparr>microSecondsSinceEpoch := microSecondsSinceEpoch that\<rparr>,
      that\<lparr>microSecondsSinceEpoch := microSecondsSinceEpoch t\<rparr>)"

definition secondsSinceEpoch :: "Timestamp \<Rightarrow> int" where
  "secondsSinceEpoch t = cdiv (microSecondsSinceEpoch t) kMicroSecondsPerSecond"

definition fromUnixTime_us :: "int \<Rightarrow> int \<Rightarrow> Timestamp" where
  "fromUnixTime_us t microseconds = \<lparr>microSecondsSinceEpoch = t * kMicroSecondsPerSecond + microseconds\<rparr>"

definition fromUnixTime :: "int \<Rightarrow> Timestamp" where
  "fromUnixTime t = fromUnixTime_us t 0"

definition Timestamp_now :: "int \<Rightarrow> int \<Rightarrow> Timestamp" where
  "Timestamp_now tv_sec tv_usec = \<lparr>microSecondsSinceEpoch = tv_sec * kMicroSecondsPerSecond + tv_usec\<rparr>"

definition Timestamp_less :: "Timestamp \<Rightarrow> Timestamp \<Rightarrow> bool" where
  "Timestamp_less lhs rhs \<longleftrightarrow> microSecondsSinceEpoch lhs < microSecondsSinceEpoch rhs"

definition Timestamp_eq :: "Timestamp \<Rightarrow> Timestamp \<Rightarrow> bool" where
  "Timestamp_eq lhs rhs \<longleftrightarrow> microSecondsSinceEpoch lhs = microSecondsSinceEpoch rhs"

definition addTime :: "Timestamp \<Rightarrow> int \<Rightarrow> Timestamp" where
  "addTime timestamp delta = \<lparr>microSecondsSinceEpoch = microSecondsSinceEpoch timestamp + delta\<rparr>"

definition Timestamp_toString :: "Timestamp \<Rightarrow> string" where
  "Timestamp_toString t =
     (let seconds = cdiv (microSecondsSinceEpoch t) kMicroSecondsPerSecond;
          microseconds = cmod (microSecondsSinceEpoch t) kMicroSecondsPerSecond
      in snprintf_buf 32 (dec_int seconds @ ''.'' @ dec_zero_pad 6 microseconds))"

definition gmtime_r :: "int \<Rightarrow> tm" where
  "gmtime_r seconds =
     (let days = seconds div 86400; rest = seconds mod 86400;
          ymd = getYearMonthDay (days + kJulianDayOf1970_01_01)
      in \<lparr>tm_year = ymd_year ymd - 1900, tm_mon = ymd_month ymd - 1, tm_mday = ymd_day ymd,
          tm_hour = rest div 3600, tm_min = rest mod 3600 div 60, tm_sec = rest mod 60\<rparr>)"

definition Timestamp_toFormattedString :: "bool \<Rightarrow> Timestamp \<Rightarrow> string" where
  "Timestamp_toFormattedString showMicroseconds t =
     (let seconds = cdiv (microSecondsSinceEpoch t) kMicroSecondsPerSecond;
          tm_time = gmtime_r seconds;
          text = dec_blank_pad 4 (tm_year tm_time + 1900) @ dec_zero_pad 2 (tm_mon tm_time + 1) @
            dec_zero_pad 2 (tm_mday tm_time) @ '' '' @ dec_zero_pad 2 (tm_hour tm_time) @ '':'' @
            dec_zero_pad 2 (tm_min tm_time) @ '':'' @ dec_zero_pad 2 (tm_sec tm_time)
      in if showMicroseconds then
           (let microseconds = cmod (microSecondsSinceEpoch t) kMicroSecondsPerSecond
            in snprintf_buf 64 (text @ ''.'' @ dec_zero_pad 6 microseconds))
         else snprintf_buf 64 text)"

lemma seconds_fromUnixTime:
  assumes "0 \<le> t" "0 \<le> us" "us < kMicroSecondsPerSecond"
  shows "secondsSinceEpoch (fromUnixTime_us t us) = t"
  using assms
  by (simp add: secondsSinceEpoch_def fromUnixTime_us_def cdiv_nonneg kMicroSecondsPerSecond_def
      div_eqI [of us])

lemma less_addTime: "0 < delta \<Longrightarrow> Timestamp_less t (addTime t delta)"
  by (simp add: Timestamp_less_def addTime_def)

section \<open>Widths\<close>

text \<open>The values that the two conversions compute, in the order of the source.\<close>

definition julian_steps :: "int \<Rightarrow> int \<Rightarrow> int \<Rightarrow> int list" where
  "julian_steps year month day =
     (let a = cdiv (14 - month) 12; y = year + 4800 - a; m = month + 12 * a - 3;
          s1 = day + cdiv (153 * m + 2) 5; s2 = s1 + y * 365; s3 = s2 + cdiv y 4;
          s4 = s3 - cdiv y 100; s5 = s4 + cdiv y 400
      in [14 - month, year + 4800, y, month + 12 * a, m, 153 * m, 153 * m + 2, s1, y * 365, s2, s3,
          s4, s5, s5 - 32045])"

definition ymd_steps :: "int \<Rightarrow> int list" where
  "ymd_steps n =
     (let a = n + 32044; b = cdiv (4 * a + 3) 146097; c = a - cdiv (b * 146097) 4;
          d = cdiv (4 * c + 3) 1461; e = c - cdiv (1461 * d) 4; m = cdiv (5 * e + 2) 153
      in [a, 4 * a, 4 * a + 3, b * 146097, c, 4 * c, 4 * c + 3, 1461 * d, e, 5 * e, 5 * e + 2, 153 * m,
          153 * m + 2, e - cdiv (153 * m + 2) 5, e - cdiv (153 * m + 2) 5 + 1, m + 3,
          m + 3 - 12 * cdiv m 10, b * 100, b * 100 + d, b * 100 + d - 4800,
          b * 100 + d - 4800 + cdiv m 10])"

lemma julian_steps_last: "last (julian_steps y m d) = getJulianDayNumber y m d"
  by (simp add: julian_steps_def getJulianDayNumber_def Let_def)

lemma div_bounds:
  fixes a k :: int
  assumes "0 \<le> a" "0 < k"
  shows "0 \<le> a div k \<and> k * (a div k) \<le> a \<and> a < k * (a div k) + k"
proof -
  have "k * (a div k) + a mod k = a" by (rule mult_div_mod_eq)
  moreover have "0 \<le> a mod k" "a mod k < k" "0 \<le> a div k"
    using assms by (simp_all add: pos_imp_zdiv_nonneg_iff)
  ultimately show ?thesis by linarith
qed

lemma cdiv_bounds: "0 \<le> a \<Longrightarrow> 0 < k \<Longrightarrow> 0 \<le> cdiv a k \<and> k * cdiv a k \<le> a \<and> a < k * cdiv a k + k"
  using div_bounds by (simp add: cdiv_nonneg)

lemma julian_steps_int32:
  assumes "- 4799 \<le> y" "y \<le> 1000000" "1 \<le> m" "m \<le> 12" "1 \<le> d" "d \<le> 31"
  shows "\<forall>x \<in> set (julian_steps y m d). in_int32 x"
proof -
  define a where "a = cdiv (14 - m) 12"
  have a: "0 \<le> a" "a \<le> 1" "m + 12 * a - 3 \<ge> 0" "m + 12 * a \<le> 14"
    using month_shift [OF assms(3,4)] assms(3,4) by (auto simp: a_def before_march_def)
  define y' M where "y' = y + 4800 - a" and "M = m + 12 * a - 3"
  have M: "0 \<le> M" "M \<le> 11" "0 \<le> y'" "y' \<le> 1004800" using a assms by (auto simp: M_def y'_def)
  define k k4 k100 k400 where "k = cdiv (153 * M + 2) 5" and "k4 = cdiv y' 4"
    and "k100 = cdiv y' 100" and "k400 = cdiv y' 400"
  have "0 \<le> k \<and> 5 * k \<le> 153 * M + 2" "0 \<le> k4 \<and> 4 * k4 \<le> y'" "0 \<le> k100 \<and> 100 * k100 \<le> y'"
    "0 \<le> k400 \<and> 400 * k400 \<le> y'"
    using cdiv_bounds [of "153 * M + 2" 5] cdiv_bounds [of y' 4] cdiv_bounds [of y' 100]
      cdiv_bounds [of y' 400] M
    by (simp_all add: k_def k4_def k100_def k400_def)
  moreover have "julian_steps y m d = [14 - m, y + 4800, y', m + 12 * a, M, 153 * M, 153 * M + 2,
      d + k, y' * 365, d + k + y' * 365, d + k + y' * 365 + k4, d + k + y' * 365 + k4 - k100,
      d + k + y' * 365 + k4 - k100 + k400, d + k + y' * 365 + k4 - k100 + k400 - 32045]"
    by (simp add: julian_steps_def Let_def a_def y'_def M_def k_def k4_def k100_def k400_def)
  ultimately show ?thesis
    using assms a M by (simp add: in_int32_def)
qed

lemma ymd_steps_int32:
  assumes "- 31738 \<le> n" "n \<le> 500000000"
  shows "\<forall>x \<in> set (ymd_steps n). in_int32 x"
proof -
  define a b cb where "a = n + 32044" and "b = cdiv (4 * a + 3) 146097" and "cb = cdiv (b * 146097) 4"
  have b: "0 \<le> b \<and> 146097 * b \<le> 4 * a + 3 \<and> 4 * a + 3 < 146097 * b + 146097"
    using assms unfolding b_def by (intro cdiv_bounds) (simp_all add: a_def)
  then have cb: "4 * cb \<le> b * 146097 \<and> b * 146097 < 4 * cb + 4"
    using cdiv_bounds [of "b * 146097" 4] by (simp add: cb_def)
  define c where "c = a - cb"
  have c: "0 \<le> c" "c \<le> 36524" using b cb unfolding c_def by linarith+
  define d ed where "d = cdiv (4 * c + 3) 1461" and "ed = cdiv (1461 * d) 4"
  have d: "0 \<le> d \<and> 1461 * d \<le> 4 * c + 3 \<and> 4 * c + 3 < 1461 * d + 1461"
    using c unfolding d_def by (intro cdiv_bounds) simp_all
  then have ed: "4 * ed \<le> 1461 * d \<and> 1461 * d < 4 * ed + 4"
    using cdiv_bounds [of "1461 * d" 4] by (simp add: ed_def)
  define e where "e = c - ed"
  have e: "0 \<le> e" "e \<le> 366" using d ed unfolding e_def by linarith+
  define m m5 m10 where "m = cdiv (5 * e + 2) 153" and "m5 = cdiv (153 * m + 2) 5" and "m10 = cdiv m 10"
  have m: "0 \<le> m \<and> 153 * m \<le> 5 * e + 2"
    using cdiv_bounds [of "5 * e + 2" 153] e by (simp add: m_def)
  then have m': "0 \<le> m5 \<and> 5 * m5 \<le> 153 * m + 2" "0 \<le> m10 \<and> 10 * m10 \<le> m"
    using cdiv_bounds [of "153 * m + 2" 5] cdiv_bounds [of m 10] by (simp_all add: m5_def m10_def)
  have "ymd_steps n = [a, 4 * a, 4 * a + 3, b * 146097, c, 4 * c, 4 * c + 3, 1461 * d, e, 5 * e,
      5 * e + 2, 153 * m, 153 * m + 2, e - m5, e - m5 + 1, m + 3, m + 3 - 12 * m10, b * 100,
      b * 100 + d, b * 100 + d - 4800, b * 100 + d - 4800 + m10]"
    by (simp add: ymd_steps_def Let_def a_def b_def cb_def c_def d_def ed_def e_def m_def m5_def m10_def)
  moreover have "0 \<le> a" "a \<le> 500032044" using assms by (simp_all add: a_def)
  ultimately show ?thesis
    using b c d e m m' by (simp add: in_int32_def)
qed

section \<open>Properties\<close>

text \<open>
  C28: for every date of the Gregorian calendar from the year -4799 on, the Julian day number
  determines the date (year, month and day come back), the next calendar day has the next number,
  the day of the week advances by one modulo seven, and 1970-01-01 has the number 2440588.
\<close>

theorem Date_counts_calendar_days:
  assumes "valid_date y m d" "next_day (y, m, d) = (y', m', d')"
  shows "yearMonthDay (Date_ymd y m d) = \<lparr>ymd_year = y, ymd_month = m, ymd_day = d\<rparr> \<and>
    julianDayNumber (Date_ymd y' m' d') = julianDayNumber (Date_ymd y m d) + 1 \<and>
    (0 \<le> julianDayNumber (Date_ymd y m d) \<longrightarrow>
       weekDay (Date_ymd y' m' d') = (weekDay (Date_ymd y m d) + 1) mod 7) \<and>
    Date_ymd 1970 1 1 = Date_jdn 2440588"
proof (intro conjI impI)
  show "yearMonthDay (Date_ymd y m d) = \<lparr>ymd_year = y, ymd_month = m, ymd_day = d\<rparr>"
    by (simp add: yearMonthDay_def Date_ymd_def ymd_of_julian assms(1))
  show succ: "julianDayNumber (Date_ymd y' m' d') = julianDayNumber (Date_ymd y m d) + 1"
    by (simp add: Date_ymd_def julian_next_day [OF assms])
  show "weekDay (Date_ymd y' m' d') = (weekDay (Date_ymd y m d) + 1) mod 7"
    if "0 \<le> julianDayNumber (Date_ymd y m d)"
    using that by (simp add: weekDay_def succ cmod_nonneg kDaysPerWeek_def mod_add_left_eq)
  show "Date_ymd 1970 1 1 = Date_jdn 2440588"
    by (simp add: Date_ymd_def Date_jdn_def epoch_day kJulianDayOf1970_01_01_def)
qed

theorem Date_counts_calendar_days_witness:
  "yearMonthDay (Date_ymd 2000 2 29) = \<lparr>ymd_year = 2000, ymd_month = 2, ymd_day = 29\<rparr> \<and>
   julianDayNumber (Date_ymd 2000 3 1) = julianDayNumber (Date_ymd 2000 2 29) + 1"
  using Date_counts_calendar_days [of 2000 2 29 2000 3 1]
  by (simp add: valid_date_def days_in_month_def leap_def next_day_def)

text \<open>
  C36: no intermediate value of the two conversions leaves 32 bits, for dates up to the year one
  million and for day numbers up to 500 million.
\<close>

theorem Date_no_overflow:
  assumes "valid_date y m d" "y \<le> 1000000" "- 31738 \<le> n" "n \<le> 500000000"
  shows "(\<forall>x \<in> set (julian_steps y m d). in_int32 x) \<and> last (julian_steps y m d) = getJulianDayNumber y m d \<and>
    (\<forall>x \<in> set (ymd_steps n). in_int32 x) \<and> last (ymd_steps n) = ymd_year (getYearMonthDay n)"
proof -
  have "d \<le> 31" using assms(1) by (auto simp: valid_date_def days_in_month_def split: if_splits)
  moreover have "last (ymd_steps n) = ymd_year (getYearMonthDay n)"
    by (simp add: ymd_steps_def getYearMonthDay_def Let_def)
  ultimately show ?thesis
    using julian_steps_int32 [of y m d] ymd_steps_int32 [OF assms(3,4)] julian_steps_last assms(1,2)
    by (simp add: valid_date_def)
qed

theorem Date_no_overflow_witness:
  "list_all in_int32 (julian_steps 2500 12 31) \<and> list_all in_int32 (ymd_steps 2634532)"
  using Date_no_overflow [of 2500 12 31 2634532]
  by (simp add: valid_date_def days_in_month_def list_all_iff)

end
