(* ===== verification/Time_Zone.thy ===== *)
theory Time_Zone
  imports Dates
begin

text \<open>
  \<^verbatim>\<open>utility/TimeZone.h\<close>, \<^verbatim>\<open>utility/TimeZone.cpp\<close>: broken-down time and the transition table of a zone with
  its two searches. Indexing a vector out of range is \<open>Undefined\<close>, \<^verbatim>\<open>at\<close> throws \<open>Out_of_range\<close>. The
  pointers that \<^verbatim>\<open>findLocalTime\<close> returns are never null, so the element itself is returned.
\<close>

section \<open>Broken-down time\<close>

record DateTime =
  dt_year :: int
  dt_month :: int
  dt_day :: int
  dt_hour :: int
  dt_minute :: int
  dt_second :: int

definition DateTime_zero :: DateTime where
  "DateTime_zero = \<lparr>dt_year = 0, dt_month = 0, dt_day = 0, dt_hour = 0, dt_minute = 0, dt_second = 0\<rparr>"

definition DateTime_tm :: "tm \<Rightarrow> DateTime" where
  "DateTime_tm t =
     \<lparr>dt_year = tm_year t + 1900, dt_month = tm_mon t + 1, dt_day = tm_mday t,
      dt_hour = tm_hour t, dt_minute = tm_min t, dt_second = tm_sec t\<rparr>"

definition DateTime_toIsoString :: "DateTime \<Rightarrow> string" where
  "DateTime_toIsoString dt =
     snprintf_buf 64 (dec_zero_pad 4 (dt_year dt) @ ''-'' @ dec_zero_pad 2 (dt_month dt) @ ''-'' @
       dec_zero_pad 2 (dt_day dt) @ '' '' @ dec_zero_pad 2 (dt_hour dt) @ '':'' @
       dec_zero_pad 2 (dt_minute dt) @ '':'' @ dec_zero_pad 2 (dt_second dt))"

definition kSecondsPerDay :: int where
  "kSecondsPerDay = 24 * 60 * 60"

definition fillHMS :: "int \<Rightarrow> DateTime \<Rightarrow> DateTime" where
  "fillHMS seconds dt =
     (let minutes = seconds div 60
      in dt\<lparr>dt_second := seconds mod 60, dt_minute := minutes mod 60, dt_hour := minutes div 60\<rparr>)"

definition BreakTime :: "int \<Rightarrow> DateTime" where
  "BreakTime t =
     (let seconds = cast_int32 (cmod t kSecondsPerDay);
          days = cast_int32 (cdiv t kSecondsPerDay);
          (seconds, days) = (if seconds < 0 then (seconds + kSecondsPerDay, days - 1) else (seconds, days));
          dt = fillHMS (cast_uint32 seconds) DateTime_zero;
          ymd = yearMonthDay (Date_jdn (days + kJulianDayOf1970_01_01))
      in dt\<lparr>dt_year := ymd_year ymd, dt_month := ymd_month ymd, dt_day := ymd_day ymd\<rparr>)"

definition toUtcTime :: "int \<Rightarrow> DateTime" where
  "toUtcTime seconds = BreakTime seconds"

definition fromUtcTime :: "DateTime \<Rightarrow> int" where
  "fromUtcTime dt =
     (let date = Date_ymd (dt_year dt) (dt_month dt) (dt_day dt);
          secondsInDay = dt_hour dt * 3600 + dt_minute dt * 60 + dt_second dt;
          days = julianDayNumber date - kJulianDayOf1970_01_01
      in days * kSecondsPerDay + secondsInDay)"

section \<open>TimeZone::Data\<close>

record Transition =
  utctime :: int
  localtime :: int
  localtimeIdx :: nat

record LocalTime =
  utcOffset :: int
  isDst :: bool
  desigIdx :: int

record Data =
  transitions :: "Transition list"
  localtimes :: "LocalTime list"
  tzstring :: string
  tz_abbreviation :: string

definition Data_new :: Data where
  "Data_new = \<lparr>transitions = [], localtimes = [], tzstring = [], tz_abbreviation = []\<rparr>"

definition addLocalTime :: "int \<Rightarrow> bool \<Rightarrow> int \<Rightarrow> Data \<Rightarrow> Data" where
  "addLocalTime offset dst idx data =
     data\<lparr>localtimes := localtimes data @ [\<lparr>utcOffset = offset, isDst = dst, desigIdx = idx\<rparr>]\<rparr>"

definition addTransition :: "int \<Rightarrow> nat \<Rightarrow> Data \<Rightarrow> Data res" where
  "addTransition utcTime idx data =
     (if idx < length (localtimes data) then
        let lt = localtimes data ! idx
        in Inr (data\<lparr>transitions := transitions data @
             [\<lparr>utctime = utcTime, localtime = utcTime + utcOffset lt, localtimeIdx = idx\<rparr>]\<rparr>)
      else Inl Out_of_range)"

definition vec_front :: "'a list \<Rightarrow> 'a res" where
  "vec_front xs = (case xs of [] \<Rightarrow> Inl Undefined | x # _ \<Rightarrow> Inr x)"

definition vec_index :: "'a list \<Rightarrow> nat \<Rightarrow> 'a res" where
  "vec_index xs i = (if i < length xs then Inr (xs ! i) else Inl Undefined)"

text \<open>
  \<^verbatim>\<open>std::upper_bound\<close> for the predicate "the sentry is less than the element": the first such
  element, provided the range is partitioned by the predicate.
\<close>

definition upper_bound :: "('a \<Rightarrow> bool) \<Rightarrow> 'a list \<Rightarrow> nat res" where
  "upper_bound P xs =
     (let i = length (takeWhile (\<lambda>x. \<not> P x) xs)
      in if list_all P (drop i xs) then Inr i else Inl Undefined)"

definition findLocalTime :: "int \<Rightarrow> Data \<Rightarrow> LocalTime res" where
  "findLocalTime utcTime data =
     (let ts = transitions data in
      if ts = [] \<or> utcTime < utctime (hd ts) then vec_front (localtimes data)
      else rbind (upper_bound (\<lambda>t. utcTime < utctime t) ts) (\<lambda>transI.
        require (transI \<noteq> 0)
          (if transI \<noteq> length ts then vec_index (localtimes data) (localtimeIdx (ts ! (transI - 1)))
           else vec_index (localtimes data) (localtimeIdx (last ts)))))"

definition findLocalTime_local :: "DateTime \<Rightarrow> bool \<Rightarrow> Data \<Rightarrow> LocalTime res" where
  "findLocalTime_local lt postTransition data =
     (let local = fromUtcTime lt; ts = transitions data; lts = localtimes data in
      if ts = [] \<or> local < localtime (hd ts) then vec_front lts
      else rbind (upper_bound (\<lambda>t. local < localtime t) ts) (\<lambda>transI.
        require (transI \<noteq> 0)
          (if transI = length ts then vec_index lts (localtimeIdx (last ts))
           else
             let prior_trans = ts ! (transI - 1) in
             rbind (vec_index lts (localtimeIdx prior_trans)) (\<lambda>prior.
               let prior_second = utctime (ts ! transI) - 1 + utcOffset prior in
               if prior_second < local then
                 (if postTransition then vec_index lts (localtimeIdx (ts ! transI)) else Inr prior)
               else
                 let transI = transI - 1 in
                 rbind (if transI \<noteq> 0 then
                          (let prior_trans = ts ! (transI - 1) in
                           rbind (vec_index lts (localtimeIdx prior_trans)) (\<lambda>prior.
                             Inr (prior_trans, utctime (ts ! transI) - 1 + utcOffset prior)))
                        else Inr (prior_trans, prior_second))
                   (\<lambda>(prior_trans, prior_second).
                     if local \<le> prior_second then
                       (if postTransition then vec_index lts (localtimeIdx (ts ! transI))
                        else vec_index lts (localtimeIdx prior_trans))
                     else vec_index lts (localtimeIdx (ts ! transI)))))))"

section \<open>TimeZone\<close>

record TimeZone =
  tz_data :: "Data option"

definition TimeZone_fixed :: "int \<Rightarrow> string \<Rightarrow> TimeZone" where
  "TimeZone_fixed eastOfUtc name =
     \<lparr>tz_data = Some ((addLocalTime eastOfUtc False 0 Data_new)\<lparr>tz_abbreviation := name\<rparr>)\<rparr>"

definition TimeZone_UTC :: TimeZone where
  "TimeZone_UTC = TimeZone_fixed 0 ''UTC''"

definition TimeZone_valid :: "TimeZone \<Rightarrow> bool" where
  "TimeZone_valid tz \<longleftrightarrow> tz_data tz \<noteq> None"

text \<open>The result and the value stored through \<^verbatim>\<open>utcOffset\<close>.\<close>

definition toLocalTime :: "int \<Rightarrow> TimeZone \<Rightarrow> (DateTime \<times> int) res" where
  "toLocalTime seconds tz =
     (case tz_data tz of
        None \<Rightarrow> Inl Assert_failed
      | Some data \<Rightarrow>
          rbind (findLocalTime seconds data) (\<lambda>local.
            Inr (BreakTime (seconds + utcOffset local), utcOffset local)))"

definition fromLocalTime :: "DateTime \<Rightarrow> bool \<Rightarrow> TimeZone \<Rightarrow> int res" where
  "fromLocalTime lt postTransition tz =
     (case tz_data tz of
        None \<Rightarrow> Inl Assert_failed
      | Some data \<Rightarrow>
          rbind (findLocalTime_local lt postTransition data) (\<lambda>local.
            Inr (fromUtcTime lt - utcOffset local)))"

section \<open>UTC\<close>

text \<open>
  Seconds for which the day number stays in the range of the calendar lemmas and of 32-bit
  arithmetic, and the broken-down times of those seconds.
\<close>

definition utc_range :: "int \<Rightarrow> bool" where
  "utc_range t \<longleftrightarrow> (- 31738 - kJulianDayOf1970_01_01) * kSecondsPerDay \<le> t \<and>
     t < 400000000 * kSecondsPerDay"

definition DateTime_ok :: "DateTime \<Rightarrow> bool" where
  "DateTime_ok dt \<longleftrightarrow> valid_date (dt_year dt) (dt_month dt) (dt_day dt) \<and> dt_year dt \<le> 1000000 \<and>
     0 \<le> dt_hour dt \<and> dt_hour dt < 24 \<and> 0 \<le> dt_minute dt \<and> dt_minute dt < 60 \<and>
     0 \<le> dt_second dt \<and> dt_second dt < 60"

lemma trunc_to_floor:
  fixes t k :: int
  assumes k: "0 < k"
  shows "(if cmod t k < 0 then cdiv t k - 1 else cdiv t k) = t div k"
    and "(if cmod t k < 0 then cmod t k + k else cmod t k) = t mod k"
proof -
  let ?q = "if cmod t k < 0 then cdiv t k - 1 else cdiv t k"
  let ?r = "if cmod t k < 0 then cmod t k + k else cmod t k"
  have bounds: "- k < cmod t k" "cmod t k < k"
  proof -
    have "0 \<le> (- t) mod k" "(- t) mod k < k" "0 \<le> t mod k" "t mod k < k" using k by simp_all
    moreover have "cmod t k = - ((- t) mod k) \<or> cmod t k = t mod k"
      using cmod_neg [OF _ k, of t] cmod_nonneg [OF _ k, of t] by linarith
    ultimately show "- k < cmod t k" "cmod t k < k" by linarith+
  qed
  have "t = k * ?q + ?r"
    using cdiv_cmod [of t k] by (simp add: algebra_simps)
  moreover have "0 \<le> ?r" "?r < k" using bounds by auto
  ultimately show q: "?q = t div k"
    using div_eqI [of ?r k t ?q] by simp
  show "?r = t mod k"
    using \<open>t = k * ?q + ?r\<close> mult_div_mod_eq [of k t] unfolding q by linarith
qed

lemma day_bounds:
  assumes "utc_range t"
  shows "- 31738 \<le> t div kSecondsPerDay + kJulianDayOf1970_01_01" "t div kSecondsPerDay < 400000000"
proof -
  have "(- 31738 - kJulianDayOf1970_01_01) * kSecondsPerDay div kSecondsPerDay \<le> t div kSecondsPerDay"
    using assms by (intro zdiv_mono1) (auto simp: utc_range_def kSecondsPerDay_def)
  then show "- 31738 \<le> t div kSecondsPerDay + kJulianDayOf1970_01_01"
    by (simp add: kSecondsPerDay_def)
  show "t div kSecondsPerDay < 400000000"
    using assms div_bounds [of "t - (- 31738 - kJulianDayOf1970_01_01) * kSecondsPerDay" kSecondsPerDay]
    by (simp add: utc_range_def kSecondsPerDay_def)
qed

lemma BreakTime_eq:
  assumes "utc_range t"
  shows "BreakTime t =
    (let ymd = getYearMonthDay (t div kSecondsPerDay + kJulianDayOf1970_01_01);
         s = t mod kSecondsPerDay
     in \<lparr>dt_year = ymd_year ymd, dt_month = ymd_month ymd, dt_day = ymd_day ymd,
         dt_hour = s div 60 div 60, dt_minute = s div 60 mod 60, dt_second = s mod 60\<rparr>)"
proof -
  let ?k = kSecondsPerDay
  have k: "0 < ?k" by (simp add: kSecondsPerDay_def)
  note floor = trunc_to_floor [OF k, of t]
  have s: "0 \<le> t mod ?k" "t mod ?k < 86400" using k by (simp_all add: kSecondsPerDay_def)
  have "in_int32 (cmod t ?k)"
    using floor(2) s by (auto simp: in_int32_def kSecondsPerDay_def split: if_splits)
  moreover have "in_int32 (cdiv t ?k)"
    using floor(1) day_bounds [OF assms]
    by (auto simp: in_int32_def kJulianDayOf1970_01_01_def split: if_splits)
  moreover have "cast_uint32 (t mod ?k) = t mod ?k" using s by simp
  moreover have "(if cmod t ?k < 0 then (cmod t ?k + ?k, cdiv t ?k - 1) else (cmod t ?k, cdiv t ?k)) =
      (t mod ?k, t div ?k)"
    using floor by (simp split: if_splits)
  ultimately show ?thesis
    by (simp add: BreakTime_def Let_def fillHMS_def DateTime_zero_def yearMonthDay_def Date_jdn_def)
qed

lemma hms_sum:
  fixes s :: int
  shows "s div 60 div 60 * 3600 + s div 60 mod 60 * 60 + s mod 60 = s"
proof -
  have "60 * (s div 60) + s mod 60 = s" "60 * (s div 60 div 60) + s div 60 mod 60 = s div 60"
    by simp_all
  then show ?thesis by linarith
qed

lemma fromUtcTime_BreakTime:
  assumes "utc_range t"
  shows "fromUtcTime (BreakTime t) = t"
proof -
  let ?n = "t div kSecondsPerDay + kJulianDayOf1970_01_01"
  have "getJulianDayNumber (ymd_year (getYearMonthDay ?n)) (ymd_month (getYearMonthDay ?n))
      (ymd_day (getYearMonthDay ?n)) = ?n"
    by (rule julian_of_ymd(2)) (rule day_bounds [OF assms])
  then have "fromUtcTime (BreakTime t) =
      t div kSecondsPerDay * kSecondsPerDay + t mod kSecondsPerDay"
    using hms_sum [of "t mod kSecondsPerDay"]
    by (simp add: fromUtcTime_def BreakTime_eq [OF assms] Let_def Date_ymd_def)
  then show ?thesis by simp
qed

lemma BreakTime_fromUtcTime:
  assumes "DateTime_ok dt"
  shows "utc_range (fromUtcTime dt)" "BreakTime (fromUtcTime dt) = dt"
proof -
  let ?j = "getJulianDayNumber (dt_year dt) (dt_month dt) (dt_day dt)"
  let ?s = "dt_hour dt * 3600 + dt_minute dt * 60 + dt_second dt"
  have valid: "valid_date (dt_year dt) (dt_month dt) (dt_day dt)" "dt_year dt \<le> 1000000"
    and hms: "0 \<le> dt_hour dt" "dt_hour dt < 24" "0 \<le> dt_minute dt" "dt_minute dt < 60"
      "0 \<le> dt_second dt" "dt_second dt < 60"
    using assms by (simp_all add: DateTime_ok_def)
  have t: "fromUtcTime dt = (?j - kJulianDayOf1970_01_01) * kSecondsPerDay + ?s"
    by (simp add: fromUtcTime_def Let_def Date_ymd_def)
  have s: "0 \<le> ?s" "?s < kSecondsPerDay" using hms by (simp_all add: kSecondsPerDay_def)
  show range: "utc_range (fromUtcTime dt)"
    using julian_bounds [OF valid] s
    by (simp add: t utc_range_def kSecondsPerDay_def kJulianDayOf1970_01_01_def)
  have d: "fromUtcTime dt div kSecondsPerDay = ?j - kJulianDayOf1970_01_01"
    by (rule div_eqI [OF s]) (simp add: t)
  have m: "fromUtcTime dt mod kSecondsPerDay = ?s"
    using mult_div_mod_eq [of kSecondsPerDay "fromUtcTime dt"] d t by (simp add: mult.commute)
  have "?s = dt_second dt + (dt_hour dt * 60 + dt_minute dt) * 60" by simp
  then have "?s mod 60 = dt_second dt mod 60" by (simp only: mod_mult_self1)
  moreover have "?s div 60 = dt_hour dt * 60 + dt_minute dt"
    "(dt_hour dt * 60 + dt_minute dt) div 60 = dt_hour dt"
    "(dt_hour dt * 60 + dt_minute dt) mod 60 = dt_minute dt" "dt_second dt mod 60 = dt_second dt"
    using hms by simp_all
  ultimately have "?s mod 60 = dt_second dt" "?s div 60 div 60 = dt_hour dt"
    "?s div 60 mod 60 = dt_minute dt"
    by simp_all
  then show "BreakTime (fromUtcTime dt) = dt"
    by (simp add: BreakTime_eq [OF range] d m ymd_of_julian [OF valid(1)] Let_def)
qed

section \<open>Transition tables\<close>

text \<open>
  A table as the reader builds it (indices in range, local times derived from the offsets) whose
  consecutive transitions are further apart than the offsets of the zone differ.
\<close>

definition spaced :: "Data \<Rightarrow> bool" where
  "spaced data \<longleftrightarrow>
     (\<forall>j < length (transitions data) - 1. \<forall>a \<in> set (localtimes data). \<forall>b \<in> set (localtimes data).
        utcOffset a - utcOffset b < utctime (transitions data ! Suc j) - utctime (transitions data ! j))"

definition entries_ok :: "Data \<Rightarrow> bool" where
  "entries_ok data \<longleftrightarrow>
     (\<forall>t \<in> set (transitions data). localtimeIdx t < length (localtimes data) \<and>
        localtime t = utctime t + utcOffset (localtimes data ! localtimeIdx t))"

definition zone_wf :: "Data \<Rightarrow> bool" where
  "zone_wf data \<longleftrightarrow> localtimes data \<noteq> [] \<and> entries_ok data \<and> spaced data"

definition lt_of :: "Data \<Rightarrow> nat \<Rightarrow> LocalTime" where
  "lt_of data i = localtimes data ! localtimeIdx (transitions data ! i)"

abbreviation off :: "Data \<Rightarrow> nat \<Rightarrow> int" where
  "off data i \<equiv> utcOffset (lt_of data i)"

lemma entry:
  assumes "zone_wf data" "i < length (transitions data)"
  shows "vec_index (localtimes data) (localtimeIdx (transitions data ! i)) = Inr (lt_of data i)"
    "localtime (transitions data ! i) = utctime (transitions data ! i) + off data i"
    "lt_of data i \<in> set (localtimes data)"
  using assms nth_mem [of i "transitions data"]
  by (auto simp: zone_wf_def entries_ok_def vec_index_def lt_of_def)

lemma transition_gap:
  assumes "zone_wf data" "k < length (transitions data)" "j < k"
    and "a \<in> set (localtimes data)" "b \<in> set (localtimes data)"
  shows "utctime (transitions data ! j) + utcOffset a < utctime (transitions data ! k) + utcOffset b"
  using assms(2-5)
proof (induction k arbitrary: a b)
  case 0
  then show ?case by simp
next
  case (Suc k)
  have gap: "utctime (transitions data ! k) + utcOffset x < utctime (transitions data ! Suc k) + utcOffset y"
    if "x \<in> set (localtimes data)" "y \<in> set (localtimes data)" for x y
  proof -
    have "utcOffset x - utcOffset y < utctime (transitions data ! Suc k) - utctime (transitions data ! k)"
      using assms(1) Suc.prems(1) that by (auto simp: zone_wf_def spaced_def)
    then show ?thesis by simp
  qed
  show ?case
  proof (cases "j = k")
    case True
    with gap [OF Suc.prems(3,4)] show ?thesis by simp
  next
    case False
    then have "utctime (transitions data ! j) + utcOffset a < utctime (transitions data ! k) + utcOffset a"
      using Suc.IH [of a a] Suc.prems by simp
    with gap [OF Suc.prems(3,4)] show ?thesis by simp
  qed
qed

lemma utctime_less:
  assumes "zone_wf data" "k < length (transitions data)" "j < k"
  shows "utctime (transitions data ! j) < utctime (transitions data ! k)"
  using transition_gap [OF assms, of "lt_of data k" "lt_of data k"] entry(3) [OF assms(1,2)] by simp

lemma localtime_less:
  assumes "zone_wf data" "k < length (transitions data)" "j < k"
  shows "localtime (transitions data ! j) < localtime (transitions data ! k)"
proof -
  have j: "j < length (transitions data)" using assms(2,3) by simp
  from transition_gap [OF assms entry(3) [OF assms(1) j] entry(3) [OF assms(1,2)]]
  show ?thesis by (simp add: entry(2) [OF assms(1) j] entry(2) [OF assms(1,2)])
qed

lemma upper_bound_at:
  assumes "k \<le> length xs" "\<And>j. j < k \<Longrightarrow> \<not> P (xs ! j)" "\<And>j. k \<le> j \<Longrightarrow> j < length xs \<Longrightarrow> P (xs ! j)"
  shows "upper_bound P xs = Inr k"
proof -
  have "takeWhile (\<lambda>x. \<not> P x) xs = take k xs"
    using assms(2,3) by (intro takeWhile_eq_take_P_nth) auto
  with assms(1) have "length (takeWhile (\<lambda>x. \<not> P x) xs) = k" by simp
  moreover have "list_all P (drop k xs)"
    using assms(3) by (simp add: list_all_length)
  ultimately show ?thesis by (simp add: upper_bound_def Let_def)
qed

text \<open>The two searches on a well-formed table.\<close>

definition in_period :: "Data \<Rightarrow> nat \<Rightarrow> int \<Rightarrow> bool" where
  "in_period data i t \<longleftrightarrow> i < length (transitions data) \<and> utctime (transitions data ! i) \<le> t \<and>
     (Suc i < length (transitions data) \<longrightarrow> t < utctime (transitions data ! Suc i))"

lemma findLocalTime_period:
  assumes wf: "zone_wf data" and i: "in_period data i t"
  shows "findLocalTime t data = Inr (lt_of data i)"
proof -
  let ?ts = "transitions data"
  have i': "i < length ?ts" "utctime (?ts ! i) \<le> t" using i by (simp_all add: in_period_def)
  then have ne: "?ts \<noteq> []" by auto
  have "utctime (?ts ! 0) \<le> utctime (?ts ! i)"
    using utctime_less [OF wf i'(1), of 0] by (cases "i = 0") auto
  with i' ne have front: "\<not> (?ts = [] \<or> t < utctime (hd ?ts))" by (simp add: hd_conv_nth)
  have "upper_bound (\<lambda>x. t < utctime x) ?ts = Inr (Suc i)"
  proof (rule upper_bound_at)
    show "\<not> t < utctime (?ts ! j)" if "j < Suc i" for j
      using utctime_less [OF wf i'(1), of j] i'(2) that by (cases "j = i") auto
    show "t < utctime (?ts ! j)" if "Suc i \<le> j" "j < length ?ts" for j
      using utctime_less [OF wf that(2), of "Suc i"] i that
      by (cases "j = Suc i") (auto simp: in_period_def)
  qed (use i' in simp)
  moreover have "last ?ts = ?ts ! i" if "Suc i = length ?ts"
    using that ne by (metis last_conv_nth diff_Suc_1)
  ultimately show ?thesis
    using front entry(1) [OF wf i'(1)] by (auto simp: findLocalTime_def Let_def)
qed

text \<open>
  The search by local time when it finds the transition after \<open>k\<close>: the three outcomes of the source,
  with the offset of the period before \<open>k\<close> if the local time occurs twice.
\<close>

lemma findLocalTime_local_at:
  assumes wf: "zone_wf data" and k: "k < length (transitions data)"
    and lo: "localtime (transitions data ! k) \<le> fromUtcTime dt"
    and hi: "Suc k < length (transitions data) \<Longrightarrow> fromUtcTime dt < localtime (transitions data ! Suc k)"
  shows "findLocalTime_local dt post data =
    (let L = fromUtcTime dt; ts = transitions data in
     if Suc k = length ts then Inr (lt_of data k)
     else if utctime (ts ! Suc k) - 1 + off data k < L
     then Inr (if post then lt_of data (Suc k) else lt_of data k)
     else if k \<noteq> 0 \<and> L \<le> utctime (ts ! k) - 1 + off data (k - 1)
     then Inr (if post then lt_of data k else lt_of data (k - 1))
     else Inr (lt_of data k))"
proof -
  let ?ts = "transitions data" and ?L = "fromUtcTime dt"
  have ne: "?ts \<noteq> []" using k by auto
  have "localtime (?ts ! 0) \<le> localtime (?ts ! k)"
    using localtime_less [OF wf k, of 0] by (cases "k = 0") auto
  with lo ne have front: "\<not> (?ts = [] \<or> ?L < localtime (hd ?ts))" by (simp add: hd_conv_nth)
  have ub: "upper_bound (\<lambda>x. ?L < localtime x) ?ts = Inr (Suc k)"
  proof (rule upper_bound_at)
    show "\<not> ?L < localtime (?ts ! j)" if "j < Suc k" for j
      using localtime_less [OF wf k, of j] lo that by (cases "j = k") auto
    show "?L < localtime (?ts ! j)" if "Suc k \<le> j" "j < length ?ts" for j
      using localtime_less [OF wf that(2), of "Suc k"] hi that by (cases "j = Suc k") auto
  qed (use k in simp)
  have last: "last ?ts = ?ts ! k" if "Suc k = length ?ts"
    using that ne by (metis last_conv_nth diff_Suc_1)
  have "Suc k \<noteq> length ?ts \<Longrightarrow>
      vec_index (localtimes data) (localtimeIdx (?ts ! Suc k)) = Inr (lt_of data (Suc k))"
    using entry(1) [OF wf, of "Suc k"] k by simp
  note e = this entry(1) [OF wf k] entry(1) [OF wf, of "k - 1"]
  show ?thesis
    unfolding findLocalTime_local_def Let_def
    using front ub last e k by (cases "k = 0") auto
qed

text \<open>
  The last transition's repeated hour: both readings of the local time are taken for the later one.
\<close>

definition last_repeat :: "Data \<Rightarrow> nat \<Rightarrow> int \<Rightarrow> bool" where
  "last_repeat data i t \<longleftrightarrow> Suc (Suc i) = length (transitions data) \<and>
     localtime (transitions data ! Suc i) \<le> t + off data i"

lemma findLocalTime_local_period:
  assumes wf: "zone_wf data" and i: "in_period data i t" and unambiguous: "\<not> last_repeat data i t"
    and dt: "fromUtcTime dt = t + off data i"
  shows "\<exists>post. findLocalTime_local dt post data = Inr (lt_of data i)"
proof -
  let ?ts = "transitions data"
  have i': "i < length ?ts" "utctime (?ts ! i) \<le> t"
      "Suc i < length ?ts \<Longrightarrow> t < utctime (?ts ! Suc i)"
    using i by (simp_all add: in_period_def)
  have lo: "localtime (?ts ! i) \<le> fromUtcTime dt" using i'(2) by (simp add: dt entry(2) [OF wf i'(1)])
  show ?thesis
  proof (cases "Suc i < length ?ts \<and> localtime (?ts ! Suc i) \<le> fromUtcTime dt")
    case False
    have "Suc i \<noteq> length ?ts \<Longrightarrow> t < utctime (?ts ! Suc i)" using i'(1,3) by simp
    with False have "findLocalTime_local dt True data = Inr (lt_of data i)"
      using findLocalTime_local_at [OF wf i'(1) lo, of True] by (auto simp: dt Let_def)
    then show ?thesis by blast
  next
    case True
    with unambiguous i'(1) have n: "Suc (Suc i) < length ?ts" "Suc i < length ?ts"
      by (auto simp: last_repeat_def dt)
    note m = entry(3) [OF wf i'(1)] entry(3) [OF wf n(1)] entry(3) [OF wf n(2)]
    have "fromUtcTime dt < localtime (?ts ! Suc (Suc i))"
      using transition_gap [OF wf n(1) lessI m(1,2)] i'(3) [OF n(2)]
      by (simp add: dt entry(2) [OF wf n(1)])
    note at = findLocalTime_local_at [OF wf n(2) conjunct2 [OF True] this, of False]
    have "\<not> utctime (?ts ! Suc (Suc i)) - 1 + off data (Suc i) < fromUtcTime dt"
      using transition_gap [OF wf n(1) lessI m(1,3)] i'(3) [OF n(2)] by (simp add: dt)
    moreover have "fromUtcTime dt \<le> utctime (?ts ! Suc i) - 1 + off data i"
      using i'(3) [OF n(2)] by (simp add: dt)
    ultimately have "findLocalTime_local dt False data = Inr (lt_of data i)"
      using at n by (simp add: Let_def)
    then show ?thesis by blast
  qed
qed

lemma last_repeat_ignored:
  assumes wf: "zone_wf data" and n: "Suc k = length (transitions data)"
    and L: "localtime (transitions data ! k) \<le> fromUtcTime dt"
  shows "findLocalTime_local dt post data = Inr (lt_of data k)"
  using findLocalTime_local_at [OF wf _ L, of post] n by (simp add: Let_def)

section \<open>Properties\<close>

text \<open>
  \<^verbatim>\<open>BreakTime\<close> and \<^verbatim>\<open>fromUtcTime\<close> are inverse to each other: every second from the year -4799 on
  (negative ones included) is recovered from its broken-down time, which is a date of the calendar
  with a time of day; and every such broken-down time is recovered from its seconds.
\<close>

lemma utc_roundtrip:
  assumes "utc_range t" "DateTime_ok dt"
  shows "fromUtcTime (toUtcTime t) = t \<and> toUtcTime (fromUtcTime dt) = dt"
  using fromUtcTime_BreakTime [OF assms(1)] BreakTime_fromUtcTime [OF assms(2)]
  by (simp add: toUtcTime_def)

text \<open>
  C27: in a zone whose transitions are further apart than its offsets differ, \<^verbatim>\<open>toLocalTime\<close> uses the
  offset of the last transition at or before the given second, and \<^verbatim>\<open>fromLocalTime\<close> on the local time
  recovers the second for one of the two values of \<^verbatim>\<open>postTransition\<close>, in the hour that a transition
  repeats as well; the repeated hour of the very last transition is excepted.
\<close>

theorem local_time_roundtrip:
  assumes "zone_wf data" "in_period data i t" "\<not> last_repeat data i t" "utc_range (t + off data i)"
  shows "\<exists>lt post. toLocalTime t \<lparr>tz_data = Some data\<rparr> = Inr (lt, off data i) \<and>
    fromLocalTime lt post \<lparr>tz_data = Some data\<rparr> = Inr t"
proof -
  let ?dt = "BreakTime (t + off data i)"
  have dt: "fromUtcTime ?dt = t + off data i" by (rule fromUtcTime_BreakTime [OF assms(4)])
  obtain post where "findLocalTime_local ?dt post data = Inr (lt_of data i)"
    using findLocalTime_local_period [OF assms(1-3) dt] by blast
  then have "fromLocalTime ?dt post \<lparr>tz_data = Some data\<rparr> = Inr t"
    by (simp add: fromLocalTime_def dt)
  moreover have "toLocalTime t \<lparr>tz_data = Some data\<rparr> = Inr (?dt, off data i)"
    by (simp add: toLocalTime_def findLocalTime_period [OF assms(1,2)])
  ultimately show ?thesis by blast
qed

text \<open>Two transitions of a zone, for concrete examples.\<close>

definition sample_zone :: Data where
  "sample_zone =
     \<lparr>transitions = [\<lparr>utctime = 1000000, localtime = 1003600, localtimeIdx = 1\<rparr>,
        \<lparr>utctime = 2000000, localtime = 2000000, localtimeIdx = 0\<rparr>],
      localtimes = [\<lparr>utcOffset = 0, isDst = False, desigIdx = 0\<rparr>,
        \<lparr>utcOffset = 3600, isDst = True, desigIdx = 4\<rparr>],
      tzstring = [], tz_abbreviation = ''GMT''\<rparr>"

lemma sample_zone_wf: "zone_wf sample_zone"
  by (simp add: zone_wf_def entries_ok_def spaced_def sample_zone_def)

theorem local_time_roundtrip_witness:
  "\<exists>lt post. toLocalTime 1500000 \<lparr>tz_data = Some sample_zone\<rparr> = Inr (lt, 3600) \<and>
    fromLocalTime lt post \<lparr>tz_data = Some sample_zone\<rparr> = Inr 1500000"
  using local_time_roundtrip [OF sample_zone_wf, of 0 1500000]
  by (simp add: in_period_def last_repeat_def lt_of_def sample_zone_def utc_range_def
      kSecondsPerDay_def kJulianDayOf1970_01_01_def)

text \<open>
  Local times at or after the local time of the last transition are all read with the last
  offset: in the hour that this transition repeats \<^verbatim>\<open>postTransition\<close> has no effect, and the first
  reading cannot be obtained.
\<close>

lemma last_transition_not_disambiguated:
  assumes "zone_wf data" "Suc k = length (transitions data)"
    and "localtime (transitions data ! k) \<le> fromUtcTime lt"
  shows "fromLocalTime lt post \<lparr>tz_data = Some data\<rparr> = Inr (fromUtcTime lt - off data k)"
  using last_repeat_ignored [OF assms, of post] by (simp add: fromLocalTime_def)

end
