(* ===== verification/Zone_File.thy ===== *)
theory Zone_File
  imports Time_Zone Endian
begin

text \<open>
  \<^verbatim>\<open>utility/TimeZone.cpp\<close>: the reader of TZif files (RFC 8536). A zone file is a string of bytes with a
  read position. \<^verbatim>\<open>reserve\<close> of a negative count throws \<open>Length_error\<close>; this, \<open>Out_of_range\<close> and the
  reader's own \<open>Logic_error\<close>s are what the source catches.
\<close>

section \<open>Zone files\<close>

record File =
  f_bytes :: string
  f_pos :: nat

definition fread :: "nat \<Rightarrow> File \<Rightarrow> string \<times> File" where
  "fread n f =
     (let got = take n (drop (f_pos f) (f_bytes f)) in (got, f\<lparr>f_pos := f_pos f + length got\<rparr>))"

text \<open>\<^verbatim>\<open>char buf[n]\<close> with a negative length is undefined.\<close>

definition readBytes :: "int \<Rightarrow> File \<Rightarrow> (string \<times> File) res" where
  "readBytes n f =
     (if n < 0 then Inl Undefined
      else
        let (buf, f) = fread (nat n) f in
        if int (length buf) \<noteq> n then Inl (Logic_error ''no enough data'') else Inr (buf, f))"

function readToEnd :: "File \<Rightarrow> string \<times> File" where
  "readToEnd f =
     (let (buf, f') = fread 4096 f in
      if buf = [] then ([], f')
      else let (result, f'') = readToEnd f' in (buf @ result, f''))"
  by pat_completeness auto
termination
  by (relation "measure (\<lambda>f. length (f_bytes f) - f_pos f)") (auto simp: fread_def Let_def)

definition File_readInt64 :: "File \<Rightarrow> (int \<times> File) res" where
  "File_readInt64 f =
     (let (x, f) = fread 8 f in
      if length x \<noteq> 8 then Inl (Logic_error ''bad int64_t data'')
      else Inr (sint (networkToHost64 (word_of_mem x)), f))"

definition File_readInt32 :: "File \<Rightarrow> (int \<times> File) res" where
  "File_readInt32 f =
     (let (x, f) = fread 4 f in
      if length x \<noteq> 4 then Inl (Logic_error ''bad int32_t data'')
      else Inr (sint (networkToHost32 (word_of_mem x)), f))"

definition File_readUInt8 :: "File \<Rightarrow> (nat \<times> File) res" where
  "File_readUInt8 f =
     (let (x, f) = fread 1 f in
      if length x \<noteq> 1 then Inl (Logic_error ''bad uint8_t data'')
      else Inr (of_char (hd x), f))"

text \<open>\<^verbatim>\<open>fseek(fp_, bytes, SEEK_CUR)\<close>; a position before the start is refused and leaves the position alone.\<close>

definition File_skip :: "int \<Rightarrow> File \<Rightarrow> File" where
  "File_skip n f = (let p = int (f_pos f) + n in if p < 0 then f else f\<lparr>f_pos := nat p\<rparr>)"

fun read_times :: "nat \<Rightarrow> (File \<Rightarrow> ('a \<times> File) res) \<Rightarrow> File \<Rightarrow> ('a list \<times> File) res" where
  "read_times 0 rd f = Inr ([], f)"
| "read_times (Suc n) rd f =
     rbind (rd f) (\<lambda>(x, f). rbind (read_times n rd f) (\<lambda>(xs, f). Inr (x # xs, f)))"

definition vec_reserve :: "int \<Rightarrow> 'a res \<Rightarrow> 'a res" where
  "vec_reserve n k = (if n < 0 then Inl Length_error else k)"

definition read_type :: "File \<Rightarrow> ((int \<times> nat \<times> nat) \<times> File) res" where
  "read_type f =
     rbind (File_readInt32 f) (\<lambda>(gmtoff, f). rbind (File_readUInt8 f) (\<lambda>(isdst, f).
       rbind (File_readUInt8 f) (\<lambda>(abbrind, f). Inr ((gmtoff, isdst, abbrind), f))))"

definition readDataBlock :: "File \<Rightarrow> Data \<Rightarrow> bool \<Rightarrow> (bool \<times> File \<times> Data) res" where
  "readDataBlock f data v1 =
     (let time_size = (if v1 then 4 else 8) in
      rbind (read_times 6 File_readInt32 f) (\<lambda>(counts, f).
        let isutccnt = counts ! 0; isstdcnt = counts ! 1; leapcnt = counts ! 2;
            timecnt = counts ! 3; typecnt = counts ! 4; charcnt = counts ! 5
        in if leapcnt \<noteq> 0 then Inr (False, f, data)
           else if isutccnt \<noteq> 0 \<and> isutccnt \<noteq> typecnt then Inr (False, f, data)
           else if isstdcnt \<noteq> 0 \<and> isstdcnt \<noteq> typecnt then Inr (False, f, data)
           else
             vec_reserve timecnt (rbind
               (read_times (nat timecnt) (if v1 then File_readInt32 else File_readInt64) f) (\<lambda>(trans, f).
             vec_reserve timecnt (rbind (read_times (nat timecnt) File_readUInt8 f) (\<lambda>(idxs, f).
             vec_reserve typecnt (rbind (read_times (nat typecnt) read_type f) (\<lambda>(types, f).
               let data = fold (\<lambda>(gmtoff, isdst, abbrind). addLocalTime gmtoff (isdst \<noteq> 0) (int abbrind))
                            types data
               in rbind (rfold (\<lambda>(t, i). addTransition t i) (zip trans idxs) data) (\<lambda>data.
                  rbind (readBytes charcnt f) (\<lambda>(abbrev, f).
                    let data = data\<lparr>tz_abbreviation := abbrev\<rparr>;
                        f = File_skip isutccnt (File_skip isstdcnt (File_skip (leapcnt * (time_size + 4)) f))
                    in if \<not> v1 then (let (tz, f) = readToEnd f in Inr (True, f, data\<lparr>tzstring := tz\<rparr>))
                       else Inr (True, f, data)))))))))))"

definition tzif :: string where
  "tzif = ''TZif''"

definition read_zone :: "File \<Rightarrow> Data \<Rightarrow> (bool \<times> File \<times> Data) res" where
  "read_zone f data =
     rbind (readBytes 4 f) (\<lambda>(head, f).
       if head \<noteq> tzif then Inl (Logic_error ''bad head'')
       else rbind (readBytes 1 f) (\<lambda>(version, f). rbind (readBytes 15 f) (\<lambda>(_, f).
         rbind (read_times 6 File_readInt32 f) (\<lambda>(counts, f).
           let isgmtcnt = counts ! 0; isstdcnt = counts ! 1; leapcnt = counts ! 2;
               timecnt = counts ! 3; typecnt = counts ! 4; charcnt = counts ! 5
           in if version = ''2'' then
                if \<not> in_int32 (6 * typecnt) \<or> \<not> in_int32 (8 * leapcnt) then Inl Undefined
                else
                  let n = 4 * timecnt + timecnt + 6 * typecnt + charcnt + 8 * leapcnt + isstdcnt + isgmtcnt;
                      f = File_skip (cast_int64 n) f
                  in rbind (readBytes 4 f) (\<lambda>(head, f).
                       if head \<noteq> tzif then Inl (Logic_error ''bad head'')
                       else readDataBlock (File_skip 16 f) data False)
              else readDataBlock (File_skip (- 4 * 6) f) data True))))"

text \<open>
  \<^verbatim>\<open>readTimeZoneFile\<close>: \<^term>\<open>None\<close> for the file name stands for a file that cannot be opened. Where the
  source returns false the partly filled data is dropped by its only caller.
\<close>

definition readTimeZoneFile :: "string option \<Rightarrow> Data \<Rightarrow> Data option res" where
  "readTimeZoneFile zonefile data =
     (case zonefile of
        None \<Rightarrow> Inr None
      | Some bytes \<Rightarrow>
          (case read_zone \<lparr>f_bytes = bytes, f_pos = 0\<rparr> data of
             Inr (ok, _, data) \<Rightarrow> Inr (if ok then Some data else None)
           | Inl (Logic_error _) \<Rightarrow> Inr None
           | Inl Length_error \<Rightarrow> Inr None
           | Inl Out_of_range \<Rightarrow> Inr None
           | Inl e \<Rightarrow> Inl e))"

definition loadZoneFile :: "string option \<Rightarrow> TimeZone res" where
  "loadZoneFile zonefile =
     rbind (readTimeZoneFile zonefile Data_new) (\<lambda>data. Inr \<lparr>tz_data = data\<rparr>)"

section \<open>Reading a zone file back\<close>

definition be32 :: "int \<Rightarrow> string" where
  "be32 n = be_bytes (word_of_int n :: 32 word)"

definition be64 :: "int \<Rightarrow> string" where
  "be64 n = be_bytes (word_of_int n :: 64 word)"

text \<open>A file whose read position is between two parts.\<close>

definition at :: "string \<Rightarrow> string \<Rightarrow> File" where
  "at pre rest = \<lparr>f_bytes = pre @ rest, f_pos = length pre\<rparr>"

lemma fread_at: "fread (length x) (at pre (x @ rest)) = (x, at (pre @ x) rest)"
  by (simp add: fread_def at_def Let_def)

lemma length_be [simp]: "length (be32 n) = 4" "length (be64 n) = 8"
  by (simp_all add: be32_def be64_def)

lemma readInt32_at:
  assumes "in_int32 n"
  shows "File_readInt32 (at pre (be32 n @ rest)) = Inr (n, at (pre @ be32 n) rest)"
proof -
  have "sint (word_of_int n :: 32 word) = n"
    using assms by (simp add: in_int32_def int_word_sint)
  then show ?thesis
    using fread_at [of "be32 n" pre rest]
    by (simp add: File_readInt32_def be32_def networkToHost_be_bytes)
qed

lemma readInt64_at:
  assumes "in_int64 n"
  shows "File_readInt64 (at pre (be64 n @ rest)) = Inr (n, at (pre @ be64 n) rest)"
proof -
  have "sint (word_of_int n :: 64 word) = n"
    using assms by (simp add: in_int64_def int_word_sint)
  then show ?thesis
    using fread_at [of "be64 n" pre rest]
    by (simp add: File_readInt64_def be64_def networkToHost_be_bytes)
qed

lemma readUInt8_at:
  assumes "n < 256"
  shows "File_readUInt8 (at pre ([char_of n] @ rest)) = Inr (n, at (pre @ [char_of n]) rest)"
  using fread_at [of "[char_of n]" pre rest] assms by (simp add: File_readUInt8_def)

lemma readBytes_at:
  assumes "n = int (length x)"
  shows "readBytes n (at pre (x @ rest)) = Inr (x, at (pre @ x) rest)"
  using fread_at [of x pre rest] assms by (simp add: readBytes_def)

lemma skip_at:
  assumes "n = int (length x)"
  shows "File_skip n (at pre (x @ rest)) = at (pre @ x) rest"
  using assms by (simp add: File_skip_def at_def Let_def nat_add_distrib)

lemma read_times_at:
  assumes "\<And>x pre rest. x \<in> set xs \<Longrightarrow> rd (at pre (enc x @ rest)) = Inr (x, at (pre @ enc x) rest)"
  shows "read_times (length xs) rd (at pre (concat (map enc xs) @ rest)) =
    Inr (xs, at (pre @ concat (map enc xs)) rest)"
  using assms
proof (induction xs arbitrary: pre)
  case (Cons x xs)
  from Cons.IH [of "pre @ enc x"] Cons.prems(1) [of x pre] Cons.prems show ?case
    by simp
qed simp

lemma readToEnd_at: "readToEnd (at pre rest) = (rest, at (pre @ rest) [])"
proof (induction "length rest" arbitrary: pre rest rule: less_induct)
  case less
  show ?case
  proof (cases "rest = []")
    case True
    then show ?thesis by (subst readToEnd.simps) (simp add: fread_def at_def)
  next
    case False
    have "fread 4096 (at pre rest) = (take 4096 rest, at (pre @ take 4096 rest) (drop 4096 rest))"
      by (simp add: fread_def at_def Let_def)
    with less.hyps [of "drop 4096 rest" "pre @ take 4096 rest"] False show ?thesis
      by (subst readToEnd.simps) simp
  qed
qed

definition enc_type :: "int \<times> nat \<times> nat \<Rightarrow> string" where
  "enc_type = (\<lambda>(gmtoff, isdst, abbrind). be32 gmtoff @ [char_of isdst] @ [char_of abbrind])"

definition type_ok :: "int \<times> nat \<times> nat \<Rightarrow> bool" where
  "type_ok = (\<lambda>(gmtoff, isdst, abbrind). in_int32 gmtoff \<and> isdst < 256 \<and> abbrind < 256)"

lemma read_type_at:
  assumes "type_ok x"
  shows "read_type (at pre (enc_type x @ rest)) = Inr (x, at (pre @ enc_type x) rest)"
proof -
  obtain g d a where x: "x = (g, d, a)" by (rule prod_cases3)
  then have ok: "in_int32 g" "d < 256" "a < 256" using assms by (simp_all add: type_ok_def)
  show ?thesis
    using readInt32_at [OF ok(1), of pre "[char_of d] @ [char_of a] @ rest"]
      readUInt8_at [OF ok(2), of "pre @ be32 g" "[char_of a] @ rest"]
      readUInt8_at [OF ok(3), of "pre @ be32 g @ [char_of d]" rest]
    by (simp add: read_type_def enc_type_def x)
qed

text \<open>The zone that a version 2 file describes, and the bytes of its second data block.\<close>

definition zone_data ::
  "(int \<times> nat) list \<Rightarrow> (int \<times> nat \<times> nat) list \<Rightarrow> string \<Rightarrow> string \<Rightarrow> Data" where
  "zone_data tr types abbrev tz =
     \<lparr>transitions = map (\<lambda>(t, i). \<lparr>utctime = t, localtime = t + fst (types ! i), localtimeIdx = i\<rparr>) tr,
      localtimes = map (\<lambda>(g, d, a). \<lparr>utcOffset = g, isDst = d \<noteq> 0, desigIdx = int a\<rparr>) types,
      tzstring = tz, tz_abbreviation = abbrev\<rparr>"

definition enc_counts :: "int list \<Rightarrow> string" where
  "enc_counts ns = concat (map be32 ns)"

definition enc_zone ::
  "(int \<times> nat) list \<Rightarrow> (int \<times> nat \<times> nat) list \<Rightarrow> string \<Rightarrow> string \<Rightarrow> string" where
  "enc_zone tr types abbrev tz =
     enc_counts [0, 0, 0, int (length tr), int (length types), int (length abbrev)] @
     concat (map be64 (map fst tr)) @ concat (map (\<lambda>i. [char_of i]) (map snd tr)) @
     concat (map enc_type types) @ abbrev @ tz"

definition zone_ok :: "(int \<times> nat) list \<Rightarrow> (int \<times> nat \<times> nat) list \<Rightarrow> string \<Rightarrow> bool" where
  "zone_ok tr types abbrev \<longleftrightarrow>
     (\<forall>(t, i) \<in> set tr. in_int64 t \<and> i < length types \<and> i < 256) \<and> (\<forall>x \<in> set types. type_ok x) \<and>
     length tr < 2 ^ 31 \<and> length types < 2 ^ 31 \<and> length abbrev < 2 ^ 31"

lemma read_counts_at:
  assumes "\<forall>n \<in> set ns. in_int32 n" "length ns = k"
  shows "read_times k File_readInt32 (at pre (enc_counts ns @ rest)) =
    Inr (ns, at (pre @ enc_counts ns) rest)"
  using read_times_at [of ns File_readInt32 be32] assms readInt32_at by (simp add: enc_counts_def)

lemma fold_addLocalTime:
  "fold (\<lambda>(g, d, a). addLocalTime g (d \<noteq> 0) (int a)) types data =
   data\<lparr>localtimes := localtimes data @
     map (\<lambda>(g, d, a). \<lparr>utcOffset = g, isDst = d \<noteq> 0, desigIdx = int a\<rparr>) types\<rparr>"
  by (induction types arbitrary: data) (auto simp: addLocalTime_def)

lemma rfold_addTransition:
  assumes "\<forall>(t, i) \<in> set tr. i < length (localtimes data)"
  shows "rfold (\<lambda>(t, i). addTransition t i) tr data =
    Inr (data\<lparr>transitions := transitions data @ map (\<lambda>(t, i). \<lparr>utctime = t,
      localtime = t + utcOffset (localtimes data ! i), localtimeIdx = i\<rparr>) tr\<rparr>)"
  using assms
  by (induction tr arbitrary: data) (auto simp: addTransition_def Let_def)

lemma readDataBlock_v2:
  assumes "read_times 6 File_readInt32 f = Inr ([0, 0, 0, timecnt, typecnt, charcnt], f1)"
    and "0 \<le> timecnt" "0 \<le> typecnt"
    and "read_times (nat timecnt) File_readInt64 f1 = Inr (ts, f2)"
    and "read_times (nat timecnt) File_readUInt8 f2 = Inr (idxs, f3)"
    and "read_times (nat typecnt) read_type f3 = Inr (types, f4)"
    and "rfold (\<lambda>(t, i). addTransition t i) (zip ts idxs)
      (fold (\<lambda>(g, d, a). addLocalTime g (d \<noteq> 0) (int a)) types data) = Inr data'"
    and "readBytes charcnt f4 = Inr (abbrev, f5)"
    and "readToEnd f5 = (tz, f6)"
  shows "readDataBlock f data False = Inr (True, f6, data'\<lparr>tz_abbreviation := abbrev, tzstring := tz\<rparr>)"
proof -
  have "File_skip 0 f = f" for f by (simp add: File_skip_def Let_def)
  then show ?thesis
    unfolding readDataBlock_def Let_def using assms(2,3)
    by (simp add: assms(1,4-9) vec_reserve_def del: read_times.simps neq0_conv readToEnd.simps)
qed

lemma readDataBlock_at:
  assumes ok: "zone_ok tr types abbrev"
  shows "readDataBlock (at pre (enc_zone tr types abbrev tz)) Data_new False =
    Inr (True, at (pre @ enc_zone tr types abbrev tz) [], zone_data tr types abbrev tz)"
proof -
  let ?ns = "[0, 0, 0, int (length tr), int (length types), int (length abbrev)]"
  let ?T = "concat (map be64 (map fst tr))" and ?I = "concat (map (\<lambda>i. [char_of i]) (map snd tr))"
  let ?Y = "concat (map enc_type types)" and ?C = "enc_counts ?ns"
  have counts: "\<forall>n \<in> set ?ns. in_int32 n"
    using ok by (auto simp: zone_ok_def in_int32_def)
  have c: "read_times 6 File_readInt32 (at pre (?C @ ?T @ ?I @ ?Y @ abbrev @ tz)) =
      Inr (?ns, at (pre @ ?C) (?T @ ?I @ ?Y @ abbrev @ tz))"
    by (rule read_counts_at [OF counts]) simp
  have t: "read_times (nat (int (length tr))) File_readInt64 (at (pre @ ?C) (?T @ ?I @ ?Y @ abbrev @ tz)) =
      Inr (map fst tr, at ((pre @ ?C) @ ?T) (?I @ ?Y @ abbrev @ tz))"
    unfolding nat_int
    by (rule read_times_at [of "map fst tr", unfolded length_map], rule readInt64_at)
      (use ok in \<open>auto simp: zone_ok_def\<close>)
  have i: "read_times (nat (int (length tr))) File_readUInt8 (at ((pre @ ?C) @ ?T) (?I @ ?Y @ abbrev @ tz)) =
      Inr (map snd tr, at (((pre @ ?C) @ ?T) @ ?I) (?Y @ abbrev @ tz))"
    unfolding nat_int
    by (rule read_times_at [of "map snd tr", unfolded length_map], rule readUInt8_at)
      (use ok in \<open>auto simp: zone_ok_def\<close>)
  have y: "read_times (nat (int (length types))) read_type (at (((pre @ ?C) @ ?T) @ ?I) (?Y @ abbrev @ tz)) =
      Inr (types, at ((((pre @ ?C) @ ?T) @ ?I) @ ?Y) (abbrev @ tz))"
    unfolding nat_int
    by (rule read_times_at, rule read_type_at) (use ok in \<open>simp add: zone_ok_def\<close>)
  let ?data = "Data_new\<lparr>localtimes := map (\<lambda>(g, d, a). \<lparr>utcOffset = g, isDst = d \<noteq> 0, desigIdx = int a\<rparr>) types\<rparr>"
  have lt: "fold (\<lambda>(g, d, a). addLocalTime g (d \<noteq> 0) (int a)) types Data_new = ?data"
    unfolding fold_addLocalTime by (simp add: Data_new_def)
  have tr: "rfold (\<lambda>(t, i). addTransition t i) (zip (map fst tr) (map snd tr)) ?data =
      Inr ((zone_data tr types [] [])\<lparr>tzstring := [], tz_abbreviation := []\<rparr>)"
    using ok
    by (subst rfold_addTransition) (auto simp: zip_map_fst_snd zone_ok_def zone_data_def Data_new_def split_beta)
  have b: "readBytes (int (length abbrev)) (at ((((pre @ ?C) @ ?T) @ ?I) @ ?Y) (abbrev @ tz)) =
      Inr (abbrev, at (((((pre @ ?C) @ ?T) @ ?I) @ ?Y) @ abbrev) tz)"
    by (rule readBytes_at) simp
  have e: "readToEnd (at (((((pre @ ?C) @ ?T) @ ?I) @ ?Y) @ abbrev) tz) =
      (tz, at ((((((pre @ ?C) @ ?T) @ ?I) @ ?Y) @ abbrev) @ tz) [])"
    by (rule readToEnd_at)
  have "readDataBlock (at pre (?C @ ?T @ ?I @ ?Y @ abbrev @ tz)) Data_new False =
      Inr (True, at ((((((pre @ ?C) @ ?T) @ ?I) @ ?Y) @ abbrev) @ tz) [],
        ((zone_data tr types [] [])\<lparr>tzstring := [], tz_abbreviation := []\<rparr>)
          \<lparr>tz_abbreviation := abbrev, tzstring := tz\<rparr>)"
    by (rule readDataBlock_v2 [OF c _ _ t i y _ b e]) (simp_all only: lt tr of_nat_0_le_iff)
  then show ?thesis
    by (simp only: enc_zone_def append_assoc) (simp add: zone_data_def)
qed

lemma read_zone_v2:
  assumes "readBytes 4 f = Inr (tzif, f1)" "readBytes 1 f1 = Inr (''2'', f2)" "readBytes 15 f2 = Inr (r, f3)"
    and "read_times 6 File_readInt32 f3 = Inr ([g, s, l, t, y, c], f4)"
    and "in_int32 (6 * y)" "in_int32 (8 * l)"
    and "File_skip (cast_int64 (5 * t + 6 * y + c + 8 * l + s + g)) f4 = f5"
    and "readBytes 4 f5 = Inr (tzif, f6)" "File_skip 16 f6 = f7"
  shows "read_zone f data = readDataBlock f7 data False"
  unfolding read_zone_def Let_def by (simp add: assms del: read_times.simps)

text \<open>The counters of the first data block and the length they give it.\<close>

definition block1_ok :: "int list \<Rightarrow> string \<Rightarrow> bool" where
  "block1_ok ns body \<longleftrightarrow> length ns = 6 \<and> (\<forall>n \<in> set ns. 0 \<le> n \<and> in_int32 n) \<and>
     in_int32 (6 * (ns ! 4)) \<and> in_int32 (8 * (ns ! 2)) \<and>
     int (length body) = 5 * (ns ! 3) + 6 * (ns ! 4) + ns ! 5 + 8 * (ns ! 2) + ns ! 1 + ns ! 0"

lemma length6E:
  assumes "length ns = 6"
  obtains g s l t y c where "ns = [g, s, l, t, y, c]"
  using assms by (auto simp: numeral_eq_Suc length_Suc_conv)

lemma readTimeZoneFile_v2:
  assumes zone: "zone_ok tr types abbrev" and block1: "block1_ok ns body"
    and r: "length r1 = 15" "length r2 = 16"
  shows "readTimeZoneFile (Some (tzif @ ''2'' @ r1 @ enc_counts ns @ body @ tzif @ r2 @
      enc_zone tr types abbrev tz)) Data_new = Inr (Some (zone_data tr types abbrev tz))"
proof -
  have "length ns = 6" using block1 by (simp add: block1_ok_def)
  then obtain g s l t y c where ns: "ns = [g, s, l, t, y, c]" by (rule length6E)
  let ?Z = "enc_zone tr types abbrev tz"
  let ?p1 = "[] @ tzif" and ?f = "at [] (tzif @ ''2'' @ r1 @ enc_counts ns @ body @ tzif @ r2 @ ?Z)"
  let ?p2 = "?p1 @ ''2''"
  let ?p3 = "?p2 @ r1"
  let ?p4 = "?p3 @ enc_counts ns"
  let ?p5 = "?p4 @ body"
  let ?p6 = "?p5 @ tzif"
  have small: "\<forall>n \<in> set ns. in_int32 n" using block1 by (simp add: block1_ok_def)
  have n: "cast_int64 (5 * t + 6 * y + c + 8 * l + s + g) = int (length body)"
    using block1 by (simp add: block1_ok_def ns in_int32_def in_int64_def)
  have "read_zone ?f Data_new = readDataBlock (at (?p6 @ r2) ?Z) Data_new False"
  proof (rule read_zone_v2)
    show "readBytes 4 ?f = Inr (tzif, at ?p1 (''2'' @ r1 @ enc_counts ns @ body @ tzif @ r2 @ ?Z))"
      by (rule readBytes_at) (simp add: tzif_def)
    show "readBytes 1 (at ?p1 (''2'' @ r1 @ enc_counts ns @ body @ tzif @ r2 @ ?Z)) =
        Inr (''2'', at ?p2 (r1 @ enc_counts ns @ body @ tzif @ r2 @ ?Z))"
      by (rule readBytes_at) simp
    show "readBytes 15 (at ?p2 (r1 @ enc_counts ns @ body @ tzif @ r2 @ ?Z)) =
        Inr (r1, at ?p3 (enc_counts ns @ body @ tzif @ r2 @ ?Z))"
      by (rule readBytes_at) (simp add: r)
    show "read_times 6 File_readInt32 (at ?p3 (enc_counts ns @ body @ tzif @ r2 @ ?Z)) =
        Inr ([g, s, l, t, y, c], at ?p4 (body @ tzif @ r2 @ ?Z))"
      using read_counts_at [OF small, of 6] by (simp only: ns) simp
    show "in_int32 (6 * y)" "in_int32 (8 * l)" using block1 by (simp_all add: block1_ok_def ns)
    show "File_skip (cast_int64 (5 * t + 6 * y + c + 8 * l + s + g)) (at ?p4 (body @ tzif @ r2 @ ?Z)) =
        at ?p5 (tzif @ r2 @ ?Z)"
      unfolding n by (rule skip_at) simp
    show "readBytes 4 (at ?p5 (tzif @ r2 @ ?Z)) = Inr (tzif, at ?p6 (r2 @ ?Z))"
      by (rule readBytes_at) (simp add: tzif_def)
    show "File_skip 16 (at ?p6 (r2 @ ?Z)) = at (?p6 @ r2) ?Z"
      by (rule skip_at) (simp add: r)
  qed
  then show ?thesis
    unfolding readDataBlock_at [OF zone]
    by (simp only: readTimeZoneFile_def option.case) (simp add: at_def)
qed

lemma zone_data_entries:
  "zone_ok tr types abbrev \<Longrightarrow> entries_ok (zone_data tr types abbrev tz)"
  by (auto simp: zone_ok_def entries_ok_def zone_data_def split_beta nth_append)

section \<open>Properties\<close>



end
