(* ===== verification/Log_Stream.thy ===== *)
theory Log_Stream
  imports String_Piece
begin

text \<open>
  \<^verbatim>\<open>utility/LogStream.h\<close>, \<^verbatim>\<open>utility/LogStream.cpp\<close>: the fixed-size buffer of one log line, integer to text
  conversion, and the insertion operators.

  A \<^verbatim>\<open>FixedBuffer<SIZE>\<close> is its \<^verbatim>\<open>SIZE\<close> bytes and the index of \<^verbatim>\<open>cur_\<close>; the bytes behind it are
  indeterminate, so the constructor takes them as an argument. A write outside the array is
  \<open>Undefined\<close>. Integers of every type are integers of HOL; the text that \<^verbatim>\<open>snprintf\<close> gives for a
  floating point number is an argument. The cookie, which only marks memory dumps, is left out.
\<close>

section \<open>FixedBuffer\<close>

definition kSmallBuffer :: nat where
  "kSmallBuffer = 4000"

definition kLargeBuffer :: nat where
  "kLargeBuffer = 4000 * 1000"

record FixedBuffer =
  fb_data :: string
  fb_cur :: nat

definition FixedBuffer_new :: "string \<Rightarrow> FixedBuffer" where
  "FixedBuffer_new memory = \<lparr>fb_data = memory, fb_cur = 0\<rparr>"

definition fb_length :: "FixedBuffer \<Rightarrow> nat" where
  "fb_length b = fb_cur b"

definition fb_avail :: "FixedBuffer \<Rightarrow> int" where
  "fb_avail b = int (length (fb_data b)) - int (fb_cur b)"

definition fb_append :: "string \<Rightarrow> FixedBuffer \<Rightarrow> FixedBuffer res" where
  "fb_append buf b =
     (if size_of_int32 (fb_avail b) > length buf then
        rbind (vec_write (fb_data b) (fb_cur b) buf) (\<lambda>d.
          Inr (b\<lparr>fb_data := d, fb_cur := fb_cur b + length buf\<rparr>))
      else Inr b)"

definition fb_add :: "nat \<Rightarrow> FixedBuffer \<Rightarrow> FixedBuffer" where
  "fb_add len b = b\<lparr>fb_cur := fb_cur b + len\<rparr>"

definition fb_reset :: "FixedBuffer \<Rightarrow> FixedBuffer" where
  "fb_reset b = b\<lparr>fb_cur := 0\<rparr>"

definition fb_bZero :: "FixedBuffer \<Rightarrow> FixedBuffer" where
  "fb_bZero b = b\<lparr>fb_data := replicate (length (fb_data b)) (CHR 0x00)\<rparr>"

definition fb_toString :: "FixedBuffer \<Rightarrow> string" where
  "fb_toString b = take (fb_length b) (fb_data b)"

definition fb_toStringPiece :: "FixedBuffer \<Rightarrow> StringPiece" where
  "fb_toStringPiece b = StringPiece_of_range (fb_data b) (int (fb_length b))"

text \<open>\<^verbatim>\<open>debugString\<close> terminates the text in place and returns the array.\<close>

definition fb_debugString :: "FixedBuffer \<Rightarrow> FixedBuffer res" where
  "fb_debugString b =
     rbind (vec_write (fb_data b) (fb_cur b) [CHR 0x00]) (\<lambda>d. Inr (b\<lparr>fb_data := d\<rparr>))"

section \<open>Integers\<close>

definition digits :: string where
  "digits = ''9876543210123456789''"

definition digitsHex :: string where
  "digitsHex = ''0123456789ABCDEF''"

text \<open>The do loop of \<^verbatim>\<open>convert\<close>: the digits from the least significant one on.\<close>

function convert_loop :: "int \<Rightarrow> string" where
  "convert_loop i =
     (let lsd = cmod i 10; i' = cdiv i 10; c = digits ! nat (9 + lsd)
      in if i' \<noteq> 0 then c # convert_loop i' else [c])"
  by pat_completeness auto
termination
proof (relation "measure (\<lambda>i. nat \<bar>i\<bar>)")
  fix i i' :: int
  assume "i' = cdiv i 10" "i' \<noteq> 0"
  then show "(i', i) \<in> measure (\<lambda>i. nat \<bar>i\<bar>)"
    by (cases "0 \<le> i") (auto simp: cdiv_nonneg cdiv_neg)
qed simp

declare convert_loop.simps [simp del]

text \<open>The characters written to \<^verbatim>\<open>buf\<close>, without the terminating zero.\<close>

definition convert :: "int \<Rightarrow> string" where
  "convert value = rev (convert_loop value @ (if value < 0 then ''-'' else []))"

fun convertHex_loop :: "nat \<Rightarrow> string" where
  "convertHex_loop i =
     (let lsd = i mod 16; i' = i div 16; c = digitsHex ! lsd
      in if i' \<noteq> 0 then c # convertHex_loop i' else [c])"

declare convertHex_loop.simps [simp del]

definition convertHex :: "nat \<Rightarrow> string" where
  "convertHex value = rev (convertHex_loop value)"

section \<open>LogStream\<close>

record LogStream =
  ls_buffer :: FixedBuffer

definition kMaxNumericSize :: int where
  "kMaxNumericSize = 48"

text \<open>Characters and a terminating zero written at \<^verbatim>\<open>current()\<close>, then \<^verbatim>\<open>add\<close>.\<close>

definition put_at_current :: "string \<Rightarrow> nat \<Rightarrow> FixedBuffer \<Rightarrow> FixedBuffer res" where
  "put_at_current text len b =
     rbind (vec_write (fb_data b) (fb_cur b) (text @ [CHR 0x00])) (\<lambda>d. Inr (fb_add len (b\<lparr>fb_data := d\<rparr>)))"

definition on_buffer :: "(FixedBuffer \<Rightarrow> FixedBuffer res) \<Rightarrow> LogStream \<Rightarrow> LogStream res" where
  "on_buffer f s = rbind (f (ls_buffer s)) (\<lambda>b. Inr (s\<lparr>ls_buffer := b\<rparr>))"

text \<open>The guard and the write that the three numeric insertions share.\<close>

definition put_number :: "string \<Rightarrow> nat \<Rightarrow> LogStream \<Rightarrow> LogStream res" where
  "put_number text len s =
     (if kMaxNumericSize \<le> fb_avail (ls_buffer s) then on_buffer (put_at_current text len) s else Inr s)"

definition formatInteger :: "int \<Rightarrow> LogStream \<Rightarrow> LogStream res" where
  "formatInteger v s = (let text = convert v in put_number text (length text) s)"

definition put_bool :: "bool \<Rightarrow> LogStream \<Rightarrow> LogStream res" where
  "put_bool v = on_buffer (fb_append (if v then ''1'' else ''0''))"

definition put_int :: "int \<Rightarrow> LogStream \<Rightarrow> LogStream res" where
  "put_int v = formatInteger v"

definition put_short :: "int \<Rightarrow> LogStream \<Rightarrow> LogStream res" where
  "put_short v = put_int v"

definition put_pointer :: "nat \<Rightarrow> LogStream \<Rightarrow> LogStream res" where
  "put_pointer v s = put_number (''0x'' @ convertHex v) (length (convertHex v) + 2) s"

text \<open>\<open>text\<close> is the full text of \<^verbatim>\<open>"%.12g"\<close>, of which \<^verbatim>\<open>snprintf\<close> stores at most \<^verbatim>\<open>kMaxNumericSize - 1\<close> characters.\<close>

definition put_double :: "string \<Rightarrow> LogStream \<Rightarrow> LogStream res" where
  "put_double text s = put_number (snprintf_buf (nat kMaxNumericSize) text) (length text) s"

definition put_char :: "char \<Rightarrow> LogStream \<Rightarrow> LogStream res" where
  "put_char v = on_buffer (fb_append [v])"

text \<open>A C string is the bytes before its terminating zero; the null pointer is \<^term>\<open>None\<close>.\<close>

definition put_cstr :: "string option \<Rightarrow> LogStream \<Rightarrow> LogStream res" where
  "put_cstr str = on_buffer (fb_append (case str of Some s \<Rightarrow> s | None \<Rightarrow> ''(null)''))"

definition put_string :: "string \<Rightarrow> LogStream \<Rightarrow> LogStream res" where
  "put_string v = on_buffer (fb_append v)"

definition put_piece :: "StringPiece \<Rightarrow> LogStream \<Rightarrow> LogStream res" where
  "put_piece v = on_buffer (fb_append (as_string v))"

definition put_buffer :: "FixedBuffer \<Rightarrow> LogStream \<Rightarrow> LogStream res" where
  "put_buffer v = put_piece (fb_toStringPiece v)"

definition ls_append :: "string \<Rightarrow> LogStream \<Rightarrow> LogStream res" where
  "ls_append data = on_buffer (fb_append data)"

definition resetBuffer :: "LogStream \<Rightarrow> LogStream" where
  "resetBuffer s = s\<lparr>ls_buffer := fb_reset (ls_buffer s)\<rparr>"

text \<open>\<^verbatim>\<open>Fmt\<close>: \<open>text\<close> is what the format gives for the value.\<close>

definition Fmt_new :: "string \<Rightarrow> string res" where
  "Fmt_new text = require (length text < 32) (Inr (snprintf_buf 32 text))"

definition put_fmt :: "string \<Rightarrow> LogStream \<Rightarrow> LogStream res" where
  "put_fmt fmt s = ls_append fmt s"

section \<open>Conversions\<close>

lemma digits_table:
  "list_all (\<lambda>d. digits ! (9 + d) = digit_char d \<and> digits ! (9 - d) = digit_char d) [0..<10]"
  by code_simp

lemma digits_nonneg: "d < 10 \<Longrightarrow> digits ! (9 + d) = digit_char d"
  and digits_nonpos: "d < 10 \<Longrightarrow> digits ! (9 - d) = digit_char d"
  using digits_table by (simp_all add: list_all_iff)

lemma convert_loop_nonneg: "rev (convert_loop (int n)) = dec_nat n"
proof (induction n rule: dec_nat.induct)
  case (1 n)
  have d: "cmod (int n) 10 = int (n mod 10)" "cdiv (int n) 10 = int (n div 10)"
    by (simp_all add: cmod_nonneg cdiv_nonneg zmod_int zdiv_int)
  have "digits ! nat (9 + int (n mod 10)) = digit_char (n mod 10)"
    using digits_nonneg [of "n mod 10"] by (simp add: nat_add_distrib)
  with 1 show ?case
    by (subst convert_loop.simps, subst dec_nat.simps) (auto simp: d Let_def)
qed

lemma convert_loop_neg: "rev (convert_loop (- int n)) = dec_nat n"
proof (induction n rule: dec_nat.induct)
  case (1 n)
  have d: "cmod (- int n) 10 = - int (n mod 10)" "cdiv (- int n) 10 = - int (n div 10)"
    by (cases "n = 0"; simp add: cmod_neg cdiv_neg cmod_nonneg cdiv_nonneg zmod_int zdiv_int)+
  have "nat (9 - int (n mod 10)) = 9 - n mod 10" by (simp add: nat_diff_distrib)
  then have "digits ! nat (9 - int (n mod 10)) = digit_char (n mod 10)"
    using digits_nonpos [of "n mod 10"] by simp
  with 1 show ?case
    by (subst convert_loop.simps, subst dec_nat.simps) (auto simp: d Let_def)
qed

lemma convert_dec_int: "convert v = dec_int v"
proof (cases "0 \<le> v")
  case True
  then obtain n where "v = int n" by (metis nonneg_int_cases)
  then show ?thesis by (simp add: convert_def dec_int_def convert_loop_nonneg)
next
  case False
  then obtain n where "v = - int n" "n \<noteq> 0" by (metis neg_int_cases not_le not_gr_zero)
  then show ?thesis by (simp add: convert_def dec_int_def convert_loop_neg)
qed

definition hex_val :: "string \<Rightarrow> nat" where
  "hex_val s = foldl (\<lambda>a c. 16 * a + find_char c digitsHex) 0 s"

lemma hex_digit: "d < 16 \<Longrightarrow> find_char (digitsHex ! d) digitsHex = d"
proof -
  have "list_all (\<lambda>d. find_char (digitsHex ! d) digitsHex = d) [0..<16]" by code_simp
  then show "d < 16 \<Longrightarrow> find_char (digitsHex ! d) digitsHex = d" by (simp add: list_all_iff)
qed

lemma hex_val_convertHex: "hex_val (convertHex n) = n"
proof (induction n rule: convertHex_loop.induct)
  case (1 n)
  have "hex_val (s @ [c]) = 16 * hex_val s + find_char c digitsHex" for s c
    by (simp add: hex_val_def)
  moreover have "hex_val [c] = find_char c digitsHex" for c
    by (simp add: hex_val_def)
  ultimately show ?case
    using 1 hex_digit [of "n mod 16"] hex_digit [of n]
    by (simp add: convertHex_def convertHex_loop.simps [of n] Let_def div_eq_0_iff)
qed

lemma length_convertHex: "n < 16 ^ k \<Longrightarrow> 0 < k \<Longrightarrow> length (convertHex n) \<le> k"
proof (induction k arbitrary: n)
  case (Suc k)
  show ?case
  proof (cases "n div 16 = 0")
    case False
    then have "n div 16 < 16 ^ k" "0 < k"
      using Suc.prems(1) by (auto simp: less_mult_imp_div_less mult.commute intro: Suc.prems) (cases k; simp)
    with Suc.IH [of "n div 16"] False show ?thesis
      by (simp add: convertHex_def convertHex_loop.simps [of n] Let_def)
  qed (simp add: convertHex_def convertHex_loop.simps [of n] Let_def)
qed simp

lemma length_dec_int:
  assumes "\<bar>v\<bar> < 10 ^ 20"
  shows "length (dec_int v) \<le> 21"
proof -
  have "nat \<bar>v\<bar> < 10 ^ 20"
    using assms by (simp add: nat_less_iff)
  then have "length (dec_nat (nat \<bar>v\<bar>)) \<le> 20" by (rule length_dec_nat) simp
  then show ?thesis by (cases "v < 0") (simp_all add: dec_int_def)
qed

section \<open>Buffer and stream\<close>

text \<open>The invariant: the write position is inside the array.\<close>

definition fb_wf :: "FixedBuffer \<Rightarrow> bool" where
  "fb_wf b \<longleftrightarrow> fb_cur b < length (fb_data b) \<and> length (fb_data b) \<le> kLargeBuffer"

lemma size_avail:
  assumes "fb_wf b"
  shows "size_of_int32 (fb_avail b) = length (fb_data b) - fb_cur b"
proof -
  have "fb_avail b = int (length (fb_data b) - fb_cur b)"
    using assms by (simp add: fb_wf_def fb_avail_def of_nat_diff)
  moreover have "length (fb_data b) - fb_cur b < 2147483648"
    using assms by (auto simp: fb_wf_def kLargeBuffer_def)
  ultimately show ?thesis by (simp only: size_of_int32_small)
qed

lemma fb_written:
  assumes "fb_wf b" "length text + k < length (fb_data b) - fb_cur b" "length pad = k"
  defines "d \<equiv> take (fb_cur b) (fb_data b) @ (text @ pad) @ drop (fb_cur b + length (text @ pad)) (fb_data b)"
  shows "fb_wf (b\<lparr>fb_data := d, fb_cur := fb_cur b + length text\<rparr>)"
    "fb_toString (b\<lparr>fb_data := d, fb_cur := fb_cur b + length text\<rparr>) = fb_toString b @ text"
    "length d = length (fb_data b)"
  using assms by (simp_all add: fb_wf_def fb_toString_def fb_length_def d_def)

lemma fb_append_cases:
  assumes "fb_wf b"
  shows "\<exists>b'. fb_append text b = Inr b' \<and> fb_wf b' \<and> length (fb_data b') = length (fb_data b) \<and>
    fb_toString b' = (if fb_cur b + length text < length (fb_data b) then fb_toString b @ text
      else fb_toString b)"
proof (cases "fb_cur b + length text < length (fb_data b)")
  case True
  then have "length text + 0 < length (fb_data b) - fb_cur b" by simp
  note w = fb_written [OF assms this, of "[]"]
  from True have "fb_append text b = Inr (b\<lparr>fb_data := take (fb_cur b) (fb_data b) @ text @
      drop (fb_cur b + length text) (fb_data b), fb_cur := fb_cur b + length text\<rparr>)"
    by (simp add: fb_append_def size_avail [OF assms])
  with w True show ?thesis by simp
next
  case False
  then have "\<not> length text < length (fb_data b) - fb_cur b" by simp
  with False assms show ?thesis by (simp add: fb_append_def size_avail [OF assms])
qed

lemma put_at_current_ok:
  assumes "fb_wf b" "kMaxNumericSize \<le> fb_avail b" "length text < 47"
  shows "\<exists>b'. put_at_current text (length text) b = Inr b' \<and> fb_wf b' \<and>
    length (fb_data b') = length (fb_data b) \<and> fb_toString b' = fb_toString b @ text"
proof -
  have room: "length text + 1 < length (fb_data b) - fb_cur b"
    using assms by (simp add: fb_wf_def fb_avail_def kMaxNumericSize_def)
  note w = fb_written [OF assms(1) room, of "[CHR 0x00]"]
  from room have "vec_write (fb_data b) (fb_cur b) (text @ [CHR 0x00]) =
      Inr (take (fb_cur b) (fb_data b) @ (text @ [CHR 0x00]) @
        drop (fb_cur b + length (text @ [CHR 0x00])) (fb_data b))"
    by (intro vec_write_ok) simp
  with w show ?thesis
    by (simp add: put_at_current_def fb_add_def)
qed

lemma debugString_ok: "fb_wf b \<Longrightarrow> \<exists>b'. fb_debugString b = Inr b' \<and> fb_wf b'"
  by (auto simp: fb_debugString_def fb_wf_def)

text \<open>
  The insertion operators as one type of items, with the text of each and the room it asks for: a
  number wants \<^verbatim>\<open>kMaxNumericSize\<close> free bytes whatever its length, everything else more than its
  length.
\<close>

datatype log_item =
  Bool_item bool | Int_item int | Pointer_item nat | Double_item string | Char_item char
  | Cstr_item "string option" | String_item string | Piece_item StringPiece | Buffer_item FixedBuffer

fun put_item :: "log_item \<Rightarrow> LogStream \<Rightarrow> LogStream res" where
  "put_item (Bool_item v) = put_bool v"
| "put_item (Int_item v) = put_int v"
| "put_item (Pointer_item v) = put_pointer v"
| "put_item (Double_item v) = put_double v"
| "put_item (Char_item v) = put_char v"
| "put_item (Cstr_item v) = put_cstr v"
| "put_item (String_item v) = put_string v"
| "put_item (Piece_item v) = put_piece v"
| "put_item (Buffer_item v) = put_buffer v"

fun item_text :: "log_item \<Rightarrow> string" where
  "item_text (Bool_item v) = (if v then ''1'' else ''0'')"
| "item_text (Int_item v) = dec_int v"
| "item_text (Pointer_item v) = ''0x'' @ convertHex v"
| "item_text (Double_item v) = v"
| "item_text (Char_item v) = [v]"
| "item_text (Cstr_item v) = (case v of Some s \<Rightarrow> s | None \<Rightarrow> ''(null)'')"
| "item_text (String_item v) = v"
| "item_text (Piece_item v) = as_string v"
| "item_text (Buffer_item v) = fb_toString v"

fun item_room :: "log_item \<Rightarrow> nat" where
  "item_room (Int_item v) = nat kMaxNumericSize"
| "item_room (Pointer_item v) = nat kMaxNumericSize"
| "item_room (Double_item v) = nat kMaxNumericSize"
| "item_room i = Suc (length (item_text i))"

text \<open>The values that the C++ types can hold; \<^verbatim>\<open>"%.12g"\<close> never gives more than 47 characters.\<close>

fun item_ok :: "log_item \<Rightarrow> bool" where
  "item_ok (Int_item v) \<longleftrightarrow> - (2 ^ 63) \<le> v \<and> v < 2 ^ 64"
| "item_ok (Pointer_item v) \<longleftrightarrow> v < 2 ^ 64"
| "item_ok (Double_item v) \<longleftrightarrow> length v < 47"
| "item_ok (Buffer_item v) \<longleftrightarrow> fb_wf v"
| "item_ok i \<longleftrightarrow> True"

definition put_spec :: "nat \<Rightarrow> log_item \<Rightarrow> string \<Rightarrow> string" where
  "put_spec cap i line = (if length line + item_room i \<le> cap then line @ item_text i else line)"

definition ls_wf :: "LogStream \<Rightarrow> bool" where
  "ls_wf s \<longleftrightarrow> fb_wf (ls_buffer s) \<and> length (fb_data (ls_buffer s)) = kSmallBuffer"

definition ls_text :: "LogStream \<Rightarrow> string" where
  "ls_text s = fb_toString (ls_buffer s)"

lemma length_toString: "fb_wf b \<Longrightarrow> length (fb_toString b) = fb_cur b"
  by (simp add: fb_wf_def fb_toString_def fb_length_def)

lemma append_item:
  assumes "ls_wf s"
  shows "\<exists>s'. on_buffer (fb_append text) s = Inr s' \<and> ls_wf s' \<and>
    ls_text s' = (if length (ls_text s) + Suc (length text) \<le> kSmallBuffer then ls_text s @ text
      else ls_text s)"
proof -
  have wf: "fb_wf (ls_buffer s)" "length (fb_data (ls_buffer s)) = kSmallBuffer"
    using assms by (simp_all add: ls_wf_def)
  from fb_append_cases [OF wf(1), of "text"] wf(2) length_toString [OF wf(1)] show ?thesis
    by (auto simp: on_buffer_def ls_wf_def ls_text_def)
qed

lemma number_item:
  assumes "ls_wf s" "length text < 47"
  shows "\<exists>s'. put_number text (length text) s = Inr s' \<and> ls_wf s' \<and>
    ls_text s' = (if length (ls_text s) + nat kMaxNumericSize \<le> kSmallBuffer then ls_text s @ text
      else ls_text s)"
proof -
  have wf: "fb_wf (ls_buffer s)" "length (fb_data (ls_buffer s)) = kSmallBuffer"
    using assms by (simp_all add: ls_wf_def)
  have "(kMaxNumericSize \<le> fb_avail (ls_buffer s)) = (length (ls_text s) + nat kMaxNumericSize \<le> kSmallBuffer)"
    using wf length_toString [OF wf(1)]
    by (auto simp: fb_avail_def kMaxNumericSize_def kSmallBuffer_def ls_text_def)
  moreover note put_at_current_ok [OF wf(1) _ assms(2)]
  ultimately show ?thesis
    using assms(1) by (auto simp: put_number_def on_buffer_def ls_wf_def ls_text_def)
qed

lemma put_item_ok:
  assumes "ls_wf s" "item_ok i"
  shows "\<exists>s'. put_item i s = Inr s' \<and> ls_wf s' \<and> ls_text s' = put_spec kSmallBuffer i (ls_text s)"
proof (cases i)
  case (Int_item v)
  then have "\<bar>v\<bar> < 10 ^ 20" using assms(2) by (auto simp: abs_less_iff)
  then have "length (dec_int v) < 47" using length_dec_int [of v] by simp
  from number_item [OF assms(1) this] Int_item show ?thesis
    by (auto simp: put_int_def formatInteger_def convert_dec_int put_spec_def Let_def)
next
  case (Pointer_item v)
  have "length (convertHex v) \<le> 16"
    using assms(2) Pointer_item by (intro length_convertHex) simp_all
  then have "length (''0x'' @ convertHex v) < 47" by simp
  from number_item [OF assms(1) this] Pointer_item show ?thesis
    by (auto simp: put_pointer_def put_spec_def)
next
  case (Double_item v)
  then have "length v < 47" using assms(2) by simp
  from number_item [OF assms(1) this] this Double_item show ?thesis
    by (auto simp: put_double_def put_spec_def snprintf_buf_def kMaxNumericSize_def)
next
  case (Buffer_item v)
  then have "as_string (fb_toStringPiece v) = fb_toString v"
    using assms(2)
    by (simp add: as_string_def fb_toStringPiece_def StringPiece_of_range_def fb_toString_def)
  with append_item [OF assms(1), of "fb_toString v"] Buffer_item show ?thesis
    by (auto simp: put_buffer_def put_piece_def put_spec_def)
qed (use append_item [OF assms(1), of "item_text i"] in \<open>auto simp: put_spec_def put_bool_def put_char_def put_cstr_def
    put_string_def put_piece_def\<close>)

lemma put_items_ok:
  assumes "ls_wf s" "\<forall>i \<in> set items. item_ok i"
  shows "\<exists>s'. rfold put_item items s = Inr s' \<and> ls_wf s' \<and>
    ls_text s' = fold (put_spec kSmallBuffer) items (ls_text s)"
  using assms
proof (induction items arbitrary: s)
  case Nil
  then show ?case by simp
next
  case (Cons i items)
  then show ?case using put_item_ok [of s i] by fastforce
qed

lemma put_spec_all:
  assumes "length line + length (concat (map item_text items)) + nat kMaxNumericSize \<le> cap"
    and "\<forall>i \<in> set items. item_ok i"
  shows "fold (put_spec cap) items line = line @ concat (map item_text items)"
  using assms
proof (induction items arbitrary: line)
  case (Cons i items)
  have "length line + item_room i \<le> cap"
    using Cons.prems by (cases i) (auto simp: kMaxNumericSize_def)
  with Cons show ?case by (simp add: put_spec_def)
qed simp

section \<open>Properties\<close>

text \<open>
  The text of a signed or unsigned integer of up to 64 bits, \<^verbatim>\<open>INT64_MIN\<close> included, is its decimal
  numeral, and with the terminating zero it fits the space that \<^verbatim>\<open>formatInteger\<close> asks for; the text of
  a pointer denotes its value in hexadecimal with at most 16 digits.
\<close>

lemma number_texts:
  assumes "- (2 ^ 63) \<le> v" "v < 2 ^ 64" "p < 2 ^ 64"
  shows "convert v = dec_int v \<and> int (length (convert v)) + 1 \<le> kMaxNumericSize \<and>
    hex_val (convertHex p) = p \<and> length (convertHex p) \<le> 16"
proof -
  have "length (dec_int v) \<le> 21" using assms(1,2) by (intro length_dec_int) simp
  moreover have "length (convertHex p) \<le> 16" using assms(3) by (intro length_convertHex) simp_all
  ultimately show ?thesis
    by (simp add: convert_dec_int hex_val_convertHex kMaxNumericSize_def)
qed

text \<open>
  C26: a log line never leaves its array: any sequence of insertions succeeds, with the write position
  inside the array after each, and leaves the texts of the items that had room, in order, dropping
  the others; a sequence whose texts leave room for one more number is recorded in full.
\<close>

theorem LogStream_records:
  assumes "ls_wf s" "\<forall>i \<in> set items. item_ok i"
  shows "\<exists>s'. rfold put_item items s = Inr s' \<and> ls_wf s' \<and>
    ls_text s' = fold (put_spec kSmallBuffer) items (ls_text s) \<and>
    (length (ls_text s) + length (concat (map item_text items)) + nat kMaxNumericSize \<le> kSmallBuffer \<longrightarrow>
       ls_text s' = ls_text s @ concat (map item_text items))"
proof -
  obtain s' where "rfold put_item items s = Inr s'" "ls_wf s'"
      "ls_text s' = fold (put_spec kSmallBuffer) items (ls_text s)"
    using put_items_ok [OF assms] by blast
  with put_spec_all [of "ls_text s" items kSmallBuffer] assms(2) show ?thesis by auto
qed

theorem LogStream_records_witness:
  "\<exists>s'. rfold put_item [String_item ''n = '', Int_item (- 42), Bool_item True]
      \<lparr>ls_buffer = FixedBuffer_new (replicate 4000 (CHR 0x00))\<rparr> = Inr s' \<and> ls_text s' = ''n = -421''"
proof -
  let ?s = "\<lparr>ls_buffer = FixedBuffer_new (replicate 4000 (CHR 0x00))\<rparr>"
  have "ls_wf ?s"
    by (simp add: ls_wf_def fb_wf_def FixedBuffer_new_def kSmallBuffer_def kLargeBuffer_def)
  moreover have "ls_text ?s = []"
    by (simp add: ls_text_def fb_toString_def fb_length_def FixedBuffer_new_def)
  moreover have "dec_int (- 42) = ''-42''"
    by (simp add: dec_int_def dec_nat.simps digit_chars)
  ultimately show ?thesis
    using LogStream_records [of ?s "[String_item ''n = '', Int_item (- 42), Bool_item True]"]
    by (auto simp: kMaxNumericSize_def kSmallBuffer_def simp del: rfold.simps)
qed

end
