(* ===== verification/Threads.thy ===== *)
theory Threads
  imports Prelude
begin

text \<open>
  \<^verbatim>\<open>utility/Thread.cpp\<close> and the thread-local data of \<^verbatim>\<open>utility/CurrentThread.h\<close>: the thread object with
  its start and join, the function a new thread runs, and the cached thread id with its text.

  \<^verbatim>\<open>gettid\<close> and the success of \<^verbatim>\<open>pthread_create\<close> are arguments; the id that \<^verbatim>\<open>start\<close> waits for is the one
  the new thread stores before it counts the latch down.
\<close>

section \<open>CurrentThread\<close>

record CurrentThread =
  t_cachedTid :: int
  t_tidString :: string
  t_tidStringLength :: int
  t_threadName :: string

definition CurrentThread_init :: CurrentThread where
  "CurrentThread_init =
     \<lparr>t_cachedTid = 0, t_tidString = [], t_tidStringLength = 6, t_threadName = ''unknown''\<rparr>"

text \<open>\<^verbatim>\<open>snprintf\<close> returns the length of the whole text.\<close>

definition cacheTid :: "int \<Rightarrow> CurrentThread \<Rightarrow> CurrentThread" where
  "cacheTid gettid t =
     (if t_cachedTid t = 0 then
        let text = dec_blank_pad 5 gettid @ '' ''
        in t\<lparr>t_cachedTid := gettid, t_tidString := snprintf_buf 32 text, t_tidStringLength := int (length text)\<rparr>
      else t)"

definition tid :: "int \<Rightarrow> CurrentThread \<Rightarrow> int \<times> CurrentThread" where
  "tid gettid t = (let t = (if t_cachedTid t = 0 then cacheTid gettid t else t) in (t_cachedTid t, t))"

definition isMainThread :: "int \<Rightarrow> int \<Rightarrow> CurrentThread \<Rightarrow> bool \<times> CurrentThread" where
  "isMainThread getpid gettid t = (let (i, t) = tid gettid t in (i = getpid, t))"

definition afterFork :: "int \<Rightarrow> CurrentThread \<Rightarrow> CurrentThread" where
  "afterFork gettid t = snd (tid gettid (t\<lparr>t_cachedTid := 0, t_threadName := ''main''\<rparr>))"

definition ThreadNameInitializer :: "int \<Rightarrow> CurrentThread \<Rightarrow> CurrentThread" where
  "ThreadNameInitializer gettid t = snd (tid gettid (t\<lparr>t_threadName := ''main''\<rparr>))"

section \<open>Thread\<close>

record Thread =
  th_started :: bool
  th_joined :: bool
  th_tid :: int
  th_name :: string

text \<open>\<open>numCreated\<close> is the counter of the class.\<close>

definition setDefaultName :: "int \<Rightarrow> Thread \<Rightarrow> Thread \<times> int" where
  "setDefaultName numCreated t =
     (let num = numCreated + 1
      in (if th_name t = [] then t\<lparr>th_name := snprintf_buf 32 (''Thread'' @ dec_int num)\<rparr> else t, num))"

definition Thread_new :: "int \<Rightarrow> string \<Rightarrow> Thread \<times> int" where
  "Thread_new numCreated name =
     setDefaultName numCreated \<lparr>th_started = False, th_joined = False, th_tid = 0, th_name = name\<rparr>"

datatype func_outcome = Func_returns | Func_throws | Func_throws_unknown

text \<open>
  \<^verbatim>\<open>runInThread\<close>: the id is published, the thread gets its name, and the function runs. An exception
  ends the process.
\<close>

definition publish_tid :: "int \<Rightarrow> CurrentThread \<Rightarrow> Thread \<Rightarrow> CurrentThread \<times> Thread" where
  "publish_tid gettid c t = (let (i, c) = tid gettid c in (c, t\<lparr>th_tid := i\<rparr>))"

definition runInThread :: "int \<Rightarrow> func_outcome \<Rightarrow> CurrentThread \<Rightarrow> Thread \<Rightarrow> (CurrentThread \<times> Thread) res" where
  "runInThread gettid func c t =
     (let (c, t) = publish_tid gettid c t;
          c = c\<lparr>t_threadName := (if th_name t = [] then ''zhengqiThread'' else th_name t)\<rparr>
      in case func of
           Func_returns \<Rightarrow> Inr (c\<lparr>t_threadName := ''finished''\<rparr>, t)
         | Func_throws \<Rightarrow> Inl Fatal
         | Func_throws_unknown \<Rightarrow> Inl Fatal)"

text \<open>\<open>created\<close> is the id of the new thread, if there is one.\<close>

definition thread_start :: "int option \<Rightarrow> Thread \<Rightarrow> Thread res" where
  "thread_start created t =
     require (\<not> th_started t)
       (case created of
          None \<Rightarrow> Inr (t\<lparr>th_started := False\<rparr>)
        | Some gettid \<Rightarrow>
            let t = snd (publish_tid gettid CurrentThread_init (t\<lparr>th_started := True\<rparr>))
            in require (0 < th_tid t) (Inr t))"

definition thread_join :: "Thread \<Rightarrow> Thread res" where
  "thread_join t = require (th_started t) (require (\<not> th_joined t) (Inr (t\<lparr>th_joined := True\<rparr>)))"

definition Thread_detaches :: "Thread \<Rightarrow> bool" where
  "Thread_detaches t \<longleftrightarrow> th_started t \<and> \<not> th_joined t"

section \<open>Facts\<close>

text \<open>
  The text of the thread id has the length that is kept beside it: what the log line relies on. Ids are
  \<^verbatim>\<open>int\<close>, so the text is never cut off.
\<close>

definition tid_text_ok :: "CurrentThread \<Rightarrow> bool" where
  "tid_text_ok t \<longleftrightarrow> t_cachedTid t \<noteq> 0 \<and> t_tidString t = dec_blank_pad 5 (t_cachedTid t) @ '' '' \<and>
     t_tidStringLength t = int (length (t_tidString t))"

lemma length_dec_int32:
  assumes "in_int32 i"
  shows "length (dec_int i) \<le> 11"
proof -
  have "nat \<bar>i\<bar> < 10 ^ 10" using assms by (auto simp: in_int32_def)
  then have "length (dec_nat (nat \<bar>i\<bar>)) \<le> 10" by (rule length_dec_nat) simp
  then show ?thesis by (cases "i < 0") (simp_all add: dec_int_def)
qed

lemma cacheTid_ok:
  assumes "in_int32 gettid" "gettid \<noteq> 0" "t_cachedTid t = 0"
  shows "tid_text_ok (cacheTid gettid t)"
proof -
  have "length (dec_blank_pad 5 gettid) \<le> 30"
    using length_dec_int32 [OF assms(1)] by (simp add: dec_blank_pad_def)
  then show ?thesis using assms(2,3) by (simp add: cacheTid_def tid_text_ok_def snprintf_buf_def)
qed

lemma tid_ok:
  assumes "in_int32 gettid" "gettid \<noteq> 0" "t_cachedTid t = 0 \<or> tid_text_ok t"
  shows "tid_text_ok (snd (tid gettid t))" "fst (tid gettid t) = (if t_cachedTid t = 0 then gettid else t_cachedTid t)"
proof -
  show "fst (tid gettid t) = (if t_cachedTid t = 0 then gettid else t_cachedTid t)"
    by (simp add: tid_def cacheTid_def Let_def)
  show "tid_text_ok (snd (tid gettid t))"
  proof (cases "t_cachedTid t = 0")
    case True
    then show ?thesis using cacheTid_ok [OF assms(1,2)] by (simp add: tid_def Let_def)
  next
    case False
    then show ?thesis using assms(3) by (simp add: tid_def)
  qed
qed

text \<open>A thread is started and joined at most once; it is joined only after a successful start.\<close>

lemma thread_start_cases:
  assumes "\<not> th_started t" "0 < gettid"
  shows "\<exists>t'. thread_start (Some gettid) t = Inr t' \<and> th_started t' \<and> th_tid t' = gettid \<and>
    th_joined t' = th_joined t \<and> th_name t' = th_name t"
  using assms
  by (simp add: thread_start_def publish_tid_def tid_def cacheTid_def CurrentThread_init_def Let_def)

lemma thread_start_once: "th_started t \<Longrightarrow> thread_start created t = Inl Assert_failed"
  by (simp add: thread_start_def)

lemma thread_join_iff: "thread_join t = Inr t' \<longleftrightarrow> th_started t \<and> \<not> th_joined t \<and> t' = t\<lparr>th_joined := True\<rparr>"
  by (auto simp: thread_join_def require_Inr_iff)

lemma default_name: "th_name (fst (Thread_new numCreated name)) \<noteq> []"
  by (simp add: Thread_new_def setDefaultName_def snprintf_buf_def Let_def)

end
