(* ===== verification/Logging.thy ===== *)
theory Logging
  imports Log_Stream Time_Zone Threads
begin

text \<open>
  \<^verbatim>\<open>utility/Logging.cpp\<close>: a log statement. It formats the time, the thread id and the level, takes the
  insertions of the user, adds the source position, and hands the line to the output function; a fatal
  one ends the process.

  The thread-local data are one record, the globals another; \<open>g_out\<close> is the sequence of the lines given
  to \<^verbatim>\<open>g_output\<close>. The clock, the thread id, \<^verbatim>\<open>errno\<close> with its text and the content of new memory are
  arguments.

  The lemmas give the line in full, show that the text of the second, which is formatted once per
  second and thread, is right on every line, and that this fails when the time zone is changed.
\<close>

section \<open>Levels\<close>

datatype LogLevel = TRACE | DEBUG | INFO | WARN | ERROR | FATAL

fun level_num :: "LogLevel \<Rightarrow> nat" where
  "level_num TRACE = 0"
| "level_num DEBUG = 1"
| "level_num INFO = 2"
| "level_num WARN = 3"
| "level_num ERROR = 4"
| "level_num FATAL = 5"

instantiation LogLevel :: linorder
begin

definition less_eq_LogLevel :: "LogLevel \<Rightarrow> LogLevel \<Rightarrow> bool" where
  "a \<le> b \<longleftrightarrow> level_num a \<le> level_num b"

definition less_LogLevel :: "LogLevel \<Rightarrow> LogLevel \<Rightarrow> bool" where
  "a < b \<longleftrightarrow> level_num a < level_num b"

instance
proof
  fix a b :: LogLevel
  show "a \<le> b \<Longrightarrow> b \<le> a \<Longrightarrow> a = b"
    by (cases a; cases b; simp add: less_eq_LogLevel_def)
qed (auto simp: less_eq_LogLevel_def less_LogLevel_def)

end

fun LogLevelName :: "LogLevel \<Rightarrow> string" where
  "LogLevelName TRACE = ''TRACE ''"
| "LogLevelName DEBUG = ''DEBUG ''"
| "LogLevelName INFO = ''INFO  ''"
| "LogLevelName WARN = ''WARN  ''"
| "LogLevelName ERROR = ''ERROR ''"
| "LogLevelName FATAL = ''FATAL ''"

definition initLogLevel :: "bool \<Rightarrow> bool \<Rightarrow> LogLevel" where
  "initLogLevel trace_set debug_set = (if trace_set then TRACE else if debug_set then DEBUG else INFO)"

section \<open>State\<close>

text \<open>\<^verbatim>\<open>SourceFile\<close>: the part of the path behind the last slash.\<close>

definition SourceFile :: "string \<Rightarrow> string" where
  "SourceFile path = rev (takeWhile (\<lambda>c. c \<noteq> CHR ''/'') (rev path))"

record LogThread =
  t_time :: string
  t_lastSecond :: int
  t_current :: CurrentThread

definition LogThread_init :: LogThread where
  "LogThread_init = \<lparr>t_time = [], t_lastSecond = 0, t_current = CurrentThread_init\<rparr>"

record LogGlobals =
  g_logLevel :: LogLevel
  g_logTimeZone :: TimeZone
  g_out :: "string list"

definition setLogLevel :: "LogLevel \<Rightarrow> LogGlobals \<Rightarrow> LogGlobals" where
  "setLogLevel level g = g\<lparr>g_logLevel := level\<rparr>"

definition setTimeZone :: "TimeZone \<Rightarrow> LogGlobals \<Rightarrow> LogGlobals" where
  "setTimeZone tz g = g\<lparr>g_logTimeZone := tz\<rparr>"

text \<open>What the system tells a log statement.\<close>

record stmt_env =
  se_now :: Timestamp
  se_gettid :: int
  se_errno :: int
  se_strerror :: string
  se_memory :: "nat \<Rightarrow> char"

record LoggerImpl =
  im_time :: Timestamp
  im_stream :: LogStream
  im_level :: LogLevel
  im_line :: int
  im_basename :: string

section \<open>Formatting\<close>

text \<open>The helper \<^verbatim>\<open>T\<close>: a string of known length.\<close>

definition put_T :: "string \<Rightarrow> nat \<Rightarrow> LogStream \<Rightarrow> LogStream res" where
  "put_T str len s = require (length str = len) (ls_append (take len str) s)"

definition put_SourceFile :: "string \<Rightarrow> LogStream \<Rightarrow> LogStream res" where
  "put_SourceFile file s = ls_append file s"

definition second_text :: "DateTime \<Rightarrow> string" where
  "second_text dt =
     dec_blank_pad 4 (dt_year dt) @ dec_zero_pad 2 (dt_month dt) @ dec_zero_pad 2 (dt_day dt) @ '' '' @
     dec_zero_pad 2 (dt_hour dt) @ '':'' @ dec_zero_pad 2 (dt_minute dt) @ '':'' @ dec_zero_pad 2 (dt_second dt)"

definition log_DateTime :: "TimeZone \<Rightarrow> int \<Rightarrow> DateTime res" where
  "log_DateTime tz seconds =
     (if TimeZone_valid tz then rbind (toLocalTime seconds tz) (\<lambda>(dt, offset). Inr dt)
      else Inr (toUtcTime seconds))"

definition update_second :: "TimeZone \<Rightarrow> int \<Rightarrow> LogThread \<Rightarrow> LogThread res" where
  "update_second tz seconds t =
     (if seconds \<noteq> t_lastSecond t then
        rbind (log_DateTime tz seconds) (\<lambda>dt.
          require (length (second_text dt) = 17)
            (Inr (t\<lparr>t_lastSecond := seconds, t_time := snprintf_buf 64 (second_text dt)\<rparr>)))
      else Inr t)"

definition put_micros :: "TimeZone \<Rightarrow> int \<Rightarrow> LogThread \<Rightarrow> LogStream \<Rightarrow> LogStream res" where
  "put_micros tz microseconds t s =
     (if TimeZone_valid tz then
        rbind (Fmt_new (''.'' @ dec_zero_pad 6 microseconds @ '' '')) (\<lambda>us.
        require (length us = 8) (rbind (put_T (t_time t) 17 s) (put_T us 8)))
      else
        rbind (Fmt_new (''.'' @ dec_zero_pad 6 microseconds @ ''Z '')) (\<lambda>us.
        require (length us = 9) (rbind (put_T (t_time t) 17 s) (put_T us 9))))"

definition formatTime :: "TimeZone \<Rightarrow> LogThread \<Rightarrow> LoggerImpl \<Rightarrow> (LogThread \<times> LoggerImpl) res" where
  "formatTime tz t i =
     (let seconds = cdiv (microSecondsSinceEpoch (im_time i)) kMicroSecondsPerSecond;
          microseconds = cmod (microSecondsSinceEpoch (im_time i)) kMicroSecondsPerSecond in
      rbind (update_second tz seconds t) (\<lambda>t.
      rbind (put_micros tz microseconds t (im_stream i)) (\<lambda>s. Inr (t, i\<lparr>im_stream := s\<rparr>))))"

text \<open>\<^verbatim>\<open>strerror_tl\<close> yields the text of the error that the system gives.\<close>

definition put_errno :: "stmt_env \<Rightarrow> int \<Rightarrow> LogStream \<Rightarrow> LogStream res" where
  "put_errno env savedErrno s =
     (if savedErrno \<noteq> 0 then
        rfold put_item [Cstr_item (Some (se_strerror env)), Cstr_item (Some '' (errno=''), Int_item savedErrno,
          Cstr_item (Some '') '')] s
      else Inr s)"

definition Impl_new ::
    "stmt_env \<Rightarrow> TimeZone \<Rightarrow> LogLevel \<Rightarrow> int \<Rightarrow> string \<Rightarrow> int \<Rightarrow> LogThread \<Rightarrow> (LogThread \<times> LoggerImpl) res" where
  "Impl_new env tz level savedErrno sourcefile line t =
     rbind (formatTime tz t
       \<lparr>im_time = se_now env, im_stream = \<lparr>ls_buffer = FixedBuffer_new (map (se_memory env) [0..<kSmallBuffer])\<rparr>,
        im_level = level, im_line = line, im_basename = sourcefile\<rparr>) (\<lambda>(t, i).
     let (_, c) = tid (se_gettid env) (t_current t); t = t\<lparr>t_current := c\<rparr> in
     rbind (put_T (t_tidString c) (nat (t_tidStringLength c)) (im_stream i)) (\<lambda>s.
     rbind (put_T (LogLevelName level) 6 s) (\<lambda>s.
     rbind (put_errno env savedErrno s) (\<lambda>s. Inr (t, i\<lparr>im_stream := s\<rparr>)))))"

definition finish :: "LoggerImpl \<Rightarrow> LoggerImpl res" where
  "finish i =
     rbind (put_cstr (Some '' - '') (im_stream i)) (\<lambda>s.
     rbind (put_SourceFile (im_basename i) s) (\<lambda>s.
     rbind (rfold put_item [Char_item (CHR '':''), Int_item (im_line i), Char_item (CHR 0x0A)] s) (\<lambda>s.
     Inr (i\<lparr>im_stream := s\<rparr>))))"

section \<open>Log statements\<close>

text \<open>The constructor with a function name, and the one of the macros for system errors.\<close>

definition Logger_new_func ::
    "stmt_env \<Rightarrow> TimeZone \<Rightarrow> string \<Rightarrow> int \<Rightarrow> LogLevel \<Rightarrow> string \<Rightarrow> LogThread \<Rightarrow> (LogThread \<times> LoggerImpl) res" where
  "Logger_new_func env tz path line level func t =
     rbind (Impl_new env tz level 0 (SourceFile path) line t) (\<lambda>(t, i).
     rbind (rfold put_item [Cstr_item (Some func), Char_item (CHR '' '')] (im_stream i)) (\<lambda>s.
     Inr (t, i\<lparr>im_stream := s\<rparr>)))"

definition Logger_new ::
    "stmt_env \<Rightarrow> TimeZone \<Rightarrow> string \<Rightarrow> int \<Rightarrow> LogLevel \<Rightarrow> LogThread \<Rightarrow> (LogThread \<times> LoggerImpl) res" where
  "Logger_new env tz path line level t = Impl_new env tz level 0 (SourceFile path) line t"

definition Logger_new_errno ::
    "stmt_env \<Rightarrow> TimeZone \<Rightarrow> string \<Rightarrow> int \<Rightarrow> bool \<Rightarrow> LogThread \<Rightarrow> (LogThread \<times> LoggerImpl) res" where
  "Logger_new_errno env tz path line toAbort t =
     Impl_new env tz (if toAbort then FATAL else ERROR) (se_errno env) (SourceFile path) line t"

text \<open>A fatal line is given to the output function and flushed before \<^verbatim>\<open>abort\<close>, which leaves no state.\<close>

definition Logger_destroy :: "LoggerImpl \<Rightarrow> LogGlobals \<Rightarrow> LogGlobals res" where
  "Logger_destroy i g =
     rbind (finish i) (\<lambda>i.
     let g = g\<lparr>g_out := g_out g @ [fb_toString (ls_buffer (im_stream i))]\<rparr> in
     if im_level i = FATAL then Inl Fatal else Inr g)"

datatype log_macro =
    LOG_TRACE | LOG_DEBUG | LOG_INFO | LOG_WARN | LOG_ERROR | LOG_FATAL | LOG_SYSERR | LOG_SYSFATAL

fun macro_level :: "log_macro \<Rightarrow> LogLevel" where
  "macro_level LOG_TRACE = TRACE"
| "macro_level LOG_DEBUG = DEBUG"
| "macro_level LOG_INFO = INFO"
| "macro_level LOG_WARN = WARN"
| "macro_level LOG_ERROR = ERROR"
| "macro_level LOG_FATAL = FATAL"
| "macro_level LOG_SYSERR = ERROR"
| "macro_level LOG_SYSFATAL = FATAL"

definition macro_passes :: "log_macro \<Rightarrow> LogGlobals \<Rightarrow> bool" where
  "macro_passes m g \<longleftrightarrow> (if m \<in> {LOG_TRACE, LOG_DEBUG, LOG_INFO} then g_logLevel g \<le> macro_level m else True)"

definition macro_Logger ::
    "log_macro \<Rightarrow> stmt_env \<Rightarrow> TimeZone \<Rightarrow> string \<Rightarrow> int \<Rightarrow> string \<Rightarrow> LogThread \<Rightarrow> (LogThread \<times> LoggerImpl) res" where
  "macro_Logger m env tz path line func t =
     (case m of
        LOG_TRACE \<Rightarrow> Logger_new_func env tz path line TRACE func t
      | LOG_DEBUG \<Rightarrow> Logger_new_func env tz path line DEBUG func t
      | LOG_INFO \<Rightarrow> Logger_new env tz path line INFO t
      | LOG_WARN \<Rightarrow> Logger_new env tz path line WARN t
      | LOG_ERROR \<Rightarrow> Logger_new env tz path line ERROR t
      | LOG_FATAL \<Rightarrow> Logger_new env tz path line FATAL t
      | LOG_SYSERR \<Rightarrow> Logger_new_errno env tz path line False t
      | LOG_SYSFATAL \<Rightarrow> Logger_new_errno env tz path line True t)"

text \<open>A statement \<^verbatim>\<open>LOG_X << item << ...;\<close> as a whole.\<close>

definition log_statement ::
    "log_macro \<Rightarrow> stmt_env \<Rightarrow> string \<Rightarrow> int \<Rightarrow> string \<Rightarrow> log_item list \<Rightarrow> LogGlobals \<times> LogThread \<Rightarrow>
       (LogGlobals \<times> LogThread) res" where
  "log_statement m env path line func items = (\<lambda>(g, t).
     if macro_passes m g then
       rbind (macro_Logger m env (g_logTimeZone g) path line func t) (\<lambda>(t, i).
       rbind (rfold put_item items (im_stream i)) (\<lambda>s.
       rbind (Logger_destroy (i\<lparr>im_stream := s\<rparr>) g) (\<lambda>g. Inr (g, t))))
     else Inr (g, t))"

text \<open>\<^verbatim>\<open>CheckNotNull\<close> with the pointer as an option.\<close>

definition CheckNotNull ::
    "stmt_env \<Rightarrow> string \<Rightarrow> int \<Rightarrow> string \<Rightarrow> 'p option \<Rightarrow> LogGlobals \<times> LogThread \<Rightarrow> ('p option \<times> LogGlobals \<times> LogThread) res" where
  "CheckNotNull env path line names ptr = (\<lambda>(g, t).
     if ptr = None then
       rbind (Logger_new env (g_logTimeZone g) path line FATAL t) (\<lambda>(t, i).
       rbind (put_cstr (Some names) (im_stream i)) (\<lambda>s.
       rbind (Logger_destroy (i\<lparr>im_stream := s\<rparr>) g) (\<lambda>g. Inr (ptr, g, t))))
     else Inr (ptr, g, t))"

section \<open>The line as a sequence of insertions\<close>

lemma put_T_item: "length str = len \<Longrightarrow> put_T str len = put_item (String_item str)"
  by (simp add: put_T_def ls_append_def put_string_def fun_eq_iff)

lemma put_SourceFile_item: "put_SourceFile name = put_item (String_item name)"
  by (simp add: put_SourceFile_def ls_append_def put_string_def fun_eq_iff)

definition micros_text :: "TimeZone \<Rightarrow> int \<Rightarrow> string" where
  "micros_text tz us = ''.'' @ dec_zero_pad 6 us @ (if TimeZone_valid tz then '' '' else ''Z '')"

lemma put_micros_item:
  assumes "0 \<le> us" "us < 1000000" "length (t_time t) = 17"
  shows "put_micros tz us t s = rfold put_item [String_item (t_time t), String_item (micros_text tz us)] s"
proof -
  have "length (dec_zero_pad 6 us) = 6" using length_zero_pad [of us 6] assms(1,2) by simp
  then show ?thesis
    using assms(3) by (simp add: put_micros_def micros_text_def Fmt_new_def snprintf_buf_def put_T_item rfold_fun)
qed

definition stmt_seconds :: "stmt_env \<Rightarrow> int" where
  "stmt_seconds env = cdiv (microSecondsSinceEpoch (se_now env)) kMicroSecondsPerSecond"

definition stmt_micros :: "stmt_env \<Rightarrow> int" where
  "stmt_micros env = cmod (microSecondsSinceEpoch (se_now env)) kMicroSecondsPerSecond"

lemma stmt_micros_range: "0 < stmt_seconds env \<Longrightarrow> 0 \<le> stmt_micros env \<and> stmt_micros env < 1000000"
proof -
  assume "0 < stmt_seconds env"
  moreover have "cdiv a kMicroSecondsPerSecond \<le> 0" if "a < 0" for a
    using that by (simp add: cdiv_neg kMicroSecondsPerSecond_def pos_imp_zdiv_nonneg_iff)
  ultimately have "0 \<le> microSecondsSinceEpoch (se_now env)"
    by (auto simp: stmt_seconds_def not_less [symmetric])
  then show ?thesis by (simp add: stmt_micros_def cmod_nonneg kMicroSecondsPerSecond_def)
qed

text \<open>The thread's cache: the text belongs to the second and the time zone, the id text to the id.\<close>

definition second_ok :: "TimeZone \<Rightarrow> LogThread \<Rightarrow> bool" where
  "second_ok tz t \<longleftrightarrow> t_lastSecond t = 0 \<or>
     (\<exists>dt. log_DateTime tz (t_lastSecond t) = Inr dt \<and> t_time t = second_text dt)"

definition thread_ok :: "TimeZone \<Rightarrow> LogThread \<Rightarrow> bool" where
  "thread_ok tz t \<longleftrightarrow> second_ok tz t \<and> (t_cachedTid (t_current t) = 0 \<or> tid_text_ok (t_current t))"

lemma update_second_ok:
  assumes "second_ok tz t" "seconds \<noteq> 0" "log_DateTime tz seconds = Inr dt" "length (second_text dt) = 17"
  shows "update_second tz seconds t = Inr (t\<lparr>t_lastSecond := seconds, t_time := second_text dt\<rparr>)"
  using assms by (cases "seconds = t_lastSecond t") (auto simp: update_second_def second_ok_def snprintf_buf_def)

definition errno_items :: "stmt_env \<Rightarrow> int \<Rightarrow> log_item list" where
  "errno_items env e = (if e = 0 then [] else
     [Cstr_item (Some (se_strerror env)), Cstr_item (Some '' (errno=''), Int_item e, Cstr_item (Some '') '')])"

definition prefix_items :: "stmt_env \<Rightarrow> TimeZone \<Rightarrow> DateTime \<Rightarrow> CurrentThread \<Rightarrow> LogLevel \<Rightarrow> log_item list" where
  "prefix_items env tz dt c level =
     [String_item (second_text dt), String_item (micros_text tz (stmt_micros env)), String_item (t_tidString c),
      String_item (LogLevelName level)]"

definition empty_stream :: "stmt_env \<Rightarrow> LogStream" where
  "empty_stream env = \<lparr>ls_buffer = FixedBuffer_new (map (se_memory env) [0..<kSmallBuffer])\<rparr>"

lemma length_LogLevelName [simp]: "length (LogLevelName level) = 6"
  by (cases level) simp_all

lemma Impl_new_items:
  assumes ok: "thread_ok tz t" and time: "0 < stmt_seconds env" "log_DateTime tz (stmt_seconds env) = Inr dt"
      "length (second_text dt) = 17"
    and tid: "in_int32 (se_gettid env)" "se_gettid env \<noteq> 0"
    and c: "c = snd (tid (se_gettid env) (t_current t))"
  shows "Impl_new env tz level e sourcefile line t =
    rbind (rfold put_item (prefix_items env tz dt c level @ errno_items env e) (empty_stream env)) (\<lambda>s.
      Inr (t\<lparr>t_lastSecond := stmt_seconds env, t_time := second_text dt, t_current := c\<rparr>,
        \<lparr>im_time = se_now env, im_stream = s, im_level = level, im_line = line, im_basename = sourcefile\<rparr>))"
proof -
  have tc: "tid_text_ok c" using tid_ok(1) [OF tid] ok c by (auto simp: thread_ok_def)
  then have len: "length (t_tidString c) = nat (t_tidStringLength c)" by (simp add: tid_text_ok_def)
  have up: "update_second tz (stmt_seconds env) t = Inr (t\<lparr>t_lastSecond := stmt_seconds env, t_time := second_text dt\<rparr>)"
    using update_second_ok [OF _ _ time(2,3)] ok time(1) by (simp add: thread_ok_def)
  note micros = put_micros_item [OF stmt_micros_range [OF time(1), THEN conjunct1] stmt_micros_range [OF time(1), THEN conjunct2]]
  have errno: "put_errno env e = rfold put_item (errno_items env e)"
    by (simp add: put_errno_def errno_items_def fun_eq_iff rfold_fun)
  obtain n where split: "tid (se_gettid env) (t_current t) = (n, c)" by (cases "tid (se_gettid env) (t_current t)") (simp add: c)
  show ?thesis
    unfolding Impl_new_def formatTime_def Let_def empty_stream_def [symmetric]
    using up micros [of "t\<lparr>t_lastSecond := stmt_seconds env, t_time := second_text dt\<rparr>" tz "empty_stream env"] time(3)
    by (simp add: stmt_seconds_def [symmetric] stmt_micros_def [symmetric] split put_T_item len [symmetric] errno
        prefix_items_def rbind_assoc rfold_append rfold_fun)
qed

definition head_items :: "log_macro \<Rightarrow> stmt_env \<Rightarrow> TimeZone \<Rightarrow> DateTime \<Rightarrow> CurrentThread \<Rightarrow> string \<Rightarrow> log_item list" where
  "head_items m env tz dt c func =
     prefix_items env tz dt c (macro_level m) @
     errno_items env (if m \<in> {LOG_SYSERR, LOG_SYSFATAL} then se_errno env else 0) @
     (if m \<in> {LOG_TRACE, LOG_DEBUG} then [Cstr_item (Some func), Char_item (CHR '' '')] else [])"

definition tail_items :: "string \<Rightarrow> int \<Rightarrow> log_item list" where
  "tail_items path line =
     [Cstr_item (Some '' - ''), String_item (SourceFile path), Char_item (CHR '':''), Int_item line, Char_item (CHR 0x0A)]"

lemma finish_items: "finish i = rbind (rfold put_item (tail_items path (im_line i)) (im_stream i)) (\<lambda>s. Inr (i\<lparr>im_stream := s\<rparr>))"
  if "im_basename i = SourceFile path"
  using that by (simp add: finish_def tail_items_def put_SourceFile_item rbind_assoc rfold_fun)

lemma log_statement_items:
  assumes ok: "thread_ok (g_logTimeZone g) t" and time: "0 < stmt_seconds env"
      "log_DateTime (g_logTimeZone g) (stmt_seconds env) = Inr dt" "length (second_text dt) = 17"
    and tid: "in_int32 (se_gettid env)" "se_gettid env \<noteq> 0"
    and c: "c = snd (tid (se_gettid env) (t_current t))" and m: "macro_passes m g"
  shows "log_statement m env path line func items (g, t) =
    rbind (rfold put_item (head_items m env (g_logTimeZone g) dt c func @ items @ tail_items path line) (empty_stream env)) (\<lambda>s.
      if macro_level m = FATAL then Inl Fatal
      else Inr (g\<lparr>g_out := g_out g @ [ls_text s]\<rparr>,
        t\<lparr>t_lastSecond := stmt_seconds env, t_time := second_text dt, t_current := c\<rparr>))"
proof -
  note impl = Impl_new_items [OF ok time tid c]
  have destroy: "Logger_destroy i g =
      rbind (rfold put_item (tail_items path (im_line i)) (im_stream i)) (\<lambda>s.
        if im_level i = FATAL then Inl Fatal else Inr (g\<lparr>g_out := g_out g @ [ls_text s]\<rparr>))"
    if "im_basename i = SourceFile path" for i
    by (simp add: Logger_destroy_def finish_items [OF that] rbind_assoc Let_def ls_text_def cong: if_cong)
  have logger: "macro_Logger m env (g_logTimeZone g) path line func t =
      rbind (rfold put_item (head_items m env (g_logTimeZone g) dt c func) (empty_stream env)) (\<lambda>s.
        Inr (t\<lparr>t_lastSecond := stmt_seconds env, t_time := second_text dt, t_current := c\<rparr>,
          \<lparr>im_time = se_now env, im_stream = s, im_level = macro_level m, im_line = line, im_basename = SourceFile path\<rparr>))"
    by (cases m) (simp_all add: macro_Logger_def Logger_new_def Logger_new_func_def Logger_new_errno_def head_items_def
        impl rbind_assoc rfold_append errno_items_def)
  show ?thesis
    using m by (simp add: log_statement_def logger rbind_assoc rfold_append destroy)
       (auto simp: fun_eq_iff intro!: arg_cong [of _ _ "rbind _"])
qed

lemma empty_stream_ok: "ls_wf (empty_stream env)" "ls_text (empty_stream env) = []"
  by (simp_all add: empty_stream_def FixedBuffer_new_def ls_wf_def fb_wf_def ls_text_def fb_toString_def fb_length_def
      kSmallBuffer_def kLargeBuffer_def)

lemma head_tail_ok:
  assumes "in_int32 line" "in_int32 (se_errno env)"
  shows "\<forall>i \<in> set (head_items m env tz dt c func) \<union> set (tail_items path line). item_ok i"
  using assms by (auto simp: head_items_def prefix_items_def errno_items_def tail_items_def in_int32_def split: if_splits)

text \<open>The line of a statement in a thread with the id \<open>n\<close>.\<close>

definition log_text ::
    "log_macro \<Rightarrow> stmt_env \<Rightarrow> TimeZone \<Rightarrow> DateTime \<Rightarrow> int \<Rightarrow> string \<Rightarrow> log_item list \<Rightarrow> string \<Rightarrow> int \<Rightarrow> string" where
  "log_text m env tz dt n func items path line =
     second_text dt @ micros_text tz (stmt_micros env) @ dec_blank_pad 5 n @ '' '' @ LogLevelName (macro_level m) @
     (if m \<in> {LOG_SYSERR, LOG_SYSFATAL} \<and> se_errno env \<noteq> 0
      then se_strerror env @ '' (errno='' @ dec_int (se_errno env) @ '') '' else []) @
     (if m \<in> {LOG_TRACE, LOG_DEBUG} then func @ '' '' else []) @
     concat (map item_text items) @ '' - '' @ SourceFile path @ '':'' @ dec_int line @ [CHR 0x0A]"

lemma log_text_items:
  assumes "t_tidString c = dec_blank_pad 5 n @ '' ''"
  shows "concat (map item_text (head_items m env tz dt c func @ items @ tail_items path line)) =
    log_text m env tz dt n func items path line"
  using assms by (auto simp: head_items_def prefix_items_def errno_items_def tail_items_def log_text_def)

lemma thread_ok_after:
  assumes "thread_ok tz t" "in_int32 gettid" "gettid \<noteq> 0" "log_DateTime tz seconds = Inr dt"
    and c: "c = snd (tid gettid (t_current t))"
  shows "thread_ok tz (t\<lparr>t_lastSecond := seconds, t_time := second_text dt, t_current := c\<rparr>)"
    and "t_tidString c = dec_blank_pad 5 (fst (tid gettid (t_current t))) @ '' ''"
proof -
  have c_ok: "tid_text_ok c" using tid_ok(1) [OF assms(2,3)] assms(1) c by (auto simp: thread_ok_def)
  then show "thread_ok tz (t\<lparr>t_lastSecond := seconds, t_time := second_text dt, t_current := c\<rparr>)"
    using assms(4) by (auto simp: thread_ok_def second_ok_def)
  have "t_cachedTid c = fst (tid gettid (t_current t))" by (simp add: c tid_def Let_def)
  with c_ok show "t_tidString c = dec_blank_pad 5 (fst (tid gettid (t_current t))) @ '' ''"
    by (simp add: tid_text_ok_def)
qed

text \<open>After a change of the time zone the text of the current second stays that of the old one.\<close>

lemma update_second_stale: "t_lastSecond t = seconds \<Longrightarrow> update_second tz seconds t = Inr t"
  by (simp add: update_second_def)

section \<open>Properties\<close>

text \<open>
  C25: a log statement below the level in force does nothing. Any other one that is not fatal hands
  exactly one line to the output function: the time of day of the current second (formatted anew or
  taken from the thread's cache), the microseconds, the thread id, the level, the error text of a system
  error, the function of a trace, the insertions of the user and the source position, if this leaves
  room for one more number; the cache stays right for the next statement. A fatal one ends the process.
\<close>

theorem log_statement_writes_line:
  assumes "thread_ok (g_logTimeZone g) t" "0 < stmt_seconds env"
    and "log_DateTime (g_logTimeZone g) (stmt_seconds env) = Inr dt" "length (second_text dt) = 17"
    and "in_int32 (se_gettid env)" "se_gettid env \<noteq> 0" "in_int32 (se_errno env)" "in_int32 line"
    and "\<forall>i \<in> set items. item_ok i"
    and n: "n = fst (tid (se_gettid env) (t_current t))"
    and fits: "length (log_text m env (g_logTimeZone g) dt n func items path line) + nat kMaxNumericSize \<le> kSmallBuffer"
  shows "if macro_passes m g then
      if macro_level m = FATAL then log_statement m env path line func items (g, t) = Inl Fatal
      else \<exists>t'. log_statement m env path line func items (g, t) =
          Inr (g\<lparr>g_out := g_out g @ [log_text m env (g_logTimeZone g) dt n func items path line]\<rparr>, t') \<and>
        thread_ok (g_logTimeZone g) t'
    else log_statement m env path line func items (g, t) = Inr (g, t)"
proof (cases "macro_passes m g")
  case True
  define c where "c = snd (tid (se_gettid env) (t_current t))"
  note after = thread_ok_after [OF assms(1,5,6,3) c_def]
  let ?items = "head_items m env (g_logTimeZone g) dt c func @ items @ tail_items path line"
  have ok: "\<forall>i \<in> set ?items. item_ok i"
    using head_tail_ok [OF assms(8,7), of m "g_logTimeZone g" dt c func path] assms(9) by auto
  note whole = log_text_items [OF after(2), folded n]
  obtain s where s: "rfold put_item ?items (empty_stream env) = Inr s" "ls_text s = fold (put_spec kSmallBuffer) ?items []"
    using put_items_ok [OF empty_stream_ok(1) ok] by (auto simp: empty_stream_ok(2))
  have "ls_text s = log_text m env (g_logTimeZone g) dt n func items path line"
    using put_spec_all [of "[]" ?items, OF _ ok, of kSmallBuffer] fits s(2) unfolding whole by simp
  then show ?thesis
    using True after(1) log_statement_items [OF assms(1-6) c_def True, of path line func items] s(1) by simp
qed (simp add: log_statement_def)

theorem log_statement_writes_line_witness:
  "\<exists>t'. log_statement LOG_INFO
      \<lparr>se_now = fromUnixTime_us 86399 25, se_gettid = 42, se_errno = 0, se_strerror = [], se_memory = \<lambda>_. CHR ''x''\<rparr>
      ''src/main.cpp'' 7 ''main'' [String_item ''ready'']
      (\<lparr>g_logLevel = INFO, g_logTimeZone = \<lparr>tz_data = None\<rparr>, g_out = []\<rparr>, LogThread_init) =
    Inr (\<lparr>g_logLevel = INFO, g_logTimeZone = \<lparr>tz_data = None\<rparr>,
      g_out = [''19700101 23:59:59.000025Z    42 INFO  ready - main.cpp:7'' @ [CHR 0x0A]]\<rparr>, t')"
proof -
  let ?env = "\<lparr>se_now = fromUnixTime_us 86399 25, se_gettid = 42, se_errno = 0, se_strerror = [], se_memory = \<lambda>_. CHR ''x''\<rparr>"
  let ?g = "\<lparr>g_logLevel = INFO, g_logTimeZone = \<lparr>tz_data = None\<rparr>, g_out = []\<rparr>"
  have sec: "stmt_seconds ?env = 86399" and us: "stmt_micros ?env = 25"
    by (simp_all add: stmt_seconds_def stmt_micros_def fromUnixTime_us_def kMicroSecondsPerSecond_def cdiv_nonneg cmod_nonneg)
  let ?dt = "\<lparr>dt_year = 1970, dt_month = 1, dt_day = 1, dt_hour = 23, dt_minute = 59, dt_second = 59\<rparr>"
  have "DateTime_ok ?dt" "fromUtcTime ?dt = 86399"
    by (simp_all add: DateTime_ok_def valid_date_def days_in_month_def leap_def fromUtcTime_def Date_ymd_def getJulianDayNumber_def
        cdiv_nonneg kSecondsPerDay_def kJulianDayOf1970_01_01_def)
  then have "toUtcTime 86399 = ?dt" using BreakTime_fromUtcTime(2) [of ?dt] by (simp add: toUtcTime_def)
  moreover have "second_text ?dt = ''19700101 23:59:59''" by code_simp
  ultimately have dt: "second_text (toUtcTime 86399) = ''19700101 23:59:59''" by simp
  have line: "log_text LOG_INFO ?env \<lparr>tz_data = None\<rparr> (toUtcTime 86399) 42 ''main'' [String_item ''ready''] ''src/main.cpp'' 7 =
      ''19700101 23:59:59.000025Z    42 INFO  ready - main.cpp:7'' @ [CHR 0x0A]"
    by (simp only: log_text_def us dt) code_simp
  have n: "42 = fst (tid 42 CurrentThread_init)" by code_simp
  show ?thesis
    using log_statement_writes_line [of ?g LogThread_init ?env "toUtcTime 86399" 7 "[String_item ''ready'']" 42 LOG_INFO
        "''main''" "''src/main.cpp''"] sec line dt n
    by (auto simp: thread_ok_def second_ok_def LogThread_init_def CurrentThread_init_def log_DateTime_def TimeZone_valid_def
        in_int32_def macro_passes_def kMaxNumericSize_def kSmallBuffer_def)
qed

end
