(* ===== verification/Log_File.thy ===== *)
theory Log_File
  imports Dates
begin

text \<open>
  \<^verbatim>\<open>utility/FileUtil.cpp\<close> and \<^verbatim>\<open>utility/LogFile.cpp\<close>: the output file of the log, which is exchanged for
  a new one when it has grown too large and once a day, and the reader of small files.

  An open file is its name and the bytes given to its stream so far; a file that a new one replaced
  stays in the list of closed files. \<^verbatim>\<open>fwrite\<close> answers with a count and the state of the error
  indicator: a call gets the answers of the calls that come short, and a call behind the last of them
  takes all bytes (the C standard allows a short count only with an error, so the loop ends). \<^verbatim>\<open>time\<close>,
  the success of \<^verbatim>\<open>fopen\<close>, the host name and the process id are arguments.

  The lemmas show that every byte is in exactly one file, in order, that the byte counts are right,
  and that no two files of a log have the same name.
\<close>

section \<open>AppendFile\<close>

record AppendFile =
  af_name :: string
  af_data :: string
  af_writtenBytes :: nat

definition AppendFile_new :: "bool \<Rightarrow> string \<Rightarrow> AppendFile res" where
  "AppendFile_new opened filename =
     require opened (Inr \<lparr>af_name = filename, af_data = [], af_writtenBytes = 0\<rparr>)"

type_synonym fwrite_answer = "nat \<times> bool"

text \<open>\<^verbatim>\<open>write\<close>: the stream takes the bytes the answer allows.\<close>

definition af_write :: "nat \<Rightarrow> string \<Rightarrow> AppendFile \<Rightarrow> nat \<times> AppendFile" where
  "af_write n rest f = (let n = min n (length rest) in (n, f\<lparr>af_data := af_data f @ take n rest\<rparr>))"

text \<open>The loop of \<^verbatim>\<open>append\<close>; \<open>rest\<close> is what starts at \<^verbatim>\<open>logline + written\<close>.\<close>

fun af_append_loop :: "fwrite_answer list \<Rightarrow> string \<Rightarrow> nat \<Rightarrow> AppendFile \<Rightarrow> nat \<times> AppendFile" where
  "af_append_loop [] rest written f =
     (if rest = [] then (written, f)
      else let (n, f) = af_write (length rest) rest f in (written + n, f))"
| "af_append_loop ((answer, err) # answers) rest written f =
     (if rest = [] then (written, f)
      else
        let (n, f) = af_write answer rest f
        in if n \<noteq> length rest \<and> err then (written, f)
           else af_append_loop answers (drop n rest) (written + n) f)"

definition af_append :: "fwrite_answer list \<Rightarrow> string \<Rightarrow> AppendFile \<Rightarrow> AppendFile" where
  "af_append answers logline f =
     (let (written, f) = af_append_loop answers logline 0 f
      in f\<lparr>af_writtenBytes := af_writtenBytes f + written\<rparr>)"

section \<open>LogFile\<close>

definition kRollPerSeconds :: int where
  "kRollPerSeconds = 60 * 60 * 24"

text \<open>
  \<open>lf_flushes\<close> counts the calls of \<^verbatim>\<open>fflush\<close>; \<open>lf_hostname\<close> and \<open>lf_pid\<close> are the process's. A null
  \<^verbatim>\<open>file_\<close> is \<^term>\<open>None\<close>.
\<close>

record LogFile =
  lf_basename :: string
  lf_rollSize :: int
  lf_flushInterval :: int
  lf_checkEveryN :: int
  lf_count :: int
  lf_startOfPeriod :: int
  lf_lastRoll :: int
  lf_lastFlush :: int
  lf_file :: "AppendFile option"
  lf_hostname :: string
  lf_pid :: int
  lf_closed :: "AppendFile list"
  lf_flushes :: nat

definition strftime_log :: "tm \<Rightarrow> string" where
  "strftime_log t =
     ''.'' @ dec_int (tm_year t + 1900) @ dec_zero_pad 2 (tm_mon t + 1) @ dec_zero_pad 2 (tm_mday t) @ ''-'' @
     dec_zero_pad 2 (tm_hour t) @ dec_zero_pad 2 (tm_min t) @ dec_zero_pad 2 (tm_sec t) @ ''.''"

definition getLogFileName :: "string \<Rightarrow> string \<Rightarrow> int \<Rightarrow> int \<Rightarrow> string" where
  "getLogFileName basename hostname pid now =
     basename @ strftime_log (gmtime_r now) @ hostname @ snprintf_buf 32 (''.'' @ dec_int pid) @ ''.log''"

text \<open>What the system answers in one call: the clock, whether the new file opens, and the stream.\<close>

record log_env =
  le_now :: int
  le_roll_now :: int
  le_opened :: bool
  le_answers :: "fwrite_answer list"

definition rollFile :: "log_env \<Rightarrow> LogFile \<Rightarrow> (bool \<times> LogFile) res" where
  "rollFile env f =
     (let now = le_roll_now env;
          filename = getLogFileName (lf_basename f) (lf_hostname f) (lf_pid f) now;
          start = cdiv now kRollPerSeconds * kRollPerSeconds
      in if lf_lastRoll f < now then
           rbind (AppendFile_new (le_opened env) filename) (\<lambda>file.
             Inr (True,
               f\<lparr>lf_lastRoll := now, lf_lastFlush := now, lf_startOfPeriod := start,
                 lf_closed := lf_closed f @ (case lf_file f of None \<Rightarrow> [] | Some old \<Rightarrow> [old]),
                 lf_file := Some file\<rparr>))
         else Inr (False, f))"

definition LogFile_new ::
    "log_env \<Rightarrow> string \<Rightarrow> int \<Rightarrow> string \<Rightarrow> int \<Rightarrow> int \<Rightarrow> int \<Rightarrow> LogFile res" where
  "LogFile_new env hostname pid basename rollSize flushInterval checkEveryN =
     require (CHR ''/'' \<notin> set basename)
       (rbind (rollFile env
          \<lparr>lf_basename = basename, lf_rollSize = rollSize, lf_flushInterval = flushInterval,
           lf_checkEveryN = checkEveryN, lf_count = 0, lf_startOfPeriod = 0, lf_lastRoll = 0,
           lf_lastFlush = 0, lf_file = None, lf_hostname = hostname, lf_pid = pid, lf_closed = [],
           lf_flushes = 0\<rparr>) (\<lambda>(rolled, f). Inr f))"

definition lf_flush :: "LogFile \<Rightarrow> LogFile res" where
  "lf_flush f =
     (case lf_file f of None \<Rightarrow> Inl Undefined | Some file \<Rightarrow> Inr (f\<lparr>lf_flushes := lf_flushes f + 1\<rparr>))"

definition append_unlocked :: "log_env \<Rightarrow> string \<Rightarrow> LogFile \<Rightarrow> LogFile res" where
  "append_unlocked env logline f =
     (case lf_file f of
        None \<Rightarrow> Inl Undefined
      | Some file \<Rightarrow>
          let file = af_append (le_answers env) logline file; f = f\<lparr>lf_file := Some file\<rparr> in
          if lf_rollSize f < int (af_writtenBytes file) then rbind (rollFile env f) (\<lambda>(rolled, f). Inr f)
          else
            let f = f\<lparr>lf_count := lf_count f + 1\<rparr> in
            if lf_checkEveryN f \<le> lf_count f then
              let f = f\<lparr>lf_count := 0\<rparr>; now = le_now env;
                  thisPeriod = cdiv now kRollPerSeconds * kRollPerSeconds
              in if thisPeriod \<noteq> lf_startOfPeriod f then rbind (rollFile env f) (\<lambda>(rolled, f). Inr f)
                 else if lf_flushInterval f < now - lf_lastFlush f then lf_flush (f\<lparr>lf_lastFlush := now\<rparr>)
                 else Inr f
            else Inr f)"

text \<open>The mutex makes each call one step, whichever way the log file was made.\<close>

definition lf_append :: "log_env \<Rightarrow> string \<Rightarrow> LogFile \<Rightarrow> LogFile res" where
  "lf_append env logline f = append_unlocked env logline f"

datatype log_op =
    Log_append log_env string
  | Log_flush
  | Log_roll log_env

fun log_step :: "log_op \<Rightarrow> LogFile \<Rightarrow> LogFile res" where
  "log_step (Log_append env line) f = lf_append env line f"
| "log_step Log_flush f = lf_flush f"
| "log_step (Log_roll env) f = rbind (rollFile env f) (\<lambda>(rolled, f). Inr f)"

section \<open>ReadSmallFile\<close>

text \<open>
  The file is opened or the open fails with an error number. The answers of \<^verbatim>\<open>read\<close> are the bytes it
  yields, cut to the size that was asked for, or an error number; no bytes are the end of the file, as
  is the end of the list. \<open>stat\<close> is what \<^verbatim>\<open>fstat\<close> tells.
\<close>

definition kBufferSize :: nat where
  "kBufferSize = 64 * 1024"

record ReadSmallFile =
  rs_fd :: "unit option"
  rs_err :: int
  rs_buf :: string

definition ReadSmallFile_new :: "int \<Rightarrow> ReadSmallFile" where
  "ReadSmallFile_new open_errno =
     (if open_errno = 0 then \<lparr>rs_fd = Some (), rs_err = 0, rs_buf = []\<rparr>
      else \<lparr>rs_fd = None, rs_err = open_errno, rs_buf = []\<rparr>)"

datatype file_kind = Regular int | Directory | Other_kind

definition EISDIR :: int where
  "EISDIR = 21"

type_synonym read_answer = "int + string"

fun read_loop :: "read_answer list \<Rightarrow> nat \<Rightarrow> string \<Rightarrow> int \<Rightarrow> string \<times> int" where
  "read_loop [] maxSize content err = (content, err)"
| "read_loop (answer # answers) maxSize content err =
     (if length content < maxSize then
        let toRead = min (maxSize - length content) kBufferSize
        in case answer of
             Inl e \<Rightarrow> (content, e)
           | Inr data \<Rightarrow>
               if data = [] then (content, err)
               else read_loop answers maxSize (content @ take toRead data) err
      else (content, err))"

text \<open>
  \<^verbatim>\<open>readToString\<close> with \<^verbatim>\<open>fileSize\<close> asked for or not (\<open>stat\<close>): the error, the content, the size.
\<close>

definition readToString ::
    "(int + file_kind) option \<Rightarrow> read_answer list \<Rightarrow> nat \<Rightarrow> string \<Rightarrow> ReadSmallFile \<Rightarrow> int \<times> string \<times> int option" where
  "readToString stat answers maxSize content0 f =
     (let err = rs_err f in
      if rs_fd f \<noteq> None then
        let (err, fileSize) =
              (case stat of
                 None \<Rightarrow> (err, None)
               | Some (Inr (Regular sz)) \<Rightarrow> (err, Some sz)
               | Some (Inr Directory) \<Rightarrow> (EISDIR, None)
               | Some (Inr Other_kind) \<Rightarrow> (err, None)
               | Some (Inl e) \<Rightarrow> (e, None));
            (content, err) = read_loop answers maxSize [] err
        in (err, content, fileSize)
      else (err, content0, None))"

definition readFile ::
    "int \<Rightarrow> (int + file_kind) option \<Rightarrow> read_answer list \<Rightarrow> nat \<Rightarrow> string \<Rightarrow> int \<times> string \<times> int option" where
  "readFile open_errno stat answers maxSize content0 =
     readToString stat answers maxSize content0 (ReadSmallFile_new open_errno)"

definition readToBuffer :: "read_answer \<Rightarrow> ReadSmallFile \<Rightarrow> int \<times> int option \<times> ReadSmallFile" where
  "readToBuffer answer f =
     (if rs_fd f \<noteq> None then
        case answer of
          Inr data \<Rightarrow>
            let data = take (kBufferSize - 1) data in (rs_err f, Some (int (length data)), f\<lparr>rs_buf := data\<rparr>)
        | Inl e \<Rightarrow> (e, None, f)
      else (rs_err f, None, f))"

section \<open>Writing\<close>

text \<open>A stream without errors: short counts, if any, come without the error indicator.\<close>

definition no_error :: "log_env \<Rightarrow> bool" where
  "no_error env \<longleftrightarrow> list_all (\<lambda>(n, err). \<not> err) (le_answers env)"

definition counts_right :: "AppendFile \<Rightarrow> bool" where
  "counts_right f \<longleftrightarrow> af_writtenBytes f = length (af_data f)"

lemma append_loop_all:
  assumes "list_all (\<lambda>(n, err). \<not> err) answers"
  shows "af_append_loop answers rest written f =
    (written + length rest, f\<lparr>af_data := af_data f @ rest\<rparr>)"
  using assms
  by (induction answers rest written f rule: af_append_loop.induct)
     (auto simp: af_write_def Let_def)

lemma af_append_all:
  assumes "no_error env"
  shows "af_append (le_answers env) logline f =
    f\<lparr>af_data := af_data f @ logline, af_writtenBytes := af_writtenBytes f + length logline\<rparr>"
  using assms by (simp add: af_append_def no_error_def append_loop_all)

text \<open>
  With an error a part of the line may be in the file, and the count never exceeds what is there.
\<close>

lemma append_loop_prefix:
  "\<exists>k n. af_append_loop answers rest written f = (written + n, f\<lparr>af_data := af_data f @ take k rest\<rparr>) \<and>
     n \<le> k \<and> k \<le> length rest"
proof (induction answers rest written f rule: af_append_loop.induct)
  case (1 rest written f)
  show ?case by (rule exI [of _ "length rest"], rule exI [of _ "length rest"]) (simp add: af_write_def)
next
  case (2 answer err answers rest written f)
  let ?n = "min answer (length rest)"
  let ?f = "f\<lparr>af_data := af_data f @ take ?n rest\<rparr>"
  consider "rest = []" | "rest \<noteq> []" "?n \<noteq> length rest" err | "rest \<noteq> []" "\<not> (?n \<noteq> length rest \<and> err)"
    by blast
  then show ?case
  proof cases
    case 1
    then show ?thesis by simp
  next
    case 2
    then show ?thesis by (rule_tac x = ?n in exI, rule_tac x = 0 in exI) (simp add: af_write_def Let_def)
  next
    case 3
    from "2.IH" [OF this(1) refl, of ?n ?f] 3 obtain k n where
      r: "af_append_loop answers (drop ?n rest) (written + ?n) ?f =
        (written + ?n + n, ?f\<lparr>af_data := af_data ?f @ take k (drop ?n rest)\<rparr>)" "n \<le> k" "k \<le> length rest - ?n"
      by (auto simp: af_write_def Let_def)
    have "take ?n rest @ take k (drop ?n rest) = take (?n + k) rest" by (simp add: take_add)
    with r 3 show ?thesis
      by (rule_tac x = "?n + k" in exI, rule_tac x = "?n + n" in exI) (auto simp: af_write_def Let_def add.assoc)
  qed
qed

section \<open>Names\<close>

lemma dec_value_zeros: "dec_value (replicate n (CHR ''0'') @ s) = dec_value s"
proof -
  have "foldl (\<lambda>a c. 10 * a + digit_val c) 0 (replicate n (CHR ''0'')) = 0"
    using digit_val_char [of 0] by (induction n) (simp_all add: digit_chars)
  then show ?thesis by (simp add: dec_value_def)
qed

lemma zero_pad_inj: "dec_zero_pad w i = dec_zero_pad w j \<Longrightarrow> 0 \<le> i \<Longrightarrow> 0 \<le> j \<Longrightarrow> i = j"
proof -
  have "dec_value (dec_zero_pad w i) = nat i" if "0 \<le> i" for i
    using that by (simp add: dec_zero_pad_def Let_def dec_value_zeros)
  then show "dec_zero_pad w i = dec_zero_pad w j \<Longrightarrow> 0 \<le> i \<Longrightarrow> 0 \<le> j \<Longrightarrow> i = j"
    by (metis int_nat_eq)
qed

lemma minus_not_digit: "CHR ''-'' \<notin> set (dec_nat n)"
proof
  assume "CHR ''-'' \<in> set (dec_nat n)"
  then obtain d where "d < 10" "CHR ''-'' = digit_char d" using dec_nat_digits by blast
  then have "of_char (CHR ''-'') = (48 + d :: nat)" by (simp add: digit_char_def)
  then show False by simp
qed

lemma dec_int_inj: "dec_int i = dec_int j \<Longrightarrow> i = j"
  using dec_nat_inj [of "nat i" "nat j"] dec_nat_inj [of "nat (- i)" "nat (- j)"] minus_not_digit
  by (metis (no_types, lifting) dec_int_def int_nat_eq list.sel(3) list.set_intros(1) minus_minus
      neg_0_less_iff_less nat_eq_iff order_less_imp_le not_less)

definition tm_fields :: "tm \<Rightarrow> bool" where
  "tm_fields t \<longleftrightarrow> 0 \<le> tm_mon t + 1 \<and> tm_mon t + 1 < 100 \<and>
     0 \<le> tm_mday t \<and> tm_mday t < 100 \<and> 0 \<le> tm_hour t \<and> tm_hour t < 100 \<and>
     0 \<le> tm_min t \<and> tm_min t < 100 \<and> 0 \<le> tm_sec t \<and> tm_sec t < 100"

lemma strftime_inj:
  assumes "tm_fields s" "tm_fields t" "strftime_log s = strftime_log t"
  shows "tm_year s = tm_year t \<and> tm_mon s = tm_mon t \<and> tm_mday s = tm_mday t \<and>
    tm_hour s = tm_hour t \<and> tm_min s = tm_min t \<and> tm_sec s = tm_sec t"
proof -
  have len: "0 \<le> i \<Longrightarrow> i < 100 \<Longrightarrow> length (dec_zero_pad 2 i) = 2" for i using length_zero_pad [of i 2] by simp
  let ?rest = "\<lambda>t. dec_zero_pad 2 (tm_mon t + 1) @ dec_zero_pad 2 (tm_mday t) @ ''-'' @
     dec_zero_pad 2 (tm_hour t) @ dec_zero_pad 2 (tm_min t) @ dec_zero_pad 2 (tm_sec t) @ ''.''"
  have l: "length (?rest s) = length (?rest t)"
    using assms(1,2) by (simp add: tm_fields_def len)
  have "dec_int (tm_year s + 1900) @ ?rest s = dec_int (tm_year t + 1900) @ ?rest t"
    using assms(3) by (simp add: strftime_log_def)
  then have "dec_int (tm_year s + 1900) = dec_int (tm_year t + 1900)" and r: "?rest s = ?rest t"
    using append_eq_append_conv [THEN iffD1, OF disjI2, OF l] by blast+
  moreover from r have "dec_zero_pad 2 (tm_mon s + 1) = dec_zero_pad 2 (tm_mon t + 1)"
    "dec_zero_pad 2 (tm_mday s) = dec_zero_pad 2 (tm_mday t)"
    "dec_zero_pad 2 (tm_hour s) = dec_zero_pad 2 (tm_hour t)"
    "dec_zero_pad 2 (tm_min s) = dec_zero_pad 2 (tm_min t)"
    "dec_zero_pad 2 (tm_sec s) = dec_zero_pad 2 (tm_sec t)"
    using assms(1,2) by (simp_all add: tm_fields_def len)
  ultimately show ?thesis
    using assms(1,2) by (auto simp: tm_fields_def dest!: dec_int_inj zero_pad_inj)
qed

lemma valid_date_bounds: "valid_date y m d \<Longrightarrow> 1 \<le> m \<and> m \<le> 12 \<and> 1 \<le> d \<and> d \<le> 31"
  by (auto simp: valid_date_def days_in_month_def split: if_splits)

lemma hms_bounds:
  fixes s :: int
  assumes "0 \<le> s" "s < 86400"
  shows "0 \<le> s div 3600" "s div 3600 < 100" "0 \<le> s mod 3600 div 60" "s mod 3600 div 60 < 100"
    "0 \<le> s mod 60" "s mod 60 < 100"
proof -
  have r: "0 \<le> s mod 3600" "s mod 3600 < 3600" "s mod 60 < 60" by simp_all
  have "s div 3600 \<le> 86399 div 3600" using assms by (intro zdiv_mono1) simp_all
  then show "s div 3600 < 100" by simp
  have "s mod 3600 div 60 \<le> 3599 div 60" using r by (intro zdiv_mono1) simp_all
  then show "s mod 3600 div 60 < 100" by simp
  show "s mod 60 < 100" using r(3) by (rule order_less_trans) simp
  show "0 \<le> s div 3600" "0 \<le> s mod 3600 div 60" "0 \<le> s mod 60"
    using assms r by (simp_all add: pos_imp_zdiv_nonneg_iff)
qed

lemma hms_split:
  fixes s :: int
  shows "s div 3600 * 3600 + s mod 3600 div 60 * 60 + s mod 60 = s"
proof -
  have "s mod 3600 mod 60 = s mod 60" by (rule mod_mod_cancel) simp
  then have "s mod 3600 div 60 * 60 + s mod 60 = s mod 3600" by (metis div_mult_mod_eq)
  then show ?thesis by (simp only: add.assoc div_mult_mod_eq)
qed

lemma gmtime_fields:
  assumes "0 \<le> t"
  shows "tm_fields (gmtime_r t)"
    and "getJulianDayNumber (tm_year (gmtime_r t) + 1900) (tm_mon (gmtime_r t) + 1) (tm_mday (gmtime_r t)) =
      t div 86400 + kJulianDayOf1970_01_01"
    and "tm_hour (gmtime_r t) * 3600 + tm_min (gmtime_r t) * 60 + tm_sec (gmtime_r t) = t mod 86400"
proof -
  define n where "n = t div 86400 + kJulianDayOf1970_01_01"
  define r where "r = t mod 86400"
  define d where "d = getYearMonthDay n"
  have g: "gmtime_r t = \<lparr>tm_year = ymd_year d - 1900, tm_mon = ymd_month d - 1, tm_mday = ymd_day d,
      tm_hour = r div 3600, tm_min = r mod 3600 div 60, tm_sec = r mod 60\<rparr>"
    by (simp only: gmtime_r_def Let_def n_def r_def d_def)
  have "0 \<le> t div 86400" using assms by (simp only: pos_imp_zdiv_nonneg_iff)
  then have "- 31738 \<le> n" unfolding n_def kJulianDayOf1970_01_01_def by (simp only:)
  note date = julian_of_ymd [OF this, folded d_def]
  have r: "0 \<le> r" "r < 86400" by (simp_all add: r_def)
  show "tm_fields (gmtime_r t)"
    using valid_date_bounds [OF date(1)] hms_bounds [OF r] by (simp add: tm_fields_def g)
  show "getJulianDayNumber (tm_year (gmtime_r t) + 1900) (tm_mon (gmtime_r t) + 1) (tm_mday (gmtime_r t)) =
      t div 86400 + kJulianDayOf1970_01_01"
    using date(2) by (simp add: g n_def)
  show "tm_hour (gmtime_r t) * 3600 + tm_min (gmtime_r t) * 60 + tm_sec (gmtime_r t) = t mod 86400"
    using hms_split [of r] by (simp only: g r_def [symmetric] tm.simps)
qed

lemma getLogFileName_inj:
  assumes "0 \<le> s" "0 \<le> t" "getLogFileName base host pid s = getLogFileName base host pid t"
  shows "s = t"
proof -
  have "strftime_log (gmtime_r s) = strftime_log (gmtime_r t)"
    using assms(3) by (simp add: getLogFileName_def)
  note eq = strftime_inj [OF gmtime_fields(1) [OF assms(1)] gmtime_fields(1) [OF assms(2)] this]
  have "s div 86400 = t div 86400" "s mod 86400 = t mod 86400"
    using gmtime_fields(2,3) [OF assms(1)] gmtime_fields(2,3) [OF assms(2)] eq by simp_all
  then show ?thesis by (metis mult_div_mod_eq)
qed

lemma names_distinct:
  assumes "sorted_wrt (<) ts" "\<forall>t\<in>set ts. 0 < t"
  shows "distinct (map (getLogFileName base host pid) ts)"
proof -
  have "inj_on (getLogFileName base host pid) (set ts)"
    using assms(2) by (auto intro!: inj_onI elim!: getLogFileName_inj [rotated 2])
  then show ?thesis using assms(1) by (simp add: distinct_map strict_sorted_iff)
qed

section \<open>The log\<close>

definition lf_files :: "LogFile \<Rightarrow> AppendFile list" where
  "lf_files f = lf_closed f @ (case lf_file f of None \<Rightarrow> [] | Some file \<Rightarrow> [file])"

definition lf_text :: "LogFile \<Rightarrow> string" where
  "lf_text f = concat (map af_data (lf_files f))"

text \<open>The files were opened at \<open>ts\<close>, the last of them being the current one.\<close>

definition lf_opened :: "int list \<Rightarrow> LogFile \<Rightarrow> bool" where
  "lf_opened ts f \<longleftrightarrow> sorted_wrt (<) ts \<and> (\<forall>t\<in>set ts. 0 < t \<and> t \<le> lf_lastRoll f) \<and>
     map af_name (lf_files f) = map (getLogFileName (lf_basename f) (lf_hostname f) (lf_pid f)) ts"

definition lf_inv :: "LogFile \<Rightarrow> bool" where
  "lf_inv f \<longleftrightarrow> lf_file f \<noteq> None \<and> 0 \<le> lf_lastRoll f \<and> list_all counts_right (lf_files f) \<and> (\<exists>ts. lf_opened ts f)"

lemma rollFile_ok:
  assumes "0 \<le> lf_lastRoll f" "list_all counts_right (lf_files f)" "lf_opened ts f" "le_opened env"
    and "lf_file f \<noteq> None \<or> 0 < le_roll_now env \<and> lf_lastRoll f = 0"
  shows "\<exists>r f'. rollFile env f = Inr (r, f') \<and> lf_inv f' \<and> lf_text f' = lf_text f \<and>
    lf_basename f' = lf_basename f \<and> lf_hostname f' = lf_hostname f \<and> lf_pid f' = lf_pid f"
proof (cases "lf_lastRoll f < le_roll_now env")
  case False
  then show ?thesis using assms by (auto simp: rollFile_def lf_inv_def)
next
  case True
  define fl where "fl = \<lparr>af_name = getLogFileName (lf_basename f) (lf_hostname f) (lf_pid f) (le_roll_now env),
    af_data = [], af_writtenBytes = 0\<rparr>"
  obtain f' where f': "rollFile env f = Inr (True, f')" "lf_files f' = lf_files f @ [fl]"
      "lf_lastRoll f' = le_roll_now env" "lf_file f' = Some fl"
    and same: "lf_basename f' = lf_basename f" "lf_hostname f' = lf_hostname f" "lf_pid f' = lf_pid f"
    using True assms(4) by (auto simp: rollFile_def AppendFile_new_def fl_def lf_files_def Let_def)
  have "lf_opened (ts @ [le_roll_now env]) f'"
    using assms(1,3) True f' same by (auto simp: lf_opened_def sorted_wrt_append fl_def)
  then have "lf_inv f'"
    using assms(1,2) True f' by (auto simp: lf_inv_def counts_right_def fl_def)
  then show ?thesis using f' same by (intro exI [of _ True] exI [of _ f']) (simp add: lf_text_def fl_def)
qed

lemma lf_files_current: "lf_file f = Some fl \<Longrightarrow> lf_files f = lf_closed f @ [fl]"
  by (simp add: lf_files_def)

lemma lf_append_ok:
  assumes "lf_inv f" "no_error env" "le_opened env"
  shows "\<exists>f'. lf_append env line f = Inr f' \<and> lf_inv f' \<and> lf_text f' = lf_text f @ line \<and>
    lf_basename f' = lf_basename f \<and> lf_hostname f' = lf_hostname f \<and> lf_pid f' = lf_pid f"
proof -
  obtain fl ts where fl: "lf_file f = Some fl" and ts: "lf_opened ts f" and r: "0 \<le> lf_lastRoll f"
      "list_all counts_right (lf_files f)"
    using assms(1) by (auto simp: lf_inv_def)
  define fl' where "fl' = fl\<lparr>af_data := af_data fl @ line, af_writtenBytes := af_writtenBytes fl + length line\<rparr>"
  have app: "af_append (le_answers env) line fl = fl'"
    using assms(2) by (simp add: af_append_all fl'_def)
  define g where "g c n k = f\<lparr>lf_file := Some fl', lf_count := c, lf_lastFlush := n, lf_flushes := k\<rparr>" for c n k
  have files: "lf_files (g c n k) = lf_closed f @ [fl']" for c n k by (simp add: g_def lf_files_def)
  have g: "lf_text (g c n k) = lf_text f @ line" "lf_opened ts (g c n k)" "lf_inv (g c n k)"
    "list_all counts_right (lf_files (g c n k))" for c n k
    using fl ts r
    by (auto simp: lf_text_def files lf_files_current fl'_def lf_opened_def lf_inv_def counts_right_def g_def)
  have roll: "\<exists>r f'. rollFile env (g c n k) = Inr (r, f') \<and> lf_inv f' \<and> lf_text f' = lf_text f @ line \<and>
      lf_basename f' = lf_basename f \<and> lf_hostname f' = lf_hostname f \<and> lf_pid f' = lf_pid f" for c n k
    using rollFile_ok [OF _ g(4,2) assms(3), of c n k] r(1) g(1) by (simp add: g_def)
  have eq: "lf_append env line f =
     (if lf_rollSize f < int (af_writtenBytes fl') then
        rbind (rollFile env (g (lf_count f) (lf_lastFlush f) (lf_flushes f))) (\<lambda>(r, f). Inr f)
      else if lf_checkEveryN f \<le> lf_count f + 1 then
        if cdiv (le_now env) kRollPerSeconds * kRollPerSeconds \<noteq> lf_startOfPeriod f then
          rbind (rollFile env (g 0 (lf_lastFlush f) (lf_flushes f))) (\<lambda>(r, f). Inr f)
        else if lf_flushInterval f < le_now env - lf_lastFlush f then Inr (g 0 (le_now env) (lf_flushes f + 1))
        else Inr (g 0 (lf_lastFlush f) (lf_flushes f))
      else Inr (g (lf_count f + 1) (lf_lastFlush f) (lf_flushes f)))"
    by (simp add: lf_append_def append_unlocked_def fl app Let_def lf_flush_def g_def)
  have same: "lf_basename (g c n k) = lf_basename f" "lf_hostname (g c n k) = lf_hostname f" "lf_pid (g c n k) = lf_pid f" for c n k
    by (simp_all add: g_def)
  show ?thesis
    unfolding eq using roll [of "lf_count f" "lf_lastFlush f" "lf_flushes f"] roll [of 0 "lf_lastFlush f" "lf_flushes f"]
    by (auto simp: g same split: if_splits)
qed

text \<open>
  What the writers of a log rely on: a sink accepts every line that the system lets it write, and its
  text grows by exactly the line; a flush changes nothing of it.
\<close>

locale line_sink =
  fixes append :: "'env \<Rightarrow> string \<Rightarrow> 's \<Rightarrow> 's res"
    and flush :: "'s \<Rightarrow> 's res"
    and the_text :: "'s \<Rightarrow> string"
    and inv :: "'s \<Rightarrow> bool"
    and good :: "'env \<Rightarrow> bool"
  assumes append_text: "inv s \<Longrightarrow> good env \<Longrightarrow>
      \<exists>s'. append env line s = Inr s' \<and> inv s' \<and> the_text s' = the_text s @ line"
    and flush_text: "inv s \<Longrightarrow> \<exists>s'. flush s = Inr s' \<and> inv s' \<and> the_text s' = the_text s"
begin

lemma appends_text:
  assumes "inv s" "\<forall>(env, line) \<in> set xs. good env"
  shows "\<exists>s'. rfold (\<lambda>(env, line). append env line) xs s = Inr s' \<and> inv s' \<and>
    the_text s' = the_text s @ concat (map snd xs)"
  using assms
proof (induction xs arbitrary: s)
  case (Cons x xs)
  obtain env line where x: "x = (env, line)" by (cases x)
  obtain s1 where "append env line s = Inr s1" "inv s1" "the_text s1 = the_text s @ line"
    using append_text [of s env line] Cons.prems x by auto
  with Cons.IH [of s1] Cons.prems(2) x show ?case by auto
qed simp

lemma appends_flush_text:
  assumes "inv s" "\<forall>(env, line) \<in> set xs. good env"
  shows "\<exists>s'. rbind (rfold (\<lambda>(env, line). append env line) xs s) flush = Inr s' \<and> inv s' \<and>
    the_text s' = the_text s @ concat (map snd xs)"
proof -
  obtain s1 where "rfold (\<lambda>(env, line). append env line) xs s = Inr s1" "inv s1"
      "the_text s1 = the_text s @ concat (map snd xs)"
    using appends_text [OF assms] by blast
  with flush_text [of s1] show ?thesis by auto
qed

end

lemma lf_flush_ok: "lf_inv f \<Longrightarrow> \<exists>f'. lf_flush f = Inr f' \<and> lf_inv f' \<and> lf_text f' = lf_text f \<and>
    lf_basename f' = lf_basename f \<and> lf_hostname f' = lf_hostname f \<and> lf_pid f' = lf_pid f"
  by (auto simp: lf_flush_def lf_inv_def lf_text_def lf_files_def lf_opened_def)

interpretation lf: line_sink lf_append lf_flush lf_text lf_inv "\<lambda>env. no_error env \<and> le_opened env"
  using lf_append_ok lf_flush_ok by unfold_locales blast+

fun log_op_ok :: "log_op \<Rightarrow> bool" where
  "log_op_ok (Log_append env line) \<longleftrightarrow> no_error env \<and> le_opened env"
| "log_op_ok Log_flush \<longleftrightarrow> True"
| "log_op_ok (Log_roll env) \<longleftrightarrow> le_opened env"

fun log_line :: "log_op \<Rightarrow> string" where
  "log_line (Log_append env line) = line"
| "log_line op = []"

lemma log_step_ok:
  assumes "lf_inv f" "log_op_ok op"
  shows "\<exists>f'. log_step op f = Inr f' \<and> lf_inv f' \<and> lf_text f' = lf_text f @ log_line op \<and>
    lf_basename f' = lf_basename f \<and> lf_hostname f' = lf_hostname f \<and> lf_pid f' = lf_pid f"
proof (cases op)
  case (Log_append env line)
  then show ?thesis using lf_append_ok [OF assms(1), of env line] assms(2) by simp
next
  case Log_flush
  then show ?thesis using lf_flush_ok [OF assms(1)] by simp
next
  case (Log_roll env)
  obtain ts where ts: "lf_opened ts f" using assms(1) by (auto simp: lf_inv_def)
  show ?thesis
    using rollFile_ok [OF _ _ ts, of env] assms Log_roll by (auto simp: lf_inv_def)
qed

lemma log_steps_ok:
  assumes "lf_inv f" "list_all log_op_ok ops"
  shows "\<exists>f'. rfold log_step ops f = Inr f' \<and> lf_inv f' \<and> lf_text f' = lf_text f @ concat (map log_line ops) \<and>
    lf_basename f' = lf_basename f \<and> lf_hostname f' = lf_hostname f \<and> lf_pid f' = lf_pid f"
  using assms
proof (induction ops arbitrary: f)
  case (Cons op ops)
  then obtain f1 where f1: "log_step op f = Inr f1" "lf_inv f1" "lf_text f1 = lf_text f @ log_line op"
      "lf_basename f1 = lf_basename f" "lf_hostname f1 = lf_hostname f" "lf_pid f1 = lf_pid f"
    using log_step_ok [of f op] by auto
  from Cons.IH [OF f1(2)] Cons.prems(2) f1 show ?case by auto
qed simp

lemma LogFile_new_ok:
  assumes "CHR ''/'' \<notin> set basename" "0 < le_roll_now env" "le_opened env"
  shows "\<exists>f. LogFile_new env hostname pid basename rollSize flushInterval checkEveryN = Inr f \<and> lf_inv f \<and>
    lf_text f = [] \<and> lf_basename f = basename \<and> lf_hostname f = hostname \<and> lf_pid f = pid"
proof -
  let ?f = "\<lparr>lf_basename = basename, lf_rollSize = rollSize, lf_flushInterval = flushInterval,
      lf_checkEveryN = checkEveryN, lf_count = 0, lf_startOfPeriod = 0, lf_lastRoll = 0,
      lf_lastFlush = 0, lf_file = None, lf_hostname = hostname, lf_pid = pid, lf_closed = [],
      lf_flushes = 0\<rparr>"
  have "lf_opened [] ?f" "lf_text ?f = []" by (simp_all add: lf_opened_def lf_files_def lf_text_def)
  with rollFile_ok [of ?f "[]" env] assms show ?thesis
    by (auto simp: LogFile_new_def lf_files_def)
qed

lemma read_loop_take:
  assumes "list_all (\<lambda>d. d \<noteq> [] \<and> length d \<le> kBufferSize) ds" "length c \<le> maxSize"
  shows "read_loop (map Inr ds) maxSize c err = (take maxSize (c @ concat ds), err)"
  using assms
proof (induction ds arbitrary: c)
  case (Cons d ds)
  show ?case
  proof (cases "length c < maxSize")
    case True
    let ?k = "min (maxSize - length c) kBufferSize"
    have "take ?k d = take (maxSize - length c) d" using Cons.prems(1) by (simp add: min_def)
    then show ?thesis using Cons True by (cases "length d \<le> maxSize - length c") auto
  next
    case False
    then show ?thesis using Cons.prems by simp
  qed
qed simp

section \<open>Properties\<close>

text \<open>
  C24: the log file loses nothing when it rolls. Starting from a new log file, any sequence of appends,
  flushes and rolls, whatever the clock shows, succeeds as long as files can be opened and the stream
  reports no error: the files in the order of their creation contain exactly the lines in the order in
  which they were appended, every file knows its size, and no two files have the same name.
\<close>

theorem LogFile_keeps_lines:
  assumes "CHR ''/'' \<notin> set basename" "0 < le_roll_now env" "le_opened env" "list_all log_op_ok ops"
  shows "\<exists>f f'. LogFile_new env hostname pid basename rollSize flushInterval checkEveryN = Inr f \<and>
    rfold log_step ops f = Inr f' \<and>
    concat (map af_data (lf_files f')) = concat (map log_line ops) \<and>
    list_all counts_right (lf_files f') \<and> distinct (map af_name (lf_files f'))"
proof -
  obtain f where f: "LogFile_new env hostname pid basename rollSize flushInterval checkEveryN = Inr f"
      "lf_inv f" "lf_text f = []"
    using LogFile_new_ok [OF assms(1-3)] by blast
  obtain f' ts where "rfold log_step ops f = Inr f'" "lf_inv f'" "lf_text f' = concat (map log_line ops)"
      "lf_opened ts f'"
    using log_steps_ok [OF f(2) assms(4)] f(3) by (auto simp: lf_inv_def)
  with f(1) names_distinct [of ts] show ?thesis
    by (auto simp: lf_text_def lf_inv_def lf_opened_def)
qed

theorem LogFile_keeps_lines_witness:
  "\<exists>f f'. LogFile_new \<lparr>le_now = 5, le_roll_now = 5, le_opened = True, le_answers = []\<rparr> ''h'' 7 ''app'' 3 3 1024 = Inr f \<and>
     rfold log_step [Log_append \<lparr>le_now = 9, le_roll_now = 9, le_opened = True, le_answers = [(1, False)]\<rparr> ''abcd'',
       Log_append \<lparr>le_now = 9, le_roll_now = 9, le_opened = True, le_answers = []\<rparr> ''e''] f = Inr f' \<and>
     concat (map af_data (lf_files f')) = ''abcde'' \<and> distinct (map af_name (lf_files f'))"
proof -
  let ?env = "\<lparr>le_now = 5, le_roll_now = 5, le_opened = True, le_answers = []\<rparr>"
  let ?ops = "[Log_append \<lparr>le_now = 9, le_roll_now = 9, le_opened = True, le_answers = [(1, False)]\<rparr> ''abcd'',
    Log_append \<lparr>le_now = 9, le_roll_now = 9, le_opened = True, le_answers = []\<rparr> ''e'']"
  have "list_all log_op_ok ?ops" by (simp add: no_error_def)
  from LogFile_keeps_lines [of "''app''" ?env ?ops "''h''" 7 3 3 1024, OF _ _ _ this] show ?thesis by auto
qed

end
