(* ===== verification/Async_Logging.thy ===== *)
theory Async_Logging
  imports Log_Stream Log_File Threads
begin

text \<open>
  \<^verbatim>\<open>utility/AsyncLogging.cpp\<close>: threads append log lines to a large buffer in memory, and one thread writes
  full buffers, or the current one after a time, to the log file.

  Every critical section is one step. The writing thread waits inside its critical section, so its loop
  has three steps: the head of the loop up to the wait or through the exchange of the buffers, the
  return from the wait (by a signal, the time limit or spuriously) with the exchange, and the writing,
  which touches only what the thread owns. A null \<^verbatim>\<open>unique_ptr\<close> is \<^term>\<open>None\<close>. The content of new memory,
  the clock and the answers of the file system are arguments of the steps.

  The lemmas show that no assertion of the writing thread can fail, and that the log file and the
  buffers together hold the lines in the order in which they were appended, unless the thread gave
  notice that it dropped some. Lines still in memory when the thread is stopped are lost.
\<close>

section \<open>State\<close>

datatype backend =
    Not_started
  | Loop_head
  | Waiting
  | Writing
  | Finished

type_synonym BufferPtr = "FixedBuffer option"

text \<open>
  \<open>al_newBuffer1\<close>, \<open>al_newBuffer2\<close>, \<open>al_buffersToWrite\<close> and \<open>al_output\<close> are the locals of \<^verbatim>\<open>threadFunc\<close>.
  \<open>al_appended\<close> and \<open>al_drops\<close> record the lines appended and the number of times buffers were dropped.
\<close>

record AsyncLogging =
  al_flushInterval :: int
  al_running :: bool
  al_basename :: string
  al_rollSize :: int
  al_thread :: Thread
  al_currentBuffer :: BufferPtr
  al_nextBuffer :: BufferPtr
  al_buffers :: "BufferPtr list"
  al_newBuffer1 :: BufferPtr
  al_newBuffer2 :: BufferPtr
  al_buffersToWrite :: "BufferPtr list"
  al_output :: "LogFile option"
  al_backend :: backend
  al_appended :: "string list"
  al_drops :: nat

type_synonym memory = "nat \<Rightarrow> char"

definition new_Buffer :: "memory \<Rightarrow> FixedBuffer" where
  "new_Buffer mem = FixedBuffer_new (map mem [0..<kLargeBuffer])"

definition AsyncLogging_new :: "memory \<Rightarrow> memory \<Rightarrow> int \<Rightarrow> string \<Rightarrow> int \<Rightarrow> int \<Rightarrow> AsyncLogging" where
  "AsyncLogging_new mem1 mem2 numCreated basename rollSize flushInterval =
     \<lparr>al_flushInterval = flushInterval, al_running = False, al_basename = basename, al_rollSize = rollSize,
      al_thread = fst (Thread_new numCreated ''Logging''),
      al_currentBuffer = Some (fb_bZero (new_Buffer mem1)), al_nextBuffer = Some (fb_bZero (new_Buffer mem2)),
      al_buffers = [], al_newBuffer1 = None, al_newBuffer2 = None, al_buffersToWrite = [],
      al_output = None, al_backend = Not_started, al_appended = [], al_drops = 0\<rparr>"

section \<open>The appending threads\<close>

definition al_append :: "memory \<Rightarrow> string \<Rightarrow> AsyncLogging \<Rightarrow> AsyncLogging res" where
  "al_append mem logline s =
     (case al_currentBuffer s of
        None \<Rightarrow> Inl Undefined
      | Some current \<Rightarrow>
          if int (length logline) < fb_avail current then
            rbind (fb_append logline current) (\<lambda>b.
              Inr (s\<lparr>al_currentBuffer := Some b, al_appended := al_appended s @ [logline]\<rparr>))
          else
            let current' = (case al_nextBuffer s of Some b \<Rightarrow> b | None \<Rightarrow> new_Buffer mem) in
            rbind (fb_append logline current') (\<lambda>b.
              Inr (s\<lparr>al_buffers := al_buffers s @ [Some current], al_nextBuffer := None,
                     al_currentBuffer := Some b, al_appended := al_appended s @ [logline]\<rparr>)))"

text \<open>\<^verbatim>\<open>start\<close> with the beginning of \<^verbatim>\<open>threadFunc\<close>, up to the head of the loop.\<close>

definition al_start ::
    "int \<Rightarrow> log_env \<Rightarrow> string \<Rightarrow> int \<Rightarrow> memory \<Rightarrow> memory \<Rightarrow> AsyncLogging \<Rightarrow> AsyncLogging res" where
  "al_start gettid env hostname pid mem1 mem2 s =
     (let s = s\<lparr>al_running := True\<rparr> in
      rbind (thread_start (Some gettid) (al_thread s)) (\<lambda>t.
      require (al_running s)
        (rbind (LogFile_new env hostname pid (al_basename s) (al_rollSize s) 3 1024) (\<lambda>output.
         Inr (s\<lparr>al_thread := t, al_output := Some output,
                al_newBuffer1 := Some (fb_bZero (new_Buffer mem1)),
                al_newBuffer2 := Some (fb_bZero (new_Buffer mem2)),
                al_buffersToWrite := [], al_backend := Loop_head\<rparr>)))))"

text \<open>\<^verbatim>\<open>stop\<close> up to the wait for the end of the thread.\<close>

definition al_stop :: "AsyncLogging \<Rightarrow> AsyncLogging res" where
  "al_stop s = rbind (thread_join (al_thread s)) (\<lambda>t. Inr (s\<lparr>al_running := False, al_thread := t\<rparr>))"

section \<open>The writing thread\<close>

definition al_swap :: "AsyncLogging \<Rightarrow> AsyncLogging" where
  "al_swap s =
     (let full = al_buffers s @ [al_currentBuffer s];
          s = s\<lparr>al_currentBuffer := al_newBuffer1 s, al_newBuffer1 := None,
                al_buffers := al_buffersToWrite s, al_buffersToWrite := full, al_backend := Writing\<rparr>
      in if al_nextBuffer s = None then s\<lparr>al_nextBuffer := al_newBuffer2 s, al_newBuffer2 := None\<rparr> else s)"

definition fresh :: "BufferPtr \<Rightarrow> bool" where
  "fresh p \<longleftrightarrow> (case p of None \<Rightarrow> False | Some b \<Rightarrow> fb_length b = 0)"

definition al_loop_head :: "AsyncLogging \<Rightarrow> AsyncLogging res" where
  "al_loop_head s =
     (if al_running s then
        require (fresh (al_newBuffer1 s)) (require (fresh (al_newBuffer2 s)) (require (al_buffersToWrite s = [])
          (Inr (if al_buffers s = [] then s\<lparr>al_backend := Waiting\<rparr> else al_swap s))))
      else
        case al_output s of
          None \<Rightarrow> Inl Undefined
        | Some output \<Rightarrow> rbind (lf_flush output) (\<lambda>output.
            Inr (s\<lparr>al_output := Some output, al_backend := Finished\<rparr>)))"

definition drop_notice :: "Timestamp \<Rightarrow> nat \<Rightarrow> string" where
  "drop_notice now n =
     snprintf_buf 256 (''Dropped log message at '' @ Timestamp_toFormattedString True now @ '', '' @
       dec_nat (n - 2) @ '' larger buffers'' @ [CHR 0x0A])"

text \<open>The \<open>i\<close>-th append of a turn gets the answers \<open>envs i\<close>.\<close>

fun write_buffers :: "(nat \<Rightarrow> log_env) \<Rightarrow> nat \<Rightarrow> BufferPtr list \<Rightarrow> LogFile \<Rightarrow> LogFile res" where
  "write_buffers envs i [] output = Inr output"
| "write_buffers envs i (p # ps) output =
     (case p of
        None \<Rightarrow> Inl Undefined
      | Some b \<Rightarrow> rbind (lf_append (envs i) (fb_toString b) output) (write_buffers envs (Suc i) ps))"

definition refill :: "BufferPtr \<Rightarrow> BufferPtr list \<Rightarrow> (BufferPtr \<times> BufferPtr list) res" where
  "refill newBuffer toWrite =
     (case newBuffer of
        Some b \<Rightarrow> Inr (Some b, toWrite)
      | None \<Rightarrow>
          require (toWrite \<noteq> [])
            (case last toWrite of
               None \<Rightarrow> Inl Undefined
             | Some b \<Rightarrow> Inr (Some (fb_reset b), butlast toWrite)))"

definition drop_buffers :: "Timestamp \<Rightarrow> log_env \<Rightarrow> BufferPtr list \<Rightarrow> LogFile \<Rightarrow> (BufferPtr list \<times> LogFile) res" where
  "drop_buffers now env toWrite output =
     (if 25 < length toWrite then
        rbind (lf_append env (drop_notice now (length toWrite)) output) (\<lambda>output. Inr (take 2 toWrite, output))
      else Inr (toWrite, output))"

definition al_write :: "Timestamp \<Rightarrow> (nat \<Rightarrow> log_env) \<Rightarrow> AsyncLogging \<Rightarrow> AsyncLogging res" where
  "al_write now envs s =
     (case al_output s of
        None \<Rightarrow> Inl Undefined
      | Some output \<Rightarrow>
          require (al_buffersToWrite s \<noteq> [])
            (rbind (drop_buffers now (envs 0) (al_buffersToWrite s) output) (\<lambda>(toWrite, output).
             rbind (write_buffers envs 1 toWrite output) (\<lambda>output.
             let kept = (if 2 < length toWrite then take 2 toWrite else toWrite) in
             rbind (refill (al_newBuffer1 s) kept) (\<lambda>(b1, kept).
             rbind (refill (al_newBuffer2 s) kept) (\<lambda>(b2, kept).
             rbind (lf_flush output) (\<lambda>output.
             Inr (s\<lparr>al_newBuffer1 := b1, al_newBuffer2 := b2, al_buffersToWrite := [],
                    al_output := Some output, al_backend := Loop_head,
                    al_drops := al_drops s + (if 25 < length (al_buffersToWrite s) then 1 else 0)\<rparr>))))))))"

section \<open>Interleaving\<close>

datatype al_event =
    Al_append memory string
  | Al_start int log_env string int memory memory
  | Al_stop
  | Al_loop_head
  | Al_wake
  | Al_write Timestamp "nat \<Rightarrow> log_env"

fun al_step :: "al_event \<Rightarrow> AsyncLogging \<Rightarrow> AsyncLogging res" where
  "al_step (Al_append mem line) s = al_append mem line s"
| "al_step (Al_start gettid env hostname pid mem1 mem2) s = al_start gettid env hostname pid mem1 mem2 s"
| "al_step Al_stop s = al_stop s"
| "al_step Al_loop_head s = al_loop_head s"
| "al_step Al_wake s = Inr (al_swap s)"
| "al_step (Al_write now envs) s = al_write now envs s"

text \<open>
  When a step can happen: the steps of the writing thread in their order, a start before the stop and
  each at most once, lines shorter than a buffer (a \<^verbatim>\<open>Logger\<close> gives at most \<^verbatim>\<open>kSmallBuffer\<close> bytes), and a
  file system without errors.
\<close>

fun al_enabled :: "al_event \<Rightarrow> AsyncLogging \<Rightarrow> bool" where
  "al_enabled (Al_append mem line) s \<longleftrightarrow> length line < kLargeBuffer"
| "al_enabled (Al_start gettid env hostname pid mem1 mem2) s \<longleftrightarrow>
     al_backend s = Not_started \<and> 0 < gettid \<and> 0 < le_roll_now env \<and> le_opened env"
| "al_enabled Al_stop s \<longleftrightarrow> al_backend s \<noteq> Not_started \<and> \<not> th_joined (al_thread s)"
| "al_enabled Al_loop_head s \<longleftrightarrow> al_backend s = Loop_head"
| "al_enabled Al_wake s \<longleftrightarrow> al_backend s = Waiting"
| "al_enabled (Al_write now envs) s \<longleftrightarrow> al_backend s = Writing \<and> (\<forall>i. no_error (envs i) \<and> le_opened (envs i))"

abbreviation al_reachable :: "AsyncLogging \<Rightarrow> AsyncLogging \<Rightarrow> bool" where
  "al_reachable s \<equiv> reach {s} al_enabled al_step"

section \<open>Invariant\<close>

definition buf_ok :: "FixedBuffer \<Rightarrow> bool" where
  "buf_ok b \<longleftrightarrow> fb_wf b \<and> length (fb_data b) = kLargeBuffer"

fun ptr_ok :: "BufferPtr \<Rightarrow> bool" where
  "ptr_ok None \<longleftrightarrow> False"
| "ptr_ok (Some b) \<longleftrightarrow> buf_ok b"

fun ptr_empty :: "BufferPtr \<Rightarrow> bool" where
  "ptr_empty None \<longleftrightarrow> False"
| "ptr_empty (Some b) \<longleftrightarrow> buf_ok b \<and> fb_cur b = 0"

fun ptr_text :: "BufferPtr \<Rightarrow> string" where
  "ptr_text None = []"
| "ptr_text (Some b) = fb_toString b"

definition ptrs_text :: "BufferPtr list \<Rightarrow> string" where
  "ptrs_text ps = concat (map ptr_text ps)"

definition al_written :: "AsyncLogging \<Rightarrow> string" where
  "al_written s = (case al_output s of None \<Rightarrow> [] | Some f \<Rightarrow> lf_text f)"

definition al_pending :: "AsyncLogging \<Rightarrow> string" where
  "al_pending s = ptrs_text (al_buffersToWrite s) @ ptrs_text (al_buffers s) @ ptr_text (al_currentBuffer s)"

definition front_ok :: "AsyncLogging \<Rightarrow> bool" where
  "front_ok s \<longleftrightarrow> ptr_ok (al_currentBuffer s) \<and> list_all ptr_ok (al_buffers s) \<and>
     (if al_nextBuffer s = None then al_buffers s \<noteq> [] else ptr_empty (al_nextBuffer s))"

definition output_ok :: "AsyncLogging \<Rightarrow> bool" where
  "output_ok s \<longleftrightarrow> (case al_output s of None \<Rightarrow> False | Some f \<Rightarrow> lf_inv f)"

definition back_ok :: "AsyncLogging \<Rightarrow> bool" where
  "back_ok s \<longleftrightarrow>
     (case al_backend s of
        Not_started \<Rightarrow> al_output s = None \<and> al_buffersToWrite s = [] \<and> \<not> th_started (al_thread s) \<and>
          CHR ''/'' \<notin> set (al_basename s)
      | Writing \<Rightarrow> output_ok s \<and> th_started (al_thread s) \<and> al_newBuffer1 s = None \<and>
          al_buffersToWrite s \<noteq> [] \<and> list_all ptr_ok (al_buffersToWrite s) \<and>
          (if al_newBuffer2 s = None then 2 \<le> length (al_buffersToWrite s) else ptr_empty (al_newBuffer2 s))
      | Finished \<Rightarrow> output_ok s \<and> th_started (al_thread s)
      | _ \<Rightarrow> output_ok s \<and> th_started (al_thread s) \<and> ptr_empty (al_newBuffer1 s) \<and> ptr_empty (al_newBuffer2 s) \<and>
          al_buffersToWrite s = [])"

definition al_inv :: "AsyncLogging \<Rightarrow> bool" where
  "al_inv s \<longleftrightarrow> front_ok s \<and> back_ok s \<and>
     (al_drops s = 0 \<longrightarrow> al_written s @ al_pending s = concat (al_appended s))"

lemma ptrs_text_simps [simp]:
  "ptrs_text [] = []" "ptrs_text (p # ps) = ptr_text p @ ptrs_text ps" "ptrs_text (ps @ qs) = ptrs_text ps @ ptrs_text qs"
  by (simp_all add: ptrs_text_def)

lemma ptr_empty_ok: "ptr_empty p \<Longrightarrow> ptr_ok p" "ptr_empty p \<Longrightarrow> ptr_text p = []" "ptr_empty p \<Longrightarrow> fresh p"
  by (cases p; simp add: fb_toString_def fb_length_def fresh_def)+

lemma new_Buffer_empty [simp]: "ptr_empty (Some (new_Buffer mem))" "ptr_empty (Some (fb_bZero (new_Buffer mem)))"
  by (simp_all add: new_Buffer_def FixedBuffer_new_def fb_bZero_def buf_ok_def fb_wf_def kLargeBuffer_def)

lemma reset_empty: "buf_ok b \<Longrightarrow> ptr_empty (Some (fb_reset b))"
  by (simp add: buf_ok_def fb_reset_def fb_wf_def kLargeBuffer_def)

lemma buf_append:
  assumes "buf_ok b" "fb_cur b + length line < kLargeBuffer"
  shows "\<exists>b'. fb_append line b = Inr b' \<and> buf_ok b' \<and> fb_toString b' = fb_toString b @ line"
  using fb_append_cases [of b line] assms by (auto simp: buf_ok_def)

section \<open>Steps\<close>

text \<open>The appending threads leave the writing thread's part alone.\<close>

lemma back_ok_front [simp]:
  "back_ok (s\<lparr>al_currentBuffer := c\<rparr>) = back_ok s" "back_ok (s\<lparr>al_nextBuffer := c\<rparr>) = back_ok s"
  "back_ok (s\<lparr>al_buffers := bs\<rparr>) = back_ok s" "back_ok (s\<lparr>al_appended := ls\<rparr>) = back_ok s"
  by (cases "al_backend s"; simp add: back_ok_def output_ok_def)+

lemma front_frame [simp]:
  "front_ok (s\<lparr>al_backend := c\<rparr>) = front_ok s" "front_ok (s\<lparr>al_running := r\<rparr>) = front_ok s"
  "front_ok (s\<lparr>al_thread := t\<rparr>) = front_ok s"
  by (simp_all add: front_ok_def)

lemma text_frame [simp]:
  "al_written (s\<lparr>al_backend := c\<rparr>) = al_written s" "al_written (s\<lparr>al_running := r\<rparr>) = al_written s"
  "al_written (s\<lparr>al_thread := t\<rparr>) = al_written s" "al_pending (s\<lparr>al_backend := c\<rparr>) = al_pending s"
  "al_pending (s\<lparr>al_running := r\<rparr>) = al_pending s" "al_pending (s\<lparr>al_thread := t\<rparr>) = al_pending s"
  by (simp_all add: al_written_def al_pending_def)

lemma al_append_inv:
  assumes "al_inv s" "length line < kLargeBuffer"
  shows "\<exists>s'. al_append mem line s = Inr s' \<and> al_inv s'"
proof -
  obtain cur where cur: "al_currentBuffer s = Some cur" "buf_ok cur"
    using assms(1) by (cases "al_currentBuffer s") (auto simp: al_inv_def front_ok_def)
  show ?thesis
  proof (cases "int (length line) < fb_avail cur")
    case True
    then have "fb_cur cur + length line < kLargeBuffer"
      using cur(2) by (auto simp: fb_avail_def buf_ok_def)
    from buf_append [OF cur(2) this] obtain b where
      "fb_append line cur = Inr b" "buf_ok b" "fb_toString b = fb_toString cur @ line" by blast
    then show ?thesis
      using assms(1) cur True
      by (auto simp: al_append_def al_inv_def front_ok_def al_written_def al_pending_def)
  next
    case False
    define nxt where "nxt = (case al_nextBuffer s of Some b \<Rightarrow> b | None \<Rightarrow> new_Buffer mem)"
    have "ptr_empty (Some nxt)"
      using assms(1) new_Buffer_empty(1) [of mem]
      by (auto simp: nxt_def al_inv_def front_ok_def split: option.splits)
    with buf_append [of nxt line] assms(2) obtain b where
      b: "fb_append line nxt = Inr b" "buf_ok b" "fb_toString b = line"
      by (auto simp: fb_toString_def fb_length_def)
    then show ?thesis
      using assms(1) cur False
      by (auto simp: al_append_def al_inv_def front_ok_def al_written_def al_pending_def nxt_def [symmetric])
  qed
qed

lemma al_swap_inv:
  assumes "al_inv s" "al_backend s \<in> {Loop_head, Waiting}"
  shows "al_inv (al_swap s)"
proof -
  have "front_ok s" "ptr_empty (al_newBuffer1 s)" "ptr_empty (al_newBuffer2 s)" "al_buffersToWrite s = []"
    "output_ok s" "th_started (al_thread s)"
    and "al_drops s = 0 \<longrightarrow> al_written s @ al_pending s = concat (al_appended s)"
    using assms by (auto simp: al_inv_def back_ok_def)
  then show ?thesis
    using ptr_empty_ok [of "al_newBuffer1 s"] ptr_empty_ok [of "al_newBuffer2 s"]
    by (cases "al_buffers s")
       (auto simp: al_swap_def Let_def al_inv_def front_ok_def back_ok_def output_ok_def al_written_def al_pending_def)
qed

lemma write_buffers_appends:
  assumes "list_all ptr_ok ps"
  shows "write_buffers envs i ps f =
    rfold (\<lambda>(env, line). lf_append env line) (zip (map envs [i..<i + length ps]) (map ptr_text ps)) f"
  using assms
proof (induction ps arbitrary: i f)
  case (Cons p ps)
  then obtain b where "p = Some b" by (cases p) auto
  moreover have "[i..<i + length (p # ps)] = i # [Suc i..<Suc i + length ps]" by (simp add: upt_conv_Cons del: upt_Suc)
  ultimately show ?case using Cons by (cases "lf_append (envs i) (ptr_text p) f") (simp_all del: upt_Suc)
qed simp

lemma write_buffers_ok:
  assumes "list_all ptr_ok ps" "lf_inv f" "\<forall>i. no_error (envs i) \<and> le_opened (envs i)"
  shows "\<exists>f'. write_buffers envs i ps f = Inr f' \<and> lf_inv f' \<and> lf_text f' = lf_text f @ ptrs_text ps"
proof -
  let ?xs = "zip (map envs [i..<i + length ps]) (map ptr_text ps)"
  have "\<forall>(env, line) \<in> set ?xs. no_error env \<and> le_opened env"
    using assms(3) by (auto dest!: set_zip_leftD)
  from lf.appends_text [OF assms(2) this] show ?thesis
    by (simp add: write_buffers_appends [OF assms(1)] ptrs_text_def)
qed

lemma drop_buffers_ok:
  assumes "list_all ptr_ok ps" "lf_inv f" "no_error env" "le_opened env" "ps \<noteq> []"
  shows "\<exists>qs f'. drop_buffers now env ps f = Inr (qs, f') \<and> lf_inv f' \<and> list_all ptr_ok qs \<and>
    length qs = (if 25 < length ps then 2 else length ps) \<and>
    (length ps \<le> 25 \<longrightarrow> qs = ps \<and> f' = f)"
proof (cases "25 < length ps")
  case True
  then have "list_all ptr_ok (take 2 ps)" using assms(1) by (auto simp: list_all_iff dest: in_set_takeD)
  then show ?thesis
    using True lf_append_ok [OF assms(2-4), of "drop_notice now (length ps)"] by (auto simp: drop_buffers_def)
qed (use assms in \<open>simp add: drop_buffers_def\<close>)

text \<open>The two refills from the buffers that are kept.\<close>

lemma refill_ok:
  assumes "list_all ptr_ok ps" "p = None \<longrightarrow> ps \<noteq> []" "p \<noteq> None \<longrightarrow> ptr_empty p"
  shows "\<exists>q. refill p ps = Inr (q, if p = None then butlast ps else ps) \<and> ptr_empty q"
proof (cases p)
  case None
  then have "ptr_ok (last ps)" using assms by (simp add: list_all_iff)
  then obtain b where "last ps = Some b" "buf_ok b" by (cases "last ps") auto
  then show ?thesis using None assms(2) reset_empty [of b] by (simp add: refill_def del: ptr_empty.simps)
qed (use assms in \<open>simp add: refill_def\<close>)

lemma al_write_inv:
  assumes inv: "al_inv s" and e: "al_enabled (Al_write now envs) s"
  shows "\<exists>s'. al_write now envs s = Inr s' \<and> al_inv s' \<and> al_running s' = al_running s \<and>
    al_appended s' = al_appended s \<and> al_backend s' = Loop_head \<and>
    (length (al_buffersToWrite s) \<le> 25 \<longrightarrow> al_drops s' = al_drops s \<and>
       al_written s' = al_written s @ ptrs_text (al_buffersToWrite s))"
proof -
  let ?ps = "al_buffersToWrite s"
  obtain f where f: "al_output s = Some f" "lf_inv f" "th_started (al_thread s)"
    and ps: "?ps \<noteq> []" "list_all ptr_ok ?ps" and n1: "al_newBuffer1 s = None"
    and n2: "if al_newBuffer2 s = None then 2 \<le> length ?ps else ptr_empty (al_newBuffer2 s)"
    using inv e by (auto simp: al_inv_def back_ok_def output_ok_def split: option.splits)
  have env: "\<forall>i. no_error (envs i) \<and> le_opened (envs i)" "no_error (envs 0)" "le_opened (envs 0)" using e by simp_all
  obtain qs f1 where d: "drop_buffers now (envs 0) ?ps f = Inr (qs, f1)" "lf_inv f1" "list_all ptr_ok qs"
      "length qs = (if 25 < length ?ps then 2 else length ?ps)" "length ?ps \<le> 25 \<longrightarrow> qs = ?ps \<and> f1 = f"
    using drop_buffers_ok [OF ps(2) f(2) env(2,3) ps(1), of now] by blast
  obtain f2 where w: "write_buffers envs 1 qs f1 = Inr f2" "lf_inv f2" "lf_text f2 = lf_text f1 @ ptrs_text qs"
    using write_buffers_ok [OF d(3,2) env(1), of 1] by blast
  define kept where "kept = (if 2 < length qs then take 2 qs else qs)"
  have kept: "list_all ptr_ok kept" "kept \<noteq> []" "al_newBuffer2 s = None \<longrightarrow> length kept = 2"
    using d(3,4) ps(1) n2 by (auto simp: kept_def list_all_iff dest: in_set_takeD split: if_splits)
  obtain b1 where b1: "refill (al_newBuffer1 s) kept = Inr (b1, butlast kept)" "ptr_empty b1"
    using refill_ok [OF kept(1), of None] kept(2) n1 by auto
  have r: "list_all ptr_ok (butlast kept)" using kept(1) by (auto simp: list_all_iff dest: in_set_butlastD)
  have r': "al_newBuffer2 s = None \<longrightarrow> butlast kept \<noteq> []" "al_newBuffer2 s \<noteq> None \<longrightarrow> ptr_empty (al_newBuffer2 s)"
    using kept(3) n2 by (auto simp: length_Suc_conv numeral_2_eq_2)
  from refill_ok [OF r r'] obtain b2 r2 where b2: "refill (al_newBuffer2 s) (butlast kept) = Inr (b2, r2)" "ptr_empty b2"
    by blast
  obtain f3 where fl: "lf_flush f2 = Inr f3" "lf_inv f3" "lf_text f3 = lf_text f2"
    using lf.flush_text [OF w(2)] by blast
  define s' where "s' = s\<lparr>al_newBuffer1 := b1, al_newBuffer2 := b2, al_buffersToWrite := [],
    al_output := Some f3, al_backend := Loop_head, al_drops := al_drops s + (if 25 < length ?ps then 1 else 0)\<rparr>"
  have "al_write now envs s = Inr s'"
    using f(1) ps(1) d(1) w(1) b1(1) b2(1) fl(1) by (simp add: al_write_def s'_def kept_def [symmetric] Let_def)
  moreover have "front_ok s'" using inv by (simp add: al_inv_def front_ok_def s'_def)
  moreover have "back_ok s'" using f(3) fl(2) b1(2) b2(2) by (simp add: back_ok_def output_ok_def s'_def)
  moreover have "al_written s' @ al_pending s' = concat (al_appended s')" if "al_drops s' = 0"
    using that inv d(5) w(3) fl(3) f(1)
    by (auto simp: s'_def al_inv_def al_written_def al_pending_def split: if_splits)
  moreover have "al_written s' = al_written s @ ptrs_text ?ps" if "length ?ps \<le> 25"
    using that d(5) w(3) fl(3) f(1) by (simp add: s'_def al_written_def)
  ultimately show ?thesis by (auto simp: al_inv_def s'_def)
qed

lemma al_start_inv:
  assumes inv: "al_inv s" and e: "al_enabled (Al_start gettid env hostname pid mem1 mem2) s"
  shows "\<exists>t f s'. al_start gettid env hostname pid mem1 mem2 s = Inr s' \<and> al_inv s' \<and> lf_text f = [] \<and>
    th_started t \<and> th_joined t = th_joined (al_thread s) \<and>
    s' = s\<lparr>al_running := True, al_thread := t, al_output := Some f,
      al_newBuffer1 := Some (fb_bZero (new_Buffer mem1)), al_newBuffer2 := Some (fb_bZero (new_Buffer mem2)),
      al_buffersToWrite := [], al_backend := Loop_head\<rparr>"
proof -
  have s: "\<not> th_started (al_thread s)" "CHR ''/'' \<notin> set (al_basename s)" "al_output s = None" "al_buffersToWrite s = []"
    using inv e by (simp_all add: al_inv_def back_ok_def)
  obtain t where t: "thread_start (Some gettid) (al_thread s) = Inr t" "th_started t" "th_joined t = th_joined (al_thread s)"
    using thread_start_cases [OF s(1), of gettid] e by auto
  obtain f where f: "LogFile_new env hostname pid (al_basename s) (al_rollSize s) 3 1024 = Inr f" "lf_inv f" "lf_text f = []"
    using LogFile_new_ok [OF s(2), of env hostname pid "al_rollSize s" 3 1024] e by auto
  define s' where "s' = s\<lparr>al_running := True, al_thread := t, al_output := Some f,
      al_newBuffer1 := Some (fb_bZero (new_Buffer mem1)), al_newBuffer2 := Some (fb_bZero (new_Buffer mem2)),
      al_buffersToWrite := [], al_backend := Loop_head\<rparr>"
  have "al_start gettid env hostname pid mem1 mem2 s = Inr s'"
    using t(1) f(1) by (simp add: al_start_def s'_def Let_def)
  moreover have "al_inv s'"
    using inv s f t(2) new_Buffer_empty(2) [of mem1] new_Buffer_empty(2) [of mem2]
    by (auto simp: al_inv_def front_ok_def back_ok_def output_ok_def al_written_def al_pending_def s'_def
        simp del: ptr_empty.simps)
  ultimately show ?thesis using f(3) t(2,3) s'_def by blast
qed

lemma al_loop_head_inv:
  assumes inv: "al_inv s" and e: "al_backend s = Loop_head"
  shows "\<exists>s'. al_loop_head s = Inr s' \<and> al_inv s' \<and> al_appended s' = al_appended s \<and> al_drops s' = al_drops s \<and>
    (\<not> al_running s \<longrightarrow> al_backend s' = Finished \<and> al_written s' = al_written s)"
proof -
  obtain f where f: "al_output s = Some f" "lf_inv f" "th_started (al_thread s)"
    and b: "ptr_empty (al_newBuffer1 s)" "ptr_empty (al_newBuffer2 s)" "al_buffersToWrite s = []"
    using assms by (auto simp: al_inv_def back_ok_def output_ok_def split: option.splits)
  show ?thesis
  proof (cases "al_running s")
    case True
    have "al_inv (s\<lparr>al_backend := Waiting\<rparr>)"
      using assms by (simp add: al_inv_def back_ok_def output_ok_def)
    moreover have "al_inv (al_swap s)" using al_swap_inv assms by simp
    moreover have "al_appended (al_swap s) = al_appended s" "al_drops (al_swap s) = al_drops s"
      by (simp_all add: al_swap_def Let_def)
    ultimately show ?thesis using True b by (auto simp: al_loop_head_def ptr_empty_ok(3))
  next
    case False
    obtain f' where "lf_flush f = Inr f'" "lf_inv f'" "lf_text f' = lf_text f"
      using lf.flush_text [OF f(2)] by blast
    then show ?thesis
      using False inv f b
      by (auto simp: al_loop_head_def al_inv_def front_ok_def back_ok_def output_ok_def al_written_def al_pending_def)
  qed
qed

lemma al_stop_inv:
  assumes inv: "al_inv s" and e: "al_enabled Al_stop s"
  shows "\<exists>t. al_stop s = Inr (s\<lparr>al_running := False, al_thread := t\<rparr>) \<and> al_inv (s\<lparr>al_running := False, al_thread := t\<rparr>)"
proof -
  have "th_started (al_thread s)"
    using assms by (cases "al_backend s") (simp_all add: al_inv_def back_ok_def)
  moreover have "back_ok (s\<lparr>al_running := False, al_thread := t\<rparr>)" if "th_started t" for t
    using assms that by (cases "al_backend s") (simp_all add: al_inv_def back_ok_def output_ok_def)
  ultimately show ?thesis
    using assms by (intro exI [of _ "(al_thread s)\<lparr>th_joined := True\<rparr>"]) (simp add: al_stop_def thread_join_def al_inv_def)
qed

lemma al_step_inv:
  assumes inv: "al_inv s" and e: "al_enabled e s"
  shows "\<exists>s'. al_step e s = Inr s' \<and> al_inv s'"
proof (cases e)
  case (Al_append mem line)
  then show ?thesis using al_append_inv [OF inv] e by simp
next
  case (Al_start gettid env hostname pid mem1 mem2)
  then show ?thesis using al_start_inv [OF inv, of gettid env hostname pid mem1 mem2] e by auto
next
  case Al_stop
  then show ?thesis using al_stop_inv [OF inv] e by auto
next
  case Al_loop_head
  then show ?thesis using al_loop_head_inv [OF inv] e by auto
next
  case Al_wake
  then show ?thesis using al_swap_inv [OF inv] e by simp
next
  case (Al_write now envs)
  then show ?thesis using al_write_inv [OF inv, of now envs] e by auto
qed

interpretation al: event_system al_enabled al_step al_inv "{}"
  using al_step_inv by unfold_locales force+

lemma al_reachable_inv: "al_reachable s0 s \<Longrightarrow> al_inv s0 \<Longrightarrow> al_inv s"
  by (erule al.reach_inv) simp

lemma AsyncLogging_new_inv:
  assumes "CHR ''/'' \<notin> set basename"
  shows "al_inv (AsyncLogging_new mem1 mem2 numCreated basename rollSize flushInterval)"
  using assms new_Buffer_empty(2) [of mem1] new_Buffer_empty(2) [of mem2]
  by (simp add: AsyncLogging_new_def al_inv_def front_ok_def back_ok_def al_written_def al_pending_def
      Thread_new_def setDefaultName_def ptr_empty_ok fb_toString_def fb_length_def Let_def)

lemma al_drops_step:
  assumes "al_step e s = Inr s'" "al_drops s' \<noteq> al_drops s"
  shows "25 < length (al_buffersToWrite s)"
  using assms
  by (cases e)
     (auto simp: al_append_def al_start_def al_stop_def al_loop_head_def al_swap_def al_write_def Let_def
       rbind_Inr_iff require_Inr_iff split: option.splits if_splits)

section \<open>A run in which a line is lost\<close>

definition quiet_env :: log_env where
  "quiet_env = \<lparr>le_now = 1, le_roll_now = 1, le_opened = True, le_answers = []\<rparr>"

lemma quiet_env_ok [simp]: "no_error quiet_env" "le_opened quiet_env" "0 < le_roll_now quiet_env"
  by (simp_all add: quiet_env_def no_error_def)

lemma started_reachable:
  assumes "CHR ''/'' \<notin> set basename" and s0_def: "s0 = AsyncLogging_new mem mem 0 basename rollSize 3"
  shows "\<exists>s. al_reachable s0 s \<and> al_inv s \<and> al_backend s = Loop_head \<and> al_running s \<and> \<not> th_joined (al_thread s) \<and>
    al_buffers s = [] \<and> al_written s = [] \<and> al_pending s = [] \<and> al_appended s = [] \<and> al_drops s = 0 \<and>
    al_newBuffer1 s = Some (fb_bZero (new_Buffer mem))"
proof -
  have inv: "al_inv s0" using AsyncLogging_new_inv [OF assms(1)] by (simp add: s0_def)
  have e: "al_enabled (Al_start 1 quiet_env [] 1 mem mem) s0" by (simp add: s0_def AsyncLogging_new_def)
  obtain t f s where s: "al_start 1 quiet_env [] 1 mem mem s0 = Inr s" "al_inv s" "lf_text f = []"
      "th_joined t = th_joined (al_thread s0)" and
    eq: "s = s0\<lparr>al_running := True, al_thread := t, al_output := Some f,
      al_newBuffer1 := Some (fb_bZero (new_Buffer mem)), al_newBuffer2 := Some (fb_bZero (new_Buffer mem)),
      al_buffersToWrite := [], al_backend := Loop_head\<rparr>"
    using al_start_inv [OF inv e] by blast
  have "al_reachable s0 s" using reach_step [of "{s0}" al_enabled al_step, OF reach_init [OF singletonI] e] s(1) by simp
  moreover have "al_written s = []" "al_appended s = []" "al_drops s = 0"
    using s(3) by (simp_all add: eq al_written_def s0_def AsyncLogging_new_def)
  moreover from this s(2) have "al_pending s = []" by (simp add: al_inv_def)
  ultimately show ?thesis
    using s(2,4) by (intro exI [of _ s]) (simp add: eq s0_def AsyncLogging_new_def Thread_new_def setDefaultName_def Let_def)
qed

lemma append_while_writing:
  assumes "al_inv s" "al_currentBuffer s = Some b" "buf_ok b" "fb_cur b = 0" "length line < kLargeBuffer"
  shows "\<exists>b'. al_append mem line s = Inr (s\<lparr>al_currentBuffer := Some b', al_appended := al_appended s @ [line]\<rparr>)"
  using buf_append [of b line] assms by (auto simp: al_append_def fb_avail_def buf_ok_def)

lemma line_behind_writer:
  assumes "CHR ''/'' \<notin> set basename" "length line < kLargeBuffer"
    and s0: "s0 = AsyncLogging_new mem mem 0 basename rollSize 3"
  shows "\<exists>s p. al_reachable s0 s \<and> al_inv s \<and> al_backend s = Writing \<and> \<not> th_joined (al_thread s) \<and>
    al_buffersToWrite s = [p] \<and> ptr_text p = [] \<and> al_written s = [] \<and> al_appended s = [line] \<and> al_drops s = 0"
proof -
  note step = reach_step [of "{s0}" al_enabled al_step]
  have inv: "al_inv s" if "al_reachable s0 s" for s
    using al_reachable_inv [OF that] AsyncLogging_new_inv [OF assms(1)] by (simp add: s0)
  obtain s1 where s1: "al_reachable s0 s1" "al_inv s1" "al_backend s1 = Loop_head" "al_running s1"
      "\<not> th_joined (al_thread s1)" "al_buffers s1 = []" "al_written s1 = []" "al_pending s1 = []" "al_appended s1 = []"
      "al_drops s1 = 0" "al_newBuffer1 s1 = Some (fb_bZero (new_Buffer mem))"
    using started_reachable [OF assms(1) s0] by blast
  define s2 where "s2 = s1\<lparr>al_backend := Waiting\<rparr>"
  have ok: "fresh (al_newBuffer1 s1)" "fresh (al_newBuffer2 s1)" "al_buffersToWrite s1 = []"
    using s1(2,3) by (auto simp: al_inv_def back_ok_def ptr_empty_ok)
  have r2: "al_reachable s0 s2" using step [OF s1(1), of Al_loop_head] s1(3,4,6) ok by (simp add: al_loop_head_def s2_def)
  define s3 where "s3 = al_swap s2"
  have r3: "al_reachable s0 s3" using step [OF r2, of Al_wake] by (simp add: s2_def s3_def)
  have s3: "al_backend s3 = Writing" "al_currentBuffer s3 = Some (fb_bZero (new_Buffer mem))"
      "al_buffersToWrite s3 = [al_currentBuffer s1]" "al_written s3 = []" "al_appended s3 = []" "al_drops s3 = 0"
      "\<not> th_joined (al_thread s3)"
    using s1 by (simp_all add: s3_def s2_def al_swap_def Let_def al_written_def)
  obtain b where a: "al_append mem line s3 = Inr (s3\<lparr>al_currentBuffer := Some b, al_appended := [line]\<rparr>)"
    using append_while_writing [OF inv [OF r3] s3(2) _ _ assms(2)] new_Buffer_empty(2) [of mem] s3(5) by auto
  then have r4: "al_reachable s0 (s3\<lparr>al_currentBuffer := Some b, al_appended := [line]\<rparr>)"
    using step [OF r3, of "Al_append mem line"] assms(2) by simp
  have "ptr_text (al_currentBuffer s1) = []" using s1(8) by (simp add: al_pending_def)
  with r4 inv [OF r4] s3 show ?thesis
    by (intro exI [of _ "s3\<lparr>al_currentBuffer := Some b, al_appended := [line]\<rparr>"] exI [of _ "al_currentBuffer s1"])
       (simp add: al_written_def)
qed

section \<open>Properties\<close>

text \<open>
  C10: for every interleaving of the appending threads with the writing thread, with wake-ups at any time:
  every step succeeds (no assertion of \<^verbatim>\<open>threadFunc\<close> fails, no null buffer is used), and as long as the
  thread has not given notice of dropped buffers, the files followed by the buffers in memory hold
  exactly the lines appended, in their order. Buffers are dropped only when more than 25 are waiting.
\<close>

theorem AsyncLogging_in_order:
  assumes "CHR ''/'' \<notin> set basename"
    and "al_reachable (AsyncLogging_new mem1 mem2 numCreated basename rollSize flushInterval) s"
  shows "(al_drops s = 0 \<longrightarrow> al_written s @ al_pending s = concat (al_appended s)) \<and>
    (\<forall>e. al_enabled e s \<longrightarrow> (\<exists>s'. al_step e s = Inr s' \<and>
      (al_drops s' \<noteq> al_drops s \<longrightarrow> 25 < length (al_buffersToWrite s))))"
proof -
  have inv: "al_inv s" using al_reachable_inv [OF assms(2)] AsyncLogging_new_inv [OF assms(1)] by simp
  then have "\<forall>e. al_enabled e s \<longrightarrow> (\<exists>s'. al_step e s = Inr s' \<and>
      (al_drops s' \<noteq> al_drops s \<longrightarrow> 25 < length (al_buffersToWrite s)))"
    using al_step_inv al_drops_step by blast
  with inv show ?thesis by (simp add: al_inv_def)
qed

theorem AsyncLogging_in_order_witness:
  "\<exists>s s'. al_reachable (AsyncLogging_new (\<lambda>_. CHR ''x'') (\<lambda>_. CHR ''x'') 0 ''app'' 1000 3) s \<and>
     al_written s @ al_pending s = [] \<and> al_step Al_loop_head s = Inr s'"
proof -
  let ?s0 = "AsyncLogging_new (\<lambda>_. CHR ''x'') (\<lambda>_. CHR ''x'') 0 ''app'' 1000 3"
  obtain s where s: "al_reachable ?s0 s" "al_backend s = Loop_head" "al_appended s = []" "al_drops s = 0"
    using started_reachable [of "''app''", OF _ refl, of "\<lambda>_. CHR ''x''" 1000] by auto
  then have "al_enabled Al_loop_head s" by simp
  with AsyncLogging_in_order [OF _ s(1)] s show ?thesis by fastforce
qed

text \<open>
  C40: lines can be lost when the log is stopped. A line that is appended while the thread writes, just
  before \<^verbatim>\<open>stop\<close>, stays in the current buffer: the thread leaves its loop without another exchange of the
  buffers, and ends with nothing of the line in any file, although no buffer was dropped.
\<close>

theorem AsyncLogging_stop_loses_lines:
  assumes "CHR ''/'' \<notin> set basename" "length line < kLargeBuffer"
  shows "\<exists>s. al_reachable (AsyncLogging_new mem mem 0 basename rollSize 3) s \<and> al_appended s = [line] \<and>
    al_backend s = Finished \<and> al_written s = [] \<and> al_drops s = 0"
proof -
  let ?s0 = "AsyncLogging_new mem mem 0 basename rollSize 3"
  note step = reach_step [of "{?s0}" al_enabled al_step]
  obtain s p where s: "al_reachable ?s0 s" "al_inv s" "al_backend s = Writing" "\<not> th_joined (al_thread s)"
      "al_buffersToWrite s = [p]" "ptr_text p = []" "al_written s = []" "al_appended s = [line]" "al_drops s = 0"
    using line_behind_writer [OF assms refl] by blast
  have e: "al_enabled Al_stop s" using s(3,4) by simp
  from al_stop_inv [OF s(2) e] obtain t where t: "al_stop s = Inr (s\<lparr>al_running := False, al_thread := t\<rparr>)"
    and inv: "al_inv (s\<lparr>al_running := False, al_thread := t\<rparr>)" by blast
  let ?s1 = "s\<lparr>al_running := False, al_thread := t\<rparr>"
  have r1: "al_reachable ?s0 ?s1" using step [OF s(1) e] t by simp
  have w: "al_enabled (Al_write (Timestamp_now 1 1) (\<lambda>_. quiet_env)) ?s1" using s(3) by simp
  from al_write_inv [OF inv this] obtain s2 where s2: "al_write (Timestamp_now 1 1) (\<lambda>_. quiet_env) ?s1 = Inr s2"
      "al_inv s2" "\<not> al_running s2" "al_appended s2 = [line]" "al_backend s2 = Loop_head" "al_drops s2 = 0" "al_written s2 = []"
    using s by auto
  have r2: "al_reachable ?s0 s2" using step [OF r1 w] s2(1) by simp
  obtain s3 where s3: "al_loop_head s2 = Inr s3" "al_appended s3 = [line]" "al_drops s3 = 0" "al_backend s3 = Finished"
      "al_written s3 = []"
    using al_loop_head_inv [OF s2(2,5)] s2 by auto
  then have "al_reachable ?s0 s3" using step [OF r2, of Al_loop_head] s2(5) by simp
  with s3 show ?thesis by blast
qed

theorem AsyncLogging_stop_loses_lines_witness:
  "\<exists>s. al_reachable (AsyncLogging_new (\<lambda>_. CHR ''x'') (\<lambda>_. CHR ''x'') 0 ''app'' 1000 3) s \<and> al_appended s = [''last words''] \<and>
     al_backend s = Finished \<and> al_written s = []"
  using AsyncLogging_stop_loses_lines [of "''app''" "''last words''" "\<lambda>_. CHR ''x''" 1000]
  by (auto simp: kLargeBuffer_def)

end
