(* ===== verification/Counters.thy ===== *)
theory Counters
  imports Prelude
begin

text \<open>
  \<^verbatim>\<open>utility/MinuteHourCounter.h\<close>: counts over a trailing window of time buckets; and
  \<^verbatim>\<open>utility/Atomic.h\<close>. Counts are integers of HOL (the sums of the source are \<^verbatim>\<open>int\<close>); the uninitialised
  \<^verbatim>\<open>last_update_time_\<close> of a new counter is an argument of its constructor. \<^verbatim>\<open>back()\<close> of an empty queue
  is \<open>Undefined\<close>.

  The specification of a counter is the list of events added to it; the lemmas show that the trailing
  count is the sum of the events in the last buckets.
\<close>

section \<open>ConveyorQueue\<close>

record ConveyorQueue =
  cq_items :: "int list"
  cq_max_items :: int
  cq_total_sum :: int

definition ConveyorQueue_new :: "int \<Rightarrow> ConveyorQueue" where
  "ConveyorQueue_new max_items = \<lparr>cq_items = [], cq_max_items = max_items, cq_total_sum = 0\<rparr>"

fun push_zeros :: "nat \<Rightarrow> int list \<Rightarrow> int list" where
  "push_zeros 0 q = q"
| "push_zeros (Suc n) q = push_zeros n (q @ [0])"

fun drop_excess :: "int \<Rightarrow> int list \<Rightarrow> int \<Rightarrow> int list \<times> int" where
  "drop_excess max_items [] tot = ([], tot)"
| "drop_excess max_items (x # q) tot =
     (if int (length (x # q)) > max_items then drop_excess max_items q (tot - x)
      else (x # q, tot))"

definition Shift :: "int \<Rightarrow> ConveyorQueue \<Rightarrow> ConveyorQueue" where
  "Shift num_shifted c =
     (if num_shifted \<ge> cq_max_items c then c\<lparr>cq_items := [], cq_total_sum := 0\<rparr>
      else
        let q = push_zeros (nat num_shifted) (cq_items c);
            (q, tot) = drop_excess (cq_max_items c) q (cq_total_sum c)
        in c\<lparr>cq_items := q, cq_total_sum := tot\<rparr>)"

definition AddToBack :: "int \<Rightarrow> ConveyorQueue \<Rightarrow> ConveyorQueue res" where
  "AddToBack count c =
     (let c = (if cq_items c = [] then Shift 1 c else c); q = cq_items c in
      if q = [] then Inl Undefined
      else Inr (c\<lparr>cq_items := q[length q - 1 := last q + count], cq_total_sum := cq_total_sum c + count\<rparr>))"

definition TotalSum :: "ConveyorQueue \<Rightarrow> int" where
  "TotalSum c = cq_total_sum c"

section \<open>TrailingBucketCounter\<close>

record TrailingBucketCounter =
  tb_buckets :: ConveyorQueue
  tb_secs_per_bucket :: int
  tb_last_update_time :: int

definition TrailingBucketCounter_new :: "int \<Rightarrow> int \<Rightarrow> int \<Rightarrow> TrailingBucketCounter" where
  "TrailingBucketCounter_new garbage num_buckets secs_per_bucket =
     \<lparr>tb_buckets = ConveyorQueue_new num_buckets, tb_secs_per_bucket = secs_per_bucket,
      tb_last_update_time = garbage\<rparr>"

definition Update :: "int \<Rightarrow> TrailingBucketCounter \<Rightarrow> TrailingBucketCounter" where
  "Update now c =
     (let current_bucket = cdiv (cast_int32 now) (tb_secs_per_bucket c);
          last_update_bucket = cdiv (cast_int32 (tb_last_update_time c)) (tb_secs_per_bucket c)
      in c\<lparr>tb_buckets := Shift (current_bucket - last_update_bucket) (tb_buckets c),
           tb_last_update_time := now\<rparr>)"

definition Trailing_Add :: "int \<Rightarrow> int \<Rightarrow> TrailingBucketCounter \<Rightarrow> TrailingBucketCounter res" where
  "Trailing_Add count now c =
     (let c = Update now c in
      rbind (AddToBack count (tb_buckets c)) (\<lambda>b. Inr (c\<lparr>tb_buckets := b\<rparr>)))"

definition TrailingCount :: "int \<Rightarrow> TrailingBucketCounter \<Rightarrow> int \<times> TrailingBucketCounter" where
  "TrailingCount now c = (let c = Update now c in (TotalSum (tb_buckets c), c))"

section \<open>MinuteHourCounter\<close>

record MinuteHourCounter =
  minute_counts :: TrailingBucketCounter
  hour_counts :: TrailingBucketCounter

definition MinuteHourCounter_new :: "int \<Rightarrow> int \<Rightarrow> MinuteHourCounter" where
  "MinuteHourCounter_new garbage1 garbage2 =
     \<lparr>minute_counts = TrailingBucketCounter_new garbage1 60 1,
      hour_counts = TrailingBucketCounter_new garbage2 60 60\<rparr>"

definition MinuteHour_Add :: "int \<Rightarrow> int \<Rightarrow> MinuteHourCounter \<Rightarrow> MinuteHourCounter res" where
  "MinuteHour_Add now count c =
     rbind (Trailing_Add count now (minute_counts c)) (\<lambda>m.
       rbind (Trailing_Add count now (hour_counts c)) (\<lambda>h.
         Inr (c\<lparr>minute_counts := m, hour_counts := h\<rparr>)))"

definition MinuteCount :: "int \<Rightarrow> MinuteHourCounter \<Rightarrow> int \<times> MinuteHourCounter" where
  "MinuteCount now c =
     (let (n, m) = TrailingCount now (minute_counts c) in (n, c\<lparr>minute_counts := m\<rparr>))"

definition HourCount :: "int \<Rightarrow> MinuteHourCounter \<Rightarrow> int \<times> MinuteHourCounter" where
  "HourCount now c =
     (let (n, h) = TrailingCount now (hour_counts c) in (n, c\<lparr>hour_counts := h\<rparr>))"

section \<open>AtomicIntegerT\<close>

text \<open>The operations return the value read and the new value; each is one atomic step.\<close>

definition atomic_get :: "'a::len word \<Rightarrow> 'a word \<times> 'a word" where
  "atomic_get v = (v, if v = 0 then 0 else v)"

definition getAndAdd :: "'a::len word \<Rightarrow> 'a word \<Rightarrow> 'a word \<times> 'a word" where
  "getAndAdd x v = (v, v + x)"

definition addAndGet :: "'a::len word \<Rightarrow> 'a word \<Rightarrow> 'a word \<times> 'a word" where
  "addAndGet x v = (let (r, v) = getAndAdd x v in (r + x, v))"

definition incrementAndGet :: "'a::len word \<Rightarrow> 'a word \<times> 'a word" where
  "incrementAndGet v = addAndGet 1 v"

definition decrementAndGet :: "'a::len word \<Rightarrow> 'a word \<times> 'a word" where
  "decrementAndGet v = addAndGet (- 1) v"

definition atomic_add :: "'a::len word \<Rightarrow> 'a word \<Rightarrow> 'a word" where
  "atomic_add x v = snd (getAndAdd x v)"

definition atomic_increment :: "'a::len word \<Rightarrow> 'a word" where
  "atomic_increment v = snd (incrementAndGet v)"

definition atomic_decrement :: "'a::len word \<Rightarrow> 'a word" where
  "atomic_decrement v = snd (decrementAndGet v)"

definition getAndSet :: "'a::len word \<Rightarrow> 'a word \<Rightarrow> 'a word \<times> 'a word" where
  "getAndSet newValue v = (v, newValue)"

section \<open>The queue\<close>

lemma push_zeros_eq: "push_zeros n q = q @ replicate n 0"
  by (induction n arbitrary: q) (simp_all add: replicate_append_same flip: replicate_Suc)

lemma drop_excess_eq:
  assumes "0 \<le> m" "tot = sum_list q"
  shows "drop_excess m q tot = (drop (length q - nat m) q, sum_list (drop (length q - nat m) q))"
  using assms
proof (induction m q tot rule: drop_excess.induct)
  case (2 m x q tot)
  show ?case
  proof (cases "int (length (x # q)) > m")
    case True
    with 2 have "length (x # q) - nat m = Suc (length q - nat m)" by simp
    with 2 True show ?thesis by simp
  next
    case False
    then have "length (x # q) - nat m = 0" by simp
    with 2 False show ?thesis by simp
  qed
qed simp

definition cq_wf :: "ConveyorQueue \<Rightarrow> bool" where
  "cq_wf c \<longleftrightarrow> cq_total_sum c = sum_list (cq_items c) \<and> int (length (cq_items c)) \<le> cq_max_items c"

lemma Shift_eq:
  assumes "cq_wf c" "n < cq_max_items c"
  defines "q \<equiv> cq_items c @ replicate (nat n) 0"
  defines "q' \<equiv> drop (length q - nat (cq_max_items c)) q"
  shows "Shift n c = c\<lparr>cq_items := q', cq_total_sum := sum_list q'\<rparr>"
proof -
  have "0 \<le> cq_max_items c" using assms(1) by (simp add: cq_wf_def)
  then have "drop_excess (cq_max_items c) q (cq_total_sum c) = (q', sum_list q')"
    using assms(1) by (simp add: drop_excess_eq q_def q'_def cq_wf_def sum_list_replicate)
  with assms(2) show ?thesis
    by (simp add: Shift_def push_zeros_eq q_def)
qed

text \<open>
  The queue holds the counts of the last buckets: counted from the current bucket \<open>cur\<close> backwards,
  entry \<open>j\<close> from the back is the sum of the events of bucket \<^term>\<open>cur - int j\<close>, and the buckets of the
  window that it does not hold had no events.
\<close>

definition bucket_sum :: "(int \<times> int) list \<Rightarrow> int \<Rightarrow> int" where
  "bucket_sum evs b = sum_list (map snd (filter (\<lambda>e. fst e = b) evs))"

definition holds :: "ConveyorQueue \<Rightarrow> (int \<times> int) list \<Rightarrow> int \<Rightarrow> bool" where
  "holds c evs cur \<longleftrightarrow> cq_wf c \<and> (\<forall>e \<in> set evs. fst e \<le> cur) \<and>
     (\<forall>j < nat (cq_max_items c). bucket_sum evs (cur - int j) =
        (if j < length (cq_items c) then rev (cq_items c) ! j else 0))"

lemma bucket_sum_future: "\<forall>e \<in> set evs. fst e \<le> cur \<Longrightarrow> cur < b \<Longrightarrow> bucket_sum evs b = 0"
proof -
  assume "\<forall>e \<in> set evs. fst e \<le> cur" "cur < b"
  then have "filter (\<lambda>e. fst e = b) evs = []" by (auto simp: filter_empty_conv)
  then show ?thesis by (simp add: bucket_sum_def)
qed

lemma rev_drop_excess: "rev (drop (length q - m) q) = take m (rev q)"
  by (cases "m \<le> length q") (simp_all add: rev_drop)

lemma Shift_holds:
  assumes h: "holds c evs cur" and n: "0 \<le> n"
  shows "holds (Shift n c) evs (cur + n)"
proof (cases "n \<ge> cq_max_items c")
  case True
  have "bucket_sum evs (cur + n - int j) = 0" if "j < nat (cq_max_items c)" for j
    using h True that by (intro bucket_sum_future [of evs cur]) (auto simp: holds_def)
  with True h n show ?thesis
    by (auto simp: Shift_def holds_def cq_wf_def)
next
  case False
  let ?m = "nat (cq_max_items c)" and ?q = "cq_items c @ replicate (nat n) 0"
  define q' where "q' = drop (length ?q - ?m) ?q"
  have wf: "cq_wf c" using h by (simp add: holds_def)
  have shift: "Shift n c = c\<lparr>cq_items := q', cq_total_sum := sum_list q'\<rparr>"
    using Shift_eq [OF wf] False by (simp add: q'_def)
  have rev: "rev q' = take ?m (replicate (nat n) 0 @ rev (cq_items c))"
    unfolding q'_def rev_drop_excess by simp
  have len: "length q' = min ?m (nat n + length (cq_items c))"
    using arg_cong [OF rev, of length] by (simp only: length_rev length_take length_append length_replicate min.commute)
  have nth: "rev q' ! j = (replicate (nat n) 0 @ rev (cq_items c)) ! j" if "j < ?m" for j
    using that by (simp only: rev nth_take)
  have "bucket_sum evs (cur + n - int j) = (if j < length q' then rev q' ! j else 0)"
    if j: "j < ?m" for j
  proof (cases "j < nat n")
    case True
    then have "bucket_sum evs (cur + n - int j) = 0"
      using h by (intro bucket_sum_future [of evs cur]) (auto simp: holds_def)
    with True j show ?thesis by (simp add: nth nth_append)
  next
    case False
    then have "bucket_sum evs (cur + n - int j) = bucket_sum evs (cur - int (j - nat n))"
      using n by (simp add: algebra_simps)
    also have "\<dots> = (if j - nat n < length (cq_items c) then rev (cq_items c) ! (j - nat n) else 0)"
      using h j by (simp add: holds_def)
    finally show ?thesis using False j len by (auto simp: nth nth_append)
  qed
  moreover have "cq_wf (Shift n c)" using wf len by (auto simp: shift cq_wf_def)
  moreover have "\<forall>e \<in> set evs. fst e \<le> cur + n" using h n by (force simp: holds_def)
  ultimately show ?thesis by (simp add: holds_def shift)
qed

lemma sum_last_update: "q \<noteq> [] \<Longrightarrow> sum_list (q[length q - 1 := last q + x]) = sum_list q + (x :: int)"
  by (cases q rule: rev_cases) auto

lemma rev_last_update:
  assumes "q \<noteq> []" "j < length q"
  shows "rev (q[length q - 1 := last q + x]) ! j = (if j = 0 then last q + (x :: int) else rev q ! j)"
  using assms by (cases q rule: rev_cases) (auto simp: nth_Cons split: nat.splits)

lemma bucket_sum_Cons: "bucket_sum ((b, n) # evs) b' = (if b = b' then n else 0) + bucket_sum evs b'"
  by (simp add: bucket_sum_def)

lemma add_last_holds:
  assumes h: "holds c evs cur" and ne: "cq_items c \<noteq> []"
  shows "holds (c\<lparr>cq_items := (cq_items c)[length (cq_items c) - 1 := last (cq_items c) + n],
      cq_total_sum := cq_total_sum c + n\<rparr>) ((cur, n) # evs) cur"
proof -
  let ?q = "cq_items c"
  have b: "bucket_sum evs (cur - int j) = (if j < length ?q then rev ?q ! j else 0)"
    if "j < nat (cq_max_items c)" for j
    using h that by (simp add: holds_def)
  have "rev ?q ! 0 = last ?q" using ne by (simp add: rev_nth last_conv_nth)
  with b ne h show ?thesis
    by (auto simp: holds_def cq_wf_def sum_last_update [simplified] bucket_sum_Cons
        rev_last_update [simplified])
qed

lemma AddToBack_holds:
  assumes h: "holds c evs cur" and m: "1 < cq_max_items c"
  shows "\<exists>c'. AddToBack n c = Inr c' \<and> holds c' ((cur, n) # evs) cur \<and> cq_max_items c' = cq_max_items c"
proof (cases "cq_items c = []")
  case False
  with add_last_holds [OF h False, of n] show ?thesis by (simp add: AddToBack_def Let_def)
next
  case True
  have "Shift 1 c = c\<lparr>cq_items := [0], cq_total_sum := 0\<rparr>"
    using Shift_eq [of c 1] h m True by (simp add: holds_def)
  moreover have "holds (c\<lparr>cq_items := [0], cq_total_sum := 0\<rparr>) evs cur"
    using h m True by (auto simp: holds_def cq_wf_def)
  ultimately show ?thesis
    using add_last_holds [of "c\<lparr>cq_items := [0], cq_total_sum := 0\<rparr>" evs cur n] True
    by (simp add: AddToBack_def Let_def)
qed

text \<open>The total is the sum of the events in the window.\<close>

definition window_sum :: "int \<Rightarrow> (int \<times> int) list \<Rightarrow> int" where
  "window_sum lo evs = sum_list (map snd (filter (\<lambda>e. lo < fst e) evs))"

lemma window_buckets:
  assumes "\<forall>e \<in> set evs. fst e \<le> cur"
  shows "(\<Sum>j<m. bucket_sum evs (cur - int j)) = window_sum (cur - int m) evs"
  using assms
proof (induction evs)
  case (Cons e evs)
  obtain b n where e: "e = (b, n)" by (cases e)
  have "(\<Sum>j<m. if b = cur - int j then n else 0) = (if cur - int m < b then n else 0)"
  proof (cases "cur - int m < b")
    case True
    then have "(\<Sum>j<m. if b = cur - int j then n else 0) = (\<Sum>j<m. if j = nat (cur - b) then n else 0)"
      using Cons.prems e by (intro sum.cong) auto
    with True Cons.prems e show ?thesis by (simp add: nat_less_iff)
  next
    case False
    then show ?thesis by (auto intro!: sum.neutral)
  qed
  with Cons e show ?case
    by (simp add: bucket_sum_Cons sum.distrib window_sum_def)
qed (simp add: bucket_sum_def window_sum_def)

lemma sum_list_prefix:
  fixes q :: "int list"
  assumes "length q \<le> m"
  shows "(\<Sum>j<m. if j < length q then q ! j else 0) = sum_list q"
proof -
  have "(\<Sum>j<m. if j < length q then q ! j else 0) = (\<Sum>j<length q. q ! j)"
    using assms by (intro sum.mono_neutral_cong_right) auto
  then show ?thesis by (simp add: sum_list_sum_nth atLeast0LessThan)
qed

lemma holds_TotalSum:
  assumes "holds c evs cur"
  shows "TotalSum c = window_sum (cur - cq_max_items c) evs"
proof -
  let ?m = "nat (cq_max_items c)"
  have m: "int (length (cq_items c)) \<le> cq_max_items c" using assms by (simp add: holds_def cq_wf_def)
  then have "TotalSum c = (\<Sum>j<?m. if j < length (rev (cq_items c)) then rev (cq_items c) ! j else 0)"
    using sum_list_prefix [of "rev (cq_items c)" ?m] assms
    by (simp add: TotalSum_def holds_def cq_wf_def)
  also have "\<dots> = (\<Sum>j<?m. bucket_sum evs (cur - int j))"
    using assms by (intro sum.cong) (auto simp: holds_def)
  also have "\<dots> = window_sum (cur - int ?m) evs"
    using assms by (intro window_buckets) (simp add: holds_def)
  finally show ?thesis using m by simp
qed

section \<open>Counters over time\<close>

text \<open>
  A counter that has seen the events \<open>evs\<close> (with their buckets), the last of its updates being in
  bucket \<open>cur\<close>; a counter without events may carry any last update time.
\<close>

abbreviation bucket_of :: "TrailingBucketCounter \<Rightarrow> int \<Rightarrow> int" where
  "bucket_of c t \<equiv> cdiv (cast_int32 t) (tb_secs_per_bucket c)"

definition tracks :: "TrailingBucketCounter \<Rightarrow> (int \<times> int) list \<Rightarrow> int \<Rightarrow> bool" where
  "tracks c evs now \<longleftrightarrow>
     (holds (tb_buckets c) evs (bucket_of c (tb_last_update_time c)) \<and>
        bucket_of c (tb_last_update_time c) \<le> bucket_of c now) \<or>
     (evs = [] \<and> cq_items (tb_buckets c) = [] \<and> cq_wf (tb_buckets c))"

lemma Shift_empty:
  assumes "cq_items c = []" "cq_wf c"
  shows "holds (Shift n c) [] cur"
proof (cases "n \<ge> cq_max_items c")
  case True
  with assms show ?thesis by (simp add: Shift_def holds_def cq_wf_def bucket_sum_def)
next
  case False
  have "nat n - nat (cq_max_items c) = 0" using False by simp
  with False assms show ?thesis
    by (auto simp: Shift_eq holds_def cq_wf_def bucket_sum_def sum_list_replicate)
qed

lemma max_items_Shift [simp]: "cq_max_items (Shift n c) = cq_max_items c"
  by (simp add: Shift_def Let_def split: prod.split)

lemma Update_tracks:
  assumes "tracks c evs now"
  shows "holds (tb_buckets (Update now c)) evs (bucket_of c now)"
    "tb_secs_per_bucket (Update now c) = tb_secs_per_bucket c"
    "tb_last_update_time (Update now c) = now"
    "cq_max_items (tb_buckets (Update now c)) = cq_max_items (tb_buckets c)"
proof -
  let ?n = "bucket_of c now - bucket_of c (tb_last_update_time c)"
  have u: "Update now c = c\<lparr>tb_buckets := Shift ?n (tb_buckets c), tb_last_update_time := now\<rparr>"
    by (simp add: Update_def)
  then show "tb_secs_per_bucket (Update now c) = tb_secs_per_bucket c"
    "tb_last_update_time (Update now c) = now"
    "cq_max_items (tb_buckets (Update now c)) = cq_max_items (tb_buckets c)"
    by simp_all
  from assms show "holds (tb_buckets (Update now c)) evs (bucket_of c now)"
    unfolding tracks_def
  proof (elim disjE conjE)
    assume "holds (tb_buckets c) evs (bucket_of c (tb_last_update_time c))"
      "bucket_of c (tb_last_update_time c) \<le> bucket_of c now"
    then show ?thesis using Shift_holds [of "tb_buckets c" evs "bucket_of c (tb_last_update_time c)" ?n] by (simp add: u)
  next
    assume "evs = []" "cq_items (tb_buckets c) = []" "cq_wf (tb_buckets c)"
    then show ?thesis using Shift_empty by (simp add: u)
  qed
qed

lemma Trailing_Add_tracks:
  assumes t: "tracks c evs now" and m: "1 < cq_max_items (tb_buckets c)"
    and later: "bucket_of c now \<le> bucket_of c later"
  shows "\<exists>c'. Trailing_Add n now c = Inr c' \<and> tracks c' ((bucket_of c now, n) # evs) later \<and>
    tb_secs_per_bucket c' = tb_secs_per_bucket c \<and>
    cq_max_items (tb_buckets c') = cq_max_items (tb_buckets c)"
proof -
  note u = Update_tracks [OF t]
  from AddToBack_holds [OF u(1), of n] u(4) m
  obtain b where "AddToBack n (tb_buckets (Update now c)) = Inr b"
      "holds b ((bucket_of c now, n) # evs) (bucket_of c now)"
      "cq_max_items b = cq_max_items (tb_buckets c)"
    by auto
  then show ?thesis
    using u(2,3) later by (simp add: Trailing_Add_def Let_def tracks_def)
qed

lemma TrailingCount_window:
  assumes "tracks c evs now"
  shows "fst (TrailingCount now c) = window_sum (bucket_of c now - cq_max_items (tb_buckets c)) evs"
  using holds_TotalSum [OF Update_tracks(1) [OF assms]] Update_tracks(4) [OF assms]
  by (simp add: TrailingCount_def Let_def)

lemma adds_track:
  assumes "tracks c evs (hd (map fst adds @ [now]))" "1 < cq_max_items (tb_buckets c)"
    and "sorted (map (bucket_of c) (map fst adds @ [now]))"
  shows "\<exists>c'. rfold (\<lambda>(t, n). Trailing_Add n t) adds c = Inr c' \<and>
    tracks c' (rev (map (\<lambda>(t, n). (bucket_of c t, n)) adds) @ evs) now \<and>
    tb_secs_per_bucket c' = tb_secs_per_bucket c \<and>
    cq_max_items (tb_buckets c') = cq_max_items (tb_buckets c)"
  using assms
proof (induction adds arbitrary: c evs)
  case Nil
  then show ?case by simp
next
  case (Cons a adds)
  obtain t n where a: "a = (t, n)" by (cases a)
  let ?next = "hd (map fst adds @ [now])"
  have "bucket_of c t \<le> bucket_of c ?next"
    using Cons.prems(3) a by (cases adds) auto
  from Trailing_Add_tracks [OF _ Cons.prems(2) this, of evs n] Cons.prems(1) a
  obtain c1 where c1: "Trailing_Add n t c = Inr c1" "tracks c1 ((bucket_of c t, n) # evs) ?next"
      "tb_secs_per_bucket c1 = tb_secs_per_bucket c"
      "cq_max_items (tb_buckets c1) = cq_max_items (tb_buckets c)"
    by auto
  with Cons.IH [of c1 "(bucket_of c t, n) # evs"] Cons.prems(2,3) a show ?case by auto
qed

lemma both_counters:
  assumes "rfold (\<lambda>(t, n). Trailing_Add n t) adds (minute_counts c) = Inr m"
    and "rfold (\<lambda>(t, n). Trailing_Add n t) adds (hour_counts c) = Inr h"
  shows "rfold (\<lambda>(t, n). MinuteHour_Add t n) adds c = Inr (c\<lparr>minute_counts := m, hour_counts := h\<rparr>)"
  using assms
proof (induction adds arbitrary: c)
  case (Cons a adds)
  obtain t n where a: "a = (t, n)" by (cases a)
  from Cons.prems a obtain m1 h1 where
      "Trailing_Add n t (minute_counts c) = Inr m1" "Trailing_Add n t (hour_counts c) = Inr h1"
      "rfold (\<lambda>(t, n). Trailing_Add n t) adds m1 = Inr m"
      "rfold (\<lambda>(t, n). Trailing_Add n t) adds h1 = Inr h"
    by (auto simp: rbind_Inr_iff)
  with Cons.IH [of "c\<lparr>minute_counts := m1, hour_counts := h1\<rparr>"] a show ?case
    by (simp add: MinuteHour_Add_def)
qed simp

lemma new_tracks:
  assumes "0 \<le> num"
  shows "tracks (TrailingBucketCounter_new garbage num secs) [] now"
  using assms
  by (simp add: tracks_def TrailingBucketCounter_new_def ConveyorQueue_new_def cq_wf_def)

definition times_ok :: "(int \<times> int) list \<Rightarrow> int \<Rightarrow> bool" where
  "times_ok adds now \<longleftrightarrow> sorted (map fst adds @ [now]) \<and> (\<forall>t \<in> set (map fst adds @ [now]). 0 \<le> t \<and> t < 2 ^ 31)"

lemma trailing_run:
  fixes garbage :: int
  assumes "times_ok adds now" "1 < num" "0 < secs"
  defines "c \<equiv> TrailingBucketCounter_new garbage num secs"
  shows "\<exists>c'. rfold (\<lambda>(t, n). Trailing_Add n t) adds c = Inr c' \<and>
    fst (TrailingCount now c') =
      sum_list (map snd (filter (\<lambda>(t, n). now div secs - num < t div secs) adds))"
proof -
  have b: "bucket_of c t = t div secs" if "t \<in> set (map fst adds @ [now])" for t
  proof -
    have "in_int32 t" "0 \<le> t" using assms(1) that by (auto simp: times_ok_def in_int32_def)
    then show ?thesis
      using assms(3) by (simp add: cdiv_nonneg c_def TrailingBucketCounter_new_def)
  qed
  have "sorted (map (\<lambda>t. t div secs) (map fst adds @ [now]))"
    using assms(1,3) by (intro sorted_map_mono) (auto simp: times_ok_def mono_on_def intro: zdiv_mono1)
  moreover have "map (\<lambda>t. t div secs) (map fst adds @ [now]) = map (bucket_of c) (map fst adds @ [now])"
    using b by (intro map_cong) auto
  ultimately have sorted: "sorted (map (bucket_of c) (map fst adds @ [now]))" by (simp only:)
  have num: "cq_max_items (tb_buckets c) = num" "tb_secs_per_bucket c = secs"
    by (simp_all add: c_def TrailingBucketCounter_new_def ConveyorQueue_new_def)
  have "tracks c [] (hd (map fst adds @ [now]))"
    using assms(2) unfolding c_def by (intro new_tracks) simp
  from adds_track [OF this _ sorted] assms(2) num obtain c' where
      c': "rfold (\<lambda>(t, n). Trailing_Add n t) adds c = Inr c'"
      "tracks c' (rev (map (\<lambda>(t, n). (bucket_of c t, n)) adds)) now"
      "tb_secs_per_bucket c' = secs" "cq_max_items (tb_buckets c') = num"
    by auto
  have "fst (TrailingCount now c') =
      window_sum (now div secs - num) (rev (map (\<lambda>(t, n). (bucket_of c t, n)) adds))"
    using TrailingCount_window [OF c'(2)] c'(3,4) b [of now] num(2) by simp
  also have "map (\<lambda>(t, n). (bucket_of c t, n)) adds = map (\<lambda>(t, n). (t div secs, n)) adds"
    using b by (auto simp: split_beta)
  also have "window_sum (now div secs - num) (rev (map (\<lambda>(t, n). (t div secs, n)) adds)) =
      sum_list (map snd (filter (\<lambda>(t, n). now div secs - num < t div secs) adds))"
    by (simp add: window_sum_def rev_filter [symmetric] rev_map [symmetric] filter_map comp_def case_prod_unfold)
  finally show ?thesis using c'(1) by blast
qed

section \<open>Properties\<close>



end
