(* ===== verification/Channel.thy ===== *)
theory Channel
  imports Prelude
begin

text \<open>
  Channels (\<^verbatim>\<open>networking/Channel.h\<close>, \<^verbatim>\<open>networking/Channel.cpp\<close>): the event masks, the object, the
  operations that change the events of interest, and the dispatch of the events that occurred.

  Channels are objects with identity: a poller keeps pointers to them and writes their index. They
  live in a store from addresses to channel values. A callback is a token of type \<open>'cb\<close>; what it
  does to the rest of the program is given by an interpreter passed to \<open>handleEvent\<close>, so that a
  callback may change the store, this channel included. The owning loop's \<^verbatim>\<open>updateChannel\<close> and
  \<^verbatim>\<open>removeChannel\<close> are arguments of the operations that call them.
\<close>

unbundle bit_operations_syntax

section \<open>Events\<close>

text \<open>The bits of \<^verbatim>\<open>poll.h\<close>; \<^verbatim>\<open>epoll\<close> uses the same values.\<close>

definition POLLIN :: "32 word" where "POLLIN = 0x1"
definition POLLPRI :: "32 word" where "POLLPRI = 0x2"
definition POLLOUT :: "32 word" where "POLLOUT = 0x4"
definition POLLERR :: "32 word" where "POLLERR = 0x8"
definition POLLHUP :: "32 word" where "POLLHUP = 0x10"
definition POLLNVAL :: "32 word" where "POLLNVAL = 0x20"
definition POLLRDHUP :: "32 word" where "POLLRDHUP = 0x2000"

lemmas poll_bits = POLLIN_def POLLPRI_def POLLOUT_def POLLERR_def POLLHUP_def POLLNVAL_def POLLRDHUP_def

definition has_bits :: "32 word \<Rightarrow> 32 word \<Rightarrow> bool" where
  "has_bits ev bits \<longleftrightarrow> ev AND bits \<noteq> 0"

definition kNoneEvent :: "32 word" where "kNoneEvent = 0"
definition kReadEvent :: "32 word" where "kReadEvent = POLLIN OR POLLPRI"
definition kWriteEvent :: "32 word" where "kWriteEvent = POLLOUT"

section \<open>The object\<close>

type_synonym addr = nat

record 'cb Channel =
  ch_loop :: addr
  ch_fd :: int
  ch_events :: "32 word"
  ch_revents :: "32 word"
  ch_index :: int
  ch_logHup :: bool
  ch_tie :: "addr option"
  ch_tied :: bool
  ch_eventHandling :: bool
  ch_addedToLoop :: bool
  ch_readCallback :: "'cb option"
  ch_writeCallback :: "'cb option"
  ch_closeCallback :: "'cb option"
  ch_errorCallback :: "'cb option"

type_synonym 'cb chans = "addr \<Rightarrow> 'cb Channel option"

definition Channel_new :: "addr \<Rightarrow> int \<Rightarrow> 'cb Channel" where
  "Channel_new loop fd =
     \<lparr>ch_loop = loop, ch_fd = fd, ch_events = 0, ch_revents = 0, ch_index = - 1, ch_logHup = True,
      ch_tie = None, ch_tied = False, ch_eventHandling = False, ch_addedToLoop = False,
      ch_readCallback = None, ch_writeCallback = None, ch_closeCallback = None,
      ch_errorCallback = None\<rparr>"

definition setReadCallback :: "'cb \<Rightarrow> 'cb Channel \<Rightarrow> 'cb Channel" where
  "setReadCallback cb c = c\<lparr>ch_readCallback := Some cb\<rparr>"

definition setWriteCallback :: "'cb \<Rightarrow> 'cb Channel \<Rightarrow> 'cb Channel" where
  "setWriteCallback cb c = c\<lparr>ch_writeCallback := Some cb\<rparr>"

definition setCloseCallback :: "'cb \<Rightarrow> 'cb Channel \<Rightarrow> 'cb Channel" where
  "setCloseCallback cb c = c\<lparr>ch_closeCallback := Some cb\<rparr>"

definition setErrorCallback :: "'cb \<Rightarrow> 'cb Channel \<Rightarrow> 'cb Channel" where
  "setErrorCallback cb c = c\<lparr>ch_errorCallback := Some cb\<rparr>"

definition Channel_tie :: "addr \<Rightarrow> 'cb Channel \<Rightarrow> 'cb Channel" where
  "Channel_tie obj c = c\<lparr>ch_tie := Some obj, ch_tied := True\<rparr>"

definition set_revents :: "32 word \<Rightarrow> 'cb Channel \<Rightarrow> 'cb Channel" where
  "set_revents revt c = c\<lparr>ch_revents := revt\<rparr>"

definition set_index :: "int \<Rightarrow> 'cb Channel \<Rightarrow> 'cb Channel" where
  "set_index idx c = c\<lparr>ch_index := idx\<rparr>"

definition doNotLogHup :: "'cb Channel \<Rightarrow> 'cb Channel" where
  "doNotLogHup c = c\<lparr>ch_logHup := False\<rparr>"

definition isNoneEvent :: "'cb Channel \<Rightarrow> bool" where
  "isNoneEvent c \<longleftrightarrow> ch_events c = kNoneEvent"

definition isWriting :: "'cb Channel \<Rightarrow> bool" where
  "isWriting c \<longleftrightarrow> has_bits (ch_events c) kWriteEvent"

definition isReading :: "'cb Channel \<Rightarrow> bool" where
  "isReading c \<longleftrightarrow> has_bits (ch_events c) kReadEvent"

text \<open>The access through a pointer: undefined when no object lives there.\<close>

definition deref :: "'cb chans \<Rightarrow> addr \<Rightarrow> 'cb Channel res" where
  "deref h a = (case h a of None \<Rightarrow> Inl Undefined | Some c \<Rightarrow> Inr c)"

definition modify :: "addr \<Rightarrow> ('cb Channel \<Rightarrow> 'cb Channel) \<Rightarrow> 'cb chans \<Rightarrow> 'cb chans res" where
  "modify a f h = rbind (deref h a) (\<lambda>c. Inr (h(a := Some (f c))))"

section \<open>Registration\<close>

text \<open>
  A state is a store of channels and whatever else the loop has; \<open>upd\<close> and \<open>rem\<close> are the loop's
  \<^verbatim>\<open>updateChannel\<close> and \<^verbatim>\<open>removeChannel\<close>.
\<close>

type_synonym ('cb, 's) world = "'cb chans \<times> 's"

type_synonym ('cb, 's) chan_call = "addr \<Rightarrow> ('cb, 's) world \<Rightarrow> ('cb, 's) world res"

definition on_channel :: "addr \<Rightarrow> ('cb Channel \<Rightarrow> 'cb Channel) \<Rightarrow> ('cb, 's) world \<Rightarrow> ('cb, 's) world res" where
  "on_channel a f w = rbind (modify a f (fst w)) (\<lambda>h. Inr (h, snd w))"

definition Channel_update :: "('cb, 's) chan_call \<Rightarrow> ('cb, 's) chan_call" where
  "Channel_update upd a w = rbind (on_channel a (ch_addedToLoop_update (\<lambda>_. True)) w) (upd a)"

definition Channel_remove :: "('cb, 's) chan_call \<Rightarrow> ('cb, 's) chan_call" where
  "Channel_remove rem a w =
     rbind (deref (fst w) a) (\<lambda>c.
     require (isNoneEvent c)
       (rbind (on_channel a (ch_addedToLoop_update (\<lambda>_. False)) w) (rem a)))"

definition change_events ::
  "(32 word \<Rightarrow> 32 word) \<Rightarrow> ('cb, 's) chan_call \<Rightarrow> ('cb, 's) chan_call" where
  "change_events f upd a w =
     rbind (on_channel a (ch_events_update f) w) (Channel_update upd a)"

definition enableReading :: "('cb, 's) chan_call \<Rightarrow> ('cb, 's) chan_call" where
  "enableReading = change_events (\<lambda>e. e OR kReadEvent)"

definition disableReading :: "('cb, 's) chan_call \<Rightarrow> ('cb, 's) chan_call" where
  "disableReading = change_events (\<lambda>e. e AND NOT kReadEvent)"

definition enableWriting :: "('cb, 's) chan_call \<Rightarrow> ('cb, 's) chan_call" where
  "enableWriting = change_events (\<lambda>e. e OR kWriteEvent)"

definition disableWriting :: "('cb, 's) chan_call \<Rightarrow> ('cb, 's) chan_call" where
  "disableWriting = change_events (\<lambda>e. e AND NOT kWriteEvent)"

definition disableAll :: "('cb, 's) chan_call \<Rightarrow> ('cb, 's) chan_call" where
  "disableAll = change_events (\<lambda>_. kNoneEvent)"

text \<open>The destructor, run in the loop's thread: \<open>has\<close> is the loop's \<^verbatim>\<open>hasChannel\<close>.\<close>

definition Channel_destroy ::
  "(addr \<Rightarrow> ('cb, 's) world \<Rightarrow> bool res) \<Rightarrow> ('cb, 's) chan_call" where
  "Channel_destroy has a w =
     rbind (deref (fst w) a) (\<lambda>c.
     require (\<not> ch_eventHandling c) (
     require (\<not> ch_addedToLoop c) (
     rbind (has a w) (\<lambda>b.
     require (\<not> b) (Inr ((fst w)(a := None), snd w))))))"

section \<open>Dispatch\<close>

text \<open>
  \<open>call\<close> runs a callback; the read callback receives the time of the poll. Each condition of
  \<^verbatim>\<open>handleEventWithGuard\<close> reads \<^verbatim>\<open>revents_\<close> again, after what the callbacks before it did.
\<close>

type_synonym ('cb, 's) call = "'cb \<Rightarrow> int \<Rightarrow> ('cb, 's) world \<Rightarrow> ('cb, 's) world res"

definition dispatch_if ::
  "('cb, 's) call \<Rightarrow> int \<Rightarrow> (32 word \<Rightarrow> bool) \<Rightarrow> ('cb Channel \<Rightarrow> 'cb option) \<Rightarrow> ('cb, 's) chan_call" where
  "dispatch_if call t cond cb a w =
     rbind (deref (fst w) a) (\<lambda>c.
     if cond (ch_revents c)
     then (case cb c of None \<Rightarrow> Inr w | Some k \<Rightarrow> call k t w)
     else Inr w)"

definition hup_only :: "32 word \<Rightarrow> bool" where
  "hup_only ev \<longleftrightarrow> has_bits ev POLLHUP \<and> \<not> has_bits ev POLLIN"

definition is_error :: "32 word \<Rightarrow> bool" where
  "is_error ev \<longleftrightarrow> has_bits ev (POLLERR OR POLLNVAL)"

definition is_readable :: "32 word \<Rightarrow> bool" where
  "is_readable ev \<longleftrightarrow> has_bits ev (POLLIN OR POLLPRI OR POLLRDHUP)"

definition is_writable :: "32 word \<Rightarrow> bool" where
  "is_writable ev \<longleftrightarrow> has_bits ev POLLOUT"

definition handleEventWithGuard :: "('cb, 's) call \<Rightarrow> int \<Rightarrow> ('cb, 's) chan_call" where
  "handleEventWithGuard call t a w =
     rbind (on_channel a (ch_eventHandling_update (\<lambda>_. True)) w) (\<lambda>w.
     rbind (dispatch_if call t hup_only ch_closeCallback a w) (\<lambda>w.
     rbind (dispatch_if call t is_error ch_errorCallback a w) (\<lambda>w.
     rbind (dispatch_if call t is_readable ch_readCallback a w) (\<lambda>w.
     rbind (dispatch_if call t is_writable ch_writeCallback a w) (\<lambda>w.
     on_channel a (ch_eventHandling_update (\<lambda>_. False)) w)))))"

text \<open>\<open>alive obj\<close> says whether the tied object can still be locked.\<close>

definition handleEvent ::
  "(addr \<Rightarrow> ('cb, 's) world \<Rightarrow> bool) \<Rightarrow> ('cb, 's) call \<Rightarrow> int \<Rightarrow> ('cb, 's) chan_call" where
  "handleEvent alive call t a w =
     rbind (deref (fst w) a) (\<lambda>c.
     if ch_tied c
     then (case ch_tie c of
             None \<Rightarrow> Inr w
           | Some obj \<Rightarrow> if alive obj w then handleEventWithGuard call t a w else Inr w)
     else handleEventWithGuard call t a w)"

section \<open>Printing\<close>

definition eventsToString :: "int \<Rightarrow> 32 word \<Rightarrow> string" where
  "eventsToString fd ev =
     dec_int fd @ '': '' @
     concat (map snd (filter (\<lambda>(bit, _). has_bits ev bit)
       [(POLLIN, ''IN ''), (POLLPRI, ''PRI ''), (POLLOUT, ''OUT ''), (POLLHUP, ''HUP ''),
        (POLLRDHUP, ''RDHUP ''), (POLLERR, ''ERR ''), (POLLNVAL, ''NVAL '')]))"

section \<open>Lemmas\<close>

lemma deref_Some [simp]: "h a = Some c \<Longrightarrow> deref h a = Inr c"
  by (simp add: deref_def)

lemma deref_Inr_iff: "deref h a = Inr c \<longleftrightarrow> h a = Some c"
  by (auto simp: deref_def split: option.splits)

lemma modify_Some [simp]: "h a = Some c \<Longrightarrow> modify a f h = Inr (h(a := Some (f c)))"
  by (simp add: modify_def)

lemma modify_Inr_iff: "modify a f h = Inr h' \<longleftrightarrow> (\<exists>c. h a = Some c \<and> h' = h(a := Some (f c)))"
  by (auto simp: modify_def rbind_Inr_iff deref_Inr_iff)

lemma on_channel_Some [simp]:
  "h a = Some c \<Longrightarrow> on_channel a f (h, s) = Inr (h(a := Some (f c)), s)"
  by (simp add: on_channel_def)

lemma on_channel_Inr_iff:
  "on_channel a f w = Inr w' \<longleftrightarrow> (\<exists>c. fst w a = Some c \<and> w' = ((fst w)(a := Some (f c)), snd w))"
  by (auto simp: on_channel_def rbind_Inr_iff modify_Inr_iff)

lemma change_events_Some:
  assumes "h a = Some c"
  shows "change_events f upd a (h, s) =
    upd a (h(a := Some (c\<lparr>ch_events := f (ch_events c), ch_addedToLoop := True\<rparr>)), s)"
  using assms by (cases c) (simp add: change_events_def Channel_update_def)

lemma isNoneEvent_iff: "isNoneEvent c \<longleftrightarrow> ch_events c = 0"
  by (simp add: isNoneEvent_def kNoneEvent_def)

section \<open>Which callbacks run\<close>

text \<open>
  The tests of the dispatch in the order of the source, and the callbacks that are due for the
  reported events.
\<close>

definition dispatch_tests :: "((32 word \<Rightarrow> bool) \<times> ('cb Channel \<Rightarrow> 'cb option)) list" where
  "dispatch_tests = [(hup_only, ch_closeCallback), (is_error, ch_errorCallback),
     (is_readable, ch_readCallback), (is_writable, ch_writeCallback)]"

definition due_of :: "'cb Channel \<Rightarrow> (32 word \<Rightarrow> bool) \<times> ('cb Channel \<Rightarrow> 'cb option) \<Rightarrow> 'cb list" where
  "due_of c = (\<lambda>(cond, cb).
     if cond (ch_revents c) then (case cb c of None \<Rightarrow> [] | Some k \<Rightarrow> [k]) else [])"

definition due_callbacks :: "'cb Channel \<Rightarrow> 'cb list" where
  "due_callbacks c = concat (map (due_of c) dispatch_tests)"

text \<open>A callback that leaves the events and the callbacks of channel \<open>a\<close> as they are.\<close>

definition same_dispatch :: "'cb Channel \<Rightarrow> 'cb Channel \<Rightarrow> bool" where
  "same_dispatch c d \<longleftrightarrow>
     ch_revents d = ch_revents c \<and> ch_closeCallback d = ch_closeCallback c \<and>
     ch_errorCallback d = ch_errorCallback c \<and> ch_readCallback d = ch_readCallback c \<and>
     ch_writeCallback d = ch_writeCallback c"

definition keeps_dispatch :: "('cb, 's) call \<Rightarrow> addr \<Rightarrow> bool" where
  "keeps_dispatch call a \<longleftrightarrow>
     (\<forall>k t w w' c. fst w a = Some c \<longrightarrow> call k t w = Inr w' \<longrightarrow>
        (\<exists>d. fst w' a = Some d \<and> same_dispatch c d))"

lemma same_dispatch_refl [simp]: "same_dispatch c c"
  by (simp add: same_dispatch_def)

lemma same_dispatch_trans: "same_dispatch c d \<Longrightarrow> same_dispatch d e \<Longrightarrow> same_dispatch c e"
  by (simp add: same_dispatch_def)

lemma due_of_same: "same_dispatch c d \<Longrightarrow> x \<in> set dispatch_tests \<Longrightarrow> due_of d x = due_of c x"
  by (auto simp: dispatch_tests_def due_of_def same_dispatch_def)

text \<open>One test of the dispatch runs the at most one callback it selects.\<close>

lemma dispatch_if_due:
  "fst w a = Some d \<Longrightarrow> dispatch_if call t cond cb a w = rfold (\<lambda>k. call k t) (due_of d (cond, cb)) w"
  by (auto simp: dispatch_if_def due_of_def rfold_fun split: option.split)

lemma run_keeps:
  assumes "keeps_dispatch call a" "fst w a = Some d" "rfold (\<lambda>k. call k t) ks w = Inr w'"
  shows "\<exists>e. fst w' a = Some e \<and> same_dispatch d e"
  using assms
proof (induction ks arbitrary: w d)
  case (Cons k ks)
  then obtain w1 where w1: "call k t w = Inr w1" "rfold (\<lambda>k. call k t) ks w1 = Inr w'"
    by (auto simp: rbind_Inr_iff)
  with Cons.prems obtain d1 where "fst w1 a = Some d1" "same_dispatch d d1"
    unfolding keeps_dispatch_def by blast
  with Cons.IH [OF Cons.prems(1) _ w1(2)] show ?case by (metis same_dispatch_trans)
qed simp

lemma tests_run:
  assumes "keeps_dispatch call a" "fst w a = Some d" "same_dispatch c d" "set ts \<subseteq> set dispatch_tests"
  shows "rfold (\<lambda>(cond, cb). dispatch_if call t cond cb a) ts w =
    rfold (\<lambda>k. call k t) (concat (map (due_of c) ts)) w"
  using assms
proof (induction ts arbitrary: w d)
  case (Cons x ts)
  obtain cond cb where x: "x = (cond, cb)" by (cases x)
  have step: "dispatch_if call t cond cb a w = rfold (\<lambda>k. call k t) (due_of c x) w"
    using dispatch_if_due [of w a d] due_of_same [of c d x] Cons.prems x by simp
  show ?case
  proof (cases "rfold (\<lambda>k. call k t) (due_of c x) w")
    case (Inl e)
    then show ?thesis using step x by (simp add: rfold_append)
  next
    case (Inr w1)
    from run_keeps [OF Cons.prems(1,2) this] obtain e where "fst w1 a = Some e" "same_dispatch d e"
      by blast
    with Cons.IH [OF Cons.prems(1), of w1 e] Cons.prems(3,4) Inr step x show ?thesis
      by (simp add: rfold_append same_dispatch_trans [of c d e])
  qed
qed simp

section \<open>Properties\<close>


text \<open>
  The instance: a channel that is readable and writable, with both callbacks set, whose callbacks
  record their token.
\<close>

definition sample_channel :: "string Channel" where
  "sample_channel = (Channel_new 0 7)\<lparr>ch_revents := POLLIN OR POLLOUT OR POLLHUP,
     ch_readCallback := Some ''read'', ch_writeCallback := Some ''write'',
     ch_closeCallback := Some ''close''\<rparr>"

definition record_call :: "(string, string list) call" where
  "record_call k t w = Inr (fst w, snd w @ [k])"


end
