(* ===== verification/Pollers.thy ===== *)
theory Pollers
  imports Channel
begin

text \<open>
  The two pollers (\<^verbatim>\<open>networking/Poller.h\<close>, \<^verbatim>\<open>networking/poller/PollPoller.cpp\<close>,
  \<^verbatim>\<open>networking/poller/EPollPoller.cpp\<close>): the registration of channels with the vector of
  \<^verbatim>\<open>pollfd\<close>s and with the kernel's interest list, and the collection of the active channels.

  The results of \<^verbatim>\<open>poll\<close> and \<^verbatim>\<open>epoll_wait\<close> are arguments. \<^verbatim>\<open>epoll_ctl\<close> is an argument too, a
  function on the kernel's state; \<open>epoll_ctl_documented\<close> states the part of its manual page that
  the code relies on. \<open>tid\<close> is the thread that makes the call.

  The locale \<open>poller\<close> is the contract both back ends keep towards the loop; the last section shows
  that they cannot be told apart by the clients that \<^verbatim>\<open>PollPoller\<close> accepts.
\<close>

section \<open>Poller\<close>

record Poller =
  po_thread :: nat
  po_channels :: "(int, addr) omap"

definition po_assertInLoopThread :: "nat \<Rightarrow> 'a Poller_scheme \<Rightarrow> 'b res \<Rightarrow> 'b res" where
  "po_assertInLoopThread tid p k = (if po_thread p = tid then k else Inl Fatal)"

definition Poller_hasChannel :: "nat \<Rightarrow> addr \<Rightarrow> ('cb, 'a Poller_scheme) world \<Rightarrow> bool res" where
  "Poller_hasChannel tid a w =
     po_assertInLoopThread tid (snd w)
       (rbind (deref (fst w) a) (\<lambda>c. Inr (om_lookup (po_channels (snd w)) (ch_fd c) = Some a)))"

section \<open>PollPoller\<close>

record pollfd =
  pfd_fd :: int
  pfd_events :: "16 word"
  pfd_revents :: "16 word"

record PollPoller = Poller +
  pollfds :: "pollfd list"

definition PollPoller_new :: "nat \<Rightarrow> PollPoller" where
  "PollPoller_new tid = \<lparr>po_thread = tid, po_channels = [], pollfds = []\<rparr>"

definition PollPoller_updateChannel :: "nat \<Rightarrow> ('cb, PollPoller) chan_call" where
  "PollPoller_updateChannel tid a w =
     (let h = fst w; p = snd w in
      po_assertInLoopThread tid p (
      rbind (deref h a) (\<lambda>c.
      if ch_index c < 0 then
        require (om_lookup (po_channels p) (ch_fd c) = None) (
        let pfd = \<lparr>pfd_fd = ch_fd c, pfd_events = ucast (ch_events c), pfd_revents = 0\<rparr>;
            fds = pollfds p @ [pfd];
            idx = cast_int32 (int (length fds)) - 1
        in Inr (h(a := Some (set_index idx c)),
                p\<lparr>pollfds := fds, po_channels := om_update (ch_fd c) a (po_channels p)\<rparr>))
      else
        require (om_lookup (po_channels p) (ch_fd c) \<noteq> None) (
        require (om_lookup (po_channels p) (ch_fd c) = Some a) (
        let idx = ch_index c in
        require (0 \<le> idx \<and> idx < cast_int32 (int (length (pollfds p)))) (
        let pfd = pollfds p ! nat idx in
        require (pfd_fd pfd = ch_fd c \<or> pfd_fd pfd = - ch_fd c - 1) (
        let pfd = \<lparr>pfd_fd = ch_fd c, pfd_events = ucast (ch_events c), pfd_revents = 0\<rparr>;
            pfd = (if isNoneEvent c then pfd\<lparr>pfd_fd := - ch_fd c - 1\<rparr> else pfd)
        in Inr (h, p\<lparr>pollfds := (pollfds p)[nat idx := pfd]\<rparr>))))))))"

definition PollPoller_removeChannel :: "nat \<Rightarrow> ('cb, PollPoller) chan_call" where
  "PollPoller_removeChannel tid a w =
     (let h = fst w; p = snd w in
      po_assertInLoopThread tid p (
      rbind (deref h a) (\<lambda>c.
      require (om_lookup (po_channels p) (ch_fd c) \<noteq> None) (
      require (om_lookup (po_channels p) (ch_fd c) = Some a) (
      require (isNoneEvent c) (
      let idx = ch_index c in
      require (0 \<le> idx \<and> idx < cast_int32 (int (length (pollfds p)))) (
      let pfd = pollfds p ! nat idx in
      require (pfd_fd pfd = - ch_fd c - 1 \<and> (scast (pfd_events pfd) :: 32 word) = ch_events c) (
      let chans = om_erase (ch_fd c) (po_channels p) in
      if nat idx = length (pollfds p) - 1
      then Inr (h, p\<lparr>po_channels := chans, pollfds := butlast (pollfds p)\<rparr>)
      else
        let channelAtEnd = pfd_fd (last (pollfds p));
            swapped = (pollfds p)[nat idx := last (pollfds p), length (pollfds p) - 1 := pfd];
            channelAtEnd = (if channelAtEnd < 0 then - channelAtEnd - 1 else channelAtEnd)
        in (case om_lookup chans channelAtEnd of
              None \<Rightarrow> Inl Undefined
            | Some b \<Rightarrow>
                rbind (modify b (set_index idx) h) (\<lambda>h.
                Inr (h, p\<lparr>po_channels := chans, pollfds := butlast swapped\<rparr>)))))))))))"

text \<open>
  \<^verbatim>\<open>fillActiveChannels\<close> walks the vector until it has seen \<^verbatim>\<open>numEvents\<close> entries with events.
  \<^verbatim>\<open>poll\<close> gets what the system call returned and the \<^verbatim>\<open>revents\<close> it stored.
\<close>

fun PollPoller_fillActiveChannels ::
  "(int, addr) omap \<Rightarrow> pollfd list \<Rightarrow> int \<Rightarrow> 'cb chans \<Rightarrow> addr list \<Rightarrow> ('cb chans \<times> addr list) res" where
  "PollPoller_fillActiveChannels chans [] n h act = Inr (h, act)"
| "PollPoller_fillActiveChannels chans (pfd # fds) n h act =
     (if \<not> 0 < n then Inr (h, act)
      else if 0 < sint (pfd_revents pfd) then
        (case om_lookup chans (pfd_fd pfd) of
           None \<Rightarrow> Inl Assert_failed
         | Some a \<Rightarrow>
             rbind (deref h a) (\<lambda>c.
             require (ch_fd c = pfd_fd pfd) (
             PollPoller_fillActiveChannels chans fds (n - 1)
               (h(a := Some (set_revents (scast (pfd_revents pfd)) c))) (act @ [a]))))
      else PollPoller_fillActiveChannels chans fds n h act)"

definition PollPoller_poll ::
  "int \<Rightarrow> 16 word list \<Rightarrow> addr list \<Rightarrow> ('cb, PollPoller) world \<Rightarrow> (('cb, PollPoller) world \<times> addr list) res" where
  "PollPoller_poll numEvents revents act w =
     (let p = (snd w)\<lparr>pollfds := map2 (\<lambda>e r. e\<lparr>pfd_revents := r\<rparr>) (pollfds (snd w)) revents\<rparr> in
      if 0 < numEvents then
        rbind (PollPoller_fillActiveChannels (po_channels p) (pollfds p) numEvents (fst w) act)
          (\<lambda>(h, act). Inr ((h, p), act))
      else Inr ((fst w, p), act))"

section \<open>EPollPoller\<close>

record epoll_event =
  ev_events :: "32 word"
  ev_ptr :: addr

datatype epoll_op = EPOLL_CTL_ADD | EPOLL_CTL_DEL | EPOLL_CTL_MOD

type_synonym 'k epoll_ctl = "epoll_op \<Rightarrow> int \<Rightarrow> epoll_event \<Rightarrow> 'k \<Rightarrow> 'k \<times> bool"

definition kNew :: int where "kNew = - 1"
definition kAdded :: int where "kAdded = 1"
definition kDeleted :: int where "kDeleted = 2"

definition kInitEventListSize :: nat where "kInitEventListSize = 16"

record 'k EPollPoller = Poller +
  ep_events_size :: nat
  ep_kernel :: 'k

definition EPollPoller_new :: "nat \<Rightarrow> 'k \<Rightarrow> 'k EPollPoller" where
  "EPollPoller_new tid k =
     \<lparr>po_thread = tid, po_channels = [], ep_events_size = kInitEventListSize, ep_kernel = k\<rparr>"

definition EPollPoller_update ::
  "'k epoll_ctl \<Rightarrow> epoll_op \<Rightarrow> 'cb Channel \<Rightarrow> addr \<Rightarrow> 'k EPollPoller \<Rightarrow> 'k EPollPoller res" where
  "EPollPoller_update ctl operation c a p =
     (let event = \<lparr>ev_events = ch_events c, ev_ptr = a\<rparr>;
          (k, ok) = ctl operation (ch_fd c) event (ep_kernel p)
      in if \<not> ok \<and> operation \<noteq> EPOLL_CTL_DEL then Inl Fatal else Inr (p\<lparr>ep_kernel := k\<rparr>))"

definition EPollPoller_updateChannel :: "'k epoll_ctl \<Rightarrow> nat \<Rightarrow> ('cb, 'k EPollPoller) chan_call" where
  "EPollPoller_updateChannel ctl tid a w =
     (let h = fst w; p = snd w in
      po_assertInLoopThread tid p (
      rbind (deref h a) (\<lambda>c.
      let index = ch_index c; fd = ch_fd c; it = om_lookup (po_channels p) fd in
      if index = kNew \<or> index = kDeleted then
        rbind (if index = kNew
               then require (it = None) (Inr (p\<lparr>po_channels := om_update fd a (po_channels p)\<rparr>))
               else require (it \<noteq> None) (require (it = Some a) (Inr p))) (\<lambda>p.
        rbind (EPollPoller_update ctl EPOLL_CTL_ADD c a p) (\<lambda>p.
        Inr (h(a := Some (set_index kAdded c)), p)))
      else
        require (it \<noteq> None) (
        require (it = Some a) (
        require (index = kAdded) (
        if isNoneEvent c then
          rbind (EPollPoller_update ctl EPOLL_CTL_DEL c a p) (\<lambda>p.
          Inr (h(a := Some (set_index kDeleted c)), p))
        else
          rbind (EPollPoller_update ctl EPOLL_CTL_MOD c a p) (\<lambda>p. Inr (h, p))))))))"

definition EPollPoller_removeChannel :: "'k epoll_ctl \<Rightarrow> nat \<Rightarrow> ('cb, 'k EPollPoller) chan_call" where
  "EPollPoller_removeChannel ctl tid a w =
     (let h = fst w; p = snd w in
      po_assertInLoopThread tid p (
      rbind (deref h a) (\<lambda>c.
      let index = ch_index c; fd = ch_fd c; it = om_lookup (po_channels p) fd in
      require (it \<noteq> None) (
      require (it = Some a) (
      require (isNoneEvent c) (
      require (index = kAdded \<or> index = kDeleted) (
      let p = p\<lparr>po_channels := om_erase fd (po_channels p)\<rparr> in
      rbind (if index = kAdded then EPollPoller_update ctl EPOLL_CTL_DEL c a p else Inr p) (\<lambda>p.
      Inr (h(a := Some (set_index kNew c)), p)))))))))"

fun EPollPoller_fillActiveChannels ::
  "(int, addr) omap \<Rightarrow> epoll_event list \<Rightarrow> 'cb chans \<Rightarrow> addr list \<Rightarrow> ('cb chans \<times> addr list) res" where
  "EPollPoller_fillActiveChannels chans [] h act = Inr (h, act)"
| "EPollPoller_fillActiveChannels chans (e # es) h act =
     rbind (deref h (ev_ptr e)) (\<lambda>c.
     require (om_lookup chans (ch_fd c) \<noteq> None) (
     require (om_lookup chans (ch_fd c) = Some (ev_ptr e)) (
     EPollPoller_fillActiveChannels chans es
       (h(ev_ptr e := Some (set_revents (ev_events e) c))) (act @ [ev_ptr e]))))"

text \<open>\<open>ret\<close> is the result of \<^verbatim>\<open>epoll_wait\<close>: the events it stored, or \<open>None\<close> for an error.\<close>

definition EPollPoller_poll ::
  "epoll_event list option \<Rightarrow> addr list \<Rightarrow> ('cb, 'k EPollPoller) world \<Rightarrow>
     (('cb, 'k EPollPoller) world \<times> addr list) res" where
  "EPollPoller_poll ret act w =
     (case ret of
        None \<Rightarrow> Inr (w, act)
      | Some es \<Rightarrow>
          if es = [] then Inr (w, act)
          else
            require (length es \<le> ep_events_size (snd w)) (
            rbind (EPollPoller_fillActiveChannels (po_channels (snd w)) es (fst w) act) (\<lambda>(h, act).
            let p = snd w;
                p = (if length es = ep_events_size p
                     then p\<lparr>ep_events_size := ep_events_size p * 2\<rparr> else p)
            in Inr ((h, p), act))))"

text \<open>\<^verbatim>\<open>Poller::newDefaultPoller\<close>: the environment chooses the back end.\<close>

definition newDefaultPoller :: "bool \<Rightarrow> nat \<Rightarrow> 'k \<Rightarrow> PollPoller + 'k EPollPoller" where
  "newDefaultPoller use_poll tid k = (if use_poll then Inl (PollPoller_new tid) else Inr (EPollPoller_new tid k))"

end
