(* ===== verification/Pollers_Correct.thy ===== *)
theory Pollers_Correct
  imports Pollers
begin

text \<open>
  The contract of a poller and its two implementations. \<open>reg\<close> is the map from descriptors to
  channels, \<open>interest\<close> the events the kernel is asked to report for a descriptor (none is 0).
\<close>

section \<open>Lists of keyed slots\<close>

lemma map_of_snoc_fresh: "k \<notin> fst ` set xs \<Longrightarrow> map_of (xs @ [(k, v)]) = (map_of xs)(k \<mapsto> v)"
  by (induction xs) (auto simp: fun_eq_iff)

lemma map_of_slot_update:
  assumes "distinct (map fst xs)" "i < length xs" "fst (xs ! i) = k"
  shows "map_of (xs[i := (k, v)]) = (map_of xs)(k \<mapsto> v)"
  using assms
proof (induction xs arbitrary: i)
  case (Cons x xs)
  show ?case
  proof (cases i)
    case 0
    then show ?thesis using Cons.prems by (cases x) auto
  next
    case (Suc j)
    with Cons.prems have "fst x \<noteq> k" by auto
    with Cons Suc show ?thesis by (cases x) (auto simp: fun_eq_iff)
  qed
qed simp

lemma map_of_slot_erase:
  assumes "distinct (map fst (ys @ (k, v) # zs))"
  shows "map_of (ys @ zs) = (map_of (ys @ (k, v) # zs))(k := None)"
proof -
  have "k \<notin> fst ` set ys" "k \<notin> fst ` set zs" using assms by auto
  then have "map_of ys k = None" "map_of zs k = None" by (auto simp: map_of_eq_None_iff)
  then show ?thesis by (auto simp: map_add_def fun_eq_iff split: option.splits)
qed

text \<open>Overwriting slot \<open>i\<close> with the last one and dropping the last one removes slot \<open>i\<close>.\<close>

definition swap_delete :: "nat \<Rightarrow> 'a list \<Rightarrow> 'a list" where
  "swap_delete i xs = (butlast xs)[i := last xs]"

lemma swap_delete_swapped:
  assumes "i < length xs"
  shows "butlast (xs[i := last xs, length xs - 1 := y]) = swap_delete i xs"
proof -
  obtain ys z where xs: "xs = ys @ [z]" using assms by (cases xs rule: rev_cases) auto
  show ?thesis
    using assms unfolding swap_delete_def xs
    by (cases "i < length ys") (auto simp: list_update_append list_update_beyond)
qed

lemma swap_delete_last: "i = length xs - 1 \<Longrightarrow> xs \<noteq> [] \<Longrightarrow> swap_delete i xs = butlast xs"
  by (simp add: swap_delete_def list_update_beyond)

lemma length_swap_delete [simp]: "length (swap_delete i xs) = length xs - 1"
  by (simp add: swap_delete_def)

lemma nth_swap_delete:
  "j < length xs - 1 \<Longrightarrow> swap_delete i xs ! j = (if j = i then xs ! (length xs - 1) else xs ! j)"
  by (cases "xs = []") (auto simp: swap_delete_def nth_list_update nth_butlast last_conv_nth)

lemma map_swap_delete: "xs \<noteq> [] \<Longrightarrow> map f (swap_delete i xs) = swap_delete i (map f xs)"
  by (simp add: swap_delete_def map_update map_butlast last_map)

lemma map_of_swap_delete:
  assumes "distinct (map fst xs)" "i < length xs"
  shows "map_of (swap_delete i xs) = (map_of xs)(fst (xs ! i) := None)"
proof (cases "i = length xs - 1")
  case True
  obtain ys k v where xs: "xs = ys @ [(k, v)]"
    using assms(2) by (cases xs rule: rev_cases) auto
  then show ?thesis using True map_of_slot_erase [of ys k v "[]"] assms by (simp add: swap_delete_def list_update_beyond)
next
  case False
  obtain ws z where ws: "xs = ws @ [z]" using assms(2) by (cases xs rule: rev_cases) auto
  with False assms(2) have i: "i < length ws" by simp
  obtain k v where kv: "ws ! i = (k, v)" by (cases "ws ! i")
  define ys zs where "ys = take i ws" and "zs = drop (Suc i) ws"
  have ws_split: "ws = ys @ (k, v) # zs" and ly: "length ys = i"
    using id_take_nth_drop [OF i] kv i by (simp_all add: ys_def zs_def)
  have "swap_delete i xs = ys @ z # zs"
    using ly by (simp add: swap_delete_def ws ws_split list_update_append butlast_append)
  moreover have "map_of (ys @ z # zs) = map_of (ys @ zs @ [z])"
    using assms(1) unfolding ws ws_split by (subst map_of_inject_set) auto
  moreover have "map_of (ys @ (zs @ [z])) = (map_of xs)(k := None)"
    using map_of_slot_erase [of ys k v "zs @ [z]"] assms(1) unfolding ws ws_split by simp
  moreover have "fst (xs ! i) = k" using i kv by (simp add: ws nth_append)
  ultimately show ?thesis by simp
qed

section \<open>The contract\<close>

text \<open>
  Descriptors are those a process can have open, and the events of a channel are combinations of
  the read and the write mask, as the operations of \<open>Channel\<close> produce them.
\<close>

definition valid_fd :: "int \<Rightarrow> bool" where
  "valid_fd fd \<longleftrightarrow> 0 \<le> fd \<and> fd < 2 ^ 31 - 1"

definition mask_events :: "32 word \<Rightarrow> bool" where
  "mask_events e \<longleftrightarrow> e = 0 \<or> e = 3 \<or> e = 4 \<or> e = 7"

lemma mask_closed:
  assumes "mask_events e"
  shows "mask_events (e OR kReadEvent)" "mask_events (e AND NOT kReadEvent)"
    "mask_events (e OR kWriteEvent)" "mask_events (e AND NOT kWriteEvent)" "mask_events kNoneEvent"
  using assms
  by (auto simp: mask_events_def kReadEvent_def kWriteEvent_def kNoneEvent_def poll_bits)

definition valid_channel :: "'cb Channel \<Rightarrow> bool" where
  "valid_channel c \<longleftrightarrow> valid_fd (ch_fd c) \<and> mask_events (ch_events c)"

text \<open>Two stores that differ in nothing but the index a poller keeps in a channel.\<close>

definition same_but_index :: "'cb chans \<Rightarrow> 'cb chans \<Rightarrow> bool" where
  "same_but_index h h' \<longleftrightarrow>
     (\<forall>a. map_option (set_index 0) (h' a) = map_option (set_index 0) (h a))"

lemma same_but_index_Some:
  "same_but_index h h' \<Longrightarrow> h a = Some c \<Longrightarrow> \<exists>i. h' a = Some (set_index i c)"
  unfolding same_but_index_def set_index_def
  by (drule spec [of _ a], cases "h' a") (auto, metis Channel.surjective Channel.update_convs(5))

lemma same_but_index_sym: "same_but_index h h' \<Longrightarrow> same_but_index h' h"
  by (simp add: same_but_index_def)

lemma same_but_index_trans: "same_but_index h h' \<Longrightarrow> same_but_index h' h'' \<Longrightarrow> same_but_index h h''"
  by (simp add: same_but_index_def)

lemma same_but_index_refl [simp]: "same_but_index h h"
  by (simp add: same_but_index_def)

lemma same_but_index_upd [simp]: "h a = Some c \<Longrightarrow> same_but_index h (h(a := Some (set_index i c)))"
  by (simp add: same_but_index_def set_index_def)

lemma set_index_fields [simp]:
  "ch_fd (set_index i c) = ch_fd c" "ch_events (set_index i c) = ch_events c"
  "ch_addedToLoop (set_index i c) = ch_addedToLoop c" "ch_index (set_index i c) = i"
  "ch_eventHandling (set_index i c) = ch_eventHandling c"
  by (simp_all add: set_index_def)

lemma valid_channel_set_index [simp]: "valid_channel (set_index i c) = valid_channel c"
  by (simp add: valid_channel_def)

text \<open>Two stores that agree on what a poller reads of the channels it knows.\<close>

definition same_keys :: "(int \<Rightarrow> addr option) \<Rightarrow> 'cb chans \<Rightarrow> 'cb chans \<Rightarrow> bool" where
  "same_keys reg h h' \<longleftrightarrow>
     (\<forall>fd a. reg fd = Some a \<longrightarrow>
        map_option (\<lambda>c. (ch_fd c, ch_index c)) (h' a) = map_option (\<lambda>c. (ch_fd c, ch_index c)) (h a))"

text \<open>
  What a client can rely on in every state it reaches: each registered channel is alive, is marked
  as added, and the kernel reports exactly the events it asks for.
\<close>

definition registered_events :: "('s \<Rightarrow> int \<Rightarrow> addr option) \<Rightarrow> ('s \<Rightarrow> int \<Rightarrow> 32 word) \<Rightarrow> ('cb, 's) world \<Rightarrow> bool" where
  "registered_events reg interest w \<longleftrightarrow>
     (\<forall>a c. fst w a = Some c \<longrightarrow> valid_channel c) \<and>
     (\<forall>fd a. reg (snd w) fd = Some a \<longrightarrow>
        (\<exists>c. fst w a = Some c \<and> ch_fd c = fd \<and> ch_addedToLoop c \<and> interest (snd w) fd = ch_events c)) \<and>
     (\<forall>a c. fst w a = Some c \<longrightarrow> ch_addedToLoop c \<longrightarrow> reg (snd w) (ch_fd c) = Some a) \<and>
     (\<forall>fd. reg (snd w) fd = None \<longrightarrow> interest (snd w) fd = 0)"

lemma registered_eventsD:
  assumes "registered_events reg interest (h, s)"
  shows "h a = Some c \<Longrightarrow> valid_channel c"
    and "reg s fd = Some a \<Longrightarrow>
      \<exists>c. h a = Some c \<and> ch_fd c = fd \<and> ch_addedToLoop c \<and> interest s fd = ch_events c"
    and "h a = Some c \<Longrightarrow> ch_addedToLoop c \<Longrightarrow> reg s (ch_fd c) = Some a"
    and "reg s fd = None \<Longrightarrow> interest s fd = 0"
  using assms by (auto simp only: registered_events_def fst_conv snd_conv)

lemma registered_eventsI:
  assumes "\<And>a c. h a = Some c \<Longrightarrow> valid_channel c"
    and "\<And>fd a. reg s fd = Some a \<Longrightarrow>
      \<exists>c. h a = Some c \<and> ch_fd c = fd \<and> ch_addedToLoop c \<and> interest s fd = ch_events c"
    and "\<And>a c. h a = Some c \<Longrightarrow> ch_addedToLoop c \<Longrightarrow> reg s (ch_fd c) = Some a"
    and "\<And>fd. reg s fd = None \<Longrightarrow> interest s fd = 0"
  shows "registered_events reg interest (h, s)"
  using assms unfolding registered_events_def fst_conv snd_conv by blast

text \<open>The index of a channel plays no part in it.\<close>

lemma index_only:
  assumes "registered_events reg interest (h, s)" "same_but_index h h'"
  shows "registered_events reg interest (h', s)"
proof -
  have ex: "\<exists>i. h' a = Some (set_index i c)" if "h a = Some c" for a c
    using same_but_index_Some [OF assms(2) that] .
  have ex': "\<exists>i. h a = Some (set_index i c)" if "h' a = Some c" for a c
    using same_but_index_Some [OF same_but_index_sym [OF assms(2)] that] .
  note D = registered_eventsD [OF assms(1)]
  show ?thesis
  proof (rule registered_eventsI)
    fix a c assume "h' a = Some c"
    then obtain i where i: "h a = Some (set_index i c)" using ex' by blast
    from D(1) [OF i] show "valid_channel c" by simp
    assume "ch_addedToLoop c"
    with D(3) [OF i] show "reg s (ch_fd c) = Some a" by simp
  next
    fix fd a assume "reg s fd = Some a"
    from D(2) [OF this] obtain c where "h a = Some c" "ch_fd c = fd" "ch_addedToLoop c"
      "interest s fd = ch_events c" by blast
    with ex [of a c] show "\<exists>c. h' a = Some c \<and> ch_fd c = fd \<and> ch_addedToLoop c \<and> interest s fd = ch_events c"
      by auto
  qed (rule D(4))
qed

lemma registered_add:
  assumes re: "registered_events reg interest (h, s)" and c: "h a = Some c"
    and c': "valid_channel c'" "ch_fd c' = ch_fd c" "ch_addedToLoop c'"
    and free: "reg s (ch_fd c) = None \<or> reg s (ch_fd c) = Some a"
    and s': "reg s' = (reg s)(ch_fd c \<mapsto> a)" "interest s' = (interest s)(ch_fd c := ch_events c')"
  shows "registered_events reg interest (h(a := Some c'), s')"
proof (rule registered_eventsI)
  note D = registered_eventsD [OF re]
  fix b d assume d: "(h(a := Some c')) b = Some d"
  then show "valid_channel d" using c' D(1) by (auto split: if_splits)
  assume "ch_addedToLoop d"
  show "reg s' (ch_fd d) = Some b"
  proof (cases "b = a")
    case True
    then show ?thesis using d c' s' by simp
  next
    case False
    then have "reg s (ch_fd d) = Some b" using D(3) [of b d] d \<open>ch_addedToLoop d\<close> by simp
    with False free show ?thesis using s' by auto
  qed
next
  note D = registered_eventsD [OF re]
  fix fd b assume b: "reg s' fd = Some b"
  show "\<exists>d. (h(a := Some c')) b = Some d \<and> ch_fd d = fd \<and> ch_addedToLoop d \<and> interest s' fd = ch_events d"
  proof (cases "fd = ch_fd c")
    case True
    then show ?thesis using b c' s' by simp
  next
    case False
    with b s' have "reg s fd = Some b" by simp
    from D(2) [OF this] False c s' show ?thesis by auto
  qed
next
  fix fd assume "reg s' fd = None"
  then show "interest s' fd = 0" using s' registered_eventsD(4) [OF re] by (auto split: if_splits)
qed

lemma registered_remove:
  assumes re: "registered_events reg interest (h, s)" and c: "h a = Some c"
    and c': "valid_channel c'" "\<not> ch_addedToLoop c'"
    and s: "reg s (ch_fd c) = Some a"
    and s': "reg s' = (reg s)(ch_fd c := None)" "interest s' = (interest s)(ch_fd c := 0)"
  shows "registered_events reg interest (h(a := Some c'), s')"
proof (rule registered_eventsI)
  note D = registered_eventsD [OF re]
  fix b d assume d: "(h(a := Some c')) b = Some d"
  then show "valid_channel d" using c' D(1) by (auto split: if_splits)
  assume "ch_addedToLoop d"
  with d c' have "b \<noteq> a" "reg s (ch_fd d) = Some b" using D(3) [of b d] by (auto split: if_splits)
  with s show "reg s' (ch_fd d) = Some b" using s' by auto
next
  note D = registered_eventsD [OF re]
  fix fd b assume b: "reg s' fd = Some b"
  then have "fd \<noteq> ch_fd c" "reg s fd = Some b" using s' by (auto split: if_splits)
  with D(2) [of fd b] c s' show
    "\<exists>d. (h(a := Some c')) b = Some d \<and> ch_fd d = fd \<and> ch_addedToLoop d \<and> interest s' fd = ch_events d"
    by auto
next
  fix fd assume "reg s' fd = None"
  then show "interest s' fd = 0" using s' registered_eventsD(4) [OF re] by (auto split: if_splits)
qed

text \<open>The calls a client makes on a channel, from its construction to its destruction.\<close>

datatype chan_op =
    Create addr int
  | Enable_reading addr
  | Disable_reading addr
  | Enable_writing addr
  | Disable_writing addr
  | Disable_all addr
  | Remove addr
  | Destroy addr

fun chan_step ::
  "('cb, 's) chan_call \<Rightarrow> ('cb, 's) chan_call \<Rightarrow> (addr \<Rightarrow> ('cb, 's) world \<Rightarrow> bool res) \<Rightarrow>
   chan_op \<Rightarrow> ('cb, 's) world \<Rightarrow> ('cb, 's) world res" where
  "chan_step upd rem has (Create a fd) w =
     (if fst w a = None then Inr ((fst w)(a := Some (Channel_new 0 fd)), snd w) else Inl Undefined)"
| "chan_step upd rem has (Enable_reading a) w = enableReading upd a w"
| "chan_step upd rem has (Disable_reading a) w = disableReading upd a w"
| "chan_step upd rem has (Enable_writing a) w = enableWriting upd a w"
| "chan_step upd rem has (Disable_writing a) w = disableWriting upd a w"
| "chan_step upd rem has (Disable_all a) w = disableAll upd a w"
| "chan_step upd rem has (Remove a) w = Channel_remove rem a w"
| "chan_step upd rem has (Destroy a) w = Channel_destroy has a w"

fun op_fd_ok :: "chan_op \<Rightarrow> bool" where
  "op_fd_ok (Create a fd) = valid_fd fd"
| "op_fd_ok _ = True"

locale poller =
  fixes upd :: "('cb, 's) chan_call"
    and rem :: "('cb, 's) chan_call"
    and has :: "addr \<Rightarrow> ('cb, 's) world \<Rightarrow> bool res"
    and reg :: "'s \<Rightarrow> int \<Rightarrow> addr option"
    and interest :: "'s \<Rightarrow> int \<Rightarrow> 32 word"
    and inv :: "('cb, 's) world \<Rightarrow> bool"
  assumes inv_frame: "inv (h, s) \<Longrightarrow> same_keys (reg s) h h' \<Longrightarrow> inv (h', s)"
    and inv_reg: "inv (h, s) \<Longrightarrow> reg s fd = Some a \<Longrightarrow> \<exists>c. h a = Some c \<and> ch_fd c = fd"
    and upd_law: "inv (h, s) \<Longrightarrow> h a = Some c \<Longrightarrow> valid_channel c \<Longrightarrow> upd a (h, s) = Inr (h', s') \<Longrightarrow>
      inv (h', s') \<and> same_but_index h h' \<and> (reg s (ch_fd c) = None \<or> reg s (ch_fd c) = Some a) \<and>
      reg s' = (reg s)(ch_fd c \<mapsto> a) \<and>
      interest s' = (interest s)(ch_fd c := ch_events c)"
    and rem_law: "inv (h, s) \<Longrightarrow> h a = Some c \<Longrightarrow> valid_channel c \<Longrightarrow> rem a (h, s) = Inr (h', s') \<Longrightarrow>
      inv (h', s') \<and> same_but_index h h' \<and> reg s (ch_fd c) = Some a \<and>
      reg s' = (reg s)(ch_fd c := None) \<and> interest s' = (interest s)(ch_fd c := 0)"
    and has_law: "inv (h, s) \<Longrightarrow> h a = Some c \<Longrightarrow> has a (h, s) = Inr b \<Longrightarrow>
      b \<longleftrightarrow> reg s (ch_fd c) = Some a"
begin

lemma step_change:
  assumes inv: "inv (h, s)" and re: "registered_events reg interest (h, s)"
    and f: "\<And>e. mask_events e \<Longrightarrow> mask_events (f e)"
    and step: "change_events f upd a (h, s) = Inr (h', s')"
  shows "inv (h', s') \<and> registered_events reg interest (h', s')"
proof -
  obtain c where c: "h a = Some c"
    using step by (auto simp: change_events_def rbind_Inr_iff on_channel_Inr_iff)
  let ?c = "c\<lparr>ch_events := f (ch_events c), ch_addedToLoop := True\<rparr>"
  let ?h = "h(a := Some ?c)"
  have upd: "upd a (?h, s) = Inr (h', s')" using step c by (simp add: change_events_Some)
  have inv1: "inv (?h, s)" using inv c by (rule_tac inv_frame [of h]) (auto simp: same_keys_def)
  have valid: "valid_channel ?c"
    using registered_eventsD(1) [OF re c] f by (simp add: valid_channel_def)
  have "?h a = Some ?c" by simp
  note law = upd_law [OF inv1 this valid upd]
  have "registered_events reg interest (?h, s')"
  proof (rule registered_add [OF re c valid])
    show "reg s (ch_fd c) = None \<or> reg s (ch_fd c) = Some a" using law by simp
    show "reg s' = (reg s)(ch_fd c \<mapsto> a)" using law by simp
    show "interest s' = (interest s)(ch_fd c := ch_events ?c)" using law by simp
  qed simp_all
  from index_only [OF this, of h'] law show ?thesis by simp
qed

lemma step_remove:
  assumes inv: "inv (h, s)" and re: "registered_events reg interest (h, s)"
    and step: "Channel_remove rem a (h, s) = Inr (h', s')"
  shows "inv (h', s') \<and> registered_events reg interest (h', s')"
proof -
  obtain c where c: "h a = Some c"
    using step by (auto simp: Channel_remove_def rbind_Inr_iff deref_Inr_iff)
  let ?c = "c\<lparr>ch_addedToLoop := False\<rparr>"
  let ?h = "h(a := Some ?c)"
  have rem: "rem a (?h, s) = Inr (h', s')"
    using step c by (simp add: Channel_remove_def require_Inr_iff)
  have inv1: "inv (?h, s)" using inv c by (rule_tac inv_frame [of h]) (auto simp: same_keys_def)
  have valid: "valid_channel ?c"
    using registered_eventsD(1) [OF re c] by (simp add: valid_channel_def)
  have "?h a = Some ?c" by simp
  note law = rem_law [OF inv1 this valid rem]
  have "registered_events reg interest (?h, s')"
  proof (rule registered_remove [OF re c valid])
    show "reg s (ch_fd c) = Some a" using law by simp
    show "reg s' = (reg s)(ch_fd c := None)" using law by simp
    show "interest s' = (interest s)(ch_fd c := 0)" using law by simp
  qed simp
  from index_only [OF this, of h'] law show ?thesis by simp
qed

text \<open>Construction and destruction of a channel the poller does not know.\<close>

lemma step_unknown:
  assumes inv: "inv (h, s)" and re: "registered_events reg interest (h, s)"
    and unknown: "\<And>fd. reg s fd \<noteq> Some a"
    and h': "h' = h(a := v)" "\<And>c. v = Some c \<Longrightarrow> valid_channel c \<and> \<not> ch_addedToLoop c"
  shows "inv (h', s) \<and> registered_events reg interest (h', s)"
proof
  show "inv (h', s)"
    using inv by (rule inv_frame) (auto simp: same_keys_def h' unknown)
  note D = registered_eventsD [OF re]
  show "registered_events reg interest (h', s)"
  proof (rule registered_eventsI)
    fix b d assume b: "h' b = Some d"
    show "valid_channel d" using b h' D(1) [of b d] by (auto split: if_splits)
    assume "ch_addedToLoop d"
    then show "reg s (ch_fd d) = Some b" using b h' D(3) [of b d] by (auto split: if_splits)
  next
    fix fd b assume b: "reg s fd = Some b"
    with unknown have "b \<noteq> a" by blast
    with D(2) [OF b] h'(1) show
      "\<exists>d. h' b = Some d \<and> ch_fd d = fd \<and> ch_addedToLoop d \<and> interest s fd = ch_events d" by simp
  qed (rule D(4))
qed

lemma unknown_if_not_added:
  assumes re: "registered_events reg interest (h, s)" and "\<And>c. h a = Some c \<Longrightarrow> \<not> ch_addedToLoop c"
  shows "reg s fd \<noteq> Some a"
  using registered_eventsD(2) [OF re, of fd a] assms(2) by blast

lemma step_keeps:
  assumes "inv w" "registered_events reg interest w" "op_fd_ok p"
    and step: "chan_step upd rem has p w = Inr w'"
  shows "inv w' \<and> registered_events reg interest w'"
proof -
  obtain h s h' s' where w: "w = (h, s)" "w' = (h', s')" by (cases w, cases w')
  note hyps = assms [unfolded w]
  note change = step_change [OF hyps(1,2) mask_closed(1)] step_change [OF hyps(1,2) mask_closed(2)]
    step_change [OF hyps(1,2) mask_closed(3)] step_change [OF hyps(1,2) mask_closed(4)]
    step_change [OF hyps(1,2) mask_closed(5)]
  show ?thesis
  proof (cases p)
    case (Create a fd)
    with step have "h a = None" "h' = h(a := Some (Channel_new 0 fd))" "s' = s"
      by (auto simp: w split: if_splits)
    with step_unknown [OF hyps(1,2), of a h' "Some (Channel_new 0 fd)"]
      unknown_if_not_added [OF hyps(2), of a] hyps(3) Create
    show ?thesis by (simp add: w Channel_new_def valid_channel_def mask_events_def)
  next
    case (Destroy a)
    with step obtain c where "h a = Some c" "\<not> ch_addedToLoop c" "h' = h(a := None)" "s' = s"
      by (auto simp: w Channel_destroy_def rbind_Inr_iff deref_Inr_iff require_Inr_iff)
    with step_unknown [OF hyps(1,2), of a h' None] unknown_if_not_added [OF hyps(2), of a]
    show ?thesis by (simp add: w)
  next
    case (Remove a)
    with step_remove [OF hyps(1,2)] hyps(4) show ?thesis by (simp add: w)
  qed (use change hyps(4) in \<open>simp_all add: w enableReading_def disableReading_def
      enableWriting_def disableWriting_def disableAll_def\<close>)
qed

lemma run_keeps_registered:
  assumes "inv w" "registered_events reg interest w" "list_all op_fd_ok ps"
    and "rfold (chan_step upd rem has) ps w = Inr w'"
  shows "inv w' \<and> registered_events reg interest w'"
  using assms
proof (induction ps arbitrary: w)
  case (Cons p ps)
  then obtain w1 where "chan_step upd rem has p w = Inr w1" "rfold (chan_step upd rem has) ps w1 = Inr w'"
    by (auto simp: rbind_Inr_iff)
  with Cons.IH [of w1] step_keeps [OF Cons.prems(1,2), of p w1] Cons.prems(3) show ?case by simp
qed simp

end

section \<open>PollPoller\<close>

text \<open>
  A slot of the vector belongs to one descriptor; a slot that is ignored stores the descriptor
  complemented, which \<^verbatim>\<open>poll\<close> skips.
\<close>

definition slot_fd :: "pollfd \<Rightarrow> int" where
  "slot_fd e = (if pfd_fd e < 0 then - pfd_fd e - 1 else pfd_fd e)"

definition slot_events :: "pollfd \<Rightarrow> 32 word" where
  "slot_events e = (if pfd_fd e < 0 then 0 else scast (pfd_events e))"

definition poll_reg :: "'a Poller_scheme \<Rightarrow> int \<Rightarrow> addr option" where
  "poll_reg p = om_lookup (po_channels p)"

text \<open>What \<^verbatim>\<open>poll\<close> is asked to report: the events of the entry with this descriptor.\<close>

definition PollPoller_interest :: "PollPoller \<Rightarrow> int \<Rightarrow> 32 word" where
  "PollPoller_interest p fd =
     (if fd < 0 then 0
      else case map_of (map (\<lambda>e. (pfd_fd e, scast (pfd_events e))) (pollfds p)) fd of
             None \<Rightarrow> 0 | Some e \<Rightarrow> e)"

text \<open>The map of channels and the vector are in bijection through the channels' indices.\<close>

definition PollPoller_inv :: "('cb, PollPoller) world \<Rightarrow> bool" where
  "PollPoller_inv w \<longleftrightarrow>
     (\<forall>fd a. poll_reg (snd w) fd = Some a \<longrightarrow> valid_fd fd \<and>
        (\<exists>c i. fst w a = Some c \<and> ch_fd c = fd \<and> ch_index c = int i \<and> i < length (pollfds (snd w)) \<and>
             slot_fd (pollfds (snd w) ! i) = fd)) \<and>
     (\<forall>i < length (pollfds (snd w)). \<exists>a c. poll_reg (snd w) (slot_fd (pollfds (snd w) ! i)) = Some a \<and>
        fst w a = Some c \<and> ch_index c = int i)"

lemma PollPoller_invD:
  assumes "PollPoller_inv (h, p)"
  shows "poll_reg p fd = Some a \<Longrightarrow> valid_fd fd"
    and "poll_reg p fd = Some a \<Longrightarrow> \<exists>c i. h a = Some c \<and> ch_fd c = fd \<and> ch_index c = int i \<and>
      i < length (pollfds p) \<and> slot_fd (pollfds p ! i) = fd"
    and "i < length (pollfds p) \<Longrightarrow>
      \<exists>a c. poll_reg p (slot_fd (pollfds p ! i)) = Some a \<and> h a = Some c \<and> ch_index c = int i"
  using assms unfolding PollPoller_inv_def fst_conv snd_conv by blast+

lemma PollPoller_invI:
  assumes "\<And>fd a. poll_reg p fd = Some a \<Longrightarrow> valid_fd fd \<and> (\<exists>c i. h a = Some c \<and> ch_fd c = fd \<and>
      ch_index c = int i \<and> i < length (pollfds p) \<and> slot_fd (pollfds p ! i) = fd)"
    and "\<And>i. i < length (pollfds p) \<Longrightarrow>
      \<exists>a c. poll_reg p (slot_fd (pollfds p ! i)) = Some a \<and> h a = Some c \<and> ch_index c = int i"
  shows "PollPoller_inv (h, p)"
  using assms unfolding PollPoller_inv_def fst_conv snd_conv by blast

lemma slots_distinct:
  assumes "PollPoller_inv (h, p)"
  shows "distinct (map slot_fd (pollfds p))"
proof (simp add: distinct_conv_nth, intro allI impI)
  fix i j assume i: "i < length (pollfds p)" and j: "j < length (pollfds p)" and "i \<noteq> j"
  then show "slot_fd (pollfds p ! i) \<noteq> slot_fd (pollfds p ! j)"
    using PollPoller_invD(3) [OF assms i] PollPoller_invD(3) [OF assms j] by auto
qed

lemma slots_valid: "PollPoller_inv (h, p) \<Longrightarrow> e \<in> set (pollfds p) \<Longrightarrow> valid_fd (slot_fd e)"
  by (metis PollPoller_invD(1,3) in_set_conv_nth)

text \<open>Distinct descriptors below \<open>2 ^ 31 - 1\<close>: the vector's size fits in an \<^verbatim>\<open>int\<close>.\<close>

lemma valid_fds_bound:
  assumes "distinct xs" "\<And>x. x \<in> set xs \<Longrightarrow> valid_fd x"
  shows "length xs \<le> 2 ^ 31 - 1"
proof -
  have "set xs \<subseteq> {0..<2 ^ 31 - 1}" using assms(2) by (auto simp: valid_fd_def)
  then have "card (set xs) \<le> card {0..<(2::int) ^ 31 - 1}" by (intro card_mono) auto
  then show ?thesis using assms(1) by (simp add: distinct_card)
qed

lemma pollfds_bound:
  assumes "PollPoller_inv (h, p)"
  shows "length (pollfds p) \<le> 2 ^ 31 - 1"
  using valid_fds_bound [OF slots_distinct [OF assms]] slots_valid [OF assms] by auto

lemma cast_int32_length: "n \<le> 2 ^ 31 - 1 \<Longrightarrow> cast_int32 (int n) = int n"
  by (rule cast_int32_id) (simp add: in_int32_def)

text \<open>The interest as the map of the slots: each slot stands for its descriptor.\<close>

lemma interest_slots:
  assumes "distinct (map slot_fd (pollfds p))"
  shows "PollPoller_interest p fd =
    (if fd < 0 then 0
     else case map_of (map (\<lambda>e. (slot_fd e, slot_events e)) (pollfds p)) fd of None \<Rightarrow> 0 | Some e \<Rightarrow> e)"
proof -
  have "(case map_of (map (\<lambda>e. (pfd_fd e, scast (pfd_events e))) es) fd of None \<Rightarrow> 0 | Some e \<Rightarrow> e) =
    (case map_of (map (\<lambda>e. (slot_fd e, slot_events e)) es) fd of None \<Rightarrow> 0 | Some e \<Rightarrow> (e :: 32 word))"
    if "0 \<le> fd" "distinct (map slot_fd es)" for es
    using that
  proof (induction es)
    case (Cons e es)
    show ?case
    proof (cases "pfd_fd e = - fd - 1")
      case True
      then have e: "slot_fd e = fd" "slot_events e = 0" "pfd_fd e \<noteq> fd"
        using Cons.prems(1) by (auto simp: slot_fd_def slot_events_def)
      with Cons.prems(2) have "map_of (map (\<lambda>e. (pfd_fd e, scast (pfd_events e) :: 32 word)) es) fd = None"
        using Cons.prems(1) by (force simp: map_of_eq_None_iff slot_fd_def)
      with e show ?thesis by simp
    next
      case False
      with Cons show ?thesis by (auto simp: slot_fd_def slot_events_def)
    qed
  qed simp
  then show ?thesis using assms by (simp add: PollPoller_interest_def)
qed

lemma interest_changed:
  assumes "distinct (map slot_fd (pollfds p))" "distinct (map slot_fd (pollfds p'))" "0 \<le> fd"
    and "map_of (map (\<lambda>e. (slot_fd e, slot_events e)) (pollfds p')) =
      (map_of (map (\<lambda>e. (slot_fd e, slot_events e)) (pollfds p)))(fd := v)"
  shows "PollPoller_interest p' = (PollPoller_interest p)(fd := (case v of None \<Rightarrow> 0 | Some e \<Rightarrow> e))"
  using assms by (auto simp: interest_slots fun_eq_iff)

lemma short_events: "mask_events e \<Longrightarrow> (scast (ucast e :: 16 word) :: 32 word) = e"
  by (auto simp: mask_events_def)

definition slot_for :: "'cb Channel \<Rightarrow> pollfd" where
  "slot_for c = \<lparr>pfd_fd = (if isNoneEvent c then - ch_fd c - 1 else ch_fd c),
     pfd_events = ucast (ch_events c), pfd_revents = 0\<rparr>"

definition fresh_slot :: "'cb Channel \<Rightarrow> pollfd" where
  "fresh_slot c = \<lparr>pfd_fd = ch_fd c, pfd_events = ucast (ch_events c), pfd_revents = 0\<rparr>"

lemma slot_for_view:
  assumes "valid_channel c"
  shows "slot_fd (slot_for c) = ch_fd c" "slot_events (slot_for c) = ch_events c"
    "slot_fd (fresh_slot c) = ch_fd c" "slot_events (fresh_slot c) = ch_events c"
  using assms short_events [of "ch_events c"]
  by (auto simp: slot_for_def fresh_slot_def slot_fd_def slot_events_def valid_channel_def valid_fd_def
      isNoneEvent_iff)

lemma PollPoller_update_cases:
  assumes inv: "PollPoller_inv (h, p)" and c: "h a = Some c"
    and upd: "PollPoller_updateChannel tid a (h, p) = Inr (h', p')"
  obtains (new) "ch_index c < 0" "poll_reg p (ch_fd c) = None"
      "h' = h(a := Some (set_index (cast_int32 (int (length (pollfds p @ [fresh_slot c]))) - 1) c))"
      "p' = p\<lparr>pollfds := pollfds p @ [fresh_slot c], po_channels := om_update (ch_fd c) a (po_channels p)\<rparr>"
  | (old) i where "ch_index c = int i" "poll_reg p (ch_fd c) = Some a" "i < length (pollfds p)"
      "slot_fd (pollfds p ! i) = ch_fd c" "h' = h" "p' = p\<lparr>pollfds := (pollfds p)[i := slot_for c]\<rparr>"
proof (cases "ch_index c < 0")
  case True
  with upd c show ?thesis
    by (intro new) (auto simp: PollPoller_updateChannel_def po_assertInLoopThread_def require_Inr_iff
        poll_reg_def fresh_slot_def Let_def split: if_splits)
next
  case False
  with upd c have reg: "poll_reg p (ch_fd c) = Some a" and
    eq: "h' = h" "p' = p\<lparr>pollfds := (pollfds p)[nat (ch_index c) := slot_for c]\<rparr>"
    by (auto simp: PollPoller_updateChannel_def po_assertInLoopThread_def require_Inr_iff
        poll_reg_def slot_for_def Let_def split: if_splits)
  from PollPoller_invD(2) [OF inv reg] c reg eq show ?thesis by (auto intro: old)
qed

lemma PollPoller_new_law:
  assumes inv: "PollPoller_inv (h, p)" and c: "h a = Some c" "valid_channel c"
    and reg: "poll_reg p (ch_fd c) = None"
    and h': "h' = h(a := Some (set_index (cast_int32 (int (length (pollfds p @ [fresh_slot c]))) - 1) c))"
    and p': "p' = p\<lparr>pollfds := pollfds p @ [fresh_slot c], po_channels := om_update (ch_fd c) a (po_channels p)\<rparr>"
  shows "PollPoller_inv (h', p')"
    and "PollPoller_interest p' = (PollPoller_interest p)(ch_fd c := ch_events c)"
proof -
  note view = slot_for_view [OF c(2)]
  have fresh: "ch_fd c \<notin> slot_fd ` set (pollfds p)"
    using PollPoller_invD(3) [OF inv] reg by (fastforce simp: in_set_conv_nth)
  then have dist: "distinct (map slot_fd (pollfds p'))"
    using slots_distinct [OF inv] view by (simp add: p')
  have "\<And>x. x \<in> set (map slot_fd (pollfds p')) \<Longrightarrow> valid_fd x"
    using slots_valid [OF inv] view c(2) by (auto simp: p' valid_channel_def)
  from valid_fds_bound [OF dist this] have "length (pollfds p @ [fresh_slot c]) \<le> 2 ^ 31 - 1"
    by (simp add: p')
  from cast_int32_length [OF this] have idx: "h' = h(a := Some (set_index (int (length (pollfds p))) c))"
    by (simp add: h')
  have other: "b \<noteq> a" if "poll_reg p fd = Some b" for fd b
    using PollPoller_invD(2) [OF inv that] c(1) reg that by force
  have reg': "poll_reg p' = (poll_reg p)(ch_fd c \<mapsto> a)" by (simp add: p' poll_reg_def om_lookup_update)
  have fds': "pollfds p' = pollfds p @ [fresh_slot c]" by (simp add: p')
  show "PollPoller_inv (h', p')"
  proof (rule PollPoller_invI)
    fix fd b assume b: "poll_reg p' fd = Some b"
    show "valid_fd fd \<and> (\<exists>d i. h' b = Some d \<and> ch_fd d = fd \<and> ch_index d = int i \<and>
        i < length (pollfds p') \<and> slot_fd (pollfds p' ! i) = fd)"
    proof (cases "fd = ch_fd c")
      case True
      then show ?thesis using b c(2) view by (simp add: reg' idx fds' valid_channel_def)
    next
      case False
      with b reg' have old: "poll_reg p fd = Some b" by simp
      from PollPoller_invD(1,2) [OF inv old] other [OF old] show ?thesis
        by (auto simp: idx fds' nth_append)
    qed
  next
    fix i assume i: "i < length (pollfds p')"
    show "\<exists>b d. poll_reg p' (slot_fd (pollfds p' ! i)) = Some b \<and> h' b = Some d \<and> ch_index d = int i"
    proof (cases "i < length (pollfds p)")
      case True
      from PollPoller_invD(3) [OF inv True] obtain b d where
        b: "poll_reg p (slot_fd (pollfds p ! i)) = Some b" "h b = Some d" "ch_index d = int i" by blast
      with True other [OF b(1)] reg show ?thesis by (auto simp: reg' idx fds' nth_append)
    next
      case False
      with i have "i = length (pollfds p)" by (simp add: fds')
      then show ?thesis using view by (simp add: reg' idx fds')
    qed
  qed
  show "PollPoller_interest p' = (PollPoller_interest p)(ch_fd c := ch_events c)"
    using interest_changed [OF slots_distinct [OF inv] dist, of "ch_fd c" "Some (ch_events c)"]
      map_of_snoc_fresh [of "ch_fd c" "map (\<lambda>e. (slot_fd e, slot_events e)) (pollfds p)" "ch_events c"]
      fresh view c(2)
    by (simp add: fds' valid_channel_def valid_fd_def image_image)
qed

lemma PollPoller_old_law:
  assumes inv: "PollPoller_inv (h, p)" and c: "h a = Some c" "valid_channel c"
    and i: "ch_index c = int i" "i < length (pollfds p)" "slot_fd (pollfds p ! i) = ch_fd c"
    and p': "p' = p\<lparr>pollfds := (pollfds p)[i := slot_for c]\<rparr>"
  shows "PollPoller_inv (h, p')"
    and "PollPoller_interest p' = (PollPoller_interest p)(ch_fd c := ch_events c)"
proof -
  note view = slot_for_view [OF c(2)]
  have slots: "map slot_fd (pollfds p') = map slot_fd (pollfds p)"
    using i view by (auto simp: p' map_update list_update_id intro: list_update_same_conv [THEN iffD2])
  then have same: "slot_fd (pollfds p' ! j) = slot_fd (pollfds p ! j)" if "j < length (pollfds p)" for j
    by (metis that length_map nth_map)
  have reg': "poll_reg p' = poll_reg p" "length (pollfds p') = length (pollfds p)"
    by (simp_all add: p' poll_reg_def)
  show "PollPoller_inv (h, p')"
    by (rule PollPoller_invI)
       (use PollPoller_invD [OF inv] same in \<open>auto simp: reg' simp del: nth_list_update, metis+\<close>)
  show "PollPoller_interest p' = (PollPoller_interest p)(ch_fd c := ch_events c)"
    using interest_changed [OF slots_distinct [OF inv], of p' "ch_fd c" "Some (ch_events c)"]
      map_of_slot_update [of "map (\<lambda>e. (slot_fd e, slot_events e)) (pollfds p)" i "ch_fd c" "ch_events c"]
      slots_distinct [OF inv] slots view c(2) i
    by (auto simp: p' valid_channel_def valid_fd_def map_update o_def)
qed

lemma PollPoller_upd_law:
  assumes inv: "PollPoller_inv (h, p)" and c: "h a = Some c" "valid_channel c"
    and upd: "PollPoller_updateChannel tid a (h, p) = Inr (h', p')"
  shows "PollPoller_inv (h', p') \<and> same_but_index h h' \<and>
      (poll_reg p (ch_fd c) = None \<or> poll_reg p (ch_fd c) = Some a) \<and>
      poll_reg p' = (poll_reg p)(ch_fd c \<mapsto> a) \<and>
      PollPoller_interest p' = (PollPoller_interest p)(ch_fd c := ch_events c)"
  using inv c(1) upd
proof (cases rule: PollPoller_update_cases)
  case new
  from PollPoller_new_law [OF inv c new(2-4)] new c show ?thesis
    by (simp add: poll_reg_def om_lookup_update)
next
  case (old i)
  then have "poll_reg p' = (poll_reg p)(ch_fd c \<mapsto> a)" by (auto simp: poll_reg_def)
  with PollPoller_old_law [OF inv c old(1,3,4,6)] old show ?thesis by simp
qed

lemma PollPoller_remove_effect:
  assumes inv: "PollPoller_inv (h, p)" and c: "h a = Some c"
    and rem: "PollPoller_removeChannel tid a (h, p) = Inr (h', p')"
  obtains i where "ch_index c = int i" "poll_reg p (ch_fd c) = Some a" "i < length (pollfds p)"
      "slot_fd (pollfds p ! i) = ch_fd c"
      "p' = p\<lparr>po_channels := om_erase (ch_fd c) (po_channels p), pollfds := swap_delete i (pollfds p)\<rparr>"
      "i = length (pollfds p) - 1 \<Longrightarrow> h' = h"
      "i \<noteq> length (pollfds p) - 1 \<Longrightarrow> \<exists>b d. poll_reg p' (slot_fd (last (pollfds p))) = Some b \<and>
         h b = Some d \<and> h' = h(b := Some (set_index (int i) d))"
proof -
  from rem c have reg: "poll_reg p (ch_fd c) = Some a"
    by (auto simp: PollPoller_removeChannel_def po_assertInLoopThread_def require_Inr_iff
        poll_reg_def Let_def split: if_splits)
  from PollPoller_invD(2) [OF inv reg] c obtain i where
    i: "ch_index c = int i" "i < length (pollfds p)" "slot_fd (pollfds p ! i) = ch_fd c" by auto
  let ?q = "p\<lparr>po_channels := om_erase (ch_fd c) (po_channels p), pollfds := swap_delete i (pollfds p)\<rparr>"
  show ?thesis
  proof (cases "i = length (pollfds p) - 1")
    case True
    with i(2) have "swap_delete i (pollfds p) = butlast (pollfds p)" by (intro swap_delete_last) auto
    with rem c i True have "p' = ?q" "h' = h"
      by (auto simp: PollPoller_removeChannel_def po_assertInLoopThread_def require_Inr_iff Let_def
          split: if_splits)
    with i reg True show ?thesis by (intro that [of i]) auto
  next
    case False
    have last: "(if pfd_fd (last (pollfds p)) < 0 then - pfd_fd (last (pollfds p)) - 1
        else pfd_fd (last (pollfds p))) = slot_fd (last (pollfds p))" by (simp add: slot_fd_def)
    from rem c i False obtain b d where "p' = ?q"
      "om_lookup (om_erase (ch_fd c) (po_channels p)) (slot_fd (last (pollfds p))) = Some b"
      "h b = Some d" "h' = h(b := Some (set_index (int i) d))"
      by (auto simp: PollPoller_removeChannel_def po_assertInLoopThread_def require_Inr_iff Let_def
          last swap_delete_swapped [simplified] rbind_Inr_iff modify_Inr_iff simp del: fun_upd_apply
          split: if_splits option.splits)
    with i reg False show ?thesis by (intro that [of i]) (auto simp: poll_reg_def)
  qed
qed

text \<open>The channel whose slot was moved, and only that one, gets the index of the freed slot.\<close>

lemma PollPoller_moved_index:
  assumes inv: "PollPoller_inv (h, p)" and i: "i < length (pollfds p)" "slot_fd (pollfds p ! i) = fd0"
    and n: "n = length (pollfds p) - 1"
    and same: "i = n \<Longrightarrow> h' = h"
    and moved: "i \<noteq> n \<Longrightarrow> \<exists>b d. ((poll_reg p)(fd0 := None)) (slot_fd (last (pollfds p))) = Some b \<and>
      h b = Some d \<and> h' = h(b := Some (set_index (int i) d))"
    and b: "poll_reg p fd = Some b" "h b = Some d" "ch_index d = int j"
  shows "h' b = Some (if i \<noteq> n \<and> j = n then set_index (int i) d else d)"
proof (cases "i = n")
  case True
  then show ?thesis using same b by simp
next
  case False
  have ne: "pollfds p \<noteq> []" using i by auto
  from moved [OF False] obtain b' d' where b': "poll_reg p (slot_fd (pollfds p ! n)) = Some b'"
    "h b' = Some d'" "h' = h(b' := Some (set_index (int i) d'))"
    using ne by (auto simp: last_conv_nth n split: if_splits)
  have "n < length (pollfds p)" using ne by (simp add: n)
  from PollPoller_invD(3) [OF inv this] b'(1,2) have idx': "ch_index d' = int n" by auto
  from PollPoller_invD(2) [OF inv b(1)] b have j: "slot_fd (pollfds p ! j) = fd" by auto
  have "b = b' \<longleftrightarrow> j = n" using j b b' idx' by auto
  then show ?thesis using False b b' by auto
qed

lemma PollPoller_removed_inv:
  assumes inv: "PollPoller_inv (h, p)" and i: "i < length (pollfds p)" "slot_fd (pollfds p ! i) = fd0"
    and p': "poll_reg p' = (poll_reg p)(fd0 := None)" "pollfds p' = swap_delete i (pollfds p)"
    and index': "\<And>fd b d j. poll_reg p fd = Some b \<Longrightarrow> h b = Some d \<Longrightarrow> ch_index d = int j \<Longrightarrow>
      h' b = Some (if i \<noteq> length (pollfds p) - 1 \<and> j = length (pollfds p) - 1 then set_index (int i) d else d)"
  shows "PollPoller_inv (h', p')"
proof (rule PollPoller_invI)
  let ?fds = "pollfds p" and ?n = "length (pollfds p) - 1"
  have slot': "slot_fd (pollfds p' ! j) = slot_fd (?fds ! (if j = i then ?n else j))" if "j < ?n" for j
    using that by (simp add: p' nth_swap_delete)
  fix fd b assume "poll_reg p' fd = Some b"
  with p' have b: "poll_reg p fd = Some b" "fd \<noteq> fd0" by (auto split: if_splits)
  from PollPoller_invD(2) [OF inv b(1)] obtain d j where
    d: "h b = Some d" "ch_fd d = fd" "ch_index d = int j" "j < length ?fds" "slot_fd (?fds ! j) = fd" by blast
  from d(5) b(2) i have ji: "j \<noteq> i" by auto
  define k where "k = (if j = ?n then i else j)"
  have "k < ?n" using d(4) ji i by (auto simp: k_def)
  with index' [OF b(1) d(1,3)] ji d slot' [of k] have
    "\<exists>d. h' b = Some d \<and> ch_fd d = fd \<and> ch_index d = int k \<and> slot_fd (pollfds p' ! k) = fd"
    by (cases "j = ?n") (auto simp: k_def)
  with \<open>k < ?n\<close> show "valid_fd fd \<and> (\<exists>d j. h' b = Some d \<and> ch_fd d = fd \<and> ch_index d = int j \<and>
      j < length (pollfds p') \<and> slot_fd (pollfds p' ! j) = fd)"
    using PollPoller_invD(1) [OF inv b(1)] by (auto simp: p')
next
  let ?fds = "pollfds p" and ?n = "length (pollfds p) - 1"
  fix j assume "j < length (pollfds p')"
  then have j: "j < ?n" by (simp add: p')
  define k where "k = (if j = i then ?n else j)"
  have k: "k < length ?fds" "k \<noteq> i" using j by (auto simp: k_def)
  have slot': "slot_fd (pollfds p' ! j) = slot_fd (?fds ! k)"
    using j by (simp add: p' nth_swap_delete k_def)
  from PollPoller_invD(3) [OF inv k(1)] obtain b d where
    b: "poll_reg p (slot_fd (?fds ! k)) = Some b" "h b = Some d" "ch_index d = int k" by blast
  have "slot_fd (?fds ! k) \<noteq> fd0"
    using slots_distinct [OF inv] k i nth_eq_iff_index_eq [of "map slot_fd ?fds" k i] by auto
  with b slot' index' [OF b] j show
    "\<exists>b d. poll_reg p' (slot_fd (pollfds p' ! j)) = Some b \<and> h' b = Some d \<and> ch_index d = int j"
    by (auto simp: p' k_def split: if_splits)
qed

lemma PollPoller_rem_law:
  assumes inv: "PollPoller_inv (h, p)" and c: "h a = Some c" "valid_channel c"
    and rem: "PollPoller_removeChannel tid a (h, p) = Inr (h', p')"
  shows "PollPoller_inv (h', p') \<and> same_but_index h h' \<and> poll_reg p (ch_fd c) = Some a \<and>
      poll_reg p' = (poll_reg p)(ch_fd c := None) \<and>
      PollPoller_interest p' = (PollPoller_interest p)(ch_fd c := 0)"
  using inv c(1) rem
proof (cases rule: PollPoller_remove_effect)
  case (1 i)
  let ?slots = "map (\<lambda>e. (slot_fd e, slot_events e)) (pollfds p)"
  have p': "poll_reg p' = (poll_reg p)(ch_fd c := None)" "pollfds p' = swap_delete i (pollfds p)"
    by (simp_all add: 1(5) poll_reg_def om_lookup_erase)
  have ne: "pollfds p \<noteq> []" using 1(3) by auto
  have inv': "PollPoller_inv (h', p')"
    by (rule PollPoller_removed_inv [OF inv 1(3,4) p'],
        rule PollPoller_moved_index [OF inv 1(3,4) refl 1(6) 1(7) [unfolded p']])
  have "map_of (map (\<lambda>e. (slot_fd e, slot_events e)) (pollfds p')) = (map_of ?slots)(ch_fd c := None)"
    using map_of_swap_delete [of ?slots i] slots_distinct [OF inv] 1(3,4) ne
    by (simp add: p' map_swap_delete o_def)
  from interest_changed [OF slots_distinct [OF inv] slots_distinct [OF inv'] _ this] c(2)
  have "PollPoller_interest p' = (PollPoller_interest p)(ch_fd c := 0)"
    by (simp add: valid_channel_def valid_fd_def)
  moreover have "same_but_index h h'"
    using 1(6,7) by (cases "i = length (pollfds p) - 1") auto
  ultimately show ?thesis using inv' p' 1(2) by simp
qed

lemma PollPoller_frame:
  assumes inv: "PollPoller_inv (h, p)" and same: "same_keys (poll_reg p) h h'"
  shows "PollPoller_inv (h', p)"
proof (rule PollPoller_invI)
  have keys: "\<exists>c'. h' a = Some c' \<and> ch_fd c' = ch_fd c \<and> ch_index c' = ch_index c"
    if "poll_reg p fd = Some a" "h a = Some c" for fd a c
    using same that by (auto simp: same_keys_def dest!: spec)
  fix fd a assume a: "poll_reg p fd = Some a"
  from PollPoller_invD(1,2) [OF inv a] keys [OF a] show "valid_fd fd \<and> (\<exists>c i. h' a = Some c \<and>
      ch_fd c = fd \<and> ch_index c = int i \<and> i < length (pollfds p) \<and> slot_fd (pollfds p ! i) = fd)"
    by fastforce
next
  fix i assume "i < length (pollfds p)"
  from PollPoller_invD(3) [OF inv this] obtain a c where
    "poll_reg p (slot_fd (pollfds p ! i)) = Some a" "h a = Some c" "ch_index c = int i" by blast
  with same show "\<exists>a c. poll_reg p (slot_fd (pollfds p ! i)) = Some a \<and> h' a = Some c \<and> ch_index c = int i"
    by (force simp: same_keys_def dest!: spec)
qed

lemma hasChannel_law:
  "h a = Some c \<Longrightarrow> Poller_hasChannel tid a (h, p) = Inr b \<Longrightarrow> b \<longleftrightarrow> poll_reg p (ch_fd c) = Some a"
  by (auto simp: Poller_hasChannel_def po_assertInLoopThread_def poll_reg_def split: if_splits)

interpretation pp: poller "PollPoller_updateChannel tid" "PollPoller_removeChannel tid"
  "Poller_hasChannel tid" poll_reg PollPoller_interest PollPoller_inv for tid
proof unfold_locales
  show "PollPoller_inv (h', p)"
    if "PollPoller_inv (h, p)" "same_keys (poll_reg p) h h'" for h h' :: "'cb chans" and p
    using that by (rule PollPoller_frame)
  show "\<exists>c. h a = Some c \<and> ch_fd c = fd"
    if "PollPoller_inv (h, p)" "poll_reg p fd = Some a" for h :: "'cb chans" and p fd a
    using PollPoller_invD(2) [OF that] by blast
qed (rule PollPoller_upd_law PollPoller_rem_law hasChannel_law; assumption)+

section \<open>EPollPoller\<close>

text \<open>
  The documented behaviour of \<^verbatim>\<open>epoll_ctl\<close>: \<open>watched\<close> is the interest list. Adding a descriptor
  that is not in the list, and changing or deleting one that is, succeed and do just that.
\<close>

definition epoll_ctl_documented :: "'k epoll_ctl \<Rightarrow> ('k \<Rightarrow> int \<Rightarrow> epoll_event option) \<Rightarrow> bool" where
  "epoll_ctl_documented ctl watched \<longleftrightarrow>
     (\<forall>k fd ev. watched k fd = None \<longrightarrow>
        (\<exists>k'. ctl EPOLL_CTL_ADD fd ev k = (k', True) \<and> watched k' = (watched k)(fd \<mapsto> ev))) \<and>
     (\<forall>k fd ev. watched k fd \<noteq> None \<longrightarrow>
        (\<exists>k'. ctl EPOLL_CTL_MOD fd ev k = (k', True) \<and> watched k' = (watched k)(fd \<mapsto> ev))) \<and>
     (\<forall>k fd ev. watched k fd \<noteq> None \<longrightarrow>
        (\<exists>k'. ctl EPOLL_CTL_DEL fd ev k = (k', True) \<and> watched k' = (watched k)(fd := None)))"

definition EPollPoller_interest :: "('k \<Rightarrow> int \<Rightarrow> epoll_event option) \<Rightarrow> 'k EPollPoller \<Rightarrow> int \<Rightarrow> 32 word" where
  "EPollPoller_interest watched p fd =
     (case watched (ep_kernel p) fd of None \<Rightarrow> 0 | Some ev \<Rightarrow> ev_events ev)"

text \<open>
  A registered channel's index says whether its descriptor is in the kernel's list, which then
  points back to the channel; no other descriptor is in the list.
\<close>

definition EPollPoller_inv ::
  "'k epoll_ctl \<Rightarrow> ('k \<Rightarrow> int \<Rightarrow> epoll_event option) \<Rightarrow> ('cb, 'k EPollPoller) world \<Rightarrow> bool" where
  "EPollPoller_inv ctl watched w \<longleftrightarrow> epoll_ctl_documented ctl watched \<and>
     (\<forall>fd a. poll_reg (snd w) fd = Some a \<longrightarrow>
        (\<exists>c. fst w a = Some c \<and> ch_fd c = fd \<and>
           (ch_index c = kAdded \<and> (\<exists>ev. watched (ep_kernel (snd w)) fd = Some ev \<and> ev_ptr ev = a) \<or>
            ch_index c = kDeleted \<and> watched (ep_kernel (snd w)) fd = None))) \<and>
     (\<forall>fd. poll_reg (snd w) fd = None \<longrightarrow> watched (ep_kernel (snd w)) fd = None)"

lemma EPollPoller_invD:
  assumes "EPollPoller_inv ctl watched (h, p)"
  shows "epoll_ctl_documented ctl watched"
    and "poll_reg p fd = Some a \<Longrightarrow> \<exists>c. h a = Some c \<and> ch_fd c = fd \<and>
      (ch_index c = kAdded \<and> (\<exists>ev. watched (ep_kernel p) fd = Some ev \<and> ev_ptr ev = a) \<or>
       ch_index c = kDeleted \<and> watched (ep_kernel p) fd = None)"
    and "poll_reg p fd = None \<Longrightarrow> watched (ep_kernel p) fd = None"
  using assms unfolding EPollPoller_inv_def fst_conv snd_conv by blast+

lemma EPollPoller_invI:
  assumes "epoll_ctl_documented ctl watched"
    and "\<And>fd a. poll_reg p fd = Some a \<Longrightarrow> \<exists>c. h a = Some c \<and> ch_fd c = fd \<and>
      (ch_index c = kAdded \<and> (\<exists>ev. watched (ep_kernel p) fd = Some ev \<and> ev_ptr ev = a) \<or>
       ch_index c = kDeleted \<and> watched (ep_kernel p) fd = None)"
    and "\<And>fd. poll_reg p fd = None \<Longrightarrow> watched (ep_kernel p) fd = None"
  shows "EPollPoller_inv ctl watched (h, p)"
  using assms unfolding EPollPoller_inv_def fst_conv snd_conv by blast

text \<open>Each of the three operations succeeds where its precondition holds.\<close>

lemma EPollPoller_update_ok:
  assumes "epoll_ctl_documented ctl watched"
    and "(watched (ep_kernel p) (ch_fd c) = None) = (operation = EPOLL_CTL_ADD)"
  shows "\<exists>k. EPollPoller_update ctl operation c a p = Inr (p\<lparr>ep_kernel := k\<rparr>) \<and>
    watched k = (watched (ep_kernel p))(ch_fd c :=
      (if operation = EPOLL_CTL_DEL then None else Some \<lparr>ev_events = ch_events c, ev_ptr = a\<rparr>))"
proof -
  let ?ev = "\<lparr>ev_events = ch_events c, ev_ptr = a\<rparr>"
  have "\<exists>k. ctl operation (ch_fd c) ?ev (ep_kernel p) = (k, True) \<and> watched k = (watched (ep_kernel p))
      (ch_fd c := (if operation = EPOLL_CTL_DEL then None else Some ?ev))"
    using assms by (cases operation) (simp_all add: epoll_ctl_documented_def)
  then show ?thesis by (auto simp: EPollPoller_update_def)
qed

lemmas index_values = kNew_def kAdded_def kDeleted_def

text \<open>When \<^verbatim>\<open>updateChannel\<close> and \<^verbatim>\<open>removeChannel\<close> do not abort.\<close>

definition ep_accepts_update :: "nat \<Rightarrow> 'k EPollPoller \<Rightarrow> addr \<Rightarrow> 'cb Channel \<Rightarrow> bool" where
  "ep_accepts_update tid p a c \<longleftrightarrow> po_thread p = tid \<and>
     (ch_index c = kNew \<and> poll_reg p (ch_fd c) = None \<or>
      (ch_index c = kAdded \<or> ch_index c = kDeleted) \<and> poll_reg p (ch_fd c) = Some a)"

definition ep_accepts_remove :: "nat \<Rightarrow> 'k EPollPoller \<Rightarrow> addr \<Rightarrow> 'cb Channel \<Rightarrow> bool" where
  "ep_accepts_remove tid p a c \<longleftrightarrow> po_thread p = tid \<and>
     (ch_index c = kAdded \<or> ch_index c = kDeleted) \<and> poll_reg p (ch_fd c) = Some a \<and> isNoneEvent c"

lemma EPollPoller_update_result:
  assumes inv: "EPollPoller_inv ctl watched (h, p)" and c: "h a = Some c"
    and acc: "ep_accepts_update tid p a c"
  defines "idx \<equiv> (if ch_index c = kAdded \<and> isNoneEvent c then kDeleted else kAdded)"
  shows "\<exists>p'. EPollPoller_updateChannel ctl tid a (h, p) = Inr (h(a := Some (set_index idx c)), p') \<and>
    po_thread p' = tid \<and> poll_reg p' = (poll_reg p)(ch_fd c \<mapsto> a) \<and>
    watched (ep_kernel p') = (watched (ep_kernel p))(ch_fd c :=
      (if idx = kDeleted then None else Some \<lparr>ev_events = ch_events c, ev_ptr = a\<rparr>))"
proof -
  note doc = EPollPoller_invD(1) [OF inv]
  have tid: "po_thread p = tid" using acc by (simp add: ep_accepts_update_def)
  consider (new) "ch_index c = kNew" "poll_reg p (ch_fd c) = None"
    | (deleted) "ch_index c = kDeleted" "poll_reg p (ch_fd c) = Some a"
    | (added) "ch_index c = kAdded" "poll_reg p (ch_fd c) = Some a"
    using acc by (auto simp: ep_accepts_update_def)
  then show ?thesis
  proof cases
    case new
    let ?p = "p\<lparr>po_channels := om_update (ch_fd c) a (po_channels p)\<rparr>"
    have "watched (ep_kernel ?p) (ch_fd c) = None" using EPollPoller_invD(3) [OF inv new(2)] by simp
    with EPollPoller_update_ok [OF doc, of ?p c EPOLL_CTL_ADD a] new tid c show ?thesis
      by (auto simp: EPollPoller_updateChannel_def po_assertInLoopThread_def idx_def poll_reg_def
          om_lookup_update index_values Let_def)
  next
    case deleted
    then have "watched (ep_kernel p) (ch_fd c) = None"
      using EPollPoller_invD(2) [OF inv deleted(2)] c by (auto simp: index_values)
    with EPollPoller_update_ok [OF doc, of p c EPOLL_CTL_ADD a] deleted tid c show ?thesis
      by (auto simp: EPollPoller_updateChannel_def po_assertInLoopThread_def idx_def poll_reg_def
          index_values Let_def fun_upd_idem)
  next
    case added
    then have "watched (ep_kernel p) (ch_fd c) \<noteq> None"
      using EPollPoller_invD(2) [OF inv added(2)] c by (auto simp: index_values)
    moreover have "set_index kAdded c = c" using added by (simp add: set_index_def)
    ultimately show ?thesis
      using EPollPoller_update_ok [OF doc, of p c EPOLL_CTL_DEL a]
        EPollPoller_update_ok [OF doc, of p c EPOLL_CTL_MOD a] added tid c
      by (auto simp: EPollPoller_updateChannel_def po_assertInLoopThread_def idx_def poll_reg_def
          index_values Let_def fun_upd_idem)
  qed
qed

lemma EPollPoller_update_accepted:
  assumes "h a = Some c" "EPollPoller_updateChannel ctl tid a (h, p) = Inr w"
  shows "ep_accepts_update tid p a c"
  using assms
  by (auto simp: EPollPoller_updateChannel_def po_assertInLoopThread_def ep_accepts_update_def
      rbind_Inr_iff require_Inr_iff poll_reg_def Let_def split: if_splits)

lemma EPollPoller_remove_result:
  assumes inv: "EPollPoller_inv ctl watched (h, p)" and c: "h a = Some c"
    and acc: "ep_accepts_remove tid p a c"
  shows "\<exists>p'. EPollPoller_removeChannel ctl tid a (h, p) = Inr (h(a := Some (set_index kNew c)), p') \<and>
    po_thread p' = tid \<and> poll_reg p' = (poll_reg p)(ch_fd c := None) \<and>
    watched (ep_kernel p') = (watched (ep_kernel p))(ch_fd c := None)"
proof -
  note doc = EPollPoller_invD(1) [OF inv]
  have reg: "poll_reg p (ch_fd c) = Some a" using acc by (simp add: ep_accepts_remove_def)
  let ?p = "p\<lparr>po_channels := om_erase (ch_fd c) (po_channels p)\<rparr>"
  from EPollPoller_invD(2) [OF inv reg] c acc show ?thesis
    using EPollPoller_update_ok [OF doc, of ?p c EPOLL_CTL_DEL a]
    by (auto simp: EPollPoller_removeChannel_def po_assertInLoopThread_def ep_accepts_remove_def
        poll_reg_def om_lookup_erase index_values Let_def)
qed

lemma EPollPoller_remove_accepted:
  assumes "h a = Some c" "EPollPoller_removeChannel ctl tid a (h, p) = Inr w"
  shows "ep_accepts_remove tid p a c"
  using assms
  by (auto simp: EPollPoller_removeChannel_def po_assertInLoopThread_def ep_accepts_remove_def
      rbind_Inr_iff require_Inr_iff poll_reg_def Let_def split: if_splits)

lemma EPollPoller_inv_changed:
  assumes inv: "EPollPoller_inv ctl watched (h, p)" and c: "h a = Some c"
    and reg: "poll_reg p' = (poll_reg p)(ch_fd c := r)" "poll_reg p (ch_fd c) = None \<or> poll_reg p (ch_fd c) = Some a"
    and w: "watched (ep_kernel p') = (watched (ep_kernel p))(ch_fd c := v)"
    and cases: "r = None \<and> v = None \<or> r = Some a \<and> idx = kDeleted \<and> v = None \<or>
      r = Some a \<and> idx = kAdded \<and> (\<exists>ev. v = Some ev \<and> ev_ptr ev = a)"
  shows "EPollPoller_inv ctl watched (h(a := Some (set_index idx c)), p')"
proof (rule EPollPoller_invI)
  show "epoll_ctl_documented ctl watched" by (rule EPollPoller_invD(1) [OF inv])
  fix fd b assume b: "poll_reg p' fd = Some b"
  show "\<exists>d. (h(a := Some (set_index idx c))) b = Some d \<and> ch_fd d = fd \<and>
      (ch_index d = kAdded \<and> (\<exists>ev. watched (ep_kernel p') fd = Some ev \<and> ev_ptr ev = b) \<or>
       ch_index d = kDeleted \<and> watched (ep_kernel p') fd = None)"
  proof (cases "fd = ch_fd c")
    case True
    then show ?thesis using b reg cases w by auto
  next
    case False
    with b reg have old: "poll_reg p fd = Some b" by simp
    with EPollPoller_invD(2) [OF inv old] c False have "b \<noteq> a" by auto
    with EPollPoller_invD(2) [OF inv old] False w show ?thesis by auto
  qed
next
  fix fd assume "poll_reg p' fd = None"
  then show "watched (ep_kernel p') fd = None"
    using EPollPoller_invD(3) [OF inv] reg cases w by (auto split: if_splits)
qed

lemma EPollPoller_upd_law:
  assumes inv: "EPollPoller_inv ctl watched (h, p)" and c: "h a = Some c"
    and upd: "EPollPoller_updateChannel ctl tid a (h, p) = Inr (h', p')"
  shows "EPollPoller_inv ctl watched (h', p') \<and> same_but_index h h' \<and>
      (poll_reg p (ch_fd c) = None \<or> poll_reg p (ch_fd c) = Some a) \<and>
      poll_reg p' = (poll_reg p)(ch_fd c \<mapsto> a) \<and>
      EPollPoller_interest watched p' = (EPollPoller_interest watched p)(ch_fd c := ch_events c)"
proof -
  define idx where "idx = (if ch_index c = kAdded \<and> isNoneEvent c then kDeleted else kAdded)"
  note acc = EPollPoller_update_accepted [OF c upd]
  from EPollPoller_update_result [OF inv c acc] upd have h': "h' = h(a := Some (set_index idx c))" and
    reg': "poll_reg p' = (poll_reg p)(ch_fd c \<mapsto> a)" and
    w': "watched (ep_kernel p') = (watched (ep_kernel p))(ch_fd c :=
      (if idx = kDeleted then None else Some \<lparr>ev_events = ch_events c, ev_ptr = a\<rparr>))"
    by (auto simp: idx_def)
  have free: "poll_reg p (ch_fd c) = None \<or> poll_reg p (ch_fd c) = Some a"
    using acc by (auto simp: ep_accepts_update_def)
  have "EPollPoller_inv ctl watched (h', p')"
    unfolding h' by (rule EPollPoller_inv_changed [OF inv c reg' free w']) (auto simp: idx_def index_values)
  moreover have "idx = kDeleted \<Longrightarrow> ch_events c = 0"
    by (auto simp: idx_def isNoneEvent_iff index_values split: if_splits)
  then have "EPollPoller_interest watched p' = (EPollPoller_interest watched p)(ch_fd c := ch_events c)"
    by (auto simp: EPollPoller_interest_def w' fun_eq_iff)
  ultimately show ?thesis using c free reg' by (simp add: h')
qed

lemma EPollPoller_rem_law:
  assumes inv: "EPollPoller_inv ctl watched (h, p)" and c: "h a = Some c"
    and rem: "EPollPoller_removeChannel ctl tid a (h, p) = Inr (h', p')"
  shows "EPollPoller_inv ctl watched (h', p') \<and> same_but_index h h' \<and> poll_reg p (ch_fd c) = Some a \<and>
      poll_reg p' = (poll_reg p)(ch_fd c := None) \<and>
      EPollPoller_interest watched p' = (EPollPoller_interest watched p)(ch_fd c := 0)"
proof -
  note acc = EPollPoller_remove_accepted [OF c rem]
  from EPollPoller_remove_result [OF inv c acc] rem have h': "h' = h(a := Some (set_index kNew c))" and
    reg': "poll_reg p' = (poll_reg p)(ch_fd c := None)" and
    w': "watched (ep_kernel p') = (watched (ep_kernel p))(ch_fd c := None)" by auto
  have reg: "poll_reg p (ch_fd c) = Some a" using acc by (simp add: ep_accepts_remove_def)
  have "EPollPoller_inv ctl watched (h', p')"
    unfolding h' by (rule EPollPoller_inv_changed [OF inv c reg' _ w']) (use reg in simp_all)
  moreover have "EPollPoller_interest watched p' = (EPollPoller_interest watched p)(ch_fd c := 0)"
    by (auto simp: EPollPoller_interest_def w' fun_eq_iff)
  ultimately show ?thesis using c reg reg' by (simp add: h')
qed

lemma EPollPoller_frame:
  assumes inv: "EPollPoller_inv ctl watched (h, p)" and same: "same_keys (poll_reg p) h h'"
  shows "EPollPoller_inv ctl watched (h', p)"
proof (rule EPollPoller_invI)
  fix fd a assume a: "poll_reg p fd = Some a"
  then have "\<exists>c'. h' a = Some c' \<and> ch_fd c' = ch_fd c \<and> ch_index c' = ch_index c" if "h a = Some c" for c
    using same that by (auto simp: same_keys_def dest!: spec)
  with EPollPoller_invD(2) [OF inv a] show "\<exists>c. h' a = Some c \<and> ch_fd c = fd \<and>
      (ch_index c = kAdded \<and> (\<exists>ev. watched (ep_kernel p) fd = Some ev \<and> ev_ptr ev = a) \<or>
       ch_index c = kDeleted \<and> watched (ep_kernel p) fd = None)" by force
qed (use EPollPoller_invD [OF inv] in auto)

interpretation ep: poller "EPollPoller_updateChannel ctl tid" "EPollPoller_removeChannel ctl tid"
  "Poller_hasChannel tid" poll_reg "EPollPoller_interest watched" "EPollPoller_inv ctl watched"
  for ctl :: "'k epoll_ctl" and watched and tid
proof unfold_locales
  show "EPollPoller_inv ctl watched (h', p)"
    if "EPollPoller_inv ctl watched (h, p)" "same_keys (poll_reg p) h h'" for h h' :: "'cb chans" and p
    using that by (rule EPollPoller_frame)
  show "\<exists>c. h a = Some c \<and> ch_fd c = fd"
    if "EPollPoller_inv ctl watched (h, p)" "poll_reg p fd = Some a" for h :: "'cb chans" and p fd a
    using EPollPoller_invD(2) [OF that] by blast
qed (rule EPollPoller_upd_law EPollPoller_rem_law hasChannel_law; assumption)+

end
