(* ===== verification/Pollers_Agree.thy ===== *)
theory Pollers_Agree
  imports Pollers_Correct
begin

text \<open>
  \<^verbatim>\<open>EPollPoller\<close> simulates \<^verbatim>\<open>PollPoller\<close>, the active channels that a poll reports, and the
  behaviours in which the two back ends differ.
\<close>

section \<open>The simulation\<close>

text \<open>
  The stores agree up to the index; the same channels are registered; a channel that is not
  registered is new to \<^verbatim>\<open>EPollPoller\<close>.
\<close>

definition linked :: "('cb, PollPoller) world \<Rightarrow> ('cb, 'k EPollPoller) world \<Rightarrow> bool" where
  "linked w v \<longleftrightarrow>
     same_but_index (fst w) (fst v) \<and> po_thread (snd v) = po_thread (snd w) \<and>
     poll_reg (snd v) = poll_reg (snd w) \<and>
     (\<forall>a c. fst v a = Some c \<longrightarrow> poll_reg (snd v) (ch_fd c) \<noteq> Some a \<longrightarrow> ch_index c = kNew)"

definition simulated ::
  "'k epoll_ctl \<Rightarrow> ('k \<Rightarrow> int \<Rightarrow> epoll_event option) \<Rightarrow>
   ('cb, PollPoller) world \<Rightarrow> ('cb, 'k EPollPoller) world \<Rightarrow> bool" where
  "simulated ctl watched w v \<longleftrightarrow>
     PollPoller_inv w \<and> registered_events poll_reg PollPoller_interest w \<and>
     EPollPoller_inv ctl watched v \<and> registered_events poll_reg (EPollPoller_interest watched) v \<and>
     linked w v"

lemma simulatedD:
  assumes "simulated ctl watched w v"
  shows "PollPoller_inv w" "registered_events poll_reg PollPoller_interest w"
    "EPollPoller_inv ctl watched v" "registered_events poll_reg (EPollPoller_interest watched) v" "linked w v"
  using assms by (simp_all add: simulated_def)

lemma same_but_index_modify:
  assumes "same_but_index h g" "h a = Some c" "g a = Some d" "\<And>i x. set_index i (f x) = f (set_index i x)"
  shows "same_but_index (h(a := Some (f c))) (g(a := Some (f d)))"
proof -
  have "set_index 0 d = set_index 0 c" using assms(1-3) by (simp add: same_but_index_def) (metis option.map(2) option.inject)
  then have "set_index 0 (f d) = set_index 0 (f c)" by (simp add: assms(4))
  then show ?thesis using assms(1) by (simp add: same_but_index_def)
qed

lemma linked_modify:
  assumes "linked (h, p) (g, e)" "h a = Some c" "g a = Some d"
    and "\<And>i x. set_index i (f x) = f (set_index i x)" "\<And>x. ch_fd (f x) = ch_fd x" "\<And>x. ch_index (f x) = ch_index x"
  shows "linked (h(a := Some (f c)), p) (g(a := Some (f d)), e)"
  using assms same_but_index_modify [of h g a c d f] by (simp add: linked_def)

lemma linked_partner:
  assumes "linked (h, p) (g, e)" "h a = Some c"
  obtains i where "g a = Some (set_index i c)"
  using same_but_index_Some [of h g a c] assms by (auto simp: linked_def)

lemma linked_update:
  assumes inv: "PollPoller_inv (h, p)" "EPollPoller_inv ctl watched (g, e)" and link: "linked (h, p) (g, e)"
    and c: "h a = Some c" "valid_channel c" and upd: "PollPoller_updateChannel tid a (h, p) = Inr (h', p')"
  shows "\<exists>g' e'. EPollPoller_updateChannel ctl tid a (g, e) = Inr (g', e') \<and> linked (h', p') (g', e')"
proof -
  obtain i where g: "g a = Some (set_index i c)" using linked_partner [OF link c(1)] .
  have tid: "po_thread p = tid" "po_thread p' = tid"
    using upd c by (auto simp: PollPoller_updateChannel_def po_assertInLoopThread_def require_Inr_iff Let_def
        split: if_splits)
  note law = PollPoller_upd_law [OF inv(1) c upd]
  have acc: "ep_accepts_update tid e a (set_index i c)"
    using law link g tid EPollPoller_invD(2) [OF inv(2), of "ch_fd c" a]
    by (force simp: ep_accepts_update_def linked_def)
  from EPollPoller_update_result [OF inv(2) g acc] obtain j e' where
    ep: "EPollPoller_updateChannel ctl tid a (g, e) = Inr (g(a := Some (set_index j (set_index i c))), e')"
    "po_thread e' = tid" "poll_reg e' = (poll_reg e)(ch_fd c \<mapsto> a)" by auto
  let ?g = "g(a := Some (set_index j (set_index i c)))"
  have "same_but_index g ?g" by (rule same_but_index_upd) (rule g)
  then have "same_but_index h' ?g"
    using law link unfolding linked_def fst_conv
    by (metis same_but_index_sym same_but_index_trans)
  moreover have "ch_index d = kNew" if "?g b = Some d" "poll_reg e' (ch_fd d) \<noteq> Some b" for b d
  proof -
    have "b \<noteq> a" using that ep(3) by auto
    moreover have "poll_reg e (ch_fd d) \<noteq> Some b"
      using that ep(3) law link \<open>b \<noteq> a\<close> by (auto simp: linked_def split: if_splits)
    ultimately show ?thesis using link that(1) by (auto simp: linked_def)
  qed
  ultimately have "linked (h', p') (?g, e')"
    using law link ep tid by (auto simp: linked_def)
  with ep show ?thesis by blast
qed

lemma linked_remove:
  assumes inv: "PollPoller_inv (h, p)" "EPollPoller_inv ctl watched (g, e)" and link: "linked (h, p) (g, e)"
    and c: "h a = Some c" "valid_channel c" and rem: "PollPoller_removeChannel tid a (h, p) = Inr (h', p')"
  shows "\<exists>g' e'. EPollPoller_removeChannel ctl tid a (g, e) = Inr (g', e') \<and> linked (h', p') (g', e')"
proof -
  obtain i where g: "g a = Some (set_index i c)" using linked_partner [OF link c(1)] .
  have tid: "po_thread p = tid" "po_thread p' = tid" "isNoneEvent c"
    using rem c by (auto simp: PollPoller_removeChannel_def po_assertInLoopThread_def require_Inr_iff Let_def
        rbind_Inr_iff split: if_splits option.splits)
  note law = PollPoller_rem_law [OF inv(1) c rem]
  have acc: "ep_accepts_remove tid e a (set_index i c)"
    using law link g tid EPollPoller_invD(2) [OF inv(2), of "ch_fd c" a]
    by (force simp: ep_accepts_remove_def linked_def isNoneEvent_iff)
  from EPollPoller_remove_result [OF inv(2) g acc] obtain e' where
    ep: "EPollPoller_removeChannel ctl tid a (g, e) = Inr (g(a := Some (set_index kNew (set_index i c))), e')"
    "po_thread e' = tid" "poll_reg e' = (poll_reg e)(ch_fd c := None)" by auto
  let ?g = "g(a := Some (set_index kNew (set_index i c)))"
  have "same_but_index g ?g" by (rule same_but_index_upd) (rule g)
  then have "same_but_index h' ?g"
    using law link unfolding linked_def fst_conv
    by (metis same_but_index_sym same_but_index_trans)
  moreover have "ch_index d = kNew" if "?g b = Some d" "poll_reg e' (ch_fd d) \<noteq> Some b" for b d
    using that ep(3) law link by (cases "b = a") (auto simp: linked_def split: if_splits)
  ultimately have "linked (h', p') (?g, e')"
    using law link ep tid by (auto simp: linked_def)
  with ep show ?thesis by blast
qed

text \<open>Each call that \<^verbatim>\<open>PollPoller\<close> accepts is accepted by \<^verbatim>\<open>EPollPoller\<close>.\<close>

lemma linked_change:
  fixes h :: "'cb chans"
  assumes sim: "simulated ctl watched (h, p) (g, e)"
    and f: "\<And>x. mask_events x \<Longrightarrow> mask_events (f x)"
    and step: "change_events f (PollPoller_updateChannel tid) a (h, p) = Inr w"
  shows "\<exists>v. change_events f (EPollPoller_updateChannel ctl tid) a (g, e) = Inr v \<and> linked w v"
proof -
  note sim = simulatedD [OF sim]
  obtain c where c: "h a = Some c"
    using step by (auto simp: change_events_def rbind_Inr_iff on_channel_Inr_iff)
  obtain i where g: "g a = Some (set_index i c)" using linked_partner [OF sim(5) c] .
  define F where "F = (\<lambda>c :: 'cb Channel. c\<lparr>ch_events := f (ch_events c), ch_addedToLoop := True\<rparr>)"
  have F: "set_index i (F x) = F (set_index i x)" "ch_fd (F x) = ch_fd x" "ch_index (F x) = ch_index x" for i x
    by (simp_all add: F_def set_index_def)
  obtain h' p' where w: "w = (h', p')" by (cases w)
  have upd: "PollPoller_updateChannel tid a (h(a := Some (F c)), p) = Inr (h', p')"
    using step c w by (simp add: change_events_Some F_def)
  have "PollPoller_inv (h(a := Some (F c)), p)"
    by (rule PollPoller_frame [OF sim(1)]) (use c in \<open>auto simp: same_keys_def F\<close>)
  moreover have "EPollPoller_inv ctl watched (g(a := Some (F (set_index i c))), e)"
    by (rule EPollPoller_frame [OF sim(3)]) (use g in \<open>auto simp: same_keys_def F\<close>)
  moreover have "linked (h(a := Some (F c)), p) (g(a := Some (F (set_index i c))), e)"
    by (rule linked_modify [OF sim(5)]) (use c g F in simp_all)
  moreover have "valid_channel (F c)"
    using registered_eventsD(1) [OF sim(2) c] f by (simp add: F_def valid_channel_def)
  ultimately obtain g' e' where
    "EPollPoller_updateChannel ctl tid a (g(a := Some (F (set_index i c))), e) = Inr (g', e')"
    "linked (h', p') (g', e')"
    using linked_update [OF _ _ _ _ _ upd] by (metis fun_upd_same)
  then show ?thesis using g w by (auto simp: change_events_Some F_def)
qed

lemma linked_remove_call:
  fixes h :: "'cb chans"
  assumes sim: "simulated ctl watched (h, p) (g, e)"
    and step: "Channel_remove (PollPoller_removeChannel tid) a (h, p) = Inr w"
  shows "\<exists>v. Channel_remove (EPollPoller_removeChannel ctl tid) a (g, e) = Inr v \<and> linked w v"
proof -
  note sim = simulatedD [OF sim]
  obtain c where c: "h a = Some c" and none: "isNoneEvent c"
    using step by (auto simp: Channel_remove_def rbind_Inr_iff deref_Inr_iff require_Inr_iff)
  obtain i where g: "g a = Some (set_index i c)" using linked_partner [OF sim(5) c] .
  define F where "F = (\<lambda>c :: 'cb Channel. c\<lparr>ch_addedToLoop := False\<rparr>)"
  have F: "set_index i (F x) = F (set_index i x)" "ch_fd (F x) = ch_fd x" "ch_index (F x) = ch_index x" for i x
    by (simp_all add: F_def set_index_def)
  obtain h' p' where w: "w = (h', p')" by (cases w)
  have rem: "PollPoller_removeChannel tid a (h(a := Some (F c)), p) = Inr (h', p')"
    using step c w none by (simp add: Channel_remove_def F_def)
  have "PollPoller_inv (h(a := Some (F c)), p)"
    by (rule PollPoller_frame [OF sim(1)]) (use c in \<open>auto simp: same_keys_def F\<close>)
  moreover have "EPollPoller_inv ctl watched (g(a := Some (F (set_index i c))), e)"
    by (rule EPollPoller_frame [OF sim(3)]) (use g in \<open>auto simp: same_keys_def F\<close>)
  moreover have "linked (h(a := Some (F c)), p) (g(a := Some (F (set_index i c))), e)"
    by (rule linked_modify [OF sim(5)]) (use c g F in simp_all)
  moreover have "valid_channel (F c)"
    using registered_eventsD(1) [OF sim(2) c] by (simp add: F_def valid_channel_def)
  ultimately obtain g' e' where
    "EPollPoller_removeChannel ctl tid a (g(a := Some (F (set_index i c))), e) = Inr (g', e')"
    "linked (h', p') (g', e')"
    using linked_remove [OF _ _ _ _ _ rem] by (metis fun_upd_same)
  then show ?thesis using g w none by (auto simp: Channel_remove_def F_def isNoneEvent_iff)
qed

definition poll_step :: "nat \<Rightarrow> chan_op \<Rightarrow> ('cb, PollPoller) world \<Rightarrow> ('cb, PollPoller) world res" where
  "poll_step tid = chan_step (PollPoller_updateChannel tid) (PollPoller_removeChannel tid) (Poller_hasChannel tid)"

definition epoll_step ::
  "'k epoll_ctl \<Rightarrow> nat \<Rightarrow> chan_op \<Rightarrow> ('cb, 'k EPollPoller) world \<Rightarrow> ('cb, 'k EPollPoller) world res" where
  "epoll_step ctl tid =
     chan_step (EPollPoller_updateChannel ctl tid) (EPollPoller_removeChannel ctl tid) (Poller_hasChannel tid)"

lemma linked_None: "linked (h, p) (g, e) \<Longrightarrow> h a = None \<Longrightarrow> g a = None"
  by (auto simp: linked_def same_but_index_def dest!: spec [of _ a])

lemma linked_step:
  fixes w :: "('cb, PollPoller) world"
  assumes sim: "simulated ctl watched w v" and step: "poll_step tid q w = Inr w'"
  shows "\<exists>v'. epoll_step ctl tid q v = Inr v' \<and> linked w' v'"
proof -
  obtain h p g e where w: "w = (h, p)" and v: "v = (g, e)" by (cases w, cases v)
  note sim = sim [unfolded w v] and step = step [unfolded w poll_step_def]
  note link = simulatedD(5) [OF sim]
  note change = linked_change [OF sim mask_closed(1)] linked_change [OF sim mask_closed(2)]
    linked_change [OF sim mask_closed(3)] linked_change [OF sim mask_closed(4)]
    linked_change [OF sim mask_closed(5)]
  show ?thesis
  proof (cases q)
    case (Create a fd)
    with step have "h a = None" "w' = (h(a := Some (Channel_new 0 fd)), p)" by (auto split: if_splits)
    with linked_None [OF link] link Create show ?thesis
      by (auto simp: v epoll_step_def linked_def same_but_index_def Channel_new_def kNew_def)
  next
    case (Destroy a)
    with step obtain c where c: "h a = Some c" "\<not> ch_eventHandling c" "\<not> ch_addedToLoop c"
      "w' = (h(a := None), p)" "po_thread p = tid" "poll_reg p (ch_fd c) \<noteq> Some a"
      by (auto simp: Channel_destroy_def Poller_hasChannel_def po_assertInLoopThread_def poll_reg_def
          rbind_Inr_iff deref_Inr_iff require_Inr_iff split: if_splits)
    obtain i where "g a = Some (set_index i c)" using linked_partner [OF link c(1)] .
    with c link Destroy have "epoll_step ctl tid q v = Inr (g(a := None), e)"
      by (simp add: v epoll_step_def Channel_destroy_def Poller_hasChannel_def po_assertInLoopThread_def
          linked_def poll_reg_def)
    moreover have "linked w' (g(a := None), e)"
      using link c by (auto simp: linked_def same_but_index_def)
    ultimately show ?thesis by blast
  next
    case (Remove a)
    with linked_remove_call [OF sim] step show ?thesis by (simp add: v epoll_step_def)
  qed (use change step in \<open>simp_all add: v epoll_step_def enableReading_def disableReading_def
      enableWriting_def disableWriting_def disableAll_def\<close>)
qed

lemma simulated_step:
  assumes sim: "simulated ctl watched w v" and ok: "op_fd_ok q" and step: "poll_step tid q w = Inr w'"
  shows "\<exists>v'. epoll_step ctl tid q v = Inr v' \<and> simulated ctl watched w' v'"
proof -
  note S = simulatedD [OF sim]
  from linked_step [OF sim step] obtain v' where v': "epoll_step ctl tid q v = Inr v'" "linked w' v'" by blast
  from pp.step_keeps [OF S(1,2) ok step [unfolded poll_step_def]]
    ep.step_keeps [OF S(3,4) ok v'(1) [unfolded epoll_step_def]] v'
  show ?thesis by (auto simp: simulated_def)
qed

lemma simulated_run:
  assumes "simulated ctl watched w v" "list_all op_fd_ok qs" "rfold (poll_step tid) qs w = Inr w'"
  shows "\<exists>v'. rfold (epoll_step ctl tid) qs v = Inr v' \<and> simulated ctl watched w' v'"
  using assms
proof (induction qs arbitrary: w v)
  case (Cons q qs)
  then obtain w1 where w1: "poll_step tid q w = Inr w1" "rfold (poll_step tid) qs w1 = Inr w'"
    by (auto simp: rbind_Inr_iff)
  from simulated_step [OF Cons.prems(1) _ w1(1)] Cons.prems(2) obtain v1 where
    "epoll_step ctl tid q v = Inr v1" "simulated ctl watched w1 v1" by auto
  with Cons.IH [OF _ _ w1(2)] Cons.prems(2) show ?case by auto
qed simp

lemma simulated_initial:
  assumes "epoll_ctl_documented ctl watched" "watched k = Map.empty"
  shows "simulated ctl watched (\<lambda>_. None, PollPoller_new tid) (\<lambda>_. None, EPollPoller_new tid k)"
  using assms
  by (simp add: simulated_def PollPoller_inv_def registered_events_def EPollPoller_inv_def linked_def
      poll_reg_def PollPoller_new_def EPollPoller_new_def PollPoller_interest_def EPollPoller_interest_def
      same_but_index_def)

section \<open>Active channels\<close>

text \<open>Storing the reported events in the channels, in the order they are reported.\<close>

definition store_revents :: "(addr \<times> 32 word) list \<Rightarrow> 'cb chans \<Rightarrow> 'cb chans" where
  "store_revents rs h = fold (\<lambda>(a, r) h. h(a := map_option (set_revents r) (h a))) rs h"

text \<open>The channels of the slots with events, in the order of the vector.\<close>

definition poll_reported :: "(int, addr) omap \<Rightarrow> pollfd list \<Rightarrow> (addr \<times> 32 word) list" where
  "poll_reported chans fds =
     map (\<lambda>e. (the (om_lookup chans (pfd_fd e)), scast (pfd_revents e))) (filter (\<lambda>e. pfd_revents e \<noteq> 0) fds)"

lemma fill_reports:
  assumes "\<And>e. e \<in> set fds \<Longrightarrow> pfd_revents e \<noteq> 0 \<Longrightarrow> 0 < sint (pfd_revents e) \<and>
      (\<exists>a c. om_lookup chans (pfd_fd e) = Some a \<and> h a = Some c \<and> ch_fd c = pfd_fd e)"
    and "n = int (length (filter (\<lambda>e. pfd_revents e \<noteq> 0) fds))"
  shows "PollPoller_fillActiveChannels chans fds n h act =
    Inr (store_revents (poll_reported chans fds) h, act @ map fst (poll_reported chans fds))"
  using assms
proof (induction fds arbitrary: n h act)
  case Nil
  then show ?case by (simp add: store_revents_def poll_reported_def)
next
  case (Cons e fds)
  have later: "\<And>d. d \<in> set fds \<Longrightarrow> pfd_revents d \<noteq> 0 \<Longrightarrow> 0 < sint (pfd_revents d) \<and>
      (\<exists>a c. om_lookup chans (pfd_fd d) = Some a \<and> h a = Some c \<and> ch_fd c = pfd_fd d)"
    using Cons.prems(1) by simp
  show ?case
  proof (cases "pfd_revents e = 0")
    case True
    then have rep: "poll_reported chans (e # fds) = poll_reported chans fds"
      and n: "n = int (length (filter (\<lambda>e. pfd_revents e \<noteq> 0) fds))"
      using Cons.prems(2) by (simp_all add: poll_reported_def)
    have "\<not> 0 < n \<Longrightarrow> poll_reported chans fds = []" using n by (simp add: poll_reported_def)
    with Cons.IH [OF later n, of act] True rep show ?thesis by (auto simp: store_revents_def)
  next
    case False
    from Cons.prems(1) [of e] False obtain a c where e: "0 < sint (pfd_revents e)"
      "om_lookup chans (pfd_fd e) = Some a" "h a = Some c" "ch_fd c = pfd_fd e" by auto
    define h' where "h' = h(a := Some (set_revents (scast (pfd_revents e)) c))"
    have later': "0 < sint (pfd_revents d) \<and>
        (\<exists>b d'. om_lookup chans (pfd_fd d) = Some b \<and> h' b = Some d' \<and> ch_fd d' = pfd_fd d)"
      if "d \<in> set fds" "pfd_revents d \<noteq> 0" for d
      using later [OF that] e by (auto simp: h'_def set_revents_def)
    have n: "n - 1 = int (length (filter (\<lambda>e. pfd_revents e \<noteq> 0) fds))" "0 < n"
      using Cons.prems(2) False by simp_all
    from Cons.IH [OF later' n(1), of "act @ [a]"] n(2) False e show ?thesis
      by (simp add: poll_reported_def store_revents_def flip: h'_def)
  qed
qed

lemma count_stored:
  "length rs = length fds \<Longrightarrow>
   length (filter (\<lambda>e. pfd_revents e \<noteq> 0) (map2 (\<lambda>e r. e\<lparr>pfd_revents := r\<rparr>) fds rs)) =
     length (filter (\<lambda>r. r \<noteq> 0) rs)"
  by (induction rs fds rule: list_induct2) auto

lemma epoll_fill_reports:
  assumes "\<And>ev. ev \<in> set es \<Longrightarrow> \<exists>c. h (ev_ptr ev) = Some c \<and> om_lookup chans (ch_fd c) = Some (ev_ptr ev)"
  shows "EPollPoller_fillActiveChannels chans es h act =
    Inr (store_revents (map (\<lambda>ev. (ev_ptr ev, ev_events ev)) es) h, act @ map ev_ptr es)"
  using assms
proof (induction es arbitrary: h act)
  case Nil
  then show ?case by (simp add: store_revents_def)
next
  case (Cons e es)
  from Cons.prems [of e] obtain c where
    e: "h (ev_ptr e) = Some c" "om_lookup chans (ch_fd c) = Some (ev_ptr e)" by auto
  define h' where "h' = h(ev_ptr e := Some (set_revents (ev_events e) c))"
  have "\<exists>d. h' (ev_ptr ev) = Some d \<and> om_lookup chans (ch_fd d) = Some (ev_ptr ev)" if "ev \<in> set es" for ev
    using Cons.prems [of ev] that e by (auto simp: h'_def set_revents_def)
  from Cons.IH [OF this] e show ?case by (simp add: store_revents_def flip: h'_def)
qed

section \<open>Properties\<close>

text \<open>
  C7: whatever sequence of channel operations \<^verbatim>\<open>PollPoller\<close> carries out, from an empty poller,
  \<^verbatim>\<open>EPollPoller\<close> carries out too. Afterwards both have registered the same channels, and both ask
  the kernel for the same events: those of the channel for a registered descriptor, none for any
  other.
\<close>

theorem EPollPoller_simulates_PollPoller:
  fixes h :: "'cb chans"
  assumes "epoll_ctl_documented ctl watched" and "watched k = Map.empty" and "list_all op_fd_ok qs"
    and "rfold (poll_step tid) qs (\<lambda>_. None, PollPoller_new tid) = Inr (h, p)"
  shows "\<exists>(g :: 'cb chans) e. rfold (epoll_step ctl tid) qs (\<lambda>_. None, EPollPoller_new tid k) = Inr (g, e) \<and>
    poll_reg e = poll_reg p \<and> EPollPoller_interest watched e = PollPoller_interest p \<and>
    (\<forall>fd. PollPoller_interest p fd =
       (case poll_reg p fd of None \<Rightarrow> 0 | Some a \<Rightarrow> (case h a of None \<Rightarrow> 0 | Some c \<Rightarrow> ch_events c)))"
proof -
  from simulated_run [OF simulated_initial [OF assms(1,2)] assms(3,4)] obtain g e where
    run: "rfold (epoll_step ctl tid) qs (\<lambda>_. None, EPollPoller_new tid k) = Inr (g, e)"
    and sim: "simulated ctl watched (h, p) (g, e)" by auto
  note S = simulatedD [OF sim]
  have reg: "poll_reg e = poll_reg p" using S(5) by (simp add: linked_def)
  have P: "PollPoller_interest p fd =
      (case poll_reg p fd of None \<Rightarrow> 0 | Some a \<Rightarrow> (case h a of None \<Rightarrow> 0 | Some c \<Rightarrow> ch_events c))" for fd
    using registered_eventsD(2,4) [OF S(2), of fd] by (fastforce split: option.split)
  have "EPollPoller_interest watched e fd = PollPoller_interest p fd" for fd
  proof (cases "poll_reg p fd")
    case None
    then show ?thesis using registered_eventsD(4) [OF S(2)] registered_eventsD(4) [OF S(4)] reg by simp
  next
    case (Some a)
    from registered_eventsD(2) [OF S(2) Some] obtain c where
      c: "h a = Some c" "PollPoller_interest p fd = ch_events c" by blast
    obtain i where "g a = Some (set_index i c)" using linked_partner [OF S(5) c(1)] .
    with registered_eventsD(2) [OF S(4), of fd a] Some reg c show ?thesis by auto
  qed
  then have "EPollPoller_interest watched e = PollPoller_interest p" by (rule ext)
  with run reg P show ?thesis by blast
qed

text \<open>The instance: an interest list that does what the manual page says, and the life of two channels.\<close>

definition table_ctl :: "(int \<Rightarrow> epoll_event option) epoll_ctl" where
  "table_ctl operation fd ev k =
     (case operation of
        EPOLL_CTL_ADD \<Rightarrow> if k fd = None then (k(fd := Some ev), True) else (k, False)
      | EPOLL_CTL_MOD \<Rightarrow> if k fd = None then (k, False) else (k(fd := Some ev), True)
      | EPOLL_CTL_DEL \<Rightarrow> if k fd = None then (k, False) else (k(fd := None), True))"

definition sample_ops :: "chan_op list" where
  "sample_ops = [Create 1 5, Enable_reading 1, Create 2 6, Enable_reading 2, Enable_writing 2,
     Disable_all 1, Remove 1, Disable_reading 2, Destroy 1]"

lemma table_ctl_documented: "epoll_ctl_documented table_ctl (\<lambda>k. k)"
  by (auto simp: epoll_ctl_documented_def table_ctl_def)

lemma sample_ops_poll:
  "\<exists>h p. rfold (poll_step 0) sample_ops (\<lambda>_. None :: unit Channel option, PollPoller_new 0) = Inr (h, p) \<and>
     PollPoller_interest p 6 = 4 \<and> PollPoller_interest p 5 = 0"
  by (simp add: sample_ops_def poll_step_def PollPoller_new_def enableReading_def enableWriting_def
      disableAll_def disableReading_def change_events_def Channel_update_def Channel_remove_def Channel_destroy_def
      PollPoller_updateChannel_def PollPoller_removeChannel_def Poller_hasChannel_def po_assertInLoopThread_def
      Channel_new_def set_index_def isNoneEvent_def kNoneEvent_def kReadEvent_def kWriteEvent_def poll_bits
      cast_int32_def Let_def om_lookup_def om_erase_def PollPoller_interest_def)

theorem EPollPoller_simulates_PollPoller_witness:
  "\<exists>g e. rfold (epoll_step table_ctl 0) sample_ops (\<lambda>_. None :: unit Channel option, EPollPoller_new 0 Map.empty) = Inr (g, e) \<and>
     EPollPoller_interest (\<lambda>k. k) e 6 = 4 \<and> EPollPoller_interest (\<lambda>k. k) e 5 = 0"
proof -
  obtain h :: "unit chans" and p where run:
    "rfold (poll_step 0) sample_ops (\<lambda>_. None, PollPoller_new 0) = Inr (h, p)"
    "PollPoller_interest p 6 = 4" "PollPoller_interest p 5 = 0" using sample_ops_poll by blast
  have "list_all op_fd_ok sample_ops" by (simp add: sample_ops_def valid_fd_def)
  from EPollPoller_simulates_PollPoller [OF table_ctl_documented _ this run(1), of Map.empty] run(2,3)
  show ?thesis by auto
qed

text \<open>
  C21: when \<^verbatim>\<open>poll\<close> returns the number of descriptors with events and stores no events for the
  entries it ignores, \<^verbatim>\<open>PollPoller::poll\<close> reports exactly the channels of the entries with events,
  in the order of the vector, with the events stored in them. When the events \<^verbatim>\<open>epoll_wait\<close>
  returns are those of entries of its interest list, \<^verbatim>\<open>EPollPoller::poll\<close> reports exactly their
  channels, and doubles its array when it was filled. No assertion fails.
\<close>

theorem poll_reports_active_channels:
  fixes h :: "'cb chans" and g :: "'cb chans"
  assumes "PollPoller_inv (h, p)" and "length revents = length (pollfds p)"
    and "\<And>e r. (e, r) \<in> set (zip (pollfds p) revents) \<Longrightarrow> r \<noteq> 0 \<Longrightarrow> 0 \<le> pfd_fd e \<and> 0 < sint r"
    and "n = int (length (filter (\<lambda>r. r \<noteq> 0) revents))"
    and "EPollPoller_inv ctl watched (g, e)" and "length es \<le> ep_events_size e"
    and "\<And>ev. ev \<in> set es \<Longrightarrow> \<exists>fd reg. watched (ep_kernel e) fd = Some reg \<and> ev_ptr reg = ev_ptr ev"
  shows "(let p' = p\<lparr>pollfds := map2 (\<lambda>e r. e\<lparr>pfd_revents := r\<rparr>) (pollfds p) revents\<rparr>;
              rs = poll_reported (po_channels p) (pollfds p')
          in PollPoller_poll n revents [] (h, p) = Inr ((store_revents rs h, p'), map fst rs)) \<and>
    EPollPoller_poll (Some es) [] (g, e) =
      Inr ((store_revents (map (\<lambda>ev. (ev_ptr ev, ev_events ev)) es) g,
            if es \<noteq> [] \<and> length es = ep_events_size e then e\<lparr>ep_events_size := 2 * ep_events_size e\<rparr> else e),
           map ev_ptr es)"
proof -
  define fds where "fds = map2 (\<lambda>e r. e\<lparr>pfd_revents := r\<rparr>) (pollfds p) revents"
  have entry: "0 < sint (pfd_revents x) \<and>
      (\<exists>a c. om_lookup (po_channels p) (pfd_fd x) = Some a \<and> h a = Some c \<and> ch_fd c = pfd_fd x)"
    if "x \<in> set fds" "pfd_revents x \<noteq> 0" for x
  proof -
    from that obtain d r where d: "(d, r) \<in> set (zip (pollfds p) revents)" "x = d\<lparr>pfd_revents := r\<rparr>" "r \<noteq> 0"
      by (auto simp: fds_def)
    from assms(3) [OF d(1,3)] have "slot_fd d = pfd_fd d" "0 < sint r" by (auto simp: slot_fd_def)
    moreover from d(1) obtain i where "i < length (pollfds p)" "d = pollfds p ! i"
      by (auto simp: set_zip)
    ultimately show ?thesis
      using PollPoller_invD(2,3) [OF assms(1)] d(2) unfolding poll_reg_def by force
  qed
  have count: "n = int (length (filter (\<lambda>e. pfd_revents e \<noteq> 0) fds))"
    unfolding assms(4) fds_def using count_stored [OF assms(2)] by simp
  have "n \<le> 0 \<Longrightarrow> poll_reported (po_channels p) fds = []" using count by (simp add: poll_reported_def)
  then have poll: "PollPoller_poll n revents [] (h, p) = Inr ((store_revents (poll_reported (po_channels p) fds) h,
      p\<lparr>pollfds := fds\<rparr>), map fst (poll_reported (po_channels p) fds))"
    using fill_reports [OF entry count, of "[]"]
    by (auto simp: PollPoller_poll_def fds_def [symmetric] store_revents_def Let_def)
  have "\<exists>c. g (ev_ptr ev) = Some c \<and> om_lookup (po_channels e) (ch_fd c) = Some (ev_ptr ev)" if ev: "ev \<in> set es" for ev
  proof -
    from assms(7) [OF ev] obtain fd r where r: "watched (ep_kernel e) fd = Some r" "ev_ptr r = ev_ptr ev" by blast
    then obtain a where a: "poll_reg e fd = Some a" using EPollPoller_invD(3) [OF assms(5)] by fastforce
    from EPollPoller_invD(2) [OF assms(5) a] r a show ?thesis by (auto simp: poll_reg_def)
  qed
  from epoll_fill_reports [of es g "po_channels e" "[]", OF this] assms(6) have "EPollPoller_poll (Some es) [] (g, e) =
      Inr ((store_revents (map (\<lambda>ev. (ev_ptr ev, ev_events ev)) es) g,
            if es \<noteq> [] \<and> length es = ep_events_size e then e\<lparr>ep_events_size := 2 * ep_events_size e\<rparr> else e),
           map ev_ptr es)"
    by (auto simp: EPollPoller_poll_def store_revents_def mult.commute)
  with poll show ?thesis by (simp add: fds_def Let_def)
qed

text \<open>The instance: one readable channel, registered with both back ends.\<close>

definition sample_chans :: "int \<Rightarrow> unit chans" where
  "sample_chans idx = (\<lambda>a. if a = 1 then Some ((Channel_new 0 5)\<lparr>ch_events := 3, ch_index := idx\<rparr>) else None)"

definition sample_poll :: PollPoller where
  "sample_poll = \<lparr>po_thread = 0, po_channels = [(5, 1)],
     pollfds = [\<lparr>pfd_fd = 5, pfd_events = 3, pfd_revents = 0\<rparr>]\<rparr>"

definition sample_epoll :: "(int \<Rightarrow> epoll_event option) EPollPoller" where
  "sample_epoll = \<lparr>po_thread = 0, po_channels = [(5, 1)], ep_events_size = 16,
     ep_kernel = Map.empty(5 \<mapsto> \<lparr>ev_events = 3, ev_ptr = 1\<rparr>)\<rparr>"

lemma sample_inv:
  "PollPoller_inv (sample_chans 0, sample_poll)"
  "EPollPoller_inv table_ctl (\<lambda>k. k) (sample_chans 1, sample_epoll)"
  using table_ctl_documented
  by (auto simp: PollPoller_inv_def EPollPoller_inv_def sample_chans_def sample_poll_def sample_epoll_def
      poll_reg_def om_lookup_def slot_fd_def valid_fd_def Channel_new_def index_values)

theorem poll_reports_active_channels_witness:
  "map_option ch_revents (store_revents (poll_reported (po_channels sample_poll)
       (map2 (\<lambda>e r. e\<lparr>pfd_revents := r\<rparr>) (pollfds sample_poll) [1])) (sample_chans 0) 1) = Some 1 \<and>
   (\<exists>w. PollPoller_poll 1 [1] [] (sample_chans 0, sample_poll) = Inr (w, [1])) \<and>
   (\<exists>w. EPollPoller_poll (Some [\<lparr>ev_events = 1, ev_ptr = 1\<rparr>]) [] (sample_chans 1, sample_epoll) = Inr (w, [1]))"
  using poll_reports_active_channels [OF sample_inv(1) _ _ _ sample_inv(2), of "[1]" 1 "[\<lparr>ev_events = 1, ev_ptr = 1\<rparr>]"]
  by (simp add: sample_poll_def sample_epoll_def poll_reported_def om_lookup_def store_revents_def
      sample_chans_def Channel_new_def set_revents_def Let_def)

text \<open>
  What \<^verbatim>\<open>EPollPoller\<close> accepts and \<^verbatim>\<open>PollPoller\<close> does not. A channel that was removed keeps
  the index of its slot, so registering it again fails an assertion. A channel whose first
  registration has no events, as when an acceptor that never listened is destroyed, gets a slot
  that is not marked as ignored, so removing it fails an assertion.
\<close>

lemma PollPoller_refuses:
  fixes h :: "'cb chans"
  assumes "PollPoller_inv (h, p)" and "po_thread p = tid"
    and "h a = Some c" and "valid_channel c"
  shows "(PollPoller_removeChannel tid a (h, p) = Inr (h', p') \<longrightarrow>
      enableReading (PollPoller_updateChannel tid) a (h', p') = Inl Assert_failed) \<and>
    (ch_index c < 0 \<and> poll_reg p (ch_fd c) = None \<longrightarrow>
      rbind (disableAll (PollPoller_updateChannel tid) a (h, p))
        (Channel_remove (PollPoller_removeChannel tid) a) = Inl Assert_failed)"
proof (intro conjI impI)
  assume rem: "PollPoller_removeChannel tid a (h, p) = Inr (h', p')"
  from PollPoller_rem_law [OF assms(1,3,4) rem] have law: "same_but_index h h'"
    "poll_reg p' = (poll_reg p)(ch_fd c := None)" by auto
  have "po_thread p' = tid \<and> (\<exists>d. h' a = Some d \<and> 0 \<le> ch_index d \<and> ch_fd d = ch_fd c)"
    using assms(1,3) rem
  proof (cases rule: PollPoller_remove_effect)
    case (1 i)
    then show ?thesis using assms(2,3) by (cases "i = length (pollfds p) - 1") auto
  qed
  then obtain d where d: "po_thread p' = tid" "h' a = Some d" "0 \<le> ch_index d" "ch_fd d = ch_fd c" by blast
  from d law(2) show "enableReading (PollPoller_updateChannel tid) a (h', p') = Inl Assert_failed"
    by (simp add: enableReading_def change_events_Some [of h' a d] PollPoller_updateChannel_def
        po_assertInLoopThread_def poll_reg_def)
next
  assume new: "ch_index c < 0 \<and> poll_reg p (ch_fd c) = None"
  define c' where "c' = c\<lparr>ch_events := 0, ch_addedToLoop := True\<rparr>"
  define p' where "p' = p\<lparr>pollfds := pollfds p @ [fresh_slot c'], po_channels := om_update (ch_fd c) a (po_channels p)\<rparr>"
  define idx where "idx = cast_int32 (int (length (pollfds p')) ) - 1"
  let ?h = "h(a := Some c')"
  have inv': "PollPoller_inv (?h, p)"
    by (rule PollPoller_frame [OF assms(1)]) (use assms(3) in \<open>auto simp: same_keys_def c'_def\<close>)
  have valid': "valid_channel c'" using assms(4) by (simp add: c'_def valid_channel_def mask_events_def)
  have upd: "PollPoller_updateChannel tid a (?h, p) = Inr (?h(a := Some (set_index idx c')), p')"
    using assms(2) new
    by (simp add: PollPoller_updateChannel_def po_assertInLoopThread_def poll_reg_def Let_def c'_def p'_def
        idx_def fresh_slot_def)
  have "?h a = Some c'" by simp
  from PollPoller_upd_law [OF inv' this valid' upd] pollfds_bound have "length (pollfds p') \<le> 2 ^ 31 - 1" by blast
  from cast_int32_length [OF this] have idx: "idx = int (length (pollfds p))"
    "cast_int32 (int (length (pollfds p'))) = int (length (pollfds p')) " by (simp_all add: idx_def p'_def)
  have "0 \<le> ch_fd c" using assms(4) by (simp add: valid_channel_def valid_fd_def)
  moreover have "disableAll (PollPoller_updateChannel tid) a (h, p) = Inr (?h(a := Some (set_index idx c')), p')"
    using upd by (simp add: disableAll_def change_events_Some [of h a c] assms(3) c'_def kNoneEvent_def)
  ultimately show "rbind (disableAll (PollPoller_updateChannel tid) a (h, p))
        (Channel_remove (PollPoller_removeChannel tid) a) = Inl Assert_failed"
    using assms(2) idx
    by (simp add: Channel_remove_def PollPoller_removeChannel_def po_assertInLoopThread_def
        p'_def c'_def isNoneEvent_iff om_lookup_update fresh_slot_def set_index_def)
qed

end
