(* ===== verification/Timers.thy ===== *)
theory Timers
  imports Dates "HOL-Library.Product_Lexorder"
begin

text \<open>
  Timers (\<^verbatim>\<open>networking/Timer.h\<close>, \<^verbatim>\<open>networking/Timer.cpp\<close>, \<^verbatim>\<open>networking/TimerId.h\<close>,
  \<^verbatim>\<open>networking/TimerQueue.cpp\<close>): the queue with its two ordered sets, and the timer descriptor
  that wakes the loop.

  Times are microseconds since the epoch. \<^verbatim>\<open>Timer\<close> objects live in a store, because both sets hold
  pointers to them and \<^verbatim>\<open>delete\<close> ends their life; the allocator is a parameter, a function that
  gives an address for the present store, or \<open>None\<close> when \<^verbatim>\<open>new\<close> throws. The readings of the clock are arguments. A timer's interval, a
  \<^verbatim>\<open>double\<close>, appears as the test \<^verbatim>\<open>interval > 0.0\<close> and as the \<^verbatim>\<open>int64_t\<close> of microseconds that
  \<^verbatim>\<open>addTime\<close> converts it to. What a callback does to the queue is the list of requests that
  \<open>acts\<close> gives for it, which may depend on the queue.
\<close>

section \<open>Timer\<close>

record 'cb Timer =
  tm_callback :: 'cb
  tm_expiration :: int
  tm_delta :: int
  tm_repeat :: bool
  tm_sequence :: int

definition Timer_new :: "'cb \<Rightarrow> int \<Rightarrow> bool \<Rightarrow> int \<Rightarrow> int \<Rightarrow> 'cb Timer" where
  "Timer_new cb when interval_positive delta numCreated =
     \<lparr>tm_callback = cb, tm_expiration = when, tm_delta = delta, tm_repeat = interval_positive,
      tm_sequence = numCreated + 1\<rparr>"

definition Timer_restart :: "int \<Rightarrow> 'cb Timer \<Rightarrow> 'cb Timer" where
  "Timer_restart now t =
     t\<lparr>tm_expiration :=
         (if tm_repeat t then microSecondsSinceEpoch (addTime \<lparr>microSecondsSinceEpoch = now\<rparr> (tm_delta t))
          else microSecondsSinceEpoch Timestamp_invalid)\<rparr>"

type_synonym TimerId = "nat \<times> int"

definition TimerId_new :: TimerId where
  "TimerId_new = (0, 0)"

section \<open>Ordered sets\<close>

text \<open>\<^verbatim>\<open>std::set\<close> as the sorted list of its elements: \<^verbatim>\<open>insert\<close> and \<^verbatim>\<open>erase\<close> with their results.\<close>

definition oset_insert :: "'a::linorder \<Rightarrow> 'a list \<Rightarrow> 'a list \<times> bool" where
  "oset_insert x xs = (if x \<in> set xs then (xs, False) else (insort x xs, True))"

definition oset_erase :: "'a \<Rightarrow> 'a list \<Rightarrow> 'a list \<times> nat" where
  "oset_erase x xs = (if x \<in> set xs then (removeAll x xs, 1) else (xs, 0))"

section \<open>The timer descriptor\<close>

record timespec =
  tv_sec :: int
  tv_nsec :: int

definition howMuchTimeFromNow :: "int \<Rightarrow> int \<Rightarrow> timespec" where
  "howMuchTimeFromNow clock when =
     (let microseconds = when - clock;
          microseconds = (if microseconds < 100 then 100 else microseconds)
      in \<lparr>tv_sec = cdiv microseconds kMicroSecondsPerSecond,
          tv_nsec = cmod microseconds kMicroSecondsPerSecond * 1000\<rparr>)"

section \<open>The queue\<close>

text \<open>
  \<open>tq_heap\<close> is the store of timers, \<open>tq_numCreated\<close> the static counter of \<^verbatim>\<open>Timer\<close>, and
  \<open>tq_armed\<close> what the timer descriptor was last set to, with the clock at that moment.
\<close>

record 'cb TimerQueue =
  tq_timers :: "(int \<times> nat) list"
  tq_activeTimers :: "(nat \<times> int) list"
  tq_callingExpiredTimers :: bool
  tq_cancelingTimers :: "(nat \<times> int) list"
  tq_heap :: "nat \<Rightarrow> 'cb Timer option"
  tq_numCreated :: int
  tq_armed :: "(int \<times> timespec) option"

definition TimerQueue_new :: "'cb TimerQueue" where
  "TimerQueue_new = \<lparr>tq_timers = [], tq_activeTimers = [], tq_callingExpiredTimers = False,
     tq_cancelingTimers = [], tq_heap = (\<lambda>_. None), tq_numCreated = 0, tq_armed = None\<rparr>"

definition timer_at :: "'cb TimerQueue \<Rightarrow> nat \<Rightarrow> 'cb Timer res" where
  "timer_at q a = (case tq_heap q a of None \<Rightarrow> Inl Undefined | Some t \<Rightarrow> Inr t)"

definition resetTimerfd :: "int \<Rightarrow> int \<Rightarrow> 'cb TimerQueue \<Rightarrow> 'cb TimerQueue" where
  "resetTimerfd clock expiration q = q\<lparr>tq_armed := Some (clock, howMuchTimeFromNow clock expiration)\<rparr>"

definition readTimerfd :: "'cb TimerQueue \<Rightarrow> 'cb TimerQueue" where
  "readTimerfd q = q\<lparr>tq_armed := None\<rparr>"

definition tq_insert :: "nat \<Rightarrow> 'cb TimerQueue \<Rightarrow> ('cb TimerQueue \<times> bool) res" where
  "tq_insert timer q =
     require (length (tq_timers q) = length (tq_activeTimers q)) (
     rbind (timer_at q timer) (\<lambda>t.
     let when = tm_expiration t;
         earliestChanged = (tq_timers q = [] \<or> when < fst (hd (tq_timers q)));
         (timers, inserted) = oset_insert (when, timer) (tq_timers q)
     in require inserted (
     let (active, inserted) = oset_insert (timer, tm_sequence t) (tq_activeTimers q)
     in require inserted (
     Inr (q\<lparr>tq_timers := timers, tq_activeTimers := active\<rparr>, earliestChanged)))))"

definition addTimerInLoop :: "int \<Rightarrow> nat \<Rightarrow> 'cb TimerQueue \<Rightarrow> 'cb TimerQueue res" where
  "addTimerInLoop clock timer q =
     rbind (tq_insert timer q) (\<lambda>(q, earliestChanged).
     if earliestChanged
     then rbind (timer_at q timer) (\<lambda>t. Inr (resetTimerfd clock (tm_expiration t) q))
     else Inr q)"

definition cancelInLoop :: "TimerId \<Rightarrow> 'cb TimerQueue \<Rightarrow> 'cb TimerQueue res" where
  "cancelInLoop timerId q =
     require (length (tq_timers q) = length (tq_activeTimers q)) (
     if timerId \<in> set (tq_activeTimers q) then
       rbind (timer_at q (fst timerId)) (\<lambda>t.
       let (timers, n) = oset_erase (tm_expiration t, fst timerId) (tq_timers q)
       in require (n = 1) (
       Inr (q\<lparr>tq_timers := timers, tq_heap := (tq_heap q)(fst timerId := None),
              tq_activeTimers := fst (oset_erase timerId (tq_activeTimers q))\<rparr>)))
     else Inr q)"

text \<open>
  The requests as the loop's thread makes them, where \<^verbatim>\<open>runInLoop\<close> runs the functor at once: the
  allocation of the timer and the insertion, and the cancellation. From another thread the same two
  functors run later, in the loop.
\<close>

type_synonym 'cb allocator = "(nat \<Rightarrow> 'cb Timer option) \<Rightarrow> nat option"

definition bad_alloc :: fault where
  "bad_alloc = Logic_error ''std::bad_alloc''"

definition addTimer ::
  "'cb allocator \<Rightarrow> int \<Rightarrow> 'cb \<Rightarrow> int \<Rightarrow> bool \<Rightarrow> int \<Rightarrow> 'cb TimerQueue \<Rightarrow> ('cb TimerQueue \<times> TimerId) res" where
  "addTimer alloc clock cb when interval_positive delta q =
     (case alloc (tq_heap q) of
        None \<Rightarrow> Inl bad_alloc
      | Some a \<Rightarrow>
          let t = Timer_new cb when interval_positive delta (tq_numCreated q);
              q = q\<lparr>tq_heap := (tq_heap q)(a := Some t), tq_numCreated := tq_numCreated q + 1\<rparr>
          in rbind (addTimerInLoop clock a q) (\<lambda>q. Inr (q, (a, tm_sequence t))))"

definition tq_cancel :: "TimerId \<Rightarrow> 'cb TimerQueue \<Rightarrow> 'cb TimerQueue res" where
  "tq_cancel timerId q = cancelInLoop timerId q"

text \<open>A request for a new timer carries the clock, the callback, the time, and the interval.\<close>

datatype 'cb request =
    Add int 'cb int bool int
  | Cancel TimerId

fun tq_request :: "'cb allocator \<Rightarrow> 'cb request \<Rightarrow> 'cb TimerQueue \<Rightarrow> 'cb TimerQueue res" where
  "tq_request alloc (Add clock cb when interval_positive delta) q =
     rbind (addTimer alloc clock cb when interval_positive delta q) (\<lambda>(q, _). Inr q)"
| "tq_request alloc (Cancel timerId) q = tq_cancel timerId q"

definition UINTPTR_MAX :: nat where "UINTPTR_MAX = 2 ^ 64 - 1"

definition erase_active :: "int \<times> nat \<Rightarrow> 'cb TimerQueue \<Rightarrow> 'cb TimerQueue res" where
  "erase_active entry q =
     rbind (timer_at q (snd entry)) (\<lambda>t.
     let (active, n) = oset_erase (snd entry, tm_sequence t) (tq_activeTimers q)
     in require (n = 1) (Inr (q\<lparr>tq_activeTimers := active\<rparr>)))"

definition getExpired :: "int \<Rightarrow> 'cb TimerQueue \<Rightarrow> ('cb TimerQueue \<times> (int \<times> nat) list) res" where
  "getExpired now q =
     require (length (tq_timers q) = length (tq_activeTimers q)) (
     let sentry = (now, UINTPTR_MAX);
         expired = takeWhile (\<lambda>e. e < sentry) (tq_timers q);
         rest = dropWhile (\<lambda>e. e < sentry) (tq_timers q)
     in require (rest = [] \<or> now < fst (hd rest)) (
     rbind (rfold erase_active expired (q\<lparr>tq_timers := rest\<rparr>)) (\<lambda>q.
     require (length (tq_timers q) = length (tq_activeTimers q)) (Inr (q, expired)))))"

definition reset_one :: "int \<Rightarrow> int \<times> nat \<Rightarrow> 'cb TimerQueue \<Rightarrow> 'cb TimerQueue res" where
  "reset_one now entry q =
     rbind (timer_at q (snd entry)) (\<lambda>t.
     if tm_repeat t \<and> (snd entry, tm_sequence t) \<notin> set (tq_cancelingTimers q)
     then rbind (tq_insert (snd entry) (q\<lparr>tq_heap := (tq_heap q)(snd entry := Some (Timer_restart now t))\<rparr>))
            (\<lambda>(q, _). Inr q)
     else Inr (q\<lparr>tq_heap := (tq_heap q)(snd entry := None)\<rparr>))"

definition tq_reset :: "int \<Rightarrow> (int \<times> nat) list \<Rightarrow> int \<Rightarrow> 'cb TimerQueue \<Rightarrow> 'cb TimerQueue res" where
  "tq_reset clock expired now q =
     rbind (rfold (reset_one now) expired q) (\<lambda>q.
     rbind (if tq_timers q \<noteq> []
            then rbind (timer_at q (snd (hd (tq_timers q)))) (\<lambda>t. Inr (tm_expiration t))
            else Inr (microSecondsSinceEpoch Timestamp_invalid)) (\<lambda>nextExpire.
     Inr (if Timestamp_valid \<lparr>microSecondsSinceEpoch = nextExpire\<rparr>
          then resetTimerfd clock nextExpire q else q)))"

type_synonym 'cb behaviour = "'cb \<Rightarrow> 'cb TimerQueue \<Rightarrow> 'cb request list"

definition Timer_run :: "'cb allocator \<Rightarrow> 'cb behaviour \<Rightarrow> int \<times> nat \<Rightarrow> 'cb TimerQueue \<Rightarrow> 'cb TimerQueue res" where
  "Timer_run alloc acts entry q =
     rbind (timer_at q (snd entry)) (\<lambda>t. rfold (tq_request alloc) (acts (tm_callback t) q) q)"

definition tq_handleRead ::
  "'cb allocator \<Rightarrow> 'cb behaviour \<Rightarrow> int \<Rightarrow> int \<Rightarrow> 'cb TimerQueue \<Rightarrow> 'cb TimerQueue res" where
  "tq_handleRead alloc acts now clock q =
     rbind (getExpired now (readTimerfd q)) (\<lambda>(q, expired).
     rbind (rfold (Timer_run alloc acts) expired (q\<lparr>tq_callingExpiredTimers := True, tq_cancelingTimers := []\<rparr>)) (\<lambda>q.
     tq_reset clock expired now (q\<lparr>tq_callingExpiredTimers := False\<rparr>)))"

text \<open>The destructor deletes the timers that are still queued.\<close>

definition TimerQueue_destroy :: "'cb TimerQueue \<Rightarrow> 'cb TimerQueue res" where
  "TimerQueue_destroy q =
     rfold (\<lambda>entry q. rbind (timer_at q (snd entry)) (\<lambda>_. Inr (q\<lparr>tq_heap := (tq_heap q)(snd entry := None)\<rparr>)))
       (tq_timers q) q"

section \<open>The invariant\<close>

text \<open>
  The two sets hold the same timers, in order: all that are alive, except those at the addresses
  \<open>E\<close> that are allocated and not queued, which are the one being inserted and those that expired
  and are being handled.
\<close>

definition tq_ok :: "nat list \<Rightarrow> 'cb TimerQueue \<Rightarrow> bool" where
  "tq_ok E q \<longleftrightarrow>
     sorted (tq_timers q) \<and> distinct (tq_timers q) \<and> sorted (tq_activeTimers q) \<and> distinct (tq_activeTimers q) \<and>
     (\<forall>w a. (w, a) \<in> set (tq_timers q) \<longleftrightarrow>
        (\<exists>t. tq_heap q a = Some t \<and> tm_expiration t = w) \<and> a \<notin> set E) \<and>
     (\<forall>a s. (a, s) \<in> set (tq_activeTimers q) \<longleftrightarrow>
        (\<exists>t. tq_heap q a = Some t \<and> tm_sequence t = s) \<and> a \<notin> set E) \<and>
     (\<forall>a t. tq_heap q a = Some t \<longrightarrow> a < UINTPTR_MAX \<and> (tm_repeat t \<longrightarrow> 0 \<le> tm_delta t)) \<and>
     distinct E \<and> (\<forall>a \<in> set E. tq_heap q a \<noteq> None)"

lemma tq_okD:
  assumes "tq_ok E q"
  shows "sorted (tq_timers q)" "distinct (tq_timers q)" "sorted (tq_activeTimers q)" "distinct (tq_activeTimers q)"
    and "(w, a) \<in> set (tq_timers q) \<longleftrightarrow> (\<exists>t. tq_heap q a = Some t \<and> tm_expiration t = w) \<and> a \<notin> set E"
    and "(a, s) \<in> set (tq_activeTimers q) \<longleftrightarrow> (\<exists>t. tq_heap q a = Some t \<and> tm_sequence t = s) \<and> a \<notin> set E"
    and "tq_heap q a = Some t \<Longrightarrow> a < UINTPTR_MAX" "tq_heap q a = Some t \<Longrightarrow> tm_repeat t \<Longrightarrow> 0 \<le> tm_delta t"
    and "distinct E" "a \<in> set E \<Longrightarrow> tq_heap q a \<noteq> None"
  using assms unfolding tq_ok_def by blast+

text \<open>The sets have the same size, which most operations assert.\<close>

lemma tq_sizes:
  assumes "tq_ok E q"
  shows "length (tq_timers q) = length (tq_activeTimers q)"
proof -
  note D = tq_okD [OF assms]
  have "b \<in> snd ` set (tq_timers q) \<longleftrightarrow> (\<exists>w. (w, b) \<in> set (tq_timers q))"
    "b \<in> fst ` set (tq_activeTimers q) \<longleftrightarrow> (\<exists>s. (b, s) \<in> set (tq_activeTimers q))" for b
    by force+
  then have "snd ` set (tq_timers q) = fst ` set (tq_activeTimers q)"
    by (auto simp: set_eq_iff D(5,6))
  moreover have "inj_on snd (set (tq_timers q))" "inj_on fst (set (tq_activeTimers q))"
    by (auto simp: inj_on_def D(5,6))
  ultimately have "card (set (tq_timers q)) = card (set (tq_activeTimers q))"
    by (metis card_image)
  then show ?thesis using D(2,4) by (simp add: distinct_card)
qed

lemma timer_at_Some [simp]: "tq_heap q a = Some t \<Longrightarrow> timer_at q a = Inr t"
  by (simp add: timer_at_def)

text \<open>Inserting a timer that is allocated and not queued.\<close>

lemma tq_insert_ok:
  assumes ok: "tq_ok (a # E) q" and t: "tq_heap q a = Some t"
  defines "q' \<equiv> q\<lparr>tq_timers := insort (tm_expiration t, a) (tq_timers q),
    tq_activeTimers := insort (a, tm_sequence t) (tq_activeTimers q)\<rparr>"
  shows "tq_insert a q = Inr (q', tq_timers q = [] \<or> tm_expiration t < fst (hd (tq_timers q)))" "tq_ok E q'"
proof -
  note D = tq_okD [OF ok]
  have "(a, tm_sequence t) \<notin> set (tq_activeTimers q)" "(tm_expiration t, a) \<notin> set (tq_timers q)"
    by (simp_all add: D(5,6))
  then show "tq_insert a q = Inr (q', tq_timers q = [] \<or> tm_expiration t < fst (hd (tq_timers q)))"
    using t tq_sizes [OF ok] by (simp add: tq_insert_def oset_insert_def q'_def Let_def)
  show "tq_ok E q'"
    unfolding tq_ok_def q'_def
    using D(1-4) D(7-10) t by (auto simp: sorted_insort distinct_insort set_insort_key D(5,6))
qed

text \<open>Allocating a timer.\<close>

lemma tq_alloc_ok:
  assumes ok: "tq_ok E q" and "tq_heap q a = None" "a < UINTPTR_MAX" "tm_repeat t \<longrightarrow> 0 \<le> tm_delta t"
  shows "tq_ok (a # E) (q\<lparr>tq_heap := (tq_heap q)(a := Some t), tq_numCreated := n\<rparr>)"
  using assms unfolding tq_ok_def by auto

lemma tq_free_ok:
  assumes ok: "tq_ok (a # E) q"
  shows "tq_ok E (q\<lparr>tq_heap := (tq_heap q)(a := None)\<rparr>)"
  using assms unfolding tq_ok_def by auto

lemma tq_restart_ok:
  assumes ok: "tq_ok (a # E) q" and "tq_heap q a = Some t"
  shows "tq_ok (a # E) (q\<lparr>tq_heap := (tq_heap q)(a := Some (Timer_restart now t))\<rparr>)"
  using assms unfolding tq_ok_def by (auto simp: Timer_restart_def)

lemma removeAll_by_fst:
  assumes "\<And>y. (a, y) \<in> set xs \<Longrightarrow> y = s"
  shows "removeAll (a, s) xs = filter (\<lambda>x. fst x \<noteq> a) xs"
proof -
  have "x \<in> set xs \<Longrightarrow> ((a, s) \<noteq> x) = (fst x \<noteq> a)" for x
    using assms [of "snd x"] by (cases x) auto
  then show ?thesis unfolding removeAll_filter_not_eq by (rule filter_cong [OF refl])
qed

lemma removeAll_by_snd:
  assumes "\<And>y. (y, a) \<in> set xs \<Longrightarrow> y = s"
  shows "removeAll (s, a) xs = filter (\<lambda>x. snd x \<noteq> a) xs"
proof -
  have "x \<in> set xs \<Longrightarrow> ((s, a) \<noteq> x) = (snd x \<noteq> a)" for x
    using assms [of "fst x"] by (cases x) auto
  then show ?thesis unfolding removeAll_filter_not_eq by (rule filter_cong [OF refl])
qed

lemma cancelInLoop_ok:
  fixes timerId :: TimerId
  assumes ok: "tq_ok E q"
  defines "q' \<equiv> (if timerId \<in> set (tq_activeTimers q)
    then q\<lparr>tq_timers := filter (\<lambda>e. snd e \<noteq> fst timerId) (tq_timers q),
           tq_activeTimers := filter (\<lambda>x. fst x \<noteq> fst timerId) (tq_activeTimers q),
           tq_heap := (tq_heap q)(fst timerId := None)\<rparr>
    else q)"
  shows "cancelInLoop timerId q = Inr q'" "tq_ok E q'"
proof -
  note D = tq_okD [OF ok]
  have "timerId \<in> set (tq_activeTimers q) \<Longrightarrow> fst timerId \<notin> set E"
    by (cases timerId) (simp add: D(6))
  then show "tq_ok E q'" unfolding tq_ok_def q'_def
    using D(1-4) D(7-10) by (auto simp: D(5,6) sorted_filter [of id, simplified])
  show "cancelInLoop timerId q = Inr q'"
  proof (cases "timerId \<in> set (tq_activeTimers q)")
    case True
    obtain a s where id: "timerId = (a, s)" by (cases timerId)
    with True D(6) obtain t where t: "tq_heap q a = Some t" "tm_sequence t = s" "a \<notin> set E" by auto
    have "removeAll (tm_expiration t, a) (tq_timers q) = filter (\<lambda>e. snd e \<noteq> a) (tq_timers q)"
      by (rule removeAll_by_snd) (use t D(5) in auto)
    moreover have "removeAll (a, s) (tq_activeTimers q) = filter (\<lambda>x. fst x \<noteq> a) (tq_activeTimers q)"
      by (rule removeAll_by_fst) (use t D(6) in auto)
    ultimately show ?thesis
      using True t tq_sizes [OF ok]
      by (simp add: cancelInLoop_def q'_def id oset_erase_def D(5) Let_def)
  qed (simp add: cancelInLoop_def q'_def tq_sizes [OF ok])
qed

text \<open>
  The expired timers are those with a time up to now: the sentry is above every entry with the
  time \<open>now\<close>, because no object lives at the highest address.
\<close>

lemma below_sentry:
  "tq_ok E q \<Longrightarrow> e \<in> set (tq_timers q) \<Longrightarrow> e < (now, UINTPTR_MAX) \<longleftrightarrow> fst e \<le> now"
  by (cases e) (auto simp: tq_ok_def less_prod_def)

lemma takeWhile_sorted_filter:
  assumes "sorted xs" and down: "\<And>x y. x \<le> y \<Longrightarrow> P y \<Longrightarrow> P x"
  shows "takeWhile P xs = filter P xs \<and> dropWhile P xs = filter (\<lambda>x. \<not> P x) xs"
  using assms(1)
proof (induction xs)
  case (Cons x xs)
  show ?case
  proof (cases "P x")
    case True
    with Cons show ?thesis by simp
  next
    case False
    have "\<not> P y" if "y \<in> set xs" for y
      using down [of x y] False Cons.prems that by auto
    then have "filter P xs = []" "filter (\<lambda>x. \<not> P x) xs = xs"
      by (simp_all add: filter_empty_conv filter_id_conv)
    with False show ?thesis by simp
  qed
qed simp

lemma expired_split:
  assumes ok: "tq_ok E q"
  shows "takeWhile (\<lambda>e. e < (now, UINTPTR_MAX)) (tq_timers q) = filter (\<lambda>e. fst e \<le> now) (tq_timers q)"
    and "dropWhile (\<lambda>e. e < (now, UINTPTR_MAX)) (tq_timers q) = filter (\<lambda>e. now < fst e) (tq_timers q)"
proof -
  have "filter (\<lambda>e. e < (now, UINTPTR_MAX)) (tq_timers q) = filter (\<lambda>e. fst e \<le> now) (tq_timers q)"
    "filter (\<lambda>e. \<not> e < (now, UINTPTR_MAX)) (tq_timers q) = filter (\<lambda>e. now < fst e) (tq_timers q)"
    by (intro filter_cong refl; simp add: below_sentry [OF ok] not_le)+
  moreover have "takeWhile (\<lambda>e. e < (now, UINTPTR_MAX)) (tq_timers q) = filter (\<lambda>e. e < (now, UINTPTR_MAX)) (tq_timers q) \<and>
      dropWhile (\<lambda>e. e < (now, UINTPTR_MAX)) (tq_timers q) = filter (\<lambda>e. \<not> e < (now, UINTPTR_MAX)) (tq_timers q)"
    by (rule takeWhile_sorted_filter [OF tq_okD(1) [OF ok]]) (rule order.strict_trans1)
  ultimately show "takeWhile (\<lambda>e. e < (now, UINTPTR_MAX)) (tq_timers q) = filter (\<lambda>e. fst e \<le> now) (tq_timers q)"
    "dropWhile (\<lambda>e. e < (now, UINTPTR_MAX)) (tq_timers q) = filter (\<lambda>e. now < fst e) (tq_timers q)"
    by simp_all
qed

text \<open>The loop that drops the expired timers from the set of active timers.\<close>

lemma erase_active_run:
  assumes "distinct (map snd es)"
    and "\<And>e. e \<in> set es \<Longrightarrow> \<exists>t. tq_heap q (snd e) = Some t \<and> (snd e, tm_sequence t) \<in> set (tq_activeTimers q)"
    and "\<And>a s s'. (a, s) \<in> set (tq_activeTimers q) \<Longrightarrow> (a, s') \<in> set (tq_activeTimers q) \<Longrightarrow> s = s'"
  shows "rfold erase_active es q =
    Inr (q\<lparr>tq_activeTimers := filter (\<lambda>x. fst x \<notin> snd ` set es) (tq_activeTimers q)\<rparr>)"
  using assms
proof (induction es arbitrary: q)
  case Nil
  then show ?case by simp
next
  case (Cons e es)
  from Cons.prems(2) [of e] obtain t where
    t: "tq_heap q (snd e) = Some t" "(snd e, tm_sequence t) \<in> set (tq_activeTimers q)" by auto
  define q1 where "q1 = q\<lparr>tq_activeTimers := filter (\<lambda>x. fst x \<noteq> snd e) (tq_activeTimers q)\<rparr>"
  have "removeAll (snd e, tm_sequence t) (tq_activeTimers q) = filter (\<lambda>x. fst x \<noteq> snd e) (tq_activeTimers q)"
    by (rule removeAll_by_fst) (rule Cons.prems(3) [OF _ t(2)])
  then have "erase_active e q = Inr q1"
    using t by (simp add: erase_active_def oset_erase_def q1_def)
  moreover have "rfold erase_active es q1 =
      Inr (q1\<lparr>tq_activeTimers := filter (\<lambda>x. fst x \<notin> snd ` set es) (tq_activeTimers q1)\<rparr>)"
  proof (rule Cons.IH)
    show "\<exists>t. tq_heap q1 (snd d) = Some t \<and> (snd d, tm_sequence t) \<in> set (tq_activeTimers q1)" if "d \<in> set es" for d
    proof -
      have "snd d \<noteq> snd e" using Cons.prems(1) that by (auto simp: image_iff)
      then show ?thesis using Cons.prems(2) [of d] that by (auto simp: q1_def)
    qed
    show "s = s'" if "(a, s) \<in> set (tq_activeTimers q1)" "(a, s') \<in> set (tq_activeTimers q1)" for a s s'
      using Cons.prems(3) [of a s s'] that by (simp add: q1_def)
  qed (use Cons.prems(1) in simp)
  ultimately show ?case by (simp add: q1_def conj_commute)
qed

lemma getExpired_ok:
  fixes now :: int
  assumes ok: "tq_ok [] q"
  defines "es \<equiv> filter (\<lambda>e. fst e \<le> now) (tq_timers q)"
  defines "q' \<equiv> q\<lparr>tq_timers := filter (\<lambda>e. now < fst e) (tq_timers q),
    tq_activeTimers := filter (\<lambda>x. fst x \<notin> snd ` set es) (tq_activeTimers q)\<rparr>"
  shows "getExpired now q = Inr (q', es)" "tq_ok (map snd es) q'"
proof -
  note D = tq_okD [OF ok]
  have dist: "distinct (map snd es)"
    unfolding distinct_map es_def using D(2) by (auto simp: inj_on_def D(5))
  have mem: "a \<in> snd ` set es \<longleftrightarrow> (\<exists>t. tq_heap q a = Some t \<and> tm_expiration t \<le> now)" for a
    by (force simp: es_def D(5) image_iff)
  have alive: "tq_heap q a \<noteq> None" if "a \<in> set (map snd es)" for a
    using mem [of a] that by auto
  show ok': "tq_ok (map snd es) q'"
    unfolding tq_ok_def q'_def using D(1-4) D(7,8) dist mem alive
    by (auto simp: sorted_filter [of id, simplified] D(5,6))
  have "rfold erase_active es (q\<lparr>tq_timers := filter (\<lambda>e. now < fst e) (tq_timers q)\<rparr>) = Inr q'"
    unfolding q'_def
    by (subst erase_active_run [OF dist]) (auto simp: es_def D(5,6))
  moreover have "filter (\<lambda>e. now < fst e) (tq_timers q) = [] \<or> now < fst (hd (filter (\<lambda>e. now < fst e) (tq_timers q)))"
    using hd_in_set [of "filter (\<lambda>e. now < fst e) (tq_timers q)"] by auto
  ultimately show "getExpired now q = Inr (q', es)"
    using tq_sizes [OF ok] tq_sizes [OF ok']
    unfolding getExpired_def Let_def expired_split [OF ok] es_def [symmetric] by simp
qed

section \<open>The descriptor is armed\<close>

text \<open>When the timer descriptor will become readable, as it was last set.\<close>

definition arm_due :: "int \<times> timespec \<Rightarrow> int" where
  "arm_due arm = fst arm + tv_sec (snd arm) * 1000000 + tv_nsec (snd arm) div 1000"

lemma arm_due_reset: "arm_due (clock, howMuchTimeFromNow clock when) = max when (clock + 100)"
  by (auto simp: arm_due_def howMuchTimeFromNow_def Let_def kMicroSecondsPerSecond_def cdiv_nonneg cmod_nonneg)

text \<open>
  While timers are queued, the descriptor is set to fire by the time of the earliest one, or 100
  microseconds after it was set when that time had come. While expired timers are handled (\<open>b\<close>)
  the descriptor has fired, and it is set at the end if the earliest time is a valid one.
\<close>

definition armed_ok :: "bool \<Rightarrow> 'cb TimerQueue \<Rightarrow> bool" where
  "armed_ok b q \<longleftrightarrow> tq_timers q \<noteq> [] \<longrightarrow>
     b \<and> 0 < fst (hd (tq_timers q)) \<or>
     (\<exists>arm. tq_armed q = Some arm \<and> arm_due arm \<le> max (fst (hd (tq_timers q))) (fst arm + 100))"

lemma fst_hd_insort:
  "fst (hd (insort (w, a) xs)) = (if xs = [] \<or> w < fst (hd xs) then w else fst (hd xs))"
  by (cases xs) (auto simp: less_eq_prod_def)

lemma insort_not_Nil [simp]: "insort x xs \<noteq> []"
  by (cases xs) auto

lemma armed_insert:
  assumes "armed_ok b q" "\<not> (tq_timers q = [] \<or> w < fst (hd (tq_timers q))) \<or> b \<and> 0 < w"
    "tq_timers q' = insort (w, a) (tq_timers q)" "tq_armed q' = tq_armed q"
  shows "armed_ok b q'"
  using assms by (auto simp: armed_ok_def fst_hd_insort)

lemma armed_reset:
  assumes "tq_timers q = [] \<or> fst (hd (tq_timers q)) = w"
  shows "armed_ok b (resetTimerfd clock w q)"
  using assms by (auto simp: armed_ok_def resetTimerfd_def arm_due_reset)

lemma hd_filter_le:
  assumes "sorted xs" "filter P xs \<noteq> []"
  shows "hd xs \<le> hd (filter P xs)"
proof -
  have "hd (filter P xs) \<in> set xs" using hd_in_set [OF assms(2)] by auto
  then show ?thesis using assms(1) by (cases xs) auto
qed

lemma armed_filter:
  assumes ok: "tq_ok E q" and "armed_ok b q" "tq_timers q' = filter P (tq_timers q)" "tq_armed q' = tq_armed q"
  shows "armed_ok b q'"
proof (cases "filter P (tq_timers q) = []")
  case False
  then have "tq_timers q \<noteq> []" by auto
  from hd_filter_le [OF tq_okD(1) [OF ok] False] have "fst (hd (tq_timers q)) \<le> fst (hd (filter P (tq_timers q)))"
    by (auto simp: less_eq_prod_def)
  with assms(2-4) \<open>tq_timers q \<noteq> []\<close> show ?thesis by (fastforce simp: armed_ok_def)
qed (use assms in \<open>simp add: armed_ok_def\<close>)

section \<open>Requests\<close>

text \<open>
  The allocator gives addresses of no live object, below the highest one. The interval of a
  repeating timer is positive, so its number of microseconds is not negative.
\<close>

definition good_alloc :: "'cb allocator \<Rightarrow> bool" where
  "good_alloc alloc \<longleftrightarrow> (\<forall>h a. alloc h = Some a \<longrightarrow> h a = None \<and> a < UINTPTR_MAX)"

fun request_ok :: "'cb request \<Rightarrow> bool" where
  "request_ok (Add clock cb when interval_positive delta) = (interval_positive \<longrightarrow> 0 \<le> delta)"
| "request_ok (Cancel timerId) = True"

text \<open>A computation that ends in a state with \<open>P\<close>, unless the allocator gave up.\<close>

definition sound :: "('s \<Rightarrow> bool) \<Rightarrow> 's res \<Rightarrow> bool" where
  "sound P r \<longleftrightarrow> r = Inl bad_alloc \<or> (\<exists>s. r = Inr s \<and> P s)"

lemma sound_rbind: "sound P m \<Longrightarrow> (\<And>s. P s \<Longrightarrow> sound Q (f s)) \<Longrightarrow> sound Q (rbind m f)"
  unfolding sound_def by fastforce

lemma sound_rfold:
  assumes "P s" and "\<And>x s. x \<in> set xs \<Longrightarrow> P s \<Longrightarrow> sound P (f x s)"
  shows "sound P (rfold f xs s)"
  using assms
proof (induction xs arbitrary: s)
  case (Cons x xs)
  then have "sound P (f x s)" by simp
  then show ?case unfolding rfold.simps by (rule sound_rbind) (use Cons in auto)
qed (simp add: sound_def)

text \<open>What holds between two requests: the invariant, and nothing changes for the timers in \<open>E\<close>.\<close>

definition between :: "bool \<Rightarrow> nat list \<Rightarrow> (nat \<Rightarrow> 'cb Timer option) \<Rightarrow> 'cb TimerQueue \<Rightarrow> bool" where
  "between b E H q \<longleftrightarrow> tq_ok E q \<and> armed_ok b q \<and> (\<forall>a \<in> set E. tq_heap q a = H a) \<and> tq_cancelingTimers q = []"

lemma addTimer_sound:
  assumes P: "between b E H q" and alloc: "good_alloc alloc" and delta: "interval_positive \<longrightarrow> 0 \<le> delta"
  shows "sound (\<lambda>(q', id). between b E H q') (addTimer alloc clock cb when interval_positive delta q)"
proof (cases "alloc (tq_heap q)")
  case None
  then show ?thesis by (simp add: addTimer_def sound_def)
next
  case (Some a)
  let ?t = "Timer_new cb when interval_positive delta (tq_numCreated q)"
  define q1 where "q1 = q\<lparr>tq_heap := (tq_heap q)(a := Some ?t), tq_numCreated := tq_numCreated q + 1\<rparr>"
  define q2 where "q2 = q1\<lparr>tq_timers := insort (when, a) (tq_timers q1),
    tq_activeTimers := insort (a, tm_sequence ?t) (tq_activeTimers q1)\<rparr>"
  from P have ok: "tq_ok E q" by (simp add: between_def)
  have a: "tq_heap q a = None" "a < UINTPTR_MAX" using alloc Some by (auto simp: good_alloc_def)
  have "tq_ok (a # E) q1"
    unfolding q1_def by (rule tq_alloc_ok [OF ok a]) (use delta in \<open>simp add: Timer_new_def\<close>)
  from tq_insert_ok [OF this, of ?t] have ins: "tq_insert a q1 = Inr (q2, tq_timers q = [] \<or> when < fst (hd (tq_timers q)))"
    "tq_ok E q2" by (simp_all add: q1_def q2_def Timer_new_def)
  have aE: "a \<notin> set E" using tq_okD(10) [OF ok, of a] a by auto
  show ?thesis
  proof (cases "tq_timers q = [] \<or> when < fst (hd (tq_timers q))")
    case True
    have t: "tq_heap q2 a = Some ?t" by (simp add: q2_def q1_def)
    have hd: "fst (hd (tq_timers q2)) = when" using True by (simp add: q2_def q1_def fst_hd_insort)
    have "between b E H (resetTimerfd clock when q2)"
      using armed_reset [of q2 "when" b clock] hd ins(2) P aE
      by (auto simp: between_def tq_ok_def resetTimerfd_def q2_def q1_def)
    moreover have "addTimer alloc clock cb when interval_positive delta q =
        Inr (resetTimerfd clock when q2, (a, tm_sequence ?t))"
      using Some ins(1) True t
      by (simp add: addTimer_def addTimerInLoop_def Let_def Timer_new_def flip: q1_def [unfolded Timer_new_def])
    ultimately show ?thesis by (simp add: sound_def)
  next
    case False
    have "armed_ok b q2"
      using armed_insert [of b q "when" q2 a] False P by (simp add: between_def q2_def q1_def)
    then have "between b E H q2" using ins(2) P aE by (auto simp: between_def q2_def q1_def)
    moreover have "addTimer alloc clock cb when interval_positive delta q = Inr (q2, (a, tm_sequence ?t))"
      using Some ins(1) False
      by (simp add: addTimer_def addTimerInLoop_def Let_def Timer_new_def flip: q1_def [unfolded Timer_new_def])
    ultimately show ?thesis by (simp add: sound_def)
  qed
qed

lemma request_sound:
  assumes P: "between b E H q" and alloc: "good_alloc alloc" and ok: "request_ok r"
  shows "sound (between b E H) (tq_request alloc r q)"
proof (cases r)
  case (Add clock cb w interval_positive delta)
  with addTimer_sound [OF P alloc, of interval_positive delta clock cb w] ok show ?thesis
    by (auto simp: sound_def)
next
  case (Cancel timerId)
  have q: "tq_ok E q" "armed_ok b q" using P by (simp_all add: between_def)
  note C = cancelInLoop_ok [OF q(1), of timerId]
  show ?thesis
  proof (cases "timerId \<in> set (tq_activeTimers q)")
    case True
    then have "fst timerId \<notin> set E" using tq_okD(6) [OF q(1), of "fst timerId" "snd timerId"] by simp
    define q' where "q' = q\<lparr>tq_timers := filter (\<lambda>e. snd e \<noteq> fst timerId) (tq_timers q),
      tq_activeTimers := filter (\<lambda>x. fst x \<noteq> fst timerId) (tq_activeTimers q),
      tq_heap := (tq_heap q)(fst timerId := None)\<rparr>"
    have "armed_ok b q'" by (rule armed_filter [OF q]) (simp_all add: q'_def)
    then have "between b E H q'"
      using P C(2) True \<open>fst timerId \<notin> set E\<close> by (auto simp: between_def q'_def)
    then show ?thesis using C(1) True Cancel by (simp add: sound_def tq_cancel_def q'_def)
  qed (use C P Cancel in \<open>simp add: sound_def tq_cancel_def\<close>)
qed

section \<open>Expiry\<close>

text \<open>What becomes of an expired timer.\<close>

definition rescheduled :: "int \<Rightarrow> 'cb Timer \<Rightarrow> 'cb Timer option" where
  "rescheduled now t = (if tm_repeat t then Some (Timer_restart now t) else None)"

lemma reset_one_ok:
  assumes ok: "tq_ok (a # E) q" and armed: "armed_ok True q" and c: "tq_cancelingTimers q = []"
    and t: "tq_heap q a = Some t" and now: "0 < now"
  shows "\<exists>q'. reset_one now (w, a) q = Inr q' \<and> tq_ok E q' \<and> armed_ok True q' \<and> tq_cancelingTimers q' = [] \<and>
    tq_heap q' = (tq_heap q)(a := rescheduled now t)"
proof (cases "tm_repeat t")
  case True
  define q1 where "q1 = q\<lparr>tq_heap := (tq_heap q)(a := Some (Timer_restart now t))\<rparr>"
  define q2 where "q2 = q1\<lparr>tq_timers := insort (now + tm_delta t, a) (tq_timers q),
    tq_activeTimers := insort (a, tm_sequence t) (tq_activeTimers q)\<rparr>"
  have exp: "tm_expiration (Timer_restart now t) = now + tm_delta t" "tm_sequence (Timer_restart now t) = tm_sequence t"
    using True by (simp_all add: Timer_restart_def addTime_def)
  from tq_insert_ok [OF tq_restart_ok [OF ok t, of now], of "Timer_restart now t"]
  have ins: "\<exists>e. tq_insert a q1 = Inr (q2, e)" "tq_ok E q2"
    by (simp_all add: q1_def q2_def exp)
  moreover have "0 \<le> tm_delta t" using tq_okD(8) [OF ok t True] .
  then have "armed_ok True q2"
    using armed_insert [of True q "now + tm_delta t" q2 a] armed now by (simp add: q2_def q1_def)
  moreover have "reset_one now (w, a) q = Inr q2"
    using ins(1) t True c by (auto simp: reset_one_def q1_def)
  ultimately show ?thesis using True c by (simp add: q2_def q1_def rescheduled_def)
next
  case False
  have "armed_ok True (q\<lparr>tq_heap := (tq_heap q)(a := None)\<rparr>)" using armed by (simp add: armed_ok_def)
  with False tq_free_ok [OF ok] t c show ?thesis by (simp add: reset_one_def rescheduled_def)
qed

lemma reset_all_ok:
  assumes "tq_ok (map snd es) q" "armed_ok True q" "tq_cancelingTimers q = []" "0 < now"
  shows "\<exists>q'. rfold (reset_one now) es q = Inr q' \<and> tq_ok [] q' \<and> armed_ok True q' \<and> tq_cancelingTimers q' = [] \<and>
    (\<forall>a. tq_heap q' a = (if a \<in> snd ` set es then Option.bind (tq_heap q a) (rescheduled now) else tq_heap q a))"
  using assms
proof (induction es arbitrary: q)
  case (Cons e es)
  obtain w a where e: "e = (w, a)" by (cases e)
  from tq_okD(9) [OF Cons.prems(1)] tq_okD(10) [OF Cons.prems(1), of a] e obtain t where
    t: "tq_heap q a = Some t" "a \<notin> snd ` set es" by auto
  from reset_one_ok [OF _ Cons.prems(2,3) t(1) Cons.prems(4), of "map snd es" w] Cons.prems(1) e obtain q1 where
    q1: "reset_one now e q = Inr q1" "tq_ok (map snd es) q1" "armed_ok True q1" "tq_cancelingTimers q1 = []"
    "tq_heap q1 = (tq_heap q)(a := rescheduled now t)" by auto
  from Cons.IH [OF q1(2-4) Cons.prems(4)] q1(1,5) t e show ?case by (auto split: if_splits)
qed auto

lemma tq_reset_ok:
  assumes "tq_ok (map snd es) q" "armed_ok True q" "tq_cancelingTimers q = []" "0 < now"
  shows "\<exists>q'. tq_reset clock es now q = Inr q' \<and> tq_ok [] q' \<and> armed_ok False q' \<and> tq_cancelingTimers q' = [] \<and>
    (\<forall>a. tq_heap q' a = (if a \<in> snd ` set es then Option.bind (tq_heap q a) (rescheduled now) else tq_heap q a))"
proof -
  from reset_all_ok [OF assms] obtain q1 where q1: "rfold (reset_one now) es q = Inr q1" "tq_ok [] q1"
    "armed_ok True q1" "tq_cancelingTimers q1 = []"
    "\<And>a. tq_heap q1 a = (if a \<in> snd ` set es then Option.bind (tq_heap q a) (rescheduled now) else tq_heap q a)"
    by blast
  show ?thesis
  proof (cases "tq_timers q1")
    case Nil
    with q1 show ?thesis by (auto simp: tq_reset_def Timestamp_valid_def Timestamp_invalid_def armed_ok_def)
  next
    case (Cons e rest)
    then have "(fst e, snd e) \<in> set (tq_timers q1)" by simp
    then obtain t where t: "tq_heap q1 (snd e) = Some t" "tm_expiration t = fst e"
      using tq_okD(5) [OF q1(2)] by blast
    define q2 where "q2 = (if 0 < fst e then resetTimerfd clock (fst e) q1 else q1)"
    have "tq_reset clock es now q = Inr q2"
      using q1(1) Cons t by (simp add: tq_reset_def q2_def Timestamp_valid_def)
    moreover have "armed_ok False q2"
      using armed_reset [of q1 "fst e" False clock] q1(3) Cons by (auto simp: q2_def armed_ok_def)
    moreover have "tq_ok [] q2" using q1(2) by (simp add: q2_def tq_ok_def resetTimerfd_def)
    ultimately show ?thesis using q1(4,5) by (auto simp: q2_def resetTimerfd_def)
  qed
qed

lemma handleRead_sound:
  assumes inv: "tq_ok [] q" and alloc: "good_alloc alloc" and acts: "\<And>cb q. list_all request_ok (acts cb q)"
    and now: "0 < now"
  defines "es \<equiv> filter (\<lambda>e. fst e \<le> now) (tq_timers q)"
  shows "sound (\<lambda>q'. tq_ok [] q' \<and> armed_ok False q' \<and> tq_cancelingTimers q' = [] \<and>
      (\<forall>a \<in> snd ` set es. tq_heap q' a = Option.bind (tq_heap q a) (rescheduled now)))
    (tq_handleRead alloc acts now clock q)"
proof -
  have "tq_ok [] (readTimerfd q)" using inv by (simp add: tq_ok_def readTimerfd_def)
  moreover have es: "es = filter (\<lambda>e. fst e \<le> now) (tq_timers (readTimerfd q))"
    by (simp add: es_def readTimerfd_def)
  ultimately have G: "getExpired now (readTimerfd q) = Inr ((readTimerfd q)\<lparr>tq_timers := filter (\<lambda>e. now < fst e) (tq_timers q),
      tq_activeTimers := filter (\<lambda>x. fst x \<notin> snd ` set es) (tq_activeTimers q)\<rparr>, es)"
    "tq_ok (map snd es) ((readTimerfd q)\<lparr>tq_timers := filter (\<lambda>e. now < fst e) (tq_timers q),
      tq_activeTimers := filter (\<lambda>x. fst x \<notin> snd ` set es) (tq_activeTimers q)\<rparr>)"
    using getExpired_ok [of "readTimerfd q" now, folded es] by (simp_all add: readTimerfd_def)
  define q1 where "q1 = (readTimerfd q)\<lparr>tq_timers := filter (\<lambda>e. now < fst e) (tq_timers q),
    tq_activeTimers := filter (\<lambda>x. fst x \<notin> snd ` set es) (tq_activeTimers q),
    tq_callingExpiredTimers := True, tq_cancelingTimers := []\<rparr>"
  have "0 < fst (hd (tq_timers q1))" if "tq_timers q1 \<noteq> []"
    using hd_in_set [OF that] now by (auto simp: q1_def)
  then have start: "between True (map snd es) (tq_heap q) q1"
    using G(2) by (simp add: between_def armed_ok_def q1_def tq_ok_def readTimerfd_def)
  have "sound (between True (map snd es) (tq_heap q)) (rfold (Timer_run alloc acts) es q1)"
  proof (rule sound_rfold [where P = "between True (map snd es) (tq_heap q)"])
    show "between True (map snd es) (tq_heap q) q1" by (rule start)
    fix e p assume e: "e \<in> set es" and p: "between True (map snd es) (tq_heap q) p"
    then obtain t where "tq_heap p (snd e) = Some t" using tq_okD(10) [of "map snd es" p "snd e"]
      by (auto simp: between_def)
    moreover have "sound (between True (map snd es) (tq_heap q)) (rfold (tq_request alloc) (acts (tm_callback t) p) p)"
      using p by (rule sound_rfold [where P = "between True (map snd es) (tq_heap q)"])
        (erule request_sound [OF _ alloc], use acts in \<open>simp add: list_all_iff\<close>)
    ultimately show "sound (between True (map snd es) (tq_heap q)) (Timer_run alloc acts e p)"
      by (simp add: Timer_run_def)
  qed
  then have "sound (\<lambda>q'. tq_ok [] q' \<and> armed_ok False q' \<and> tq_cancelingTimers q' = [] \<and>
      (\<forall>a \<in> snd ` set es. tq_heap q' a = Option.bind (tq_heap q a) (rescheduled now)))
    (rbind (rfold (Timer_run alloc acts) es q1) (\<lambda>q. tq_reset clock es now (q\<lparr>tq_callingExpiredTimers := False\<rparr>)))"
  proof (rule sound_rbind)
    fix p assume p: "between True (map snd es) (tq_heap q) p"
    let ?p = "p\<lparr>tq_callingExpiredTimers := False\<rparr>"
    have "tq_ok (map snd es) p" "armed_ok True p" "tq_cancelingTimers p = []"
      using p by (simp_all add: between_def)
    then have "tq_ok (map snd es) ?p" "armed_ok True ?p" "tq_cancelingTimers ?p = []"
      by (simp_all add: tq_ok_def armed_ok_def)
    from tq_reset_ok [OF this now, of clock] p show "sound (\<lambda>q'. tq_ok [] q' \<and> armed_ok False q' \<and>
        tq_cancelingTimers q' = [] \<and>
        (\<forall>a \<in> snd ` set es. tq_heap q' a = Option.bind (tq_heap q a) (rescheduled now))) (tq_reset clock es now ?p)"
      by (force simp: sound_def between_def)
  qed
  moreover have "tq_handleRead alloc acts now clock q =
      rbind (rfold (Timer_run alloc acts) es q1) (\<lambda>q. tq_reset clock es now (q\<lparr>tq_callingExpiredTimers := False\<rparr>))"
    using G(1) by (simp add: tq_handleRead_def readTimerfd_def q1_def)
  ultimately show ?thesis by simp
qed

section \<open>Properties\<close>

text \<open>The events of a queue: requests made outside of callbacks, and the descriptor becoming readable.\<close>

datatype 'cb event =
    Request "'cb request"
  | Expire int int

fun tq_step :: "'cb allocator \<Rightarrow> 'cb behaviour \<Rightarrow> 'cb event \<Rightarrow> 'cb TimerQueue \<Rightarrow> 'cb TimerQueue res" where
  "tq_step alloc acts (Request r) q = tq_request alloc r q"
| "tq_step alloc acts (Expire now clock) q = tq_handleRead alloc acts now clock q"

fun event_ok :: "'cb event \<Rightarrow> bool" where
  "event_ok (Request r) = request_ok r"
| "event_ok (Expire now clock) = (0 < now)"

text \<open>
  C9: however requests and expiries follow each other, and whatever requests the callbacks make,
  no assertion of the queue fails and no deleted timer is used. Afterwards the two sets hold
  exactly the timers that are alive, each once and in the order of their times, nothing is leaked,
  and while there are timers the descriptor is set to fire by the time of the earliest one (or 100
  microseconds after it was set).
\<close>

theorem TimerQueue_consistent:
  assumes "good_alloc alloc" and "\<And>cb q. list_all request_ok (acts cb q)" and "list_all event_ok evs"
  shows "rfold (tq_step alloc acts) evs TimerQueue_new = Inl bad_alloc \<or>
    (\<exists>q. rfold (tq_step alloc acts) evs TimerQueue_new = Inr q \<and>
      sorted (tq_timers q) \<and> distinct (tq_timers q) \<and>
      set (tq_timers q) = {(tm_expiration t, a) | a t. tq_heap q a = Some t} \<and>
      set (tq_activeTimers q) = {(a, tm_sequence t) | a t. tq_heap q a = Some t} \<and>
      (tq_timers q \<noteq> [] \<longrightarrow> (\<exists>arm. tq_armed q = Some arm \<and>
         arm_due arm \<le> max (fst (hd (tq_timers q))) (fst arm + 100))))"
proof -
  let ?P = "between False [] (\<lambda>_. None)"
  have "sound ?P (rfold (tq_step alloc acts) evs TimerQueue_new)"
  proof (rule sound_rfold)
    show "?P TimerQueue_new" by (simp add: between_def tq_ok_def armed_ok_def TimerQueue_new_def)
    fix ev and q :: "'a TimerQueue" assume ev: "ev \<in> set evs" and q: "?P q"
    have ok: "event_ok ev" using assms(3) ev by (simp add: list_all_iff)
    show "sound ?P (tq_step alloc acts ev q)"
    proof (cases ev)
      case (Request r)
      with request_sound [OF q assms(1)] ok show ?thesis by simp
    next
      case (Expire now clock)
      with handleRead_sound [where q = q and now = now and clock = clock and acts = acts, OF _ assms(1,2)] q ok show ?thesis
        by (auto simp: sound_def between_def)
    qed
  qed
  then consider "rfold (tq_step alloc acts) evs TimerQueue_new = Inl bad_alloc"
    | q where "rfold (tq_step alloc acts) evs TimerQueue_new = Inr q" "tq_ok [] q" "armed_ok False q"
    by (auto simp: sound_def between_def)
  then show ?thesis
  proof cases
    case (2 q)
    have "set (tq_timers q) = {(tm_expiration t, a) | a t. tq_heap q a = Some t}"
      "set (tq_activeTimers q) = {(a, tm_sequence t) | a t. tq_heap q a = Some t}"
      by (auto simp: tq_okD(5) [OF 2(2)] tq_okD(6) [OF 2(2)])
    with 2 tq_okD(1,2) [OF 2(2)] show ?thesis by (auto simp: armed_ok_def)
  qed simp
qed

text \<open>The instance: an allocator with four addresses, and a repeating timer whose callback adds another one.\<close>

definition small_alloc :: "'cb allocator" where
  "small_alloc h = List.find (\<lambda>a. h a = None) [0, 1, 2, 3]"

definition sample_acts :: "bool behaviour" where
  "sample_acts cb q = (if cb then [Add 5200 False 7000 False 0] else [])"

definition sample_events :: "bool event list" where
  "sample_events = [Request (Add 4000 True 5000 True 1000), Request (Add 4100 False 4500 False 0),
     Request (Cancel (1, 2)), Expire 5100 5200]"

lemma good_small_alloc: "good_alloc small_alloc"
  by (auto simp: good_alloc_def small_alloc_def UINTPTR_MAX_def split: if_splits)

lemmas tq_eval = tq_handleRead_def getExpired_def readTimerfd_def TimerQueue_new_def Timer_new_def
  UINTPTR_MAX_def less_prod_def less_eq_prod_def erase_active_def oset_erase_def Timer_run_def tq_cancel_def cancelInLoop_def tq_reset_def
  reset_one_def tq_insert_def oset_insert_def Timer_restart_def Timestamp_valid_def addTime_def addTimer_def
  addTimerInLoop_def resetTimerfd_def small_alloc_def Let_def

theorem TimerQueue_consistent_witness:
  "\<exists>q. rfold (tq_step small_alloc sample_acts) sample_events TimerQueue_new = Inr q \<and>
     tq_timers q = [(6100, 0), (7000, 1)] \<and>
     (\<exists>arm. tq_armed q = Some arm \<and> arm_due arm \<le> max 6100 (fst arm + 100))"
proof -
  have run: "\<exists>q. rfold (tq_step small_alloc sample_acts) sample_events TimerQueue_new = Inr q \<and>
      tq_timers q = [(6100, 0), (7000, 1)]"
    by (simp add: sample_events_def sample_acts_def tq_eval)
  have "list_all request_ok (sample_acts cb q)" "list_all event_ok sample_events" for cb q
    by (simp_all add: sample_acts_def sample_events_def)
  from TimerQueue_consistent [where acts = sample_acts, OF good_small_alloc this] run show ?thesis by auto
qed

text \<open>
  C23: when the descriptor becomes readable, the timers whose time has come are taken out of the
  queue, in the order of their times, and no other one. After their callbacks each of them that
  repeats is queued again, its interval after the time of the expiry, and each other one is
  deleted; the callbacks cannot change that, so a repeating timer that cancels itself is queued
  again.
\<close>

theorem expired_timers_rescheduled:
  assumes "tq_ok [] q" and "good_alloc alloc" and "\<And>cb q. list_all request_ok (acts cb q)" and "0 < now"
    and "tq_handleRead alloc acts now clock q = Inr q'"
  shows "(\<exists>p. getExpired now (readTimerfd q) = Inr (p, filter (\<lambda>e. fst e \<le> now) (tq_timers q)) \<and>
       tq_timers p = filter (\<lambda>e. now < fst e) (tq_timers q)) \<and>
    (\<forall>w a t. (w, a) \<in> set (tq_timers q) \<and> w \<le> now \<and> tq_heap q a = Some t \<longrightarrow>
       (if tm_repeat t then (now + tm_delta t, a) \<in> set (tq_timers q') \<and> (a, tm_sequence t) \<in> set (tq_activeTimers q')
        else tq_heap q' a = None))"
proof (intro conjI allI impI)
  have "tq_ok [] (readTimerfd q)" using assms(1) by (simp add: tq_ok_def readTimerfd_def)
  from getExpired_ok(1) [OF this, of now] show "\<exists>p. getExpired now (readTimerfd q) =
      Inr (p, filter (\<lambda>e. fst e \<le> now) (tq_timers q)) \<and> tq_timers p = filter (\<lambda>e. now < fst e) (tq_timers q)"
    by (simp add: readTimerfd_def)
next
  fix w a t assume e: "(w, a) \<in> set (tq_timers q) \<and> w \<le> now \<and> tq_heap q a = Some t"
  from handleRead_sound [where q = q and now = now and clock = clock and acts = acts, OF assms(1-4)] assms(5)
  have ok: "tq_ok [] q'" and heap: "\<forall>a \<in> snd ` set (filter (\<lambda>e. fst e \<le> now) (tq_timers q)).
      tq_heap q' a = Option.bind (tq_heap q a) (rescheduled now)" by (auto simp: sound_def)
  have "a \<in> snd ` set (filter (\<lambda>e. fst e \<le> now) (tq_timers q))" using e by force
  with heap e have "tq_heap q' a = rescheduled now t" by auto
  then show "if tm_repeat t then (now + tm_delta t, a) \<in> set (tq_timers q') \<and> (a, tm_sequence t) \<in> set (tq_activeTimers q')
      else tq_heap q' a = None"
    by (simp add: rescheduled_def tq_okD(5) [OF ok] tq_okD(6) [OF ok] Timer_restart_def addTime_def)
qed

text \<open>The instance: a repeating timer at address 0 whose callback cancels it.\<close>

definition self_cancelling :: "bool TimerQueue" where
  "self_cancelling = TimerQueue_new\<lparr>tq_timers := [(5000, 0)], tq_activeTimers := [(0, 1)], tq_numCreated := 1,
     tq_heap := (\<lambda>a. if a = 0 then Some (Timer_new True 5000 True 1000 0) else None)\<rparr>"

definition cancel_acts :: "bool behaviour" where
  "cancel_acts cb q = [Cancel (0, 1)]"

lemma self_cancelling_ok: "tq_ok [] self_cancelling"
  by (auto simp: tq_ok_def self_cancelling_def TimerQueue_new_def Timer_new_def UINTPTR_MAX_def)

theorem expired_timers_rescheduled_witness:
  "\<exists>q'. tq_handleRead small_alloc cancel_acts 5100 5200 self_cancelling = Inr q' \<and> (6100, 0) \<in> set (tq_timers q')"
proof -
  have "\<exists>q'. tq_handleRead small_alloc cancel_acts 5100 5200 self_cancelling = Inr q'"
    by (simp add: self_cancelling_def cancel_acts_def tq_eval)
  then obtain q' where "tq_handleRead small_alloc cancel_acts 5100 5200 self_cancelling = Inr q'" by blast
  with expired_timers_rescheduled [OF self_cancelling_ok good_small_alloc, of cancel_acts 5100 5200 q']
  show ?thesis by (simp add: cancel_acts_def self_cancelling_def TimerQueue_new_def Timer_new_def)
qed

end
