(* ===== verification/Event_Loop.thy ===== *)
theory Event_Loop
  imports Pollers
begin

text \<open>
  The event loop (\<^verbatim>\<open>networking/EventLoop.h\<close>, \<^verbatim>\<open>networking/EventLoop.cpp\<close>) and the pool of loops
  (\<^verbatim>\<open>networking/EventLoopThreadPool.cpp\<close>, \<^verbatim>\<open>networking/EventLoopThread.cpp\<close>).

  The first part has the operations as functions on the loop object. The second part runs them in
  the threads: the loop's own thread advances through \<^verbatim>\<open>loop()\<close> in atomic steps, and between them
  other threads call \<^verbatim>\<open>queueInLoop\<close> and \<^verbatim>\<open>quit\<close>, each of which is two steps, the write to the
  shared field and the write to the \<^verbatim>\<open>eventfd\<close>. Functors are tokens. Callbacks and functors run in
  the loop's thread; what they ask of the loop are further steps of that thread.
\<close>

section \<open>The loop object\<close>

text \<open>\<open>el_wakeups\<close> is the counter of the \<^verbatim>\<open>eventfd\<close>, \<open>el_wakeupChannel\<close> the address of its channel.\<close>

record 'f EventLoop =
  el_self :: addr
  el_looping :: bool
  el_quit :: bool
  el_eventHandling :: bool
  el_callingPendingFunctors :: bool
  el_iteration :: int
  el_threadId :: nat
  el_pollReturnTime :: int
  el_wakeups :: nat
  el_wakeupChannel :: addr
  el_activeChannels :: "addr list"
  el_currentActiveChannel :: "addr option"
  el_pendingFunctors :: "'f list"

definition EventLoop_new :: "addr \<Rightarrow> nat \<Rightarrow> addr \<Rightarrow> 'f EventLoop" where
  "EventLoop_new self tid wakeupChannel =
     \<lparr>el_self = self, el_looping = False, el_quit = False, el_eventHandling = False,
      el_callingPendingFunctors = False, el_iteration = 0, el_threadId = tid, el_pollReturnTime = 0,
      el_wakeups = 0, el_wakeupChannel = wakeupChannel, el_activeChannels = [],
      el_currentActiveChannel = None, el_pendingFunctors = []\<rparr>"

definition isInLoopThread :: "nat \<Rightarrow> ('f, 'z) EventLoop_scheme \<Rightarrow> bool" where
  "isInLoopThread tid l \<longleftrightarrow> el_threadId l = tid"

definition assertInLoopThread :: "nat \<Rightarrow> ('f, 'z) EventLoop_scheme \<Rightarrow> 'a res \<Rightarrow> 'a res" where
  "assertInLoopThread tid l k = (if isInLoopThread tid l then k else Inl Fatal)"

text \<open>\<^verbatim>\<open>wakeup\<close> adds one to the counter; \<^verbatim>\<open>handleRead\<close> reads it, which sets it to zero.\<close>

definition el_wakeup :: "('f, 'z) EventLoop_scheme \<Rightarrow> ('f, 'z) EventLoop_scheme" where
  "el_wakeup l = l\<lparr>el_wakeups := el_wakeups l + 1\<rparr>"

definition el_handleRead :: "('f, 'z) EventLoop_scheme \<Rightarrow> ('f, 'z) EventLoop_scheme" where
  "el_handleRead l = l\<lparr>el_wakeups := 0\<rparr>"

definition push_functor :: "'f \<Rightarrow> ('f, 'z) EventLoop_scheme \<Rightarrow> ('f, 'z) EventLoop_scheme" where
  "push_functor cb l = l\<lparr>el_pendingFunctors := el_pendingFunctors l @ [cb]\<rparr>"

definition queueInLoop :: "nat \<Rightarrow> 'f \<Rightarrow> ('f, 'z) EventLoop_scheme \<Rightarrow> ('f, 'z) EventLoop_scheme" where
  "queueInLoop tid cb l =
     (let l = push_functor cb l in
      if \<not> isInLoopThread tid l \<or> el_callingPendingFunctors l then el_wakeup l else l)"

text \<open>\<open>call\<close> runs a functor in the calling thread.\<close>

definition runInLoop ::
  "('f \<Rightarrow> ('f, 'z) EventLoop_scheme \<Rightarrow> ('f, 'z) EventLoop_scheme) \<Rightarrow> nat \<Rightarrow> 'f \<Rightarrow> ('f, 'z) EventLoop_scheme \<Rightarrow>
   ('f, 'z) EventLoop_scheme" where
  "runInLoop call tid cb l = (if isInLoopThread tid l then call cb l else queueInLoop tid cb l)"

definition queueSize :: "('f, 'z) EventLoop_scheme \<Rightarrow> nat" where
  "queueSize l = length (el_pendingFunctors l)"

definition el_quit_call :: "nat \<Rightarrow> ('f, 'z) EventLoop_scheme \<Rightarrow> ('f, 'z) EventLoop_scheme" where
  "el_quit_call tid l =
     (let l = l\<lparr>el_quit := True\<rparr> in if \<not> isInLoopThread tid l then el_wakeup l else l)"

text \<open>The calls of a channel on its loop; \<open>upd\<close>, \<open>rem\<close> and \<open>has\<close> are those of the poller.\<close>

definition EventLoop_updateChannel ::
  "('cb, 's) chan_call \<Rightarrow> nat \<Rightarrow> ('f, 'z) EventLoop_scheme \<Rightarrow> ('cb, 's) chan_call" where
  "EventLoop_updateChannel upd tid l a w =
     rbind (deref (fst w) a) (\<lambda>c.
     require (ch_loop c = el_self l) (
     assertInLoopThread tid l (upd a w)))"

definition EventLoop_removeChannel ::
  "('cb, 's) chan_call \<Rightarrow> nat \<Rightarrow> ('f, 'z) EventLoop_scheme \<Rightarrow> ('cb, 's) chan_call" where
  "EventLoop_removeChannel rem tid l a w =
     rbind (deref (fst w) a) (\<lambda>c.
     require (ch_loop c = el_self l) (
     assertInLoopThread tid l (
     require (el_eventHandling l \<longrightarrow>
         el_currentActiveChannel l = Some a \<or> a \<notin> set (el_activeChannels l)) (rem a w))))"

definition EventLoop_hasChannel ::
  "(addr \<Rightarrow> ('cb, 's) world \<Rightarrow> bool res) \<Rightarrow> nat \<Rightarrow> ('f, 'z) EventLoop_scheme \<Rightarrow> addr \<Rightarrow> ('cb, 's) world \<Rightarrow> bool res" where
  "EventLoop_hasChannel has tid l a w =
     rbind (deref (fst w) a) (\<lambda>c.
     require (ch_loop c = el_self l) (
     assertInLoopThread tid l (has a w)))"

section \<open>The loop in its thread\<close>

text \<open>
  Where the loop's thread is: outside \<^verbatim>\<open>loop()\<close>, at the test of \<^verbatim>\<open>quit_\<close>, in the poll, at the
  active channels still to be handled, before the swap of \<^verbatim>\<open>pendingFunctors_\<close>, and at the functors
  still to be run. \<open>sys_waking\<close> counts the other threads that have pushed a functor or set
  \<^verbatim>\<open>quit_\<close> and have not yet written to the \<^verbatim>\<open>eventfd\<close>. The two histories record the functors that
  were pushed and those that \<^verbatim>\<open>doPendingFunctors\<close> has run; \<open>sys_early\<close> says that the loop's own
  thread pushed a functor outside \<^verbatim>\<open>loop()\<close> that has not been taken yet.
\<close>

datatype 'f pc =
    Outside
  | At_test
  | Polling
  | Handling "addr list"
  | Swapping
  | Running "'f list"

record 'f system = "'f EventLoop" +
  sys_pc :: "'f pc"
  sys_waking :: nat
  sys_pushed :: "'f list"
  sys_run :: "'f list"
  sys_early :: bool

text \<open>The parts of \<^verbatim>\<open>loop()\<close> and \<^verbatim>\<open>doPendingFunctors()\<close> between the points.\<close>

definition loop_enter :: "'f system \<Rightarrow> 'f system res" where
  "loop_enter s = require (\<not> el_looping s) (Inr (s\<lparr>el_looping := True, el_quit := False, sys_pc := At_test\<rparr>))"

definition loop_test :: "'f system \<Rightarrow> 'f system" where
  "loop_test s = (if el_quit s then s\<lparr>el_looping := False, sys_pc := Outside\<rparr>
     else s\<lparr>el_activeChannels := [], sys_pc := Polling\<rparr>)"

definition loop_polled :: "int \<Rightarrow> addr list \<Rightarrow> 'f system \<Rightarrow> 'f system" where
  "loop_polled now active s =
     s\<lparr>el_activeChannels := active, el_pollReturnTime := now, el_iteration := el_iteration s + 1,
       el_eventHandling := True, sys_pc := Handling active\<rparr>"

definition loop_handle :: "addr \<Rightarrow> addr list \<Rightarrow> 'f system \<Rightarrow> 'f system" where
  "loop_handle a rest s =
     (let s = s\<lparr>el_currentActiveChannel := Some a, sys_pc := Handling rest\<rparr>
      in if a = el_wakeupChannel s then el_handleRead s else s)"

definition loop_handled :: "'f system \<Rightarrow> 'f system" where
  "loop_handled s = s\<lparr>el_currentActiveChannel := None, el_eventHandling := False,
     el_callingPendingFunctors := True, sys_pc := Swapping\<rparr>"

definition functors_swap :: "'f system \<Rightarrow> 'f system" where
  "functors_swap s = s\<lparr>el_pendingFunctors := [], sys_pc := Running (el_pendingFunctors s)\<rparr>"

definition functors_run :: "'f \<Rightarrow> 'f list \<Rightarrow> 'f system \<Rightarrow> 'f system" where
  "functors_run f rest s = s\<lparr>sys_run := sys_run s @ [f], sys_pc := Running rest\<rparr>"

definition functors_done :: "'f system \<Rightarrow> 'f system" where
  "functors_done s = s\<lparr>el_callingPendingFunctors := False, sys_pc := At_test\<rparr>"

definition EventLoop_init :: "addr \<Rightarrow> nat \<Rightarrow> addr \<Rightarrow> 'f system" where
  "EventLoop_init self tid wakeupChannel =
     EventLoop.extend (EventLoop_new self tid wakeupChannel)
       \<lparr>sys_pc = Outside, sys_waking = 0, sys_pushed = [], sys_run = [], sys_early = False\<rparr>"

text \<open>
  The steps. The poll reports the wakeup channel whenever the counter is not zero (the descriptor
  is level-triggered), and never when it is zero. User code runs in the loop's thread while
  channels are handled and functors run, and before and after \<^verbatim>\<open>loop()\<close>.
\<close>

inductive el_step :: "'f system \<Rightarrow> 'f system \<Rightarrow> bool" where
  enter: "sys_pc s = Outside \<Longrightarrow> loop_enter s = Inr s' \<Longrightarrow> el_step s s'"
| test: "sys_pc s = At_test \<Longrightarrow> el_step s (loop_test s)"
| polled: "sys_pc s = Polling \<Longrightarrow> (el_wakeupChannel s \<in> set active \<longleftrightarrow> 0 < el_wakeups s) \<Longrightarrow>
    el_step s (loop_polled now active s)"
| handle: "sys_pc s = Handling (a # rest) \<Longrightarrow> el_step s (loop_handle a rest s)"
| handled: "sys_pc s = Handling [] \<Longrightarrow> el_step s (loop_handled s)"
| swap: "sys_pc s = Swapping \<Longrightarrow> el_step s ((functors_swap s)\<lparr>sys_early := False\<rparr>)"
| run: "sys_pc s = Running (f # rest) \<Longrightarrow> el_step s (functors_run f rest s)"
| run_done: "sys_pc s = Running [] \<Longrightarrow> el_step s (functors_done s)"
| own_queue: "sys_pc s = Handling rest \<or> sys_pc s = Running fs \<Longrightarrow>
    el_step s ((queueInLoop (el_threadId s) f s)\<lparr>sys_pushed := sys_pushed s @ [f]\<rparr>)"
| early_queue: "sys_pc s = Outside \<Longrightarrow>
    el_step s ((queueInLoop (el_threadId s) f s)\<lparr>sys_pushed := sys_pushed s @ [f], sys_early := True\<rparr>)"
| own_quit: "sys_pc s = Handling rest \<or> sys_pc s = Running fs \<or> sys_pc s = Outside \<Longrightarrow>
    el_step s (el_quit_call (el_threadId s) s)"
| other_push: "el_step s ((push_functor f s)\<lparr>sys_pushed := sys_pushed s @ [f], sys_waking := sys_waking s + 1\<rparr>)"
| other_quit: "el_step s (s\<lparr>el_quit := True, sys_waking := sys_waking s + 1\<rparr>)"
| other_wake: "0 < sys_waking s \<Longrightarrow> el_step s ((el_wakeup s)\<lparr>sys_waking := sys_waking s - 1\<rparr>)"

inductive el_reachable :: "'f system \<Rightarrow> bool" where
  initial: "el_reachable (EventLoop_init self tid wakeupChannel)"
| step: "el_reachable s \<Longrightarrow> el_step s s' \<Longrightarrow> el_reachable s'"

section \<open>The pool of loops\<close>

record EventLoopThreadPool =
  tp_baseLoop :: addr
  tp_name :: string
  tp_started :: bool
  tp_numThreads :: int
  tp_next :: int
  tp_threads :: "string list"
  tp_loops :: "addr list"

definition EventLoopThreadPool_new :: "addr \<Rightarrow> string \<Rightarrow> EventLoopThreadPool" where
  "EventLoopThreadPool_new baseLoop nameArg =
     \<lparr>tp_baseLoop = baseLoop, tp_name = nameArg, tp_started = False, tp_numThreads = 0, tp_next = 0,
      tp_threads = [], tp_loops = []\<rparr>"

definition setThreadNum :: "int \<Rightarrow> EventLoopThreadPool \<Rightarrow> EventLoopThreadPool" where
  "setThreadNum numThreads p = p\<lparr>tp_numThreads := numThreads\<rparr>"

text \<open>
  \<open>startLoop i\<close> is the loop the \<open>i\<close>-th new thread reports; the result lists the loops on which the
  init callback ran in this thread (\<open>has_cb\<close>: a callback was given). \<open>inLoop\<close> says that the caller
  is the base loop's thread.
\<close>

definition pool_start ::
  "bool \<Rightarrow> (int \<Rightarrow> addr) \<Rightarrow> bool \<Rightarrow> EventLoopThreadPool \<Rightarrow> (EventLoopThreadPool \<times> addr list) res" where
  "pool_start inLoop startLoop has_cb p =
     require (\<not> tp_started p) (
     if \<not> inLoop then Inl Fatal else
     let ids = map int [0..<nat (tp_numThreads p)];
         p = p\<lparr>tp_started := True,
               tp_threads := tp_threads p @ map (\<lambda>i. snprintf_buf (length (tp_name p) + 32) (tp_name p @ dec_int i)) ids,
               tp_loops := tp_loops p @ map startLoop ids\<rparr>
     in Inr (p, if tp_numThreads p = 0 \<and> has_cb then [tp_baseLoop p] else []))"

definition getNextLoop :: "bool \<Rightarrow> EventLoopThreadPool \<Rightarrow> (EventLoopThreadPool \<times> addr) res" where
  "getNextLoop inLoop p =
     (if \<not> inLoop then Inl Fatal else
      require (tp_started p) (
      if tp_loops p = [] then Inr (p, tp_baseLoop p)
      else if \<not> (0 \<le> tp_next p \<and> nat (tp_next p) < length (tp_loops p)) then Inl Undefined
      else
        let next = tp_next p + 1
        in Inr (p\<lparr>tp_next := (if length (tp_loops p) \<le> nat next then 0 else next)\<rparr>,
                tp_loops p ! nat (tp_next p))))"

definition getLoopForHash :: "bool \<Rightarrow> nat \<Rightarrow> EventLoopThreadPool \<Rightarrow> addr res" where
  "getLoopForHash inLoop hashCode p =
     (if \<not> inLoop then Inl Fatal
      else Inr (if tp_loops p = [] then tp_baseLoop p else tp_loops p ! (hashCode mod length (tp_loops p))))"

definition getAllLoops :: "bool \<Rightarrow> EventLoopThreadPool \<Rightarrow> addr list res" where
  "getAllLoops inLoop p =
     (if \<not> inLoop then Inl Fatal else
      require (tp_started p) (Inr (if tp_loops p = [] then [tp_baseLoop p] else tp_loops p)))"

end
