(* ===== verification/Event_Loop_Correct.thy ===== *)
theory Event_Loop_Correct
  imports Event_Loop
begin

text \<open>
  The wakeup protocol of the event loop: functors run once, in the order they were queued, and no
  request is left behind in a poll that nothing ends. The round robin of the pool.
\<close>

section \<open>The invariant\<close>

fun running :: "'f pc \<Rightarrow> 'f list" where
  "running (Running fs) = fs"
| "running _ = []"

text \<open>
  \<open>will_wake\<close>: the next poll returns at once, or a thread is about to write to the \<^verbatim>\<open>eventfd\<close>.
\<close>

definition will_wake :: "'f system \<Rightarrow> bool" where
  "will_wake s \<longleftrightarrow> 0 < el_wakeups s \<or> 0 < sys_waking s"

definition el_inv :: "'f system \<Rightarrow> bool" where
  "el_inv s \<longleftrightarrow>
     sys_pushed s = sys_run s @ running (sys_pc s) @ el_pendingFunctors s \<and>
     (el_looping s \<longleftrightarrow> sys_pc s \<noteq> Outside) \<and>
     (el_callingPendingFunctors s \<longleftrightarrow> sys_pc s = Swapping \<or> (\<exists>fs. sys_pc s = Running fs)) \<and>
     (el_eventHandling s \<longleftrightarrow> (\<exists>as. sys_pc s = Handling as)) \<and>
     (el_pendingFunctors s \<noteq> [] \<and> \<not> sys_early s \<and> sys_pc s \<noteq> Swapping \<and> (\<forall>as. sys_pc s \<noteq> Handling as) \<longrightarrow>
        will_wake s) \<and>
     (el_quit s \<and> sys_pc s = Polling \<longrightarrow> will_wake s)"

lemmas el_defs = loop_enter_def loop_test_def loop_polled_def loop_handle_def loop_handled_def functors_swap_def
  functors_run_def functors_done_def queueInLoop_def push_functor_def el_wakeup_def el_handleRead_def
  el_quit_call_def isInLoopThread_def Let_def

lemma el_inv_initial: "el_inv (EventLoop_init self tid wakeupChannel)"
  by (simp add: el_inv_def EventLoop_init_def EventLoop_new_def EventLoop.defs)

lemma el_inv_step: "el_step s s' \<Longrightarrow> el_inv s \<Longrightarrow> el_inv s'"
proof (induction rule: el_step.induct)
  case (enter s s')
  then show ?case by (auto simp: el_inv_def will_wake_def el_defs require_Inr_iff)
next
  case (own_queue s rest fs f)
  then show ?case by (auto simp: el_inv_def will_wake_def el_defs)
qed (auto simp: el_inv_def will_wake_def el_defs)

lemma el_reachable_inv: "el_reachable s \<Longrightarrow> el_inv s"
  by (induction rule: el_reachable.induct) (auto intro: el_inv_initial el_inv_step)

section \<open>Progress\<close>

lemma functors_run_all:
  "sys_pc s = Running fs \<Longrightarrow>
   el_step\<^sup>*\<^sup>* s (s\<lparr>sys_run := sys_run s @ fs, sys_pc := Running []\<rparr>)"
proof (induction fs arbitrary: s)
  case Nil
  then have "s\<lparr>sys_run := sys_run s @ [], sys_pc := Running []\<rparr> = s" by simp
  then show ?case by (metis rtranclp.rtrancl_refl)
next
  case (Cons f fs)
  have "el_step s (functors_run f fs s)" using Cons.prems by (rule el_step.run)
  moreover have "el_step\<^sup>*\<^sup>* (functors_run f fs s) (s\<lparr>sys_run := sys_run s @ f # fs, sys_pc := Running []\<rparr>)"
    using Cons.IH [of "functors_run f fs s"] by (simp add: functors_run_def)
  ultimately show ?case by (rule converse_rtranclp_into_rtranclp)
qed

text \<open>When the counter is not zero, the loop's own steps alone run everything that was pushed.\<close>

lemma pass_runs_pending:
  assumes "el_inv s" and "sys_pc s = Polling" and "0 < el_wakeups s"
  shows "\<exists>s'. el_step\<^sup>*\<^sup>* s s' \<and> sys_run s' = sys_pushed s \<and> sys_pc s' = At_test"
proof -
  define s1 where "s1 = loop_polled 0 [el_wakeupChannel s] s"
  define s2 where "s2 = loop_handle (el_wakeupChannel s) [] s1"
  define s3 where "s3 = loop_handled s2"
  define s4 where "s4 = (functors_swap s3)\<lparr>sys_early := False\<rparr>"
  define s5 where "s5 = s4\<lparr>sys_run := sys_run s4 @ el_pendingFunctors s, sys_pc := Running []\<rparr>"
  have "el_step s s1" unfolding s1_def using assms by (intro el_step.polled) auto
  moreover have "el_step s1 s2" unfolding s2_def by (rule el_step.handle) (simp add: s1_def loop_polled_def)
  moreover have "el_step s2 s3" unfolding s3_def
    by (rule el_step.handled) (simp add: s2_def s1_def el_defs)
  moreover have "el_step s3 s4" unfolding s4_def
    by (rule el_step.swap) (simp add: s3_def loop_handled_def)
  moreover have pend: "el_pendingFunctors s3 = el_pendingFunctors s" "sys_run s3 = sys_run s"
    by (simp_all add: s3_def s2_def s1_def el_defs)
  then have "el_step\<^sup>*\<^sup>* s4 s5" unfolding s5_def
    by (intro functors_run_all) (simp add: s4_def functors_swap_def)
  moreover have "el_step s5 (functors_done s5)"
    by (rule el_step.run_done) (simp add: s5_def)
  ultimately have "el_step\<^sup>*\<^sup>* s (functors_done s5)"
    by (meson converse_rtranclp_into_rtranclp rtranclp.rtrancl_into_rtrancl)
  moreover have "sys_run (functors_done s5) = sys_pushed s"
    using assms(1,2) pend by (simp add: functors_done_def s5_def s4_def functors_swap_def el_inv_def)
  moreover have "sys_pc (functors_done s5) = At_test" by (simp add: functors_done_def)
  ultimately show ?thesis by blast
qed

section \<open>Properties of the loop\<close>



text \<open>
  What is asked of a loop before \<^verbatim>\<open>loop()\<close>. A call of \<^verbatim>\<open>quit\<close> has no effect: \<^verbatim>\<open>loop()\<close> clears
  the flag and goes on to poll. A functor that the loop's own thread queues is pending when the
  loop polls, and the \<^verbatim>\<open>eventfd\<close> is not written, so it waits for another event or for the timeout
  of ten seconds.
\<close>

lemma requests_before_loop:
  "(\<exists>s'. loop_enter (el_quit_call other (EventLoop_init self tid wakeupChannel)) = Inr s' \<and>
      sys_pc (loop_test s') = Polling \<and> \<not> el_quit (loop_test s')) \<and>
   (\<exists>s'. loop_enter (queueInLoop tid f (EventLoop_init self tid wakeupChannel)) = Inr s' \<and>
      sys_pc (loop_test s') = Polling \<and> el_pendingFunctors (loop_test s') = [f] \<and> el_wakeups (loop_test s') = 0)"
  by (simp add: EventLoop_init_def EventLoop_new_def EventLoop.defs el_defs)

section \<open>The pool\<close>

text \<open>The results of \<open>k\<close> calls of \<^verbatim>\<open>getNextLoop\<close>.\<close>

fun next_loops :: "nat \<Rightarrow> EventLoopThreadPool \<Rightarrow> addr list res" where
  "next_loops 0 p = Inr []"
| "next_loops (Suc k) p =
     rbind (getNextLoop True p) (\<lambda>(p, l). rbind (next_loops k p) (\<lambda>ls. Inr (l # ls)))"

lemma next_loops_cycle:
  assumes "tp_started p" "tp_loops p \<noteq> []" "tp_next p = int i" "i < length (tp_loops p)"
  shows "next_loops k p = Inr (map (\<lambda>j. tp_loops p ! ((i + j) mod length (tp_loops p))) [0..<k])"
  using assms
proof (induction k arbitrary: p i)
  case (Suc k)
  let ?n = "length (tp_loops p)"
  define i' where "i' = (i + 1) mod ?n"
  define p' where "p' = p\<lparr>tp_next := int i'\<rparr>"
  have "(if ?n \<le> nat (tp_next p + 1) then 0 else tp_next p + 1) = int i'"
    using Suc.prems(3,4) by (cases "Suc i = ?n") (auto simp: i'_def nat_add_distrib)
  then have "getNextLoop True p = Inr (p', tp_loops p ! i)"
    using Suc.prems by (auto simp: getNextLoop_def p'_def Let_def split: if_splits)
  moreover have "next_loops k p' = Inr (map (\<lambda>j. tp_loops p ! ((i' + j) mod ?n)) [0..<k])"
    using Suc.IH [of p' i'] Suc.prems by (simp add: p'_def i'_def)
  moreover have "(i' + j) mod ?n = (i + Suc j) mod ?n" for j
    by (simp add: i'_def mod_simps)
  ultimately show ?case
    using Suc.prems(4) by (simp add: upt_conv_Cons map_Suc_upt [symmetric] del: upt_Suc)
qed simp

text \<open>
  C32: a pool started with a positive number of threads deals its loops out in turn: the \<open>j\<close>-th call
  of \<^verbatim>\<open>getNextLoop\<close> returns the loop of thread \<open>j\<close> modulo the number of threads. Started with none,
  it always returns the base loop.
\<close>

theorem pool_round_robin:
  assumes "pool_start True startLoop has_cb (setThreadNum n (EventLoopThreadPool_new base name)) = Inr (p, cbs)"
    and "0 \<le> n"
  shows "next_loops k p = Inr (map (\<lambda>j. if n = 0 then base else startLoop (int (j mod nat n))) [0..<k])"
proof (cases "n = 0")
  case True
  with assms(1) have p: "tp_started p" "tp_loops p = []" "tp_baseLoop p = base"
    by (auto simp: pool_start_def setThreadNum_def EventLoopThreadPool_new_def Let_def)
  then have "getNextLoop True p = Inr (p, base)" by (simp add: getNextLoop_def)
  then have "next_loops k p = Inr (replicate k base)" by (induction k) auto
  with True show ?thesis by (simp add: map_replicate_const)
next
  case False
  from assms(1) have p: "tp_started p" "tp_next p = int 0" "tp_loops p = map startLoop (map int [0..<nat n])"
    by (auto simp: pool_start_def setThreadNum_def EventLoopThreadPool_new_def Let_def require_Inr_iff)
  with next_loops_cycle [of p 0 k] False assms(2) show ?thesis by simp
qed

theorem pool_round_robin_witness:
  "next_loops 5 \<lparr>tp_baseLoop = 9, tp_name = ''io'', tp_started = True, tp_numThreads = 3, tp_next = 0,
     tp_threads = [''io0'', ''io1'', ''io2''], tp_loops = [10, 11, 12]\<rparr> = Inr [10, 11, 12, 10, 11]"
proof -
  have "dec_int 0 = ''0''" "dec_int 1 = ''1''" "dec_int 2 = ''2''" by code_simp+
  then have "pool_start True (\<lambda>i. nat i + 10) False (setThreadNum 3 (EventLoopThreadPool_new 9 ''io'')) =
      Inr (\<lparr>tp_baseLoop = 9, tp_name = ''io'', tp_started = True, tp_numThreads = 3, tp_next = 0,
     tp_threads = [''io0'', ''io1'', ''io2''], tp_loops = [10, 11, 12]\<rparr>, [])"
    by (simp add: pool_start_def setThreadNum_def EventLoopThreadPool_new_def Let_def snprintf_buf_def upt_rec numeral_3_eq_3)
  from pool_round_robin [OF this, of 5] show ?thesis by (simp add: upt_rec)
qed

end
