(* ===== verification/Loop_Thread.thy ===== *)
theory Loop_Thread
  imports Event_Loop_Correct Threads
begin

text \<open>
  The thread that owns an event loop, \<^verbatim>\<open>networking/EventLoopThread.cpp\<close>: the loop object lives on the stack
  of \<^verbatim>\<open>threadFunc\<close>, \<^verbatim>\<open>startLoop\<close> hands its address to the owner, and the destructor asks it to quit and joins.

  Owner and thread are at program points and take turns; a critical section is one step. The loop inside
  takes the steps of theory \<^verbatim>\<open>Event_Loop\<close>. The lemmas show what the hand-over guarantees and that the
  destructor's request can be lost.
\<close>

section \<open>The object and its threads\<close>

record EventLoopThread =
  et_loop :: "addr option"
  et_exiting :: bool
  et_thread :: Thread
  et_callback :: bool

definition EventLoopThread_new :: "int \<Rightarrow> bool \<Rightarrow> string \<Rightarrow> EventLoopThread" where
  "EventLoopThread_new numCreated cb name =
     \<lparr>et_loop = None, et_exiting = False, et_thread = fst (Thread_new numCreated name), et_callback = cb\<rparr>"

text \<open>
  The owner: before \<^verbatim>\<open>startLoop\<close>, at its test of \<^verbatim>\<open>loop_\<close>, blocked in \<^verbatim>\<open>cond_.wait\<close>, with the result, in the
  destructor before \<^verbatim>\<open>quit_ = true\<close>, before the write to the \<^verbatim>\<open>eventfd\<close>, and before the join. The thread: at the
  construction of the loop, at the init callback, at the critical section, before, in and behind \<^verbatim>\<open>loop()\<close>.
\<close>

datatype owner_pc = Idle | Testing | Waiting | Returned addr | Quitting | Waking | Joining | Gone

datatype thread_pc = Not_started | Constructing | Initialising | Publishing | Entering | Looping | Leaving | Finished

text \<open>
  \<open>lt_object\<close> is the loop while it exists, \<open>lt_called\<close> the loops the callback was called with; \<open>lt_late\<close> says that
  the destructor wrote \<^verbatim>\<open>quit_\<close> after the thread had entered \<^verbatim>\<open>loop()\<close>.
\<close>

record 'f loop_thread = EventLoopThread +
  lt_owner :: owner_pc
  lt_pc :: thread_pc
  lt_object :: "'f system option"
  lt_called :: "addr list"
  lt_late :: bool

definition loop_thread_new :: "int \<Rightarrow> bool \<Rightarrow> string \<Rightarrow> 'f loop_thread" where
  "loop_thread_new numCreated cb name =
     EventLoopThread.extend (EventLoopThread_new numCreated cb name)
       \<lparr>lt_owner = Idle, lt_pc = Not_started, lt_object = None, lt_called = [], lt_late = False\<rparr>"

text \<open>\<open>created\<close> is the id of the new thread, if \<^verbatim>\<open>pthread_create\<close> succeeds.\<close>

definition startLoop :: "int option \<Rightarrow> 'f loop_thread \<Rightarrow> 'f loop_thread res" where
  "startLoop created x =
     (case lt_owner x of
        Idle \<Rightarrow>
          rbind (thread_start created (et_thread x)) (\<lambda>t.
          Inr (x\<lparr>et_thread := t, lt_owner := Testing, lt_pc := (if th_started t then Constructing else Not_started)\<rparr>))
      | Testing \<Rightarrow> Inr (x\<lparr>lt_owner := (case et_loop x of None \<Rightarrow> Waiting | Some l \<Rightarrow> Returned l)\<rparr>)
      | _ \<Rightarrow> Inr x)"

text \<open>\<open>a\<close> and \<open>w\<close> are the addresses of the loop and of its wakeup channel. \<^verbatim>\<open>loop()\<close> itself is not a step of this function.\<close>

definition threadFunc :: "addr \<Rightarrow> addr \<Rightarrow> 'f loop_thread \<Rightarrow> 'f loop_thread res" where
  "threadFunc a w x =
     (case lt_pc x of
        Constructing \<Rightarrow>
          Inr (x\<lparr>lt_object := Some (EventLoop_init a (nat (th_tid (et_thread x))) w), lt_pc := Initialising\<rparr>)
      | Initialising \<Rightarrow> Inr (x\<lparr>lt_called := lt_called x @ (if et_callback x then [a] else []), lt_pc := Publishing\<rparr>)
      | Publishing \<Rightarrow>
          Inr (x\<lparr>et_loop := Some a, lt_owner := (if lt_owner x = Waiting then Testing else lt_owner x), lt_pc := Entering\<rparr>)
      | Entering \<Rightarrow>
          (case lt_object x of
             None \<Rightarrow> Inl Undefined
           | Some l \<Rightarrow> rbind (loop_enter l) (\<lambda>l. Inr (x\<lparr>lt_object := Some l, lt_pc := Looping\<rparr>)))
      | Leaving \<Rightarrow> Inr (x\<lparr>et_loop := None, lt_object := None, lt_pc := Finished\<rparr>)
      | _ \<Rightarrow> Inr x)"

text \<open>
  The destructor. It reads \<^verbatim>\<open>loop_\<close> without the mutex; \<^verbatim>\<open>quit\<close> sets the flag and then writes to the
  \<^verbatim>\<open>eventfd\<close>, in an object that may be gone by then.
\<close>

definition EventLoopThread_destroy :: "'f loop_thread \<Rightarrow> 'f loop_thread res" where
  "EventLoopThread_destroy x =
     (case lt_owner x of
        Quitting \<Rightarrow>
          (case lt_object x of
             None \<Rightarrow> Inl Undefined
           | Some l \<Rightarrow> Inr (x\<lparr>lt_object := Some (l\<lparr>el_quit := True, sys_waking := sys_waking l + 1\<rparr>),
               lt_late := (lt_pc x \<noteq> Entering), lt_owner := Waking\<rparr>))
      | Waking \<Rightarrow>
          (case lt_object x of
             None \<Rightarrow> Inl Undefined
           | Some l \<Rightarrow> Inr (x\<lparr>lt_object := Some ((el_wakeup l)\<lparr>sys_waking := sys_waking l - 1\<rparr>), lt_owner := Joining\<rparr>))
      | Joining \<Rightarrow> rbind (thread_join (et_thread x)) (\<lambda>t. Inr (x\<lparr>et_thread := t, lt_owner := Gone\<rparr>))
      | _ \<Rightarrow> Inr (x\<lparr>et_exiting := True, lt_owner := (case et_loop x of None \<Rightarrow> Gone | Some l \<Rightarrow> Quitting)\<rparr>))"

text \<open>
  The steps. A wait may end without a notification. The loop's own steps, and those of other threads on
  it, happen while it exists; a join ends when the thread has.
\<close>

inductive lt_step :: "addr \<Rightarrow> addr \<Rightarrow> 'f loop_thread \<Rightarrow> 'f loop_thread \<Rightarrow> bool" for a w where
  start: "lt_owner x = Idle \<or> lt_owner x = Testing \<Longrightarrow> startLoop created x = Inr y \<Longrightarrow> lt_step a w x y"
| spurious: "lt_owner x = Waiting \<Longrightarrow> lt_step a w x (x\<lparr>lt_owner := Testing\<rparr>)"
| thread: "lt_pc x \<in> {Constructing, Initialising, Publishing, Entering, Leaving} \<Longrightarrow> threadFunc a w x = Inr y \<Longrightarrow>
    lt_step a w x y"
| inside: "lt_object x = Some l \<Longrightarrow> el_step l l' \<Longrightarrow> (sys_pc l = Outside \<longleftrightarrow> sys_pc l' = Outside) \<Longrightarrow>
    lt_step a w x (x\<lparr>lt_object := Some l'\<rparr>)"
| left: "lt_object x = Some l \<Longrightarrow> el_step l l' \<Longrightarrow> sys_pc l \<noteq> Outside \<Longrightarrow> sys_pc l' = Outside \<Longrightarrow>
    lt_step a w x (x\<lparr>lt_object := Some l', lt_pc := Leaving\<rparr>)"
| destroy: "lt_owner x = Idle \<or> (\<exists>b. lt_owner x = Returned b) \<or> lt_owner x = Quitting \<or> lt_owner x = Waking \<or>
      lt_owner x = Joining \<and> lt_pc x = Finished \<Longrightarrow>
    EventLoopThread_destroy x = Inr y \<Longrightarrow> lt_step a w x y"

inductive lt_reachable :: "addr \<Rightarrow> addr \<Rightarrow> bool \<Rightarrow> 'f loop_thread \<Rightarrow> bool" for a w cb where
  initial: "lt_reachable a w cb (loop_thread_new numCreated cb name)"
| step: "lt_reachable a w cb x \<Longrightarrow> lt_step a w x y \<Longrightarrow> lt_reachable a w cb y"

section \<open>The invariant\<close>

definition published :: "thread_pc \<Rightarrow> bool" where
  "published c \<longleftrightarrow> c \<in> {Entering, Looping, Leaving}"

definition handed_out :: "thread_pc \<Rightarrow> bool" where
  "handed_out c \<longleftrightarrow> published c \<or> c = Finished"

fun owner_ok :: "addr \<Rightarrow> owner_pc \<Rightarrow> thread_pc \<Rightarrow> bool" where
  "owner_ok a Idle c = (c = Not_started)"
| "owner_ok a Testing c = True"
| "owner_ok a Waiting c = (\<not> published c)"
| "owner_ok a (Returned b) c = (b = a \<and> handed_out c)"
| "owner_ok a Quitting c = handed_out c"
| "owner_ok a Waking c = handed_out c"
| "owner_ok a Joining c = handed_out c"
| "owner_ok a Gone c = True"

definition object_ok :: "addr \<Rightarrow> thread_pc \<Rightarrow> bool \<Rightarrow> 'f system option \<Rightarrow> bool" where
  "object_ok a c late obj \<longleftrightarrow>
     (case obj of
        None \<Rightarrow> c \<in> {Not_started, Constructing, Finished}
      | Some l \<Rightarrow> c \<notin> {Not_started, Constructing, Finished} \<and> el_inv l \<and> el_self l = a \<and>
          (c = Looping \<longleftrightarrow> sys_pc l \<noteq> Outside) \<and> (late \<longrightarrow> el_quit l)) \<and>
     (late \<longrightarrow> c \<in> {Looping, Leaving, Finished})"

definition lt_inv :: "addr \<Rightarrow> bool \<Rightarrow> 'f loop_thread \<Rightarrow> bool" where
  "lt_inv a cb x \<longleftrightarrow>
     owner_ok a (lt_owner x) (lt_pc x) \<and>
     object_ok a (lt_pc x) (lt_late x) (lt_object x) \<and>
     et_callback x = cb \<and>
     et_loop x = (if published (lt_pc x) then Some a else None) \<and>
     lt_called x = (if cb \<and> (lt_pc x = Publishing \<or> handed_out (lt_pc x)) then [a] else []) \<and>
     (th_started (et_thread x) \<longleftrightarrow> lt_pc x \<noteq> Not_started) \<and>
     (th_joined (et_thread x) \<longrightarrow> lt_owner x = Gone)"

lemma published_simps [simp]:
  "\<not> published Not_started" "\<not> published Constructing" "\<not> published Initialising" "\<not> published Publishing"
  "published Entering" "published Looping" "published Leaving" "\<not> published Finished"
  "handed_out Finished" "published c \<Longrightarrow> handed_out c"
  "\<not> handed_out Not_started" "\<not> handed_out Constructing" "\<not> handed_out Initialising" "\<not> handed_out Publishing"
  by (auto simp: published_def handed_out_def)

lemma handed_out_object: "handed_out c \<Longrightarrow> object_ok a c late (Some l) \<Longrightarrow> published c"
  by (auto simp: handed_out_def object_ok_def)

lemma el_step_self: "el_step l l' \<Longrightarrow> el_self l' = el_self l"
  by (induction rule: el_step.induct) (auto simp: el_defs require_Inr_iff)

lemma el_step_quit: "el_step l l' \<Longrightarrow> el_quit l \<Longrightarrow> sys_pc l \<noteq> Outside \<or> sys_pc l' = Outside \<Longrightarrow> el_quit l'"
  by (induction rule: el_step.induct) (auto simp: el_defs require_Inr_iff)

lemma object_ok_step:
  assumes "object_ok a c late (Some l)" "el_step l l'" "c' = c \<and> (sys_pc l = Outside \<longleftrightarrow> sys_pc l' = Outside) \<or>
      c' = Leaving \<and> sys_pc l \<noteq> Outside \<and> sys_pc l' = Outside"
  shows "object_ok a c' late (Some l')"
  using assms(1,3) el_step_self [OF assms(2)] el_step_quit [OF assms(2)] el_inv_step [OF assms(2)]
  by (auto simp: object_ok_def)

lemma object_ok_enter: "object_ok a Entering late (Some l) \<Longrightarrow> loop_enter l = Inr l' \<Longrightarrow> object_ok a Looping late (Some l')"
  using el_inv_step [OF el_step.enter, of l l'] by (auto simp: object_ok_def loop_enter_def require_Inr_iff)

lemma object_ok_quit:
  "object_ok a c late (Some l) \<Longrightarrow> published c \<Longrightarrow>
     object_ok a c (c \<noteq> Entering) (Some (l\<lparr>el_quit := True, sys_waking := sys_waking l + 1\<rparr>))"
  using el_inv_step [OF el_step.other_quit, of l] by (auto simp: object_ok_def published_def)

lemma object_ok_wake: "object_ok a c late (Some l) \<Longrightarrow> object_ok a c late (Some ((el_wakeup l)\<lparr>sys_waking := sys_waking l - 1\<rparr>))"
  by (auto simp: object_ok_def el_inv_def will_wake_def el_wakeup_def)

lemma object_ok_new: "object_ok a Initialising False (Some (EventLoop_init a i w))"
  using el_inv_initial [of a i w] by (simp add: object_ok_def EventLoop_init_def EventLoop_new_def EventLoop.defs)

lemma object_ok_move:
  "object_ok a Initialising late obj \<Longrightarrow> object_ok a Publishing late obj"
  "object_ok a Publishing late obj \<Longrightarrow> object_ok a Entering late obj"
  by (simp_all add: object_ok_def split: option.splits)

lemma owner_ok_move:
  "owner_ok a ow c \<Longrightarrow> c \<noteq> Not_started \<Longrightarrow> handed_out c' \<longleftrightarrow> handed_out c \<Longrightarrow> published c' \<longrightarrow> published c \<Longrightarrow> owner_ok a ow c'"
  by (cases ow) auto

lemma owner_ok_publish: "owner_ok a ow Publishing \<Longrightarrow> owner_ok a (if ow = Waiting then Testing else ow) Entering"
  by (cases ow) auto

lemma thread_start_Inr:
  "thread_start created t = Inr t' \<Longrightarrow> \<not> th_started t \<and> th_joined t' = th_joined t \<and> (th_started t' \<longleftrightarrow> created \<noteq> None)"
  by (auto simp: thread_start_def publish_tid_def require_Inr_iff Let_def split: option.splits prod.splits)

lemma startLoop_inv:
  assumes "lt_inv a cb x" "startLoop created x = Inr y"
  shows "lt_inv a cb y"
proof (cases "lt_owner x")
  case Idle
  then obtain t where t: "thread_start created (et_thread x) = Inr t"
    and y: "y = x\<lparr>et_thread := t, lt_owner := Testing, lt_pc := (if th_started t then Constructing else Not_started)\<rparr>"
    using assms(2) by (auto simp: startLoop_def rbind_Inr_iff)
  have pc: "lt_pc x = Not_started" using assms(1) Idle by (simp add: lt_inv_def)
  show ?thesis
    using assms(1) Idle pc thread_start_Inr [OF t] by (auto simp: lt_inv_def y object_ok_def split: option.splits)
next
  case Testing
  then have "y = x\<lparr>lt_owner := (case et_loop x of None \<Rightarrow> Waiting | Some l \<Rightarrow> Returned l)\<rparr>"
    using assms(2) by (simp add: startLoop_def)
  then show ?thesis using assms(1) Testing by (cases "published (lt_pc x)") (simp_all add: lt_inv_def)
qed (use assms in \<open>simp_all add: startLoop_def\<close>)

lemma threadFunc_inv:
  assumes "lt_inv a cb x" "threadFunc a w x = Inr y"
  shows "lt_inv a cb y"
proof (cases "lt_pc x")
  case Constructing
  then have "\<not> lt_late x" using assms(1) by (auto simp: lt_inv_def object_ok_def)
  then show ?thesis using assms Constructing object_ok_new [of a "nat (th_tid (et_thread x))" w]
      owner_ok_move [of a "lt_owner x" Constructing Initialising]
    by (auto simp: threadFunc_def lt_inv_def)
next
  case Entering
  then obtain l where l: "lt_object x = Some l" using assms(2) by (auto simp: threadFunc_def split: option.splits)
  with assms(2) Entering obtain l' where l': "loop_enter l = Inr l'" and y: "y = x\<lparr>lt_object := Some l', lt_pc := Looping\<rparr>"
    by (auto simp: threadFunc_def rbind_Inr_iff)
  from assms(1) Entering l have "object_ok a Looping (lt_late x) (Some l')"
    by (intro object_ok_enter [OF _ l']) (simp add: lt_inv_def)
  then show ?thesis using assms(1) Entering owner_ok_move [of a "lt_owner x" Entering Looping] by (simp add: lt_inv_def y)
next
  case Initialising
  then have y: "y = x\<lparr>lt_called := lt_called x @ (if et_callback x then [a] else []), lt_pc := Publishing\<rparr>"
    using assms(2) by (simp add: threadFunc_def)
  show ?thesis
    using assms(1) Initialising object_ok_move(1) [of a "lt_late x" "lt_object x"] owner_ok_move [of a "lt_owner x" Initialising Publishing]
    by (simp add: lt_inv_def y)
next
  case Publishing
  then have y: "y = x\<lparr>et_loop := Some a, lt_owner := (if lt_owner x = Waiting then Testing else lt_owner x), lt_pc := Entering\<rparr>"
    using assms(2) by (simp add: threadFunc_def)
  show ?thesis
    using assms(1) Publishing object_ok_move(2) [of a "lt_late x" "lt_object x"] owner_ok_publish [of a "lt_owner x"]
    by (simp add: lt_inv_def y)
next
  case Leaving
  then have y: "y = x\<lparr>et_loop := None, lt_object := None, lt_pc := Finished\<rparr>"
    using assms(2) by (simp add: threadFunc_def)
  show ?thesis
    using assms(1) Leaving owner_ok_move [of a "lt_owner x" Leaving Finished] by (simp add: lt_inv_def y object_ok_def)
qed (use assms in \<open>simp_all add: threadFunc_def\<close>)

lemma destroy_quit_inv:
  assumes "lt_inv a cb x" "lt_owner x = Quitting" "EventLoopThread_destroy x = Inr y"
  shows "lt_inv a cb y"
proof -
  obtain l where l: "lt_object x = Some l" using assms(2,3) by (auto simp: EventLoopThread_destroy_def split: option.splits)
  then have obj: "object_ok a (lt_pc x) (lt_late x) (Some l)" "handed_out (lt_pc x)"
    using assms(1,2) by (simp_all add: lt_inv_def)
  have y: "y = x\<lparr>lt_object := Some (l\<lparr>el_quit := True, sys_waking := sys_waking l + 1\<rparr>),
      lt_late := (lt_pc x \<noteq> Entering), lt_owner := Waking\<rparr>"
    using assms(2,3) l by (simp add: EventLoopThread_destroy_def)
  show ?thesis
    using assms(1,2) obj(2) object_ok_quit [OF obj(1) handed_out_object [OF obj(2,1)]] by (simp add: lt_inv_def y)
qed

lemma destroy_wake_inv:
  assumes "lt_inv a cb x" "lt_owner x = Waking" "EventLoopThread_destroy x = Inr y"
  shows "lt_inv a cb y"
proof -
  obtain l where l: "lt_object x = Some l" using assms(2,3) by (auto simp: EventLoopThread_destroy_def split: option.splits)
  then have y: "y = x\<lparr>lt_object := Some ((el_wakeup l)\<lparr>sys_waking := sys_waking l - 1\<rparr>), lt_owner := Joining\<rparr>"
    using assms(2,3) by (simp add: EventLoopThread_destroy_def)
  show ?thesis
    using assms(1,2) l object_ok_wake [of a "lt_pc x" "lt_late x" l] by (simp add: lt_inv_def y)
qed

lemma destroy_begin_inv:
  assumes "lt_inv a cb x" "lt_owner x \<notin> {Quitting, Waking, Joining, Gone}" "EventLoopThread_destroy x = Inr y"
  shows "lt_inv a cb y"
proof -
  have y: "y = x\<lparr>et_exiting := True, lt_owner := (case et_loop x of None \<Rightarrow> Gone | Some l \<Rightarrow> Quitting)\<rparr>"
    using assms(2,3) by (cases "lt_owner x") (simp_all add: EventLoopThread_destroy_def)
  show ?thesis using assms(1,2) by (cases "published (lt_pc x)") (simp_all add: lt_inv_def y)
qed

lemma destroy_inv:
  assumes "lt_inv a cb x" "EventLoopThread_destroy x = Inr y" "lt_owner x \<noteq> Gone"
  shows "lt_inv a cb y"
proof (cases "lt_owner x = Joining")
  case True
  then obtain t where "y = x\<lparr>et_thread := t, lt_owner := Gone\<rparr>" "th_started t = th_started (et_thread x)"
    using assms(2) by (auto simp: EventLoopThread_destroy_def rbind_Inr_iff thread_join_iff)
  then show ?thesis using assms(1) by (simp add: lt_inv_def)
next
  case False
  then show ?thesis
    using destroy_quit_inv [OF assms(1) _ assms(2)] destroy_wake_inv [OF assms(1) _ assms(2)]
      destroy_begin_inv [OF assms(1) _ assms(2)] assms(3) by blast
qed

lemma lt_inv_step: "lt_step a w x y \<Longrightarrow> lt_inv a cb x \<Longrightarrow> lt_inv a cb y"
proof (induction rule: lt_step.induct)
  case (inside x l l')
  then have "object_ok a (lt_pc x) (lt_late x) (Some l)" by (simp add: lt_inv_def)
  from object_ok_step [OF this inside(2)] inside show ?case by (simp add: lt_inv_def)
next
  case (left x l l')
  then have obj: "object_ok a (lt_pc x) (lt_late x) (Some l)" by (simp add: lt_inv_def)
  then have "lt_pc x = Looping" using left(3) by (simp add: object_ok_def)
  moreover have "object_ok a Leaving (lt_late x) (Some l')" using object_ok_step [OF obj left(2)] left(3,4) by simp
  ultimately show ?case using left(5) owner_ok_move [of a "lt_owner x" Looping Leaving] by (simp add: lt_inv_def)
next
  case (start x created y)
  show ?case by (rule startLoop_inv [OF start(3,2)])
next
  case (spurious x)
  then show ?case by (simp add: lt_inv_def)
next
  case (thread x y)
  show ?case by (rule threadFunc_inv [OF thread(3,2)])
next
  case (destroy x y)
  then show ?case by (intro destroy_inv [OF destroy(3,2)]) auto
qed

lemma lt_reachable_inv: "lt_reachable a w cb x \<Longrightarrow> lt_inv a cb x"
proof (induction rule: lt_reachable.induct)
  case (initial numCreated name)
  show ?case
    by (simp add: lt_inv_def loop_thread_new_def EventLoopThread_new_def EventLoopThread.defs object_ok_def
        Thread_new_def setDefaultName_def Let_def)
qed (rule lt_inv_step)

section \<open>A request that is lost\<close>

text \<open>A run in which the destructor asks before the thread enters \<^verbatim>\<open>loop()\<close>, and the loop forgets it.\<close>

definition handed_over :: "addr \<Rightarrow> addr \<Rightarrow> 'f loop_thread" where
  "handed_over a w =
     \<lparr>et_loop = Some a, et_exiting = False, et_thread = \<lparr>th_started = True, th_joined = False, th_tid = 7, th_name = ''t''\<rparr>,
      et_callback = False, lt_owner = Returned a, lt_pc = Entering, lt_object = Some (EventLoop_init a 7 w),
      lt_called = [], lt_late = False\<rparr>"

lemma handed_over_reachable: "lt_reachable a w False (handed_over a w :: 'f loop_thread)"
proof -
  let ?h = "handed_over a w :: 'f loop_thread"
  define x where "x c obj = ?h\<lparr>et_loop := None, lt_owner := Testing, lt_pc := c, lt_object := obj\<rparr>" for c obj
  note reach = lt_reachable.step [of a w False]
  have "lt_reachable a w False (loop_thread_new 0 False ''t'' :: 'f loop_thread)" by (rule lt_reachable.initial)
  moreover have "lt_step a w (loop_thread_new 0 False ''t'') (x Constructing None)"
    by (rule lt_step.start [of _ "Some 7"])
      (simp_all add: x_def handed_over_def loop_thread_new_def EventLoopThread_new_def EventLoopThread.defs startLoop_def
        thread_start_def Thread_new_def setDefaultName_def publish_tid_def tid_def cacheTid_def CurrentThread_init_def Let_def)
  ultimately have "lt_reachable a w False (x Constructing None)" by (rule reach)
  moreover have "lt_step a w (x Constructing None) (x Initialising (lt_object ?h))"
    by (rule lt_step.thread) (simp_all add: x_def handed_over_def threadFunc_def)
  ultimately have "lt_reachable a w False (x Initialising (lt_object ?h))" by (rule reach)
  moreover have "lt_step a w (x Initialising (lt_object ?h)) (x Publishing (lt_object ?h))"
    by (rule lt_step.thread) (simp_all add: x_def handed_over_def threadFunc_def)
  ultimately have "lt_reachable a w False (x Publishing (lt_object ?h))" by (rule reach)
  moreover have "lt_step a w (x Publishing (lt_object ?h)) (?h\<lparr>lt_owner := Testing\<rparr>)"
    by (rule lt_step.thread) (simp_all add: x_def handed_over_def threadFunc_def)
  ultimately have "lt_reachable a w False (?h\<lparr>lt_owner := Testing\<rparr>)" by (rule reach)
  moreover have "lt_step a w (?h\<lparr>lt_owner := Testing\<rparr>) ?h"
    by (rule lt_step.start) (simp_all add: handed_over_def startLoop_def)
  ultimately show ?thesis by (rule reach)
qed

text \<open>The destructor joins a thread that is in \<^verbatim>\<open>loop()\<close> with \<^verbatim>\<open>quit_\<close> false.\<close>

definition join_hangs :: "'f loop_thread \<Rightarrow> bool" where
  "join_hangs x \<longleftrightarrow> lt_owner x = Joining \<and> lt_pc x = Looping \<and> (\<exists>l. lt_object x = Some l \<and> \<not> el_quit l)"

lemma join_hangs_reachable: "\<exists>x :: 'f loop_thread. lt_reachable a w False x \<and> join_hangs x"
proof -
  let ?h = "handed_over a w :: 'f loop_thread"
  let ?l = "EventLoop_init a 7 w :: 'f system"
  define x where "x ow obj = ?h\<lparr>et_exiting := True, lt_owner := ow, lt_object := Some obj\<rparr>" for ow obj
  note reach = lt_reachable.step [of a w False]
  have "lt_step a w ?h (x Quitting ?l)"
    by (rule lt_step.destroy) (simp_all add: x_def handed_over_def EventLoopThread_destroy_def)
  with handed_over_reachable have "lt_reachable a w False (x Quitting ?l)" by (rule reach)
  moreover have "lt_step a w (x Quitting ?l) (x Waking (?l\<lparr>el_quit := True, sys_waking := 1\<rparr>))"
    by (rule lt_step.destroy) (simp_all add: x_def handed_over_def EventLoopThread_destroy_def EventLoop_init_def EventLoop.defs)
  ultimately have "lt_reachable a w False (x Waking (?l\<lparr>el_quit := True, sys_waking := 1\<rparr>))" by (rule reach)
  moreover have "lt_step a w (x Waking (?l\<lparr>el_quit := True, sys_waking := 1\<rparr>)) (x Joining (?l\<lparr>el_quit := True, el_wakeups := 1\<rparr>))"
    by (rule lt_step.destroy)
      (simp_all add: x_def handed_over_def EventLoopThread_destroy_def EventLoop_init_def EventLoop_new_def EventLoop.defs el_wakeup_def)
  ultimately have joining: "lt_reachable a w False (x Joining (?l\<lparr>el_quit := True, el_wakeups := 1\<rparr>))" by (rule reach)
  define y where "y = (x Joining (?l\<lparr>el_looping := True, el_wakeups := 1, sys_pc := At_test\<rparr>))\<lparr>lt_pc := Looping\<rparr>"
  have "lt_step a w (x Joining (?l\<lparr>el_quit := True, el_wakeups := 1\<rparr>)) y"
    by (rule lt_step.thread)
      (simp_all add: x_def y_def handed_over_def threadFunc_def loop_enter_def EventLoop_init_def EventLoop_new_def EventLoop.defs)
  with joining have "lt_reachable a w False y" by (rule reach)
  moreover have "join_hangs y"
    by (simp add: join_hangs_def y_def x_def handed_over_def EventLoop_init_def EventLoop_new_def EventLoop.defs)
  ultimately show ?thesis by blast
qed

lemma el_step_leaves: "el_step l l' \<Longrightarrow> sys_pc l \<noteq> Outside \<Longrightarrow> sys_pc l' = Outside \<Longrightarrow> el_quit l"
  by (induction rule: el_step.induct) (auto simp: el_defs split: if_splits)

lemma join_hangs_step:
  assumes "lt_step a w x y" "join_hangs x"
  shows "join_hangs y \<or> (\<exists>l. lt_object y = Some l \<and> el_quit l)"
  using assms
  by (induction rule: lt_step.induct) (auto simp: join_hangs_def dest: el_step_leaves)

section \<open>Properties\<close>

text \<open>
  C18: \<^verbatim>\<open>startLoop\<close> returns the loop of the new thread, after the init callback has run on it, once, and no
  notification is missed: the owner is never blocked while \<^verbatim>\<open>loop_\<close> is set. When the destructor asks the
  loop to quit after the thread has entered \<^verbatim>\<open>loop()\<close>, the flag stays set until the loop ends, the poll is woken,
  and the join then succeeds. A request made before that is lost: the destructor can wait for a thread in a loop
  that will not end unless somebody else calls \<^verbatim>\<open>quit\<close>.
\<close>

theorem EventLoopThread_hands_over_loop:
  assumes "lt_reachable a w cb (x :: 'f loop_thread)"
  shows "(\<forall>b. lt_owner x = Returned b \<longrightarrow> b = a \<and> lt_called x = (if cb then [a] else [])) \<and>
    (lt_owner x = Waiting \<longrightarrow> et_loop x = None) \<and>
    (\<forall>l. lt_owner x = Joining \<and> lt_late x \<and> lt_object x = Some l \<longrightarrow>
       el_quit l \<and> (sys_pc l = Polling \<longrightarrow> 0 < el_wakeups l \<or> 0 < sys_waking l)) \<and>
    (lt_owner x = Joining \<and> lt_pc x = Finished \<longrightarrow>
       (\<exists>y. EventLoopThread_destroy x = Inr y \<and> lt_owner y = Gone \<and> th_joined (et_thread y))) \<and>
    (\<exists>z :: 'f loop_thread. lt_reachable a w False z \<and> join_hangs z) \<and>
    (\<forall>y. join_hangs x \<and> lt_step a w x y \<longrightarrow> join_hangs y \<or> (\<exists>l. lt_object y = Some l \<and> el_quit l))"
proof (intro conjI)
  have inv: "owner_ok a (lt_owner x) (lt_pc x)" "object_ok a (lt_pc x) (lt_late x) (lt_object x)"
    "et_loop x = (if published (lt_pc x) then Some a else None)"
    "lt_called x = (if cb \<and> (lt_pc x = Publishing \<or> handed_out (lt_pc x)) then [a] else [])"
    "th_started (et_thread x) \<longleftrightarrow> lt_pc x \<noteq> Not_started" "th_joined (et_thread x) \<longrightarrow> lt_owner x = Gone"
    using lt_reachable_inv [OF assms] by (simp_all add: lt_inv_def)
  show "\<forall>b. lt_owner x = Returned b \<longrightarrow> b = a \<and> lt_called x = (if cb then [a] else [])" using inv(1,4) by auto
  show "lt_owner x = Waiting \<longrightarrow> et_loop x = None" using inv(1,3) by auto
  show "\<forall>l. lt_owner x = Joining \<and> lt_late x \<and> lt_object x = Some l \<longrightarrow>
      el_quit l \<and> (sys_pc l = Polling \<longrightarrow> 0 < el_wakeups l \<or> 0 < sys_waking l)"
    using inv(2) by (auto simp: object_ok_def el_inv_def will_wake_def)
  show "lt_owner x = Joining \<and> lt_pc x = Finished \<longrightarrow>
      (\<exists>y. EventLoopThread_destroy x = Inr y \<and> lt_owner y = Gone \<and> th_joined (et_thread y))"
    using inv(5,6) by (auto simp: EventLoopThread_destroy_def thread_join_def)
  show "\<exists>z :: 'f loop_thread. lt_reachable a w False z \<and> join_hangs z" by (rule join_hangs_reachable)
  show "\<forall>y. join_hangs x \<and> lt_step a w x y \<longrightarrow> join_hangs y \<or> (\<exists>l. lt_object y = Some l \<and> el_quit l)"
    using join_hangs_step by blast
qed

theorem EventLoopThread_hands_over_loop_witness:
  "lt_reachable 1 2 False (handed_over 1 2 :: nat loop_thread) \<and> lt_owner (handed_over 1 2 :: nat loop_thread) = Returned 1 \<and>
   lt_called (handed_over 1 2 :: nat loop_thread) = []"
  using EventLoopThread_hands_over_loop [OF handed_over_reachable [of 1 2, where 'f = nat]] handed_over_reachable [of 1 2, where 'f = nat]
  by (simp add: handed_over_def)

end
