(* ===== verification/Tcp_Connection.thy ===== *)
theory Tcp_Connection
  imports Buffer Channel Counters
begin

text \<open>
  A TCP connection (\<^verbatim>\<open>networking/TcpConnection.h\<close>, \<^verbatim>\<open>networking/TcpConnection.cpp\<close>): its state, the
  output path through the buffer, and the handlers of its channel.

  The connection owns its channel; \<^verbatim>\<open>enableReading\<close> and the others change its events and register
  it with the loop (theory \<open>Channel\<close>), and what the poller then watches is those events (theory
  \<open>Pollers_Agree\<close>). Each call of \<^verbatim>\<open>write\<close> has its result as an argument, a function of the
  bytes offered. The functors that the connection hands to its loop are collected in order in
  \<open>tc_pending\<close>. User callbacks are given by \<open>user\<close>: the calls on the connection that the callback
  makes, which may depend on the connection. \<open>tid\<close> is the calling thread.

  The socket keeps what can be observed of it: the bytes it accepted and the calls of
  \<^verbatim>\<open>shutdownWrite\<close>. \<open>tc_sent\<close> is the data handed to \<^verbatim>\<open>sendInLoop\<close> so far, and \<open>tc_broken\<close> that the
  socket reported \<^verbatim>\<open>EPIPE\<close> or \<^verbatim>\<open>ECONNRESET\<close>; neither is read by the code.
\<close>

section \<open>State\<close>

datatype StateE = kDisconnected | kConnecting | kConnected | kDisconnecting

datatype handler = Handle_read | Handle_write | Handle_close | Handle_error

datatype write_result = Wrote nat | Write_error int

definition EWOULDBLOCK :: int where "EWOULDBLOCK = 11"
definition EPIPE :: int where "EPIPE = 32"
definition ECONNRESET :: int where "ECONNRESET = 104"

datatype tc_functor =
    Send_in_loop string
  | Shutdown_in_loop
  | Force_close_in_loop
  | Start_read_in_loop
  | Stop_read_in_loop
  | Write_complete
  | High_water_mark nat

record TcpConnection =
  tc_loopThread :: nat
  tc_name :: string
  tc_state :: StateE
  tc_reading :: bool
  tc_channel :: "handler Channel"
  tc_writeCompleteCallback :: bool
  tc_highWaterMarkCallback :: bool
  tc_highWaterMark :: nat
  tc_inputBuffer :: Buffer
  tc_outputBuffer :: Buffer
  tc_bytesReceivedCounter :: MinuteHourCounter
  tc_pending :: "tc_functor list"
  tc_delayed :: nat
  tc_connectionCalls :: "StateE list"
  tc_closeCalls :: nat
  tc_accepted :: string
  tc_shutdowns :: "(StateE \<times> string \<times> string) list"
  tc_sent :: string
  tc_broken :: bool

definition TcpConnection_new ::
  "nat \<Rightarrow> addr \<Rightarrow> string \<Rightarrow> int \<Rightarrow> Buffer \<Rightarrow> Buffer \<Rightarrow> MinuteHourCounter \<Rightarrow> TcpConnection" where
  "TcpConnection_new loopThread loop name sockfd input output counter =
     \<lparr>tc_loopThread = loopThread, tc_name = name, tc_state = kConnecting, tc_reading = True,
      tc_channel = setErrorCallback Handle_error (setCloseCallback Handle_close
        (setWriteCallback Handle_write (setReadCallback Handle_read (Channel_new loop sockfd)))),
      tc_writeCompleteCallback = False, tc_highWaterMarkCallback = False,
      tc_highWaterMark = 64 * 1024 * 1024, tc_inputBuffer = input, tc_outputBuffer = output,
      tc_bytesReceivedCounter = counter, tc_pending = [], tc_delayed = 0, tc_connectionCalls = [],
      tc_closeCalls = 0, tc_accepted = [], tc_shutdowns = [], tc_sent = [], tc_broken = False\<rparr>"

definition TcpConnection_destroy :: "TcpConnection \<Rightarrow> unit res" where
  "TcpConnection_destroy c = require (tc_state c = kDisconnected) (Inr ())"

definition tc_connected :: "TcpConnection \<Rightarrow> bool" where
  "tc_connected c \<longleftrightarrow> tc_state c = kConnected"

definition setState :: "StateE \<Rightarrow> TcpConnection \<Rightarrow> TcpConnection" where
  "setState s c = c\<lparr>tc_state := s\<rparr>"

definition setWriteCompleteCallback :: "TcpConnection \<Rightarrow> TcpConnection" where
  "setWriteCompleteCallback c = c\<lparr>tc_writeCompleteCallback := True\<rparr>"

definition setHighWaterMarkCallback :: "nat \<Rightarrow> TcpConnection \<Rightarrow> TcpConnection" where
  "setHighWaterMarkCallback highWaterMark c =
     c\<lparr>tc_highWaterMarkCallback := True, tc_highWaterMark := highWaterMark\<rparr>"

text \<open>The channel's operations, as the store has the channel when the loop is told of it.\<close>

definition tc_events :: "(32 word \<Rightarrow> 32 word) \<Rightarrow> TcpConnection \<Rightarrow> TcpConnection" where
  "tc_events f c = c\<lparr>tc_channel := (tc_channel c)\<lparr>ch_events := f (ch_events (tc_channel c)), ch_addedToLoop := True\<rparr>\<rparr>"

definition tc_enableReading :: "TcpConnection \<Rightarrow> TcpConnection" where
  "tc_enableReading = tc_events (\<lambda>e. e OR kReadEvent)"

definition tc_disableReading :: "TcpConnection \<Rightarrow> TcpConnection" where
  "tc_disableReading = tc_events (\<lambda>e. e AND NOT kReadEvent)"

definition tc_enableWriting :: "TcpConnection \<Rightarrow> TcpConnection" where
  "tc_enableWriting = tc_events (\<lambda>e. e OR kWriteEvent)"

definition tc_disableWriting :: "TcpConnection \<Rightarrow> TcpConnection" where
  "tc_disableWriting = tc_events (\<lambda>e. e AND NOT kWriteEvent)"

definition tc_disableAll :: "TcpConnection \<Rightarrow> TcpConnection" where
  "tc_disableAll = tc_events (\<lambda>_. kNoneEvent)"

text \<open>The loop's calls.\<close>

definition tc_inLoop :: "nat \<Rightarrow> TcpConnection \<Rightarrow> 'a res \<Rightarrow> 'a res" where
  "tc_inLoop tid c k = (if tid = tc_loopThread c then k else Inl Fatal)"

definition tc_queueInLoop :: "tc_functor \<Rightarrow> TcpConnection \<Rightarrow> TcpConnection" where
  "tc_queueInLoop f c = c\<lparr>tc_pending := tc_pending c @ [f]\<rparr>"

section \<open>Output\<close>

definition tc_socket_write :: "string \<Rightarrow> TcpConnection \<Rightarrow> TcpConnection" where
  "tc_socket_write s c = c\<lparr>tc_accepted := tc_accepted c @ s\<rparr>"

text \<open>
  \<^verbatim>\<open>sendInLoop\<close> first writes directly when nothing is queued, then buffers what remains. The direct
  write yields the connection, \<^verbatim>\<open>nwrote\<close>, \<^verbatim>\<open>remaining\<close> and \<^verbatim>\<open>faultError\<close>.
\<close>

definition try_write ::
  "string \<Rightarrow> nat \<Rightarrow> (string \<Rightarrow> write_result) \<Rightarrow> TcpConnection \<Rightarrow> TcpConnection \<times> nat \<times> nat \<times> bool" where
  "try_write data len write c =
     (if \<not> isWriting (tc_channel c) \<and> readableBytes (tc_outputBuffer c) = 0 then
        (case write (take len data) of
           Wrote n \<Rightarrow>
             let c = tc_socket_write (take n (take len data)) c;
                 remaining = sz_sub len n
             in (if remaining = 0 \<and> tc_writeCompleteCallback c then tc_queueInLoop Write_complete c else c,
                 n, remaining, False)
         | Write_error errno \<Rightarrow>
             let fault = errno \<noteq> EWOULDBLOCK \<and> (errno = EPIPE \<or> errno = ECONNRESET)
             in (if fault then c\<lparr>tc_broken := True\<rparr> else c, 0, len, fault))
      else (c, 0, len, False))"

definition buffer_rest :: "string \<Rightarrow> nat \<Rightarrow> nat \<Rightarrow> TcpConnection \<Rightarrow> TcpConnection res" where
  "buffer_rest data nwrote remaining c =
     (let oldLen = readableBytes (tc_outputBuffer c);
          c = (if tc_highWaterMark c \<le> sz_add oldLen remaining \<and> oldLen < tc_highWaterMark c \<and>
                  tc_highWaterMarkCallback c
               then tc_queueInLoop (High_water_mark (sz_add oldLen remaining)) c else c)
      in rbind (append_mem (drop nwrote data) remaining (tc_outputBuffer c)) (\<lambda>out.
         let c = c\<lparr>tc_outputBuffer := out\<rparr>
         in Inr (if \<not> isWriting (tc_channel c) then tc_enableWriting c else c)))"

definition sendInLoop ::
  "nat \<Rightarrow> string \<Rightarrow> nat \<Rightarrow> (string \<Rightarrow> write_result) \<Rightarrow> TcpConnection \<Rightarrow> TcpConnection res" where
  "sendInLoop tid data len write c =
     tc_inLoop tid c (
     if length data < len then Inl Undefined else
     let (c, nwrote, remaining, faultError) =
           try_write data len write (c\<lparr>tc_sent := tc_sent c @ take len data\<rparr>)
     in require (remaining \<le> len) (
        if \<not> faultError \<and> 0 < remaining then buffer_rest data nwrote remaining c else Inr c))"

definition sendInLoop_piece ::
  "nat \<Rightarrow> StringPiece \<Rightarrow> (string \<Rightarrow> write_result) \<Rightarrow> TcpConnection \<Rightarrow> TcpConnection res" where
  "sendInLoop_piece tid message write c =
     sendInLoop tid (sp_ptr message) (size_of_int32 (sp_length message)) write c"

definition tc_runInLoop ::
  "nat \<Rightarrow> tc_functor \<Rightarrow> (TcpConnection \<Rightarrow> TcpConnection res) \<Rightarrow> TcpConnection \<Rightarrow> TcpConnection res" where
  "tc_runInLoop tid f now c = (if tid = tc_loopThread c then now c else Inr (tc_queueInLoop f c))"

definition send_piece ::
  "nat \<Rightarrow> StringPiece \<Rightarrow> (string \<Rightarrow> write_result) \<Rightarrow> TcpConnection \<Rightarrow> TcpConnection res" where
  "send_piece tid message write c =
     (if tc_state c = kConnected then sendInLoop_piece tid message write c
      else tc_runInLoop tid (Send_in_loop (as_string message))
             (sendInLoop_piece tid (StringPiece_of_string (as_string message)) write) c)"

definition send_mem ::
  "nat \<Rightarrow> string \<Rightarrow> int \<Rightarrow> (string \<Rightarrow> write_result) \<Rightarrow> TcpConnection \<Rightarrow> TcpConnection res" where
  "send_mem tid data len write c = send_piece tid (StringPiece_of_range data len) write c"

definition send_buffer ::
  "nat \<Rightarrow> Buffer \<Rightarrow> (string \<Rightarrow> write_result) \<Rightarrow> TcpConnection \<Rightarrow> (TcpConnection \<times> Buffer) res" where
  "send_buffer tid message write c =
     (if tc_state c = kConnected then
        (if tid = tc_loopThread c then
           rbind (sendInLoop tid (content message) (readableBytes message) write c) (\<lambda>c.
           Inr (c, retrieveAll message))
         else
           rbind (retrieveAllAsString message) (\<lambda>(s, message).
           Inr (tc_queueInLoop (Send_in_loop s) c, message)))
      else Inr (c, message))"

definition tc_shutdownWrite :: "TcpConnection \<Rightarrow> TcpConnection" where
  "tc_shutdownWrite c = c\<lparr>tc_shutdowns := tc_shutdowns c @ [(tc_state c, tc_accepted c, tc_sent c)]\<rparr>"

definition shutdownInLoop :: "nat \<Rightarrow> TcpConnection \<Rightarrow> TcpConnection res" where
  "shutdownInLoop tid c =
     tc_inLoop tid c (Inr (if \<not> isWriting (tc_channel c) then tc_shutdownWrite c else c))"

definition tc_shutdown :: "nat \<Rightarrow> TcpConnection \<Rightarrow> TcpConnection res" where
  "tc_shutdown tid c =
     (if tc_state c = kConnected
      then tc_runInLoop tid Shutdown_in_loop (shutdownInLoop tid) (setState kDisconnecting c)
      else Inr c)"

definition forceClose :: "TcpConnection \<Rightarrow> TcpConnection" where
  "forceClose c =
     (if tc_state c = kConnected \<or> tc_state c = kDisconnecting
      then tc_queueInLoop Force_close_in_loop (setState kDisconnecting c) else c)"

text \<open>The delayed call of \<^verbatim>\<open>forceClose\<close> is a timer of the loop; \<open>tc_delayed\<close> counts those that are set.\<close>

definition forceCloseWithDelay :: "TcpConnection \<Rightarrow> TcpConnection" where
  "forceCloseWithDelay c =
     (if tc_state c = kConnected \<or> tc_state c = kDisconnecting
      then (setState kDisconnecting c)\<lparr>tc_delayed := tc_delayed c + 1\<rparr> else c)"

definition startReadInLoop :: "nat \<Rightarrow> TcpConnection \<Rightarrow> TcpConnection res" where
  "startReadInLoop tid c =
     tc_inLoop tid c (Inr (
       if \<not> tc_reading c \<or> \<not> isReading (tc_channel c) then (tc_enableReading c)\<lparr>tc_reading := True\<rparr> else c))"

definition stopReadInLoop :: "nat \<Rightarrow> TcpConnection \<Rightarrow> TcpConnection res" where
  "stopReadInLoop tid c =
     tc_inLoop tid c (Inr (
       if tc_reading c \<or> isReading (tc_channel c) then (tc_disableReading c)\<lparr>tc_reading := False\<rparr> else c))"

definition startRead :: "nat \<Rightarrow> TcpConnection \<Rightarrow> TcpConnection res" where
  "startRead tid c = tc_runInLoop tid Start_read_in_loop (startReadInLoop tid) c"

definition stopRead :: "nat \<Rightarrow> TcpConnection \<Rightarrow> TcpConnection res" where
  "stopRead tid c = tc_runInLoop tid Stop_read_in_loop (stopReadInLoop tid) c"

section \<open>User code\<close>

text \<open>The calls a user can make, and the callbacks it can set.\<close>

datatype tc_op =
    Send string write_result
  | Send_buffer Buffer write_result
  | Shutdown
  | Force_close
  | Force_close_delayed
  | Start_read
  | Stop_read
  | Consume nat

datatype tc_callback = On_connection | On_message int | On_write_complete | On_high_water_mark nat

type_synonym user = "tc_callback \<Rightarrow> TcpConnection \<Rightarrow> tc_op list"

text \<open>The kernel takes at most the bytes it is offered, and fills at most the areas it is given.\<close>

fun kernel_write :: "write_result \<Rightarrow> string \<Rightarrow> write_result" where
  "kernel_write (Wrote n) s = Wrote (min n (length s))"
| "kernel_write (Write_error e) s = Write_error e"

fun kernel_readv :: "read_result \<Rightarrow> nat list \<Rightarrow> read_result" where
  "kernel_readv (Read_data bytes) iov = Read_data (take (sum_list iov) bytes)"
| "kernel_readv (Read_error e) iov = Read_error e"

fun tc_call :: "nat \<Rightarrow> tc_op \<Rightarrow> TcpConnection \<Rightarrow> TcpConnection res" where
  "tc_call tid (Send message w) c = send_piece tid (StringPiece_of_string message) (kernel_write w) c"
| "tc_call tid (Send_buffer message w) c =
     rbind (send_buffer tid message (kernel_write w) c) (\<lambda>(c, _). Inr c)"
| "tc_call tid Shutdown c = tc_shutdown tid c"
| "tc_call tid Force_close c = Inr (forceClose c)"
| "tc_call tid Force_close_delayed c = Inr (forceCloseWithDelay c)"
| "tc_call tid Start_read c = startRead tid c"
| "tc_call tid Stop_read c = stopRead tid c"
| "tc_call tid (Consume n) c =
     rbind (retrieve n (tc_inputBuffer c)) (\<lambda>b. Inr (c\<lparr>tc_inputBuffer := b\<rparr>))"

definition run_callback :: "user \<Rightarrow> nat \<Rightarrow> tc_callback \<Rightarrow> TcpConnection \<Rightarrow> TcpConnection res" where
  "run_callback user tid cb c = rfold (tc_call tid) (user cb c) c"

definition connectionCallback :: "user \<Rightarrow> nat \<Rightarrow> TcpConnection \<Rightarrow> TcpConnection res" where
  "connectionCallback user tid c =
     run_callback user tid On_connection (c\<lparr>tc_connectionCalls := tc_connectionCalls c @ [tc_state c]\<rparr>)"

definition defaultMessageCallback :: "Buffer \<Rightarrow> Buffer" where
  "defaultMessageCallback b = retrieveAll b"

section \<open>The life of the connection\<close>

definition connectEstablished :: "user \<Rightarrow> nat \<Rightarrow> addr \<Rightarrow> TcpConnection \<Rightarrow> TcpConnection res" where
  "connectEstablished user tid self c =
     tc_inLoop tid c (
     require (tc_state c = kConnecting) (
     let c = setState kConnected c;
         c = c\<lparr>tc_channel := Channel_tie self (tc_channel c)\<rparr>
     in connectionCallback user tid (tc_enableReading c)))"

definition connectDestroyed :: "user \<Rightarrow> nat \<Rightarrow> TcpConnection \<Rightarrow> TcpConnection res" where
  "connectDestroyed user tid c =
     tc_inLoop tid c (
     rbind (if tc_state c = kConnected
            then connectionCallback user tid (tc_disableAll (setState kDisconnected c))
            else Inr c) (\<lambda>c.
     require (isNoneEvent (tc_channel c)) (
     Inr (c\<lparr>tc_channel := (tc_channel c)\<lparr>ch_addedToLoop := False\<rparr>\<rparr>))))"

definition handleClose :: "user \<Rightarrow> nat \<Rightarrow> TcpConnection \<Rightarrow> TcpConnection res" where
  "handleClose user tid c =
     tc_inLoop tid c (
     require (tc_state c = kConnected \<or> tc_state c = kDisconnecting) (
     rbind (connectionCallback user tid (tc_disableAll (setState kDisconnected c))) (\<lambda>c.
     Inr (c\<lparr>tc_closeCalls := tc_closeCalls c + 1\<rparr>))))"

definition forceCloseInLoop :: "user \<Rightarrow> nat \<Rightarrow> TcpConnection \<Rightarrow> TcpConnection res" where
  "forceCloseInLoop user tid c =
     tc_inLoop tid c (
     if tc_state c = kConnected \<or> tc_state c = kDisconnecting then handleClose user tid c else Inr c)"

definition handleError :: "TcpConnection \<Rightarrow> TcpConnection" where
  "handleError c = c"

text \<open>
  \<open>log_debug\<close>: the two counts are read (and so updated) when debug lines are logged; \<open>clock\<close> gives
  the readings of the clock by the counter.
\<close>

definition handleRead ::
  "user \<Rightarrow> nat \<Rightarrow> (nat list \<Rightarrow> read_result) \<Rightarrow> (nat \<Rightarrow> int) \<Rightarrow> bool \<Rightarrow> int \<Rightarrow> TcpConnection \<Rightarrow> TcpConnection res" where
  "handleRead user tid readv clock log_debug receiveTime c =
     tc_inLoop tid c (
     rbind (readFd readv (tc_inputBuffer c)) (\<lambda>(r, input).
     let c = c\<lparr>tc_inputBuffer := input\<rparr> in
     case r of
       Read_data bytes \<Rightarrow>
         if bytes \<noteq> [] then
           rbind (MinuteHour_Add (clock 0) (cast_int32 (int (length bytes))) (tc_bytesReceivedCounter c)) (\<lambda>k.
           let k = (if log_debug then snd (HourCount (clock 2) (snd (MinuteCount (clock 1) k))) else k)
           in run_callback user tid (On_message receiveTime) (c\<lparr>tc_bytesReceivedCounter := k\<rparr>))
         else handleClose user tid c
     | Read_error savedErrno \<Rightarrow> Inr (handleError c)))"

definition handleWrite :: "nat \<Rightarrow> (string \<Rightarrow> write_result) \<Rightarrow> TcpConnection \<Rightarrow> TcpConnection res" where
  "handleWrite tid write c =
     tc_inLoop tid c (
     if isWriting (tc_channel c) then
       (case write (content (tc_outputBuffer c)) of
          Wrote n \<Rightarrow>
            if 0 < n then
              let c = tc_socket_write (take n (content (tc_outputBuffer c))) c in
              rbind (retrieve n (tc_outputBuffer c)) (\<lambda>out.
              let c = c\<lparr>tc_outputBuffer := out\<rparr> in
              if readableBytes out = 0 then
                let c = tc_disableWriting c;
                    c = (if tc_writeCompleteCallback c then tc_queueInLoop Write_complete c else c)
                in if tc_state c = kDisconnecting then shutdownInLoop tid c else Inr c
              else Inr c)
            else Inr c
        | Write_error errno \<Rightarrow> Inr c)
     else Inr c)"

text \<open>Running a functor that the connection handed to its loop.\<close>

definition run_functor :: "user \<Rightarrow> nat \<Rightarrow> (string \<Rightarrow> write_result) \<Rightarrow> tc_functor \<Rightarrow> TcpConnection \<Rightarrow> TcpConnection res" where
  "run_functor user tid write f c =
     (case f of
        Send_in_loop message \<Rightarrow> sendInLoop_piece tid (StringPiece_of_string message) write c
      | Shutdown_in_loop \<Rightarrow> shutdownInLoop tid c
      | Force_close_in_loop \<Rightarrow> forceCloseInLoop user tid c
      | Start_read_in_loop \<Rightarrow> startReadInLoop tid c
      | Stop_read_in_loop \<Rightarrow> stopReadInLoop tid c
      | Write_complete \<Rightarrow> run_callback user tid On_write_complete c
      | High_water_mark n \<Rightarrow> run_callback user tid (On_high_water_mark n) c)"

section \<open>Events\<close>

text \<open>
  What can happen to a connection: its owner establishes or destroys it, the loop dispatches the
  events of its channel in the order of \<open>due_callbacks\<close>, runs the next functor or the timer of a
  delayed close, or a thread calls an operation.
\<close>

record poll_answer =
  pa_read :: read_result
  pa_clock :: "nat \<Rightarrow> int"
  pa_log_debug :: bool
  pa_receiveTime :: int
  pa_write :: write_result

datatype tc_event =
    Established addr
  | Destroyed
  | Poll "32 word" poll_answer
  | Functor write_result
  | Timer
  | Api nat tc_op

definition tc_handle :: "user \<Rightarrow> poll_answer \<Rightarrow> handler \<Rightarrow> TcpConnection \<Rightarrow> TcpConnection res" where
  "tc_handle user a h c =
     (case h of
        Handle_read \<Rightarrow> handleRead user (tc_loopThread c) (kernel_readv (pa_read a)) (pa_clock a)
          (pa_log_debug a) (pa_receiveTime a) c
      | Handle_write \<Rightarrow> handleWrite (tc_loopThread c) (kernel_write (pa_write a)) c
      | Handle_close \<Rightarrow> handleClose user (tc_loopThread c) c
      | Handle_error \<Rightarrow> Inr (handleError c))"

fun tc_step :: "user \<Rightarrow> tc_event \<Rightarrow> TcpConnection \<Rightarrow> TcpConnection res" where
  "tc_step user (Established self) c = connectEstablished user (tc_loopThread c) self c"
| "tc_step user Destroyed c = connectDestroyed user (tc_loopThread c) c"
| "tc_step user (Poll revents a) c =
     (let c = c\<lparr>tc_channel := set_revents revents (tc_channel c)\<rparr>
      in rfold (tc_handle user a) (due_callbacks (tc_channel c)) c)"
| "tc_step user (Functor w) c =
     (case tc_pending c of
        [] \<Rightarrow> Inr c
      | f # fs \<Rightarrow> run_functor user (tc_loopThread c) (kernel_write w) f (c\<lparr>tc_pending := fs\<rparr>))"
| "tc_step user Timer c =
     Inr (if tc_delayed c = 0 then c else forceClose (c\<lparr>tc_delayed := tc_delayed c - 1\<rparr>))"
| "tc_step user (Api tid op) c = tc_call tid op c"

end
