(* ===== verification/Tcp_Connection_Correct.thy ===== *)
theory Tcp_Connection_Correct
  imports Tcp_Connection
begin

text \<open>
  The correctness of a connection over every sequence of events: the bytes handed to the socket and
  those still buffered are the bytes sent, in order; the channel asks for writability exactly while
  output is buffered; the write side is shut down only when everything is written; the user sees one
  connection going up and then down; no assertion fails. \<open>tc_allowed\<close> and \<open>tc_enabled\<close> are the rules
  that user code and the owner of the connection have to follow for that, and the last section shows
  what happens without them.
\<close>

section \<open>The rules of use\<close>

definition tc_allowed :: "nat \<Rightarrow> tc_op \<Rightarrow> TcpConnection \<Rightarrow> bool" where
  "tc_allowed tid op c \<longleftrightarrow> tc_state c \<noteq> kConnecting \<and>
     (case op of
        Send m _ \<Rightarrow> length m < 2 ^ 31 \<and>
          (if tid = tc_loopThread c then tc_state c \<noteq> kDisconnected else tc_state c \<noteq> kConnected)
      | Send_buffer m _ \<Rightarrow> Buffer_wf m \<and> (tid = tc_loopThread c \<or> length (content m) < 2 ^ 31)
      | Start_read \<Rightarrow> tid = tc_loopThread c \<longrightarrow> tc_state c \<noteq> kDisconnected
      | Consume n \<Rightarrow> tid = tc_loopThread c \<and> n \<le> length (content (tc_inputBuffer c))
      | _ \<Rightarrow> True)"

fun ops_allowed :: "nat \<Rightarrow> tc_op list \<Rightarrow> TcpConnection \<Rightarrow> bool" where
  "ops_allowed tid [] c \<longleftrightarrow> True"
| "ops_allowed tid (op # ops) c \<longleftrightarrow> tc_allowed tid op c \<and>
     (case tc_call tid op c of Inl _ \<Rightarrow> True | Inr c' \<Rightarrow> ops_allowed tid ops c')"

fun tc_enabled :: "tc_event \<Rightarrow> TcpConnection \<Rightarrow> bool" where
  "tc_enabled (Established self) c \<longleftrightarrow> tc_state c = kConnecting"
| "tc_enabled Destroyed c \<longleftrightarrow> tc_state c = kConnected \<or> tc_state c = kDisconnected"
| "tc_enabled (Poll revents a) c \<longleftrightarrow> (tc_state c = kConnected \<or> tc_state c = kDisconnecting) \<and>
     \<not> (hup_only revents \<and> is_readable revents)"
| "tc_enabled (Functor w) c \<longleftrightarrow> tc_state c \<noteq> kConnecting \<and>
     (case tc_pending c of
        Send_in_loop m # fs \<Rightarrow> tc_state c \<noteq> kDisconnected
      | Start_read_in_loop # fs \<Rightarrow> tc_state c \<noteq> kDisconnected
      | _ \<Rightarrow> True)"
| "tc_enabled Timer c \<longleftrightarrow> True"
| "tc_enabled (Api tid op) c \<longleftrightarrow> tc_allowed tid op c"

section \<open>Invariant\<close>

definition counter_ok :: "MinuteHourCounter \<Rightarrow> bool" where
  "counter_ok k \<longleftrightarrow> 1 < cq_max_items (tb_buckets (minute_counts k)) \<and>
     1 < cq_max_items (tb_buckets (hour_counts k))"

definition functor_ok :: "tc_functor \<Rightarrow> bool" where
  "functor_ok f \<longleftrightarrow> (case f of Send_in_loop m \<Rightarrow> length m < 2 ^ 31 | _ \<Rightarrow> True)"

definition handlers_set :: "handler Channel \<Rightarrow> bool" where
  "handlers_set ch \<longleftrightarrow> ch_readCallback ch = Some Handle_read \<and> ch_writeCallback ch = Some Handle_write \<and>
     ch_closeCallback ch = Some Handle_close \<and> ch_errorCallback ch = Some Handle_error"

fun seen_calls :: "StateE \<Rightarrow> StateE list" where
  "seen_calls kConnecting = []"
| "seen_calls kConnected = [kConnected]"
| "seen_calls kDisconnecting = [kConnected]"
| "seen_calls kDisconnected = [kConnected, kDisconnected]"

text \<open>What the connection's parts are, and what its output path and its history promise.\<close>

definition tc_parts :: "TcpConnection \<Rightarrow> bool" where
  "tc_parts c \<longleftrightarrow> Buffer_wf (tc_inputBuffer c) \<and> Buffer_wf (tc_outputBuffer c) \<and>
     counter_ok (tc_bytesReceivedCounter c) \<and> list_all functor_ok (tc_pending c) \<and>
     handlers_set (tc_channel c)"

definition tc_stream :: "TcpConnection \<Rightarrow> bool" where
  "tc_stream c \<longleftrightarrow>
     (\<not> tc_broken c \<longrightarrow> tc_accepted c @ content (tc_outputBuffer c) = tc_sent c \<and>
        list_all (\<lambda>(s, accepted, sent). s = kDisconnected \<or> accepted = sent) (tc_shutdowns c)) \<and>
     (if tc_state c = kDisconnected then isNoneEvent (tc_channel c)
      else isWriting (tc_channel c) \<longleftrightarrow> content (tc_outputBuffer c) \<noteq> []) \<and>
     (tc_state c = kConnecting \<longrightarrow> isNoneEvent (tc_channel c))"

definition tc_history :: "TcpConnection \<Rightarrow> bool" where
  "tc_history c \<longleftrightarrow> tc_connectionCalls c = seen_calls (tc_state c) \<and>
     tc_closeCalls c \<le> (if tc_state c = kDisconnected then 1 else 0)"

definition tc_inv :: "TcpConnection \<Rightarrow> bool" where
  "tc_inv c \<longleftrightarrow> tc_parts c \<and> tc_stream c \<and> tc_history c"

lemmas tc_inv_defs = tc_inv_def tc_parts_def tc_stream_def tc_history_def

text \<open>The state changes that a call by user code can make.\<close>

definition tc_moves :: "TcpConnection \<Rightarrow> TcpConnection \<Rightarrow> bool" where
  "tc_moves c c' \<longleftrightarrow> tc_loopThread c' = tc_loopThread c \<and> tc_name c' = tc_name c \<and> tc_closeCalls c' = tc_closeCalls c \<and>
     (tc_state c' = tc_state c \<or> tc_state c = kConnected \<and> tc_state c' = kDisconnecting)"

text \<open>What no event changes, and what only goes one way.\<close>

definition tc_later :: "TcpConnection \<Rightarrow> TcpConnection \<Rightarrow> bool" where
  "tc_later c c' \<longleftrightarrow> tc_loopThread c' = tc_loopThread c \<and> tc_name c' = tc_name c \<and>
     tc_closeCalls c \<le> tc_closeCalls c' \<and> (tc_state c' = kConnecting \<longrightarrow> tc_state c = kConnecting) \<and>
     (tc_state c = kDisconnected \<longrightarrow> tc_state c' = kDisconnected)"

text \<open>
  A call ends well: the connection keeps its invariant, or the process ends because a buffer would
  exceed the largest size of a vector.
\<close>

definition tc_safe :: "TcpConnection \<Rightarrow> TcpConnection res \<Rightarrow> bool" where
  "tc_safe c r \<longleftrightarrow> (case r of Inl e \<Rightarrow> e = Length_error | Inr c' \<Rightarrow> tc_inv c' \<and> tc_later c c')"

definition tc_post :: "TcpConnection \<Rightarrow> TcpConnection res \<Rightarrow> bool" where
  "tc_post c r \<longleftrightarrow> (case r of Inl e \<Rightarrow> e = Length_error | Inr c' \<Rightarrow> tc_inv c' \<and> tc_moves c c')"

lemma tc_post_Inl [simp]: "tc_post c (Inl e) \<longleftrightarrow> e = Length_error"
  by (simp add: tc_post_def)

lemma tc_post_Inr [simp]: "tc_post c (Inr c') \<longleftrightarrow> tc_inv c' \<and> tc_moves c c'"
  by (simp add: tc_post_def)

lemma tc_safe_Inl [simp]: "tc_safe c (Inl e) \<longleftrightarrow> e = Length_error"
  by (simp add: tc_safe_def)

lemma tc_safe_Inr [simp]: "tc_safe c (Inr c') \<longleftrightarrow> tc_inv c' \<and> tc_later c c'"
  by (simp add: tc_safe_def)

lemma tc_later_refl [simp]: "tc_later c c"
  by (simp add: tc_later_def)

lemma tc_later_trans: "tc_later a b \<Longrightarrow> tc_later b c \<Longrightarrow> tc_later a c"
  unfolding tc_later_def by (metis le_trans)

lemma tc_moves_later: "tc_moves c c' \<Longrightarrow> tc_later c c'"
  by (auto simp: tc_moves_def tc_later_def)

lemma tc_safe_later: "tc_later c d \<Longrightarrow> tc_safe d r \<Longrightarrow> tc_safe c r"
  by (cases r) (auto intro: tc_later_trans)

lemma tc_post_safe: "tc_post c r \<Longrightarrow> tc_safe c r"
  by (cases r) (simp_all add: tc_moves_later)

lemma tc_safe_bind:
  "tc_post c m \<Longrightarrow> (\<And>c'. tc_inv c' \<Longrightarrow> tc_moves c c' \<Longrightarrow> tc_safe c' (f c')) \<Longrightarrow> tc_safe c (rbind m f)"
  by (cases m) (auto intro: tc_safe_later [OF tc_moves_later])

lemma tc_moves_refl [simp]: "tc_moves c c"
  by (simp add: tc_moves_def)

lemma tc_moves_trans: "tc_moves a b \<Longrightarrow> tc_moves b c \<Longrightarrow> tc_moves a c"
  by (auto simp: tc_moves_def)

lemma tc_moves_same:
  "tc_loopThread c' = tc_loopThread c \<Longrightarrow> tc_name c' = tc_name c \<Longrightarrow> tc_closeCalls c' = tc_closeCalls c \<Longrightarrow>
   tc_state c' = tc_state c \<Longrightarrow> tc_moves c c'"
  by (simp add: tc_moves_def)

section \<open>The channel and the counter\<close>

lemma write_bits:
  "has_bits (e OR kWriteEvent) kWriteEvent"
  "has_bits (e OR kReadEvent) kWriteEvent \<longleftrightarrow> has_bits e kWriteEvent"
  "\<not> has_bits (e AND NOT kWriteEvent) kWriteEvent"
  "has_bits (e AND NOT kReadEvent) kWriteEvent \<longleftrightarrow> has_bits e kWriteEvent"
  "\<not> has_bits 0 kWriteEvent"
proof -
  have *: "kReadEvent AND kWriteEvent = 0" "kWriteEvent AND kWriteEvent = kWriteEvent" "kWriteEvent \<noteq> 0"
    by (simp_all add: kReadEvent_def kWriteEvent_def poll_bits)
  then have n: "NOT kReadEvent AND kWriteEvent = kWriteEvent"
    by (simp add: kReadEvent_def kWriteEvent_def poll_bits)
  show "has_bits (e OR kWriteEvent) kWriteEvent"
    "has_bits (e OR kReadEvent) kWriteEvent \<longleftrightarrow> has_bits e kWriteEvent"
    "\<not> has_bits (e AND NOT kWriteEvent) kWriteEvent"
    "has_bits (e AND NOT kReadEvent) kWriteEvent \<longleftrightarrow> has_bits e kWriteEvent"
    "\<not> has_bits 0 kWriteEvent"
    by (simp_all add: has_bits_def bit.conj_disj_distrib2 and.assoc * n or_eq_0_iff)
qed

text \<open>How the operations on the channel change the connection.\<close>

lemmas tc_event_ops = tc_enableReading_def tc_disableReading_def tc_enableWriting_def
  tc_disableWriting_def tc_disableAll_def

lemma tc_events_writing [simp]:
  "isWriting (tc_channel (tc_enableWriting c))"
  "\<not> isWriting (tc_channel (tc_disableWriting c))"
  "isWriting (tc_channel (tc_enableReading c)) = isWriting (tc_channel c)"
  "isWriting (tc_channel (tc_disableReading c)) = isWriting (tc_channel c)"
  "isNoneEvent (tc_channel (tc_disableAll c))"
  "isNoneEvent (tc_channel c) \<Longrightarrow> isNoneEvent (tc_channel (tc_disableReading c))"
  by (simp_all add: tc_event_ops tc_events_def isWriting_def write_bits isNoneEvent_def kNoneEvent_def)

text \<open>They are the operations of the channel in the store, as the loop's \<^verbatim>\<open>updateChannel\<close> sees it.\<close>

lemma tc_events_channel:
  "h a = Some (tc_channel c) \<Longrightarrow>
     change_events f upd a (h, s) = upd a (h(a := Some (tc_channel (tc_events f c))), s)"
  by (simp add: change_events_Some tc_events_def)

lemma isNoneEvent_not_writing: "isNoneEvent ch \<Longrightarrow> \<not> isWriting ch"
  by (simp add: isNoneEvent_def isWriting_def kNoneEvent_def write_bits)

lemma handlers_tc_events [simp]:
  "handlers_set (tc_channel (tc_events f c)) = handlers_set (tc_channel c)"
  by (simp add: tc_events_def handlers_set_def)

lemma tc_events_fields [simp]:
  "tc_loopThread (tc_events f c) = tc_loopThread c" "tc_state (tc_events f c) = tc_state c"
  "tc_inputBuffer (tc_events f c) = tc_inputBuffer c" "tc_outputBuffer (tc_events f c) = tc_outputBuffer c"
  "tc_bytesReceivedCounter (tc_events f c) = tc_bytesReceivedCounter c"
  "tc_pending (tc_events f c) = tc_pending c" "tc_connectionCalls (tc_events f c) = tc_connectionCalls c"
  "tc_closeCalls (tc_events f c) = tc_closeCalls c" "tc_accepted (tc_events f c) = tc_accepted c"
  "tc_shutdowns (tc_events f c) = tc_shutdowns c" "tc_sent (tc_events f c) = tc_sent c"
  "tc_broken (tc_events f c) = tc_broken c" "tc_reading (tc_events f c) = tc_reading c"
  "tc_writeCompleteCallback (tc_events f c) = tc_writeCompleteCallback c" "tc_name (tc_events f c) = tc_name c"
  by (simp_all add: tc_events_def)

lemmas tc_ops_fields [simp] =
  tc_events_fields [of "\<lambda>e. e OR kReadEvent", folded tc_enableReading_def]
  tc_events_fields [of "\<lambda>e. e AND NOT kReadEvent", folded tc_disableReading_def]
  tc_events_fields [of "\<lambda>e. e OR kWriteEvent", folded tc_enableWriting_def]
  tc_events_fields [of "\<lambda>e. e AND NOT kWriteEvent", folded tc_disableWriting_def]
  tc_events_fields [of "\<lambda>_. kNoneEvent", folded tc_disableAll_def]

lemmas handlers_ops [simp] =
  handlers_tc_events [of "\<lambda>e. e OR kReadEvent", folded tc_enableReading_def]
  handlers_tc_events [of "\<lambda>e. e AND NOT kReadEvent", folded tc_disableReading_def]
  handlers_tc_events [of "\<lambda>e. e OR kWriteEvent", folded tc_enableWriting_def]
  handlers_tc_events [of "\<lambda>e. e AND NOT kWriteEvent", folded tc_disableWriting_def]
  handlers_tc_events [of "\<lambda>_. kNoneEvent", folded tc_disableAll_def]

lemma Shift_max [simp]: "cq_max_items (Shift n q) = cq_max_items q"
  by (simp add: Shift_def Let_def split: prod.split)

lemma AddToBack_ok:
  assumes "1 < cq_max_items q"
  shows "\<exists>q'. AddToBack n q = Inr q' \<and> cq_max_items q' = cq_max_items q"
proof (cases "cq_items q = []")
  case True
  then have "cq_items (Shift 1 q) = [0]" using assms by (simp add: Shift_def Let_def)
  with True show ?thesis by (simp add: AddToBack_def Let_def)
qed (simp add: AddToBack_def Let_def)

lemma Trailing_Add_ok:
  assumes "1 < cq_max_items (tb_buckets k)"
  shows "\<exists>k'. Trailing_Add n now k = Inr k' \<and> cq_max_items (tb_buckets k') = cq_max_items (tb_buckets k)"
  using AddToBack_ok [of "tb_buckets (Update now k)" n] assms
  by (auto simp: Trailing_Add_def Let_def Update_def)

lemma MinuteHour_Add_ok:
  "counter_ok k \<Longrightarrow> \<exists>k'. MinuteHour_Add now n k = Inr k' \<and> counter_ok k'"
  using Trailing_Add_ok [of "minute_counts k" n now] Trailing_Add_ok [of "hour_counts k" n now]
  by (auto simp: counter_ok_def MinuteHour_Add_def)

lemma counts_ok [simp]:
  "counter_ok (snd (MinuteCount now k)) = counter_ok k" "counter_ok (snd (HourCount now k)) = counter_ok k"
  by (simp_all add: counter_ok_def MinuteCount_def HourCount_def TrailingCount_def Let_def Update_def)

section \<open>Sending\<close>

definition tc_open :: "TcpConnection \<Rightarrow> bool" where
  "tc_open c \<longleftrightarrow> tc_state c = kConnected \<or> tc_state c = kDisconnecting"

text \<open>The stream while the last \<open>rest\<close> of what was sent is neither written nor buffered.\<close>

definition tc_owes :: "string \<Rightarrow> TcpConnection \<Rightarrow> bool" where
  "tc_owes rest c \<longleftrightarrow> tc_parts c \<and> tc_history c \<and> tc_open c \<and>
     (\<not> tc_broken c \<longrightarrow> tc_accepted c @ content (tc_outputBuffer c) @ rest = tc_sent c \<and>
        list_all (\<lambda>(s, accepted, sent). s = kDisconnected \<or> accepted = sent) (tc_shutdowns c)) \<and>
     (isWriting (tc_channel c) \<longleftrightarrow> content (tc_outputBuffer c) \<noteq> [])"

lemma tc_owes_Nil: "tc_owes [] c \<Longrightarrow> tc_inv c"
  by (auto simp: tc_owes_def tc_inv_def tc_stream_def tc_open_def)

lemma tc_owes_sent: "tc_inv c \<Longrightarrow> tc_open c \<Longrightarrow> tc_owes s (c\<lparr>tc_sent := tc_sent c @ s\<rparr>)"
  by (auto simp: tc_owes_def tc_inv_defs tc_open_def)

lemma tc_owes_broken: "tc_owes s c \<Longrightarrow> tc_owes r (c\<lparr>tc_broken := True\<rparr>)"
  by (auto simp: tc_owes_def tc_parts_def tc_history_def tc_open_def)

lemma tc_owes_write:
  "tc_owes s c \<Longrightarrow> content (tc_outputBuffer c) = [] \<Longrightarrow>
     tc_owes (drop n s) (tc_socket_write (take n s) c)"
  by (auto simp: tc_owes_def tc_socket_write_def tc_parts_def tc_history_def tc_open_def)

lemma tc_owes_queue:
  "tc_owes s c \<Longrightarrow> functor_ok f \<Longrightarrow> tc_owes s (tc_queueInLoop f c)"
  by (auto simp: tc_owes_def tc_queueInLoop_def tc_parts_def tc_history_def tc_open_def)

lemma tc_inv_queue: "tc_inv c \<Longrightarrow> functor_ok f \<Longrightarrow> tc_inv (tc_queueInLoop f c)"
  by (auto simp: tc_inv_defs tc_queueInLoop_def)

lemma tc_queue_fields [simp]:
  "tc_loopThread (tc_queueInLoop f c) = tc_loopThread c" "tc_state (tc_queueInLoop f c) = tc_state c"
  "tc_closeCalls (tc_queueInLoop f c) = tc_closeCalls c" "tc_channel (tc_queueInLoop f c) = tc_channel c"
  "tc_outputBuffer (tc_queueInLoop f c) = tc_outputBuffer c" "tc_name (tc_queueInLoop f c) = tc_name c"
  by (simp_all add: tc_queueInLoop_def)

lemma functor_ok_simps [simp]:
  "functor_ok Write_complete" "functor_ok (High_water_mark n)" "functor_ok Shutdown_in_loop"
  "functor_ok Force_close_in_loop" "functor_ok Start_read_in_loop" "functor_ok Stop_read_in_loop"
  "functor_ok (Send_in_loop m) \<longleftrightarrow> length m < 2 ^ 31"
  by (simp_all add: functor_ok_def)

lemma buffer_rest_post:
  assumes owes: "tc_owes (take r (drop n data)) c"
    and len: "0 < r" "r \<le> length (drop n data)" "r \<le> max_size"
  shows "tc_post c (buffer_rest data n r c)"
proof -
  define mark where "mark = (tc_highWaterMark c \<le> sz_add (readableBytes (tc_outputBuffer c)) r \<and>
    readableBytes (tc_outputBuffer c) < tc_highWaterMark c \<and> tc_highWaterMarkCallback c)"
  define d where "d = (if mark
    then tc_queueInLoop (High_water_mark (sz_add (readableBytes (tc_outputBuffer c)) r)) c else c)"
  have eq: "buffer_rest data n r c = rbind (append_mem (drop n data) r (tc_outputBuffer d)) (\<lambda>out.
      let c = d\<lparr>tc_outputBuffer := out\<rparr>
      in Inr (if \<not> isWriting (tc_channel c) then tc_enableWriting c else c))"
    by (simp add: buffer_rest_def d_def mark_def Let_def)
  have d: "tc_owes (take r (drop n data)) d" using owes by (simp add: d_def tc_owes_queue)
  have m: "tc_loopThread d = tc_loopThread c" "tc_name d = tc_name c" "tc_closeCalls d = tc_closeCalls c" "tc_state d = tc_state c"
    by (simp_all add: d_def)
  have wf: "Buffer_wf (tc_outputBuffer d)" using d by (simp add: tc_owes_def tc_parts_def)
  have ne: "take r (drop n data) \<noteq> []" using len by (cases "drop n data") auto
  consider "append_mem (drop n data) r (tc_outputBuffer d) = Inl Length_error"
    | out where "append_mem (drop n data) r (tc_outputBuffer d) = Inr out" "Buffer_wf out"
        "content out = content (tc_outputBuffer d) @ take r (drop n data)"
    using append_mem_total [OF wf len(2,3)] by blast
  then show ?thesis
  proof cases
    case 1
    then show ?thesis by (simp add: eq)
  next
    case 2
    let ?c = "d\<lparr>tc_outputBuffer := out\<rparr>"
    have "tc_inv (if \<not> isWriting (tc_channel ?c) then tc_enableWriting ?c else ?c)"
      using d 2 ne by (auto simp: tc_owes_def tc_inv_defs tc_open_def)
    then show ?thesis using 2(1) m by (auto simp: eq Let_def tc_moves_def)
  qed
qed

lemma buffer_rest_writing:
  assumes "buffer_rest data n r c = Inr c'"
  shows "isWriting (tc_channel c')" "tc_state c' = tc_state c" "tc_loopThread c' = tc_loopThread c"
  using assms
  by (cases "isWriting (tc_channel c)"; auto simp: buffer_rest_def Let_def rbind_Inr_iff)+

lemma buffer_rest_returns:
  "append_mem (drop n data) r (tc_outputBuffer c) = Inr out \<Longrightarrow> \<exists>c'. buffer_rest data n r c = Inr c'"
  by (auto simp: buffer_rest_def Let_def)

lemma try_write_owes:
  assumes owes: "tc_owes (take len data) c" and len: "len \<le> length data" "len \<le> max_size"
    and result: "try_write data len (kernel_write w) c = (c', n, r, f)"
  shows "n + r = len" "tc_moves c c'" "tc_owes (if f then [] else take r (drop n data)) c'"
proof -
  have "n + r = len \<and> tc_moves c c' \<and> tc_owes (if f then [] else take r (drop n data)) c'"
  proof (cases "\<not> isWriting (tc_channel c) \<and> readableBytes (tc_outputBuffer c) = 0")
    case False
    with result owes show ?thesis by (auto simp: try_write_def)
  next
    case idle: True
    then have empty: "content (tc_outputBuffer c) = []"
      using owes readableBytes_content [of "tc_outputBuffer c"] by (auto simp: tc_owes_def tc_parts_def)
    show ?thesis
    proof (cases w)
      case (Wrote m)
      have sub: "sz_sub len (min m len) = len - min m len" using len by (simp add: max_size_def)
      have "tc_owes (drop (min m len) (take len data)) (tc_socket_write (take (min m len) (take len data)) c)"
        by (rule tc_owes_write [OF owes empty])
      then show ?thesis
        using result idle Wrote len sub
        by (auto simp: try_write_def Let_def drop_take tc_owes_queue tc_moves_def tc_socket_write_def
            split: if_splits)
    next
      case (Write_error e)
      then show ?thesis
        using result idle owes tc_owes_broken [OF owes, of "[]"]
        by (auto simp: try_write_def Let_def tc_moves_def split: if_splits)
    qed
  qed
  then show "n + r = len" "tc_moves c c'" "tc_owes (if f then [] else take r (drop n data)) c'"
    by blast+
qed

lemma tc_post_moves: "tc_moves c d \<Longrightarrow> tc_post d r \<Longrightarrow> tc_post c r"
  by (cases r) (auto intro: tc_moves_trans)

lemma sendInLoop_post:
  assumes inv: "tc_inv c" and "open": "tc_open c" and tid: "tid = tc_loopThread c"
    and len: "len \<le> length data" "len \<le> max_size"
  shows "tc_post c (sendInLoop tid data len (kernel_write w) c)"
proof -
  define c0 where "c0 = c\<lparr>tc_sent := tc_sent c @ take len data\<rparr>"
  have o0: "tc_owes (take len data) c0" unfolding c0_def using inv "open" by (rule tc_owes_sent)
  have m0: "tc_moves c c0" by (simp add: c0_def tc_moves_def)
  obtain c1 n r f where r: "try_write data len (kernel_write w) c0 = (c1, n, r, f)"
    by (cases "try_write data len (kernel_write w) c0") auto
  note t = try_write_owes [OF o0 len r]
  have m1: "tc_moves c c1" using m0 t(2) by (rule tc_moves_trans)
  have eq: "sendInLoop tid data len (kernel_write w) c =
      (if \<not> f \<and> 0 < r then buffer_rest data n r c1 else Inr c1)"
    using tid len r t(1) by (simp add: sendInLoop_def tc_inLoop_def flip: c0_def)
  show ?thesis
  proof (cases "\<not> f \<and> 0 < r")
    case True
    then have "tc_post c1 (buffer_rest data n r c1)"
      using t len by (intro buffer_rest_post) auto
    with True m1 show ?thesis unfolding eq by (simp add: tc_post_moves)
  next
    case False
    then have "tc_owes [] c1" using t(3) by (auto split: if_splits)
    with False m1 show ?thesis unfolding eq by (auto dest: tc_owes_Nil)
  qed
qed

lemma size_of_string [simp]:
  "length m < 2 ^ 31 \<Longrightarrow> size_of_int32 (sp_length (StringPiece_of_string m)) = length m"
  "length m < 2 ^ 31 \<Longrightarrow> as_string (StringPiece_of_string m) = m"
  "sp_ptr (StringPiece_of_string m) = m"
  by (simp_all add: StringPiece_of_string_def int32_of_size_def size_of_int32_def as_string_def)

lemma sendInLoop_piece_post:
  assumes "tc_inv c" "tc_open c" "length m < 2 ^ 31"
  shows "tc_post c (sendInLoop_piece (tc_loopThread c) (StringPiece_of_string m) (kernel_write w) c)"
  using sendInLoop_post [OF assms(1,2) refl, of "length m" m w] assms(3)
  by (simp add: sendInLoop_piece_def max_size_def)

section \<open>The other operations\<close>

lemma tc_inv_shutdownWrite:
  assumes "tc_inv c" "\<not> isWriting (tc_channel c)"
  shows "tc_inv (tc_shutdownWrite c)"
  using assms by (auto simp: tc_inv_defs tc_shutdownWrite_def split: if_splits)

lemma shutdownInLoop_post: "tc_inv c \<Longrightarrow> tc_post c (shutdownInLoop (tc_loopThread c) c)"
  using tc_inv_shutdownWrite [of c]
  by (auto simp: shutdownInLoop_def tc_inLoop_def tc_moves_def tc_shutdownWrite_def)

lemma tc_inv_disconnecting:
  "tc_inv c \<Longrightarrow> tc_open c \<Longrightarrow> tc_inv (setState kDisconnecting c)"
  by (auto simp: tc_inv_defs setState_def tc_open_def)

lemma disconnecting_moves [simp]: "tc_open c \<Longrightarrow> tc_moves c (setState kDisconnecting c)"
  by (auto simp: tc_moves_def setState_def tc_open_def)

lemma setState_fields [simp]:
  "tc_loopThread (setState s c) = tc_loopThread c" "tc_state (setState s c) = s"
  "tc_name (setState s c) = tc_name c" "tc_closeCalls (setState s c) = tc_closeCalls c"
  by (simp_all add: setState_def)

lemma tc_moves_queue: "tc_moves c d \<Longrightarrow> tc_moves c (tc_queueInLoop f d)"
  by (simp add: tc_moves_def)

lemma tc_shutdown_post: "tc_inv c \<Longrightarrow> tc_post c (tc_shutdown tid c)"
proof (cases "tc_state c = kConnected")
  case True
  assume inv: "tc_inv c"
  have "open": "tc_open c" using True by (simp add: tc_open_def)
  have i: "tc_inv (setState kDisconnecting c)" using inv "open" by (rule tc_inv_disconnecting)
  show ?thesis
    using True "open" i shutdownInLoop_post [OF i] tc_inv_queue [OF i, of Shutdown_in_loop]
    by (auto simp: tc_shutdown_def tc_runInLoop_def tc_moves_queue
        intro: tc_post_moves [OF disconnecting_moves])
qed (simp add: tc_shutdown_def)

lemma forceClose_post: "tc_inv c \<Longrightarrow> tc_post c (Inr (forceClose c))"
  using tc_inv_queue [OF tc_inv_disconnecting, of c Force_close_in_loop]
  by (auto simp: forceClose_def tc_open_def intro!: tc_moves_queue)

lemma tc_delayed_inv [simp]: "tc_inv (c\<lparr>tc_delayed := n\<rparr>) = tc_inv c"
  by (simp add: tc_inv_defs)

lemma forceCloseWithDelay_post: "tc_inv c \<Longrightarrow> tc_post c (Inr (forceCloseWithDelay c))"
  using tc_inv_disconnecting [of c]
  by (auto simp: forceCloseWithDelay_def tc_open_def tc_moves_def setState_def)

lemma startReadInLoop_post:
  "tc_inv c \<Longrightarrow> tc_open c \<Longrightarrow> tc_post c (startReadInLoop (tc_loopThread c) c)"
  by (auto simp: startReadInLoop_def tc_inLoop_def tc_moves_def tc_inv_defs tc_open_def)

lemma stopReadInLoop_post: "tc_inv c \<Longrightarrow> tc_post c (stopReadInLoop (tc_loopThread c) c)"
  by (auto simp: stopReadInLoop_def tc_inLoop_def tc_moves_def tc_inv_defs)

lemma runInLoop_post:
  assumes "tc_inv c" "functor_ok f" "tid = tc_loopThread c \<Longrightarrow> tc_post c (now c)"
  shows "tc_post c (tc_runInLoop tid f now c)"
  using assms by (auto simp: tc_runInLoop_def tc_inv_queue tc_moves_queue)

section \<open>Calls of user code\<close>

lemma send_piece_post:
  assumes inv: "tc_inv c" and ok: "tc_allowed tid (Send m w) c"
  shows "tc_post c (send_piece tid (StringPiece_of_string m) (kernel_write w) c)"
proof (cases "tid = tc_loopThread c")
  case True
  then have "tc_open c" using ok by (cases "tc_state c") (auto simp: tc_allowed_def tc_open_def)
  with True show ?thesis
    using sendInLoop_piece_post [OF inv, of m w] ok
    by (simp add: send_piece_def tc_allowed_def tc_runInLoop_def)
next
  case False
  then show ?thesis
    using ok inv by (auto simp: send_piece_def tc_allowed_def tc_runInLoop_def tc_inv_queue tc_moves_queue)
qed

lemma send_buffer_post:
  assumes inv: "tc_inv c" and ok: "tc_allowed tid (Send_buffer m w) c"
  shows "tc_post c (rbind (send_buffer tid m (kernel_write w) c) (\<lambda>(c, _). Inr c))"
proof (cases "tc_state c = kConnected")
  case True
  have wf: "Buffer_wf m" using ok by (simp add: tc_allowed_def)
  have len: "length (content m) \<le> max_size"
    using Buffer_wfD [OF wf] wf by (simp add: max_size_def)
  show ?thesis
  proof (cases "tid = tc_loopThread c")
    case tid: True
    have "tc_post c (sendInLoop tid (content m) (readableBytes m) (kernel_write w) c)"
      using True len wf by (intro sendInLoop_post [OF inv _ tid]) (simp_all add: tc_open_def)
    then show ?thesis
      using True tid by (cases "sendInLoop tid (content m) (readableBytes m) (kernel_write w) c")
        (simp_all add: send_buffer_def)
  next
    case tid: False
    obtain m' where "retrieveAllAsString m = Inr (content m, m')"
      using retrieveAllAsString_ok [OF wf] by blast
    then show ?thesis
      using True tid ok tc_inv_queue [OF inv, of "Send_in_loop (content m)"] wf
      by (simp add: send_buffer_def tc_allowed_def tc_moves_queue)
  qed
qed (simp add: send_buffer_def inv)

lemma consume_post:
  assumes inv: "tc_inv c" and ok: "tc_allowed tid (Consume n) c"
  shows "tc_post c (tc_call tid (Consume n) c)"
proof -
  obtain b where "retrieve n (tc_inputBuffer c) = Inr b" "Buffer_wf b"
    using retrieve_ok [of "tc_inputBuffer c" n] inv ok by (auto simp: tc_inv_defs tc_allowed_def)
  then show ?thesis using inv by (auto simp: tc_inv_defs tc_moves_def)
qed

lemma tc_call_post:
  assumes inv: "tc_inv c" and ok: "tc_allowed tid op c"
  shows "tc_post c (tc_call tid op c)"
proof (cases op)
  case (Send m w)
  then show ?thesis using send_piece_post [OF inv] ok by simp
next
  case (Send_buffer m w)
  then show ?thesis using send_buffer_post [OF inv] ok by simp
next
  case Start_read
  then have "tc_open c" if "tid = tc_loopThread c"
    using ok that by (cases "tc_state c") (auto simp: tc_allowed_def tc_open_def)
  with Start_read show ?thesis
    using startReadInLoop_post [OF inv] inv by (auto simp: startRead_def intro!: runInLoop_post)
next
  case Stop_read
  then show ?thesis
    using stopReadInLoop_post [OF inv] inv by (auto simp: stopRead_def intro!: runInLoop_post)
next
  case (Consume n)
  then show ?thesis using consume_post [OF inv] ok by simp
qed (use inv in \<open>simp_all add: tc_shutdown_post forceClose_post forceCloseWithDelay_post del: tc_post_Inr\<close>)

lemma ops_post:
  assumes "tc_inv c" "ops_allowed tid ops c"
  shows "tc_post c (rfold (tc_call tid) ops c)"
  using assms
proof (induction ops arbitrary: c)
  case (Cons op ops)
  have post: "tc_post c (tc_call tid op c)" using Cons.prems by (intro tc_call_post) simp_all
  show ?case
  proof (cases "tc_call tid op c")
    case (Inl e)
    with post show ?thesis by simp
  next
    case (Inr c')
    with post have "tc_inv c'" "tc_moves c c'" by simp_all
    moreover have "ops_allowed tid ops c'" using Cons.prems Inr by simp
    ultimately show ?thesis using Cons.IH [of c'] Inr by (simp add: tc_post_moves)
  qed
qed simp

text \<open>User code follows the rules in every callback that it gets.\<close>

definition user_ok :: "user \<Rightarrow> bool" where
  "user_ok user \<longleftrightarrow> (\<forall>cb c. tc_inv c \<longrightarrow> tc_state c \<noteq> kConnecting \<longrightarrow>
     ops_allowed (tc_loopThread c) (user cb c) c)"

lemma run_callback_post:
  assumes "user_ok user" "tc_inv c" "tc_state c \<noteq> kConnecting"
  shows "tc_post c (run_callback user (tc_loopThread c) cb c)"
  unfolding run_callback_def using assms by (intro ops_post) (auto simp: user_ok_def)

section \<open>The life of the connection\<close>

lemma tc_moves_keeps:
  "tc_moves c c' \<Longrightarrow> tc_state c = kDisconnected \<Longrightarrow> tc_state c' = kDisconnected"
  "tc_moves c c' \<Longrightarrow> tc_closeCalls c' = tc_closeCalls c"
  "tc_moves c c' \<Longrightarrow> tc_loopThread c' = tc_loopThread c" "tc_moves c c' \<Longrightarrow> tc_name c' = tc_name c"
  by (auto simp: tc_moves_def)

lemma connectEstablished_result:
  assumes user: "user_ok user" and inv: "tc_inv c" and "tc_state c = kConnecting"
  shows "connectEstablished user (tc_loopThread c) self c = Inl Length_error \<or>
    (\<exists>c'. connectEstablished user (tc_loopThread c) self c = Inr c' \<and> tc_inv c' \<and> tc_open c' \<and> tc_later c c')"
proof -
  define d where "d = tc_enableReading
    ((setState kConnected c)\<lparr>tc_channel := Channel_tie self (tc_channel (setState kConnected c))\<rparr>)"
  define e where "e = d\<lparr>tc_connectionCalls := tc_connectionCalls d @ [tc_state d]\<rparr>"
  have "tc_inv e" using inv assms(3) write_bits(2) [of 0]
    by (auto simp: e_def d_def tc_inv_defs setState_def handlers_set_def Channel_tie_def isNoneEvent_def
        isWriting_def tc_enableReading_def tc_events_def write_bits kNoneEvent_def)
  moreover have "tc_state e \<noteq> kConnecting" "tc_loopThread e = tc_loopThread c"
    by (simp_all add: e_def d_def setState_def)
  ultimately have "tc_post e (run_callback user (tc_loopThread c) On_connection e)"
    using run_callback_post [OF user, of e] by simp
  moreover have "connectEstablished user (tc_loopThread c) self c = run_callback user (tc_loopThread c) On_connection e"
    using assms(3) by (simp add: connectEstablished_def tc_inLoop_def connectionCallback_def d_def e_def Let_def)
  moreover have "tc_later c e" "tc_state e = kConnected"
    using assms(3) by (simp_all add: tc_later_def e_def d_def setState_def)
  ultimately show ?thesis
    by (cases "run_callback user (tc_loopThread c) On_connection e")
       (auto simp: tc_moves_def tc_later_def tc_open_def)
qed

text \<open>The common part of the two ways down: the user is told, and nothing is watched any more.\<close>

lemma going_down:
  assumes user: "user_ok user" and inv: "tc_inv c" and "open": "tc_open c"
  defines "d \<equiv> tc_disableAll (setState kDisconnected c)"
  shows "tc_post (d\<lparr>tc_connectionCalls := tc_connectionCalls d @ [tc_state d]\<rparr>)
    (connectionCallback user (tc_loopThread c) d)"
proof -
  define e where "e = d\<lparr>tc_connectionCalls := tc_connectionCalls d @ [tc_state d]\<rparr>"
  have "tc_inv e" using inv "open"
    by (auto simp: e_def d_def tc_inv_defs setState_def tc_open_def handlers_set_def tc_disableAll_def
        tc_events_def isNoneEvent_def)
  moreover have "tc_state e \<noteq> kConnecting" "tc_loopThread e = tc_loopThread c"
    by (simp_all add: e_def d_def)
  ultimately show ?thesis
    using run_callback_post [OF user, of e On_connection] by (simp add: connectionCallback_def flip: e_def)
qed

lemma handleClose_result:
  assumes user: "user_ok user" and inv: "tc_inv c" and "open": "tc_open c"
  shows "handleClose user (tc_loopThread c) c = Inl Length_error \<or>
    (\<exists>c'. handleClose user (tc_loopThread c) c = Inr c' \<and> tc_inv c' \<and> tc_state c' = kDisconnected \<and>
       tc_later c c')"
proof -
  define d where "d = tc_disableAll (setState kDisconnected c)"
  define e where "e = d\<lparr>tc_connectionCalls := tc_connectionCalls d @ [tc_state d]\<rparr>"
  have post: "tc_post e (connectionCallback user (tc_loopThread c) d)"
    unfolding d_def e_def by (rule going_down [OF user inv "open"])
  have e: "tc_state e = kDisconnected" "tc_closeCalls e = 0" "tc_loopThread e = tc_loopThread c"
      "tc_name e = tc_name c" "tc_closeCalls c = 0"
    using inv "open" by (auto simp: e_def d_def setState_def tc_inv_defs tc_open_def)
  have eq: "handleClose user (tc_loopThread c) c =
      rbind (connectionCallback user (tc_loopThread c) d) (\<lambda>c. Inr (c\<lparr>tc_closeCalls := tc_closeCalls c + 1\<rparr>))"
    using "open" by (simp add: handleClose_def tc_inLoop_def tc_open_def d_def)
  show ?thesis
  proof (cases "connectionCallback user (tc_loopThread c) d")
    case (Inl x)
    with post show ?thesis by (simp add: eq)
  next
    case (Inr c')
    with post have "tc_inv c'" and m: "tc_moves e c'" by simp_all
    moreover note tc_moves_keeps [OF m] e
    ultimately have "tc_inv (c'\<lparr>tc_closeCalls := tc_closeCalls c' + 1\<rparr>)" "tc_state c' = kDisconnected"
      "tc_later c (c'\<lparr>tc_closeCalls := tc_closeCalls c' + 1\<rparr>)"
      by (auto simp: tc_inv_defs tc_later_def)
    with Inr show ?thesis by (simp add: eq)
  qed
qed

lemma tc_inv_removed:
  "tc_inv c \<Longrightarrow> tc_inv (c\<lparr>tc_channel := (tc_channel c)\<lparr>ch_addedToLoop := False\<rparr>\<rparr>)"
  by (auto simp: tc_inv_defs handlers_set_def isNoneEvent_def isWriting_def)

lemma connectDestroyed_safe:
  assumes user: "user_ok user" and inv: "tc_inv c" and st: "tc_state c = kConnected \<or> tc_state c = kDisconnected"
  shows "tc_safe c (connectDestroyed user (tc_loopThread c) c)"
proof -
  let ?rem = "\<lambda>c. require (isNoneEvent (tc_channel c)) (
     Inr (c\<lparr>tc_channel := (tc_channel c)\<lparr>ch_addedToLoop := False\<rparr>\<rparr>))"
  have rem: "tc_safe c' (?rem c')" if "tc_inv c'" "tc_state c' = kDisconnected" for c'
    using that tc_inv_removed [of c'] by (simp add: tc_inv_def tc_stream_def tc_later_def)
  show ?thesis
  proof (cases "tc_state c = kConnected")
    case False
    with st rem [OF inv] show ?thesis by (simp add: connectDestroyed_def tc_inLoop_def)
  next
    case True
    define d where "d = tc_disableAll (setState kDisconnected c)"
    define e where "e = d\<lparr>tc_connectionCalls := tc_connectionCalls d @ [tc_state d]\<rparr>"
    have "tc_post e (connectionCallback user (tc_loopThread c) d)"
      unfolding d_def e_def using True by (intro going_down [OF user inv]) (simp add: tc_open_def)
    moreover have "tc_state e = kDisconnected" "tc_later c e" by (simp_all add: e_def d_def tc_later_def)
    ultimately have "tc_safe c (rbind (connectionCallback user (tc_loopThread c) d) ?rem)"
      by (intro tc_safe_later [of c e] tc_safe_bind [of e]) (auto intro: rem dest: tc_moves_keeps)
    then show ?thesis using True by (simp add: connectDestroyed_def tc_inLoop_def d_def)
  qed
qed

section \<open>Handlers\<close>

text \<open>What a handler of the channel leaves: it may also have closed the connection.\<close>

definition tc_handled :: "TcpConnection \<Rightarrow> TcpConnection res \<Rightarrow> bool" where
  "tc_handled c r \<longleftrightarrow> (case r of Inl e \<Rightarrow> e = Length_error | Inr c' \<Rightarrow> tc_inv c' \<and>
     tc_later c c' \<and> (tc_state c' = kDisconnected \<or> tc_open c'))"

lemma tc_handled_Inl [simp]: "tc_handled c (Inl e) \<longleftrightarrow> e = Length_error"
  by (simp add: tc_handled_def)

lemma tc_handled_Inr [simp]: "tc_handled c (Inr c') \<longleftrightarrow> tc_inv c' \<and>
    tc_later c c' \<and> (tc_state c' = kDisconnected \<or> tc_open c')"
  by (simp add: tc_handled_def)

lemma tc_handled_later: "tc_later c d \<Longrightarrow> tc_handled d r \<Longrightarrow> tc_handled c r"
  by (cases r) (auto intro: tc_later_trans)

lemma tc_handled_safe: "tc_handled c r \<Longrightarrow> tc_safe c r"
  by (cases r) simp_all

lemma tc_post_handled: "tc_open c \<Longrightarrow> tc_post c r \<Longrightarrow> tc_handled c r"
  by (cases r) (auto simp: tc_moves_def tc_later_def tc_open_def)

lemma handleClose_handled:
  "user_ok user \<Longrightarrow> tc_inv c \<Longrightarrow> tc_open c \<Longrightarrow> tc_handled c (handleClose user (tc_loopThread c) c)"
  using handleClose_result [of user c] by auto

lemma kernel_readv_bounded: "readv_bounded (kernel_readv r)"
  by (cases r) (simp_all add: readv_bounded_def)

lemma handleRead_handled:
  assumes user: "user_ok user" and inv: "tc_inv c" and "open": "tc_open c"
  shows "tc_handled c (handleRead user (tc_loopThread c) (kernel_readv r) clock debug t c)"
proof -
  have wf: "Buffer_wf (tc_inputBuffer c)" using inv by (simp add: tc_inv_defs)
  consider "readFd (kernel_readv r) (tc_inputBuffer c) = Inl Length_error"
    | x b where "readFd (kernel_readv r) (tc_inputBuffer c) = Inr (x, b)" "Buffer_wf b"
    using readFd_total [OF wf kernel_readv_bounded] by blast
  then show ?thesis
  proof cases
    case 1
    then show ?thesis by (simp add: handleRead_def tc_inLoop_def)
  next
    case (2 x b)
    let ?c = "c\<lparr>tc_inputBuffer := b\<rparr>"
    have c: "tc_inv ?c" "tc_open ?c" "tc_later c ?c"
      using inv "open" 2(2) by (auto simp: tc_inv_defs tc_open_def tc_later_def)
    have closed: "tc_handled c (handleClose user (tc_loopThread c) ?c)"
      using tc_handled_later [OF c(3) handleClose_handled [OF user c(1,2)]] by simp
    show ?thesis
    proof (cases x)
      case (Read_error e)
      with 2 c show ?thesis by (simp add: handleRead_def tc_inLoop_def Let_def handleError_def)
    next
      case (Read_data bytes)
      have "tc_handled c (run_callback user (tc_loopThread c) cb (?c\<lparr>tc_bytesReceivedCounter := k\<rparr>))"
        if "counter_ok k" for k cb
      proof -
        let ?d = "?c\<lparr>tc_bytesReceivedCounter := k\<rparr>"
        have d: "tc_inv ?d" "tc_open ?d" "tc_state ?d \<noteq> kConnecting" "tc_later c ?d"
          using c that by (auto simp: tc_inv_defs tc_open_def tc_later_def)
        from tc_handled_later [OF d(4) tc_post_handled [OF d(2) run_callback_post [OF user d(1,3), of cb]]]
        show ?thesis by simp
      qed
      moreover obtain k where "counter_ok k"
        "MinuteHour_Add (clock 0) (cast_int32 (int (length bytes))) (tc_bytesReceivedCounter c) = Inr k"
        using MinuteHour_Add_ok [of "tc_bytesReceivedCounter c"] inv by (auto simp: tc_inv_defs)
      ultimately show ?thesis
        using 2 Read_data closed by (simp add: handleRead_def tc_inLoop_def Let_def)
    qed
  qed
qed

lemma tc_written:
  assumes "tc_inv c" "tc_open c" "retrieve n (tc_outputBuffer c) = Inr out" "Buffer_wf out"
    "content out = drop n (content (tc_outputBuffer c))"
  defines "d \<equiv> (tc_socket_write (take n (content (tc_outputBuffer c))) c)\<lparr>tc_outputBuffer := out\<rparr>"
  shows "content out \<noteq> [] \<Longrightarrow> tc_inv d" "content out = [] \<Longrightarrow> tc_inv (tc_disableWriting d)"
proof -
  have split: "take n (content (tc_outputBuffer c)) @ content out = content (tc_outputBuffer c)"
    using assms(5) by simp
  then have drained: "take n (content (tc_outputBuffer c)) = content (tc_outputBuffer c)" if "content out = []"
    using that by (metis append_Nil2)
  have ne: "content (tc_outputBuffer c) \<noteq> []" if "content out \<noteq> []" using split that by auto
  show "content out \<noteq> [] \<Longrightarrow> tc_inv d" "content out = [] \<Longrightarrow> tc_inv (tc_disableWriting d)"
    using assms(1,2,4) split drained ne
    by (auto simp: d_def tc_inv_defs tc_socket_write_def tc_open_def)
qed

text \<open>A write that the socket takes: what is left, and what the end of the output sets off.\<close>

lemma handleWrite_wrote:
  assumes writing: "isWriting (tc_channel c)" and m: "0 < n" "n = min m (length (content (tc_outputBuffer c)))"
    and out: "retrieve n (tc_outputBuffer c) = Inr out" "Buffer_wf out"
    and d: "d = (tc_socket_write (take n (content (tc_outputBuffer c))) c)\<lparr>tc_outputBuffer := out\<rparr>"
    and e: "e = (if tc_writeCompleteCallback (tc_disableWriting d)
      then tc_queueInLoop Write_complete (tc_disableWriting d) else tc_disableWriting d)"
  shows "handleWrite (tc_loopThread c) (kernel_write (Wrote m)) c =
      (if content out = [] then (if tc_state e = kDisconnecting then shutdownInLoop (tc_loopThread c) e else Inr e)
       else Inr d)"
proof -
  have "readableBytes out = 0 \<longleftrightarrow> content out = []"
    using readableBytes_content [OF out(2)] by (metis length_0_conv)
  then show ?thesis
    using writing out(1) m(1)
    by (simp del: readableBytes_wf length_content
        add: handleWrite_def tc_inLoop_def Let_def tc_socket_write_def e d flip: m(2))
qed

lemma handleWrite_post:
  assumes inv: "tc_inv c" and st: "tc_state c \<noteq> kConnecting"
  shows "tc_post c (handleWrite (tc_loopThread c) (kernel_write w) c)"
proof (cases "isWriting (tc_channel c) \<and> (\<exists>m. w = Wrote m \<and> 0 < m)")
  case False
  then show ?thesis using inv by (cases w) (auto simp: handleWrite_def tc_inLoop_def)
next
  case True
  then obtain m where w: "w = Wrote m" "0 < m" and writing: "isWriting (tc_channel c)" by blast
  have "open": "tc_open c" and ne: "content (tc_outputBuffer c) \<noteq> []" and wf: "Buffer_wf (tc_outputBuffer c)"
    using writing inv st isNoneEvent_not_writing [of "tc_channel c"]
    by (cases "tc_state c"; simp add: tc_inv_defs tc_open_def)+
  define n where "n = min m (length (content (tc_outputBuffer c)))"
  have n: "0 < n" using w ne by (simp add: n_def del: length_content)
  obtain out where out: "retrieve n (tc_outputBuffer c) = Inr out" "Buffer_wf out"
      "content out = drop n (content (tc_outputBuffer c))"
    using retrieve_ok [OF wf, of n] by (auto simp: n_def)
  define d where "d = (tc_socket_write (take n (content (tc_outputBuffer c))) c)\<lparr>tc_outputBuffer := out\<rparr>"
  define e where "e = (if tc_writeCompleteCallback (tc_disableWriting d)
    then tc_queueInLoop Write_complete (tc_disableWriting d) else tc_disableWriting d)"
  note i = tc_written [OF inv "open" out, folded d_def]
  have m: "tc_moves c d" "tc_moves c e" "tc_loopThread e = tc_loopThread c"
    by (simp_all add: d_def e_def tc_moves_def tc_socket_write_def)
  have eq: "handleWrite (tc_loopThread c) (kernel_write w) c =
      (if content out = [] then (if tc_state e = kDisconnecting then shutdownInLoop (tc_loopThread c) e else Inr e)
       else Inr d)"
    unfolding w(1) by (rule handleWrite_wrote [OF writing n n_def out(1,2) d_def e_def])
  have "tc_inv e" if "content out = []" using i(2) [OF that] by (simp add: e_def tc_inv_queue)
  then show ?thesis
    using m i(1) tc_post_moves [OF m(2) shutdownInLoop_post] by (simp add: eq)
qed

section \<open>Every event\<close>

lemma due_handlers:
  "handlers_set ch \<Longrightarrow> due_callbacks (set_revents rv ch) =
     (if hup_only rv then [Handle_close] else []) @ (if is_error rv then [Handle_error] else []) @
     (if is_readable rv then [Handle_read] else []) @ (if is_writable rv then [Handle_write] else [])"
  by (simp add: due_callbacks_def dispatch_tests_def due_of_def handlers_set_def set_revents_def)

lemma tc_handle_write: "tc_inv c \<Longrightarrow> tc_state c \<noteq> kConnecting \<Longrightarrow> tc_safe c (tc_handle user a Handle_write c)"
  by (simp add: tc_handle_def tc_post_safe [OF handleWrite_post])

lemma tc_handled_then_write:
  assumes "tc_handled c r"
  shows "tc_safe c (rbind r (\<lambda>c'. rfold (tc_handle user a) (if w then [Handle_write] else []) c'))"
  using assms
  by (cases r) (auto simp: tc_open_def rfold_fun intro!: tc_safe_later [of c] tc_handle_write)

lemma tc_poll_safe:
  assumes user: "user_ok user" and inv: "tc_inv c" and "open": "tc_open c"
    and hup: "\<not> (hup_only rv \<and> is_readable rv)"
  shows "tc_safe c (tc_step user (Poll rv a) c)"
proof -
  define d where "d = c\<lparr>tc_channel := set_revents rv (tc_channel c)\<rparr>"
  have d: "tc_inv d" "tc_open d" and later: "tc_later c d"
    using inv "open"
    by (auto simp: tc_later_def d_def tc_inv_defs tc_open_def handlers_set_def set_revents_def isNoneEvent_def isWriting_def)
  have h: "handlers_set (tc_channel c)" using inv by (simp add: tc_inv_defs)
  define rw where "rw = (if is_writable rv then [Handle_write] else [])"
  have step: "tc_step user (Poll rv a) c = rfold (tc_handle user a)
      ((if hup_only rv then [Handle_close] else []) @ (if is_error rv then [Handle_error] else []) @
       (if is_readable rv then [Handle_read] else []) @ rw) d"
    using due_handlers [OF h, of rv] by (simp add: d_def rw_def)
  have err: "tc_handle user a Handle_error = Inr" by (simp add: tc_handle_def handleError_def fun_eq_iff)
  have read: "tc_handled d (tc_handle user a Handle_read d)"
    using handleRead_handled [OF user d] by (simp add: tc_handle_def)
  have "tc_safe d (rbind (handleClose user (tc_loopThread d) d) (\<lambda>c'. rfold (tc_handle user a) rw c'))"
    "tc_safe d (rbind (tc_handle user a Handle_read d) (\<lambda>c'. rfold (tc_handle user a) rw c'))"
    "tc_safe d (rbind (Inr d) (\<lambda>c'. rfold (tc_handle user a) rw c'))"
    unfolding rw_def
    by (rule tc_handled_then_write [of d]; use d read handleClose_handled [OF user d] in simp)+
  then have "tc_safe d (tc_step user (Poll rv a) c)"
    unfolding step using hup err
    by (cases "hup_only rv"; cases "is_readable rv"; cases "is_error rv") (simp_all add: tc_handle_def rfold_fun)
  with later show ?thesis by (rule tc_safe_later)
qed

lemma run_functor_safe:
  assumes user: "user_ok user" and inv: "tc_inv c" and ok: "functor_ok f" and st: "tc_state c \<noteq> kConnecting"
    and "open": "(case f of Send_in_loop m \<Rightarrow> tc_open c | Start_read_in_loop \<Rightarrow> tc_open c | _ \<Rightarrow> True)"
  shows "tc_safe c (run_functor user (tc_loopThread c) (kernel_write w) f c)"
proof (cases f)
  case (Send_in_loop m)
  then show ?thesis
    using "open" ok tc_post_safe [OF sendInLoop_piece_post [OF inv]] by (simp add: run_functor_def)
next
  case Force_close_in_loop
  then show ?thesis
    using inv tc_handled_safe [OF handleClose_handled [OF user inv]]
    by (simp add: run_functor_def forceCloseInLoop_def tc_inLoop_def tc_open_def)
qed (use "open" tc_post_safe [OF shutdownInLoop_post [OF inv]] tc_post_safe [OF startReadInLoop_post [OF inv]]
      tc_post_safe [OF stopReadInLoop_post [OF inv]] tc_post_safe [OF run_callback_post [OF user inv st]]
     in \<open>simp_all add: run_functor_def\<close>)

lemma tc_pending_inv: "tc_inv c \<Longrightarrow> tc_pending c = f # fs \<Longrightarrow> tc_inv (c\<lparr>tc_pending := fs\<rparr>) \<and> functor_ok f"
  by (simp add: tc_inv_defs)

lemma open_iff: "tc_open c \<longleftrightarrow> tc_state c \<noteq> kConnecting \<and> tc_state c \<noteq> kDisconnected"
  by (cases "tc_state c") (simp_all add: tc_open_def)

lemma tc_step_safe:
  assumes user: "user_ok user" and inv: "tc_inv c" and en: "tc_enabled e c"
  shows "tc_safe c (tc_step user e c)"
proof (cases e)
  case (Functor w)
  show ?thesis
  proof (cases "tc_pending c")
    case Nil
    then show ?thesis using inv Functor by simp
  next
    case (Cons f fs)
    have "tc_safe (c\<lparr>tc_pending := fs\<rparr>)
      (run_functor user (tc_loopThread (c\<lparr>tc_pending := fs\<rparr>)) (kernel_write w) f (c\<lparr>tc_pending := fs\<rparr>))"
      using tc_pending_inv [OF inv Cons] en Functor Cons
      by (intro run_functor_safe [OF user]) (auto simp: open_iff split: tc_functor.splits)
    moreover have "tc_later c (c\<lparr>tc_pending := fs\<rparr>)" by (simp add: tc_later_def)
    ultimately show ?thesis using Functor Cons by (auto dest: tc_safe_later)
  qed
next
  case Timer
  have "tc_later c (c\<lparr>tc_delayed := tc_delayed c - 1\<rparr>)" by (simp add: tc_later_def)
  then show ?thesis
    using Timer tc_post_safe [OF forceClose_post, of "c\<lparr>tc_delayed := tc_delayed c - 1\<rparr>"] inv
    by (auto intro: tc_later_trans)
next
  case (Established self)
  then show ?thesis using connectEstablished_result [OF user inv, of self] en by auto
next
  case (Poll rv a)
  then show ?thesis
    using tc_poll_safe [OF user inv, of rv a] en by (simp add: tc_open_def del: tc_step.simps)
qed (use en connectDestroyed_safe [OF user inv]
      tc_post_safe [OF tc_call_post [OF inv]] in auto)

text \<open>Only its owner takes a connection out of \<^verbatim>\<open>kConnecting\<close>.\<close>

lemma tc_step_connecting:
  assumes "tc_enabled e c" "tc_state c = kConnecting" "\<And>self. e \<noteq> Established self" "e \<noteq> Destroyed"
    "tc_step user e c = Inr c'"
  shows "tc_state c' = kConnecting"
  using assms by (cases e) (auto simp: tc_allowed_def forceClose_def split: if_splits)

text \<open>A connection as it is before it is established, and what it can become.\<close>

definition tc_fresh :: "TcpConnection \<Rightarrow> bool" where
  "tc_fresh c \<longleftrightarrow> (\<exists>thread loop name fd inp out g1 g2 w h m.
     Buffer_new kInitialSize = Inr inp \<and> Buffer_new kInitialSize = Inr out \<and>
     c = (TcpConnection_new thread loop name fd inp out (MinuteHourCounter_new g1 g2))
           \<lparr>tc_writeCompleteCallback := w, tc_highWaterMarkCallback := h, tc_highWaterMark := m\<rparr>)"

abbreviation tc_reachable :: "user \<Rightarrow> TcpConnection \<Rightarrow> bool" where
  "tc_reachable user \<equiv> reach (Collect tc_fresh) tc_enabled (tc_step user)"

lemma tc_fresh_inv: "tc_fresh c \<Longrightarrow> tc_inv c"
proof -
  assume "tc_fresh c"
  then obtain thread loop name fd inp out g1 g2 w h m where
    b: "Buffer_new kInitialSize = Inr inp" "Buffer_new kInitialSize = Inr out" and
    c: "c = (TcpConnection_new thread loop name fd inp out (MinuteHourCounter_new g1 g2))
           \<lparr>tc_writeCompleteCallback := w, tc_highWaterMarkCallback := h, tc_highWaterMark := m\<rparr>"
    by (auto simp: tc_fresh_def)
  have "Buffer_wf inp" "Buffer_wf out" "content out = []"
    using b Buffer_new_ok [of kInitialSize] by (auto simp: buffer_consts)
  then show ?thesis
    by (auto simp: c tc_inv_defs TcpConnection_new_def counter_ok_def MinuteHourCounter_new_def
        TrailingBucketCounter_new_def ConveyorQueue_new_def handlers_set_def setErrorCallback_def
        setCloseCallback_def setWriteCallback_def setReadCallback_def Channel_new_def isWriting_def
        isNoneEvent_def kNoneEvent_def write_bits)
qed

lemma TcpConnection_new_inv:
  assumes "Buffer_new kInitialSize = Inr b" and c_def: "c = TcpConnection_new l a name fd b b (MinuteHourCounter_new g1 g2)"
  shows "tc_inv c" "tc_inv (setWriteCompleteCallback c)"
proof -
  have "tc_fresh c"
    unfolding tc_fresh_def c_def using assms(1)
    by (intro exI [of _ l] exI [of _ a] exI [of _ name] exI [of _ fd] exI [of _ b] exI [of _ g1] exI [of _ g2]
        exI [of _ False] exI [of _ "64 * 1024 * 1024 :: nat"])
       (simp add: TcpConnection_new_def)
  then show c: "tc_inv c" by (rule tc_fresh_inv)
  then show "tc_inv (setWriteCompleteCallback c)"
    by (simp add: setWriteCompleteCallback_def tc_inv_def tc_parts_def tc_stream_def tc_history_def)
qed

text \<open>
  The contract of the code that uses connections through its callbacks; a connection, a server and a client driven by
  such code are event systems.
\<close>

locale client_code =
  fixes user :: user
  assumes allowed: "user_ok user"

sublocale client_code \<subseteq> tc: event_system tc_enabled "tc_step user" tc_inv "{Length_error}"
proof
  show "tc_inv c'" if "tc_inv c" "tc_enabled e c" "tc_step user e c = Inr c'" for c e c'
    using tc_step_safe [OF allowed that(1,2)] that(3) by simp
  show "f \<in> {Length_error}" if "tc_inv c" "tc_enabled e c" "tc_step user e c = Inl f" for c e f
    using tc_step_safe [OF allowed that(1,2)] that(3) by simp
qed

context client_code
begin

lemma tc_reach_inv: "tc_reachable user c \<Longrightarrow> tc_inv c"
  by (erule tc.reach_inv) (simp add: tc_fresh_inv)

lemma tc_reach_steps:
  assumes "tc_reachable user c" "tc_enabled e c"
  shows "(\<exists>c'. tc_step user e c = Inr c') \<or> tc_step user e c = Inl Length_error"
  using tc.inv_steps [OF tc_reach_inv [OF assms(1)] assms(2)] by blast

end

lemma tc_reachable_inv: "user_ok user \<Longrightarrow> tc_reachable user c \<Longrightarrow> tc_inv c"
  by (rule client_code.tc_reach_inv [OF client_code.intro])

section \<open>Draining\<close>

lemma handleWrite_idle: "\<not> isWriting (tc_channel c) \<Longrightarrow> handleWrite (tc_loopThread c) w c = Inr c"
  by (simp add: handleWrite_def tc_inLoop_def)

lemma handleWrite_progress:
  assumes inv: "tc_inv c" and st: "tc_state c = kDisconnecting" and ne: "content (tc_outputBuffer c) \<noteq> []"
  shows "\<exists>c'. handleWrite (tc_loopThread c) (kernel_write (Wrote (Suc k))) c = Inr c' \<and>
    tc_loopThread c' = tc_loopThread c \<and> tc_state c' = kDisconnecting \<and> tc_broken c' = tc_broken c \<and>
    tc_sent c' = tc_sent c \<and> content (tc_outputBuffer c') = drop (Suc k) (content (tc_outputBuffer c)) \<and>
    (content (tc_outputBuffer c') = [] \<longrightarrow> (kDisconnecting, tc_accepted c', tc_sent c') \<in> set (tc_shutdowns c'))"
proof -
  have writing: "isWriting (tc_channel c)" and wf: "Buffer_wf (tc_outputBuffer c)"
    using inv st ne by (auto simp: tc_inv_defs)
  let ?s = "content (tc_outputBuffer c)"
  obtain out where out: "retrieve (min (Suc k) (length ?s)) (tc_outputBuffer c) = Inr out" "Buffer_wf out"
      "content out = drop (min (Suc k) (length ?s)) ?s"
    using retrieve_ok [OF wf, of "min (Suc k) (length ?s)"] by auto
  have o: "content out = drop (Suc k) ?s" by (simp add: out(3) min_def del: length_content)
  have z: "readableBytes out = 0 \<longleftrightarrow> content out = []"
    using readableBytes_content [OF out(2)] by (metis length_0_conv)
  have pos: "0 < min (Suc k) (length ?s)" using ne by (simp del: length_content)
  show ?thesis
    using writing st out(1) o z pos
    by (auto simp: handleWrite_def tc_inLoop_def Let_def tc_socket_write_def shutdownInLoop_def
        tc_shutdownWrite_def tc_queueInLoop_def isWriting_def tc_disableWriting_def tc_events_def write_bits
        simp del: readableBytes_wf length_content drop_eq_Nil)
qed

text \<open>Once the write side is shut down in order, later events of the channel keep it so.\<close>

lemma drain:
  assumes "tc_inv c" "tc_state c = kDisconnecting" "\<not> tc_broken c"
    and "length (content (tc_outputBuffer c)) \<le> length ns"
    and "content (tc_outputBuffer c) = [] \<longrightarrow> (kDisconnecting, tc_accepted c, tc_sent c) \<in> set (tc_shutdowns c)"
  shows "\<exists>c'. rfold (\<lambda>n. handleWrite (tc_loopThread c) (kernel_write (Wrote (Suc n)))) ns c = Inr c' \<and>
    tc_state c' = kDisconnecting \<and> tc_accepted c' = tc_sent c \<and>
    (kDisconnecting, tc_sent c, tc_sent c) \<in> set (tc_shutdowns c')"
  using assms
proof (induction ns arbitrary: c)
  case Nil
  then have "content (tc_outputBuffer c) = []" by (simp del: length_content)
  with Nil show ?case by (auto simp: tc_inv_defs)
next
  case (Cons n ns)
  show ?case
  proof (cases "content (tc_outputBuffer c) = []")
    case True
    then have "\<not> isWriting (tc_channel c)" using Cons.prems by (simp add: tc_inv_defs)
    from handleWrite_idle [OF this] show ?thesis using Cons True by simp
  next
    case False
    from handleWrite_progress [OF Cons.prems(1,2) False, of n] obtain c' where
      c': "handleWrite (tc_loopThread c) (kernel_write (Wrote (Suc n))) c = Inr c'"
        "tc_loopThread c' = tc_loopThread c" "tc_state c' = kDisconnecting" "tc_broken c' = tc_broken c"
        "tc_sent c' = tc_sent c" "content (tc_outputBuffer c') = drop (Suc n) (content (tc_outputBuffer c))"
        "content (tc_outputBuffer c') = [] \<longrightarrow> (kDisconnecting, tc_accepted c', tc_sent c') \<in> set (tc_shutdowns c')"
      by blast
    have "tc_inv c'"
      using handleWrite_post [OF Cons.prems(1), of "Wrote (Suc n)"] Cons.prems(2) c'(1) by simp
    moreover have "length (content (tc_outputBuffer c')) \<le> length ns"
      using Cons.prems(4) c'(6) by (simp del: length_content)
    ultimately show ?thesis
      using Cons.IH [of c'] Cons.prems(3) c' by (simp del: kernel_write.simps)
  qed
qed

section \<open>A client\<close>

text \<open>An echo server: it takes what has arrived from the input buffer and sends it back.\<close>

definition echo :: user where
  "echo cb c = (case cb of
       On_message t \<Rightarrow>
         if tc_open c \<and> length (content (tc_inputBuffer c)) < 2 ^ 31
         then [Consume (length (content (tc_inputBuffer c))), Send (content (tc_inputBuffer c)) (Wrote 1000)]
         else []
     | _ \<Rightarrow> [])"

lemma echo_ok: "user_ok echo"
proof -
  have "ops_allowed (tc_loopThread c) (echo cb c) c" if inv: "tc_inv c" for cb c
  proof (cases "\<exists>t. cb = On_message t \<and> tc_open c \<and> length (content (tc_inputBuffer c)) < 2 ^ 31")
    case True
    let ?n = "length (content (tc_inputBuffer c))"
    obtain b where "retrieve ?n (tc_inputBuffer c) = Inr b"
      using retrieve_ok [of "tc_inputBuffer c" ?n] inv by (auto simp: tc_inv_defs)
    then have "tc_call (tc_loopThread c) (Consume ?n) c = Inr (c\<lparr>tc_inputBuffer := b\<rparr>)" by simp
    with True show ?thesis
      by (auto simp: echo_def tc_allowed_def open_iff simp del: tc_call.simps length_content split: sum.split)
  qed (auto simp: echo_def split: tc_callback.split)
  then show ?thesis by (simp add: user_ok_def)
qed

interpretation echo: client_code echo
  using echo_ok by unfold_locales

text \<open>A connection of that server which has sent five bytes of which the socket took three.\<close>

lemma sample_sending:
  "\<exists>c. tc_reachable echo c \<and> tc_state c = kConnected \<and> tc_loopThread c = 0 \<and> \<not> tc_broken c \<and>
     tc_accepted c = ''hel'' \<and> content (tc_outputBuffer c) = ''lo'' \<and> tc_sent c = ''hello'' \<and>
     writerIndex (tc_outputBuffer c) \<le> 10"
proof -
  obtain b where b: "Buffer_new kInitialSize = Inr b" "Buffer_wf b" "content b = []" "writerIndex b = kCheapPrepend"
    using Buffer_new_ok [of kInitialSize] by (auto simp: buffer_consts)
  define c0 where "c0 = TcpConnection_new 0 0 ''c#1'' 5 b b (MinuteHourCounter_new 0 0)"
  have "tc_fresh c0"
    unfolding tc_fresh_def c0_def using b(1)
    by (intro exI [of _ "0 :: nat"] exI [of _ "''c#1''"] exI [of _ "5 :: int"] exI [of _ b]
        exI [of _ "0 :: int"] exI [of _ False] exI [of _ "64 * 1024 * 1024 :: nat"])
       (simp add: TcpConnection_new_def)
  then have r0: "tc_reachable echo c0" by (intro reach_init) simp
  define c1 where "c1 = c0\<lparr>tc_state := kConnected, tc_connectionCalls := [kConnected],
    tc_channel := (tc_channel c0)\<lparr>ch_tie := Some 7, ch_tied := True, ch_events := kReadEvent, ch_addedToLoop := True\<rparr>\<rparr>"
  have "tc_step echo (Established 7) c0 = Inr c1"
    by (simp add: c0_def c1_def TcpConnection_new_def connectEstablished_def tc_inLoop_def setState_def
        Channel_tie_def tc_enableReading_def tc_events_def connectionCallback_def run_callback_def echo_def
        setErrorCallback_def setCloseCallback_def setWriteCallback_def setReadCallback_def Channel_new_def)
  moreover have "tc_enabled (Established 7) c0" by (simp add: c0_def TcpConnection_new_def)
  ultimately have r1: "tc_reachable echo c1" using reach_step [OF r0] by blast
  obtain b' where b': "append_mem ''lo'' 2 b = Inr b'" "content b' = ''lo''" "writerIndex b' \<le> 10"
    using append_mem_ok [OF b(2), of 2 "''lo''"] b(3,4) by (auto simp: buffer_consts)
  define c2 where "c2 = tc_enableWriting (c1\<lparr>tc_sent := ''hello'', tc_accepted := ''hel'', tc_outputBuffer := b'\<rparr>)"
  have "\<not> isWriting (tc_channel c1)"
    using write_bits(2) [of 0] by (simp add: c1_def isWriting_def write_bits)
  then have "tc_step echo (Api 0 (Send ''hello'' (Wrote 3))) c1 = Inr c2"
    using b(2,4) b'(1)
    by (simp add: c2_def c1_def c0_def TcpConnection_new_def send_piece_def sendInLoop_piece_def
        sendInLoop_def tc_inLoop_def try_write_def buffer_rest_def tc_socket_write_def
        readableBytes_content b(3) sz_sub_def del: readableBytes_wf)
  moreover have "tc_enabled (Api 0 (Send ''hello'' (Wrote 3))) c1"
    by (simp add: c1_def c0_def TcpConnection_new_def tc_allowed_def)
  ultimately have "tc_reachable echo c2" using reach_step [OF r1] by blast
  then show ?thesis
    using b'(2,3) by (intro exI [of _ c2]) (simp add: c2_def c1_def c0_def TcpConnection_new_def)
qed

section \<open>Properties\<close>

text \<open>
  C2: for every client that follows the rules, in every state a connection can reach: unless the
  socket reported a broken connection, the bytes the socket took followed by the bytes still buffered
  are exactly the bytes sent, in order; the channel asks for writability exactly while output is
  buffered; and whenever the write side was shut down on a live connection, everything sent before
  had been taken by the socket.
\<close>

theorem TcpConnection_stream:
  assumes "user_ok user" "tc_reachable user c"
  shows "(\<not> tc_broken c \<longrightarrow> tc_accepted c @ content (tc_outputBuffer c) = tc_sent c) \<and>
    (tc_state c \<noteq> kDisconnected \<longrightarrow> isWriting (tc_channel c) = (content (tc_outputBuffer c) \<noteq> [])) \<and>
    (\<not> tc_broken c \<longrightarrow>
       list_all (\<lambda>(s, accepted, sent). s = kDisconnected \<or> accepted = sent) (tc_shutdowns c))"
  using tc_reachable_inv [OF assms] by (auto simp: tc_inv_defs)

theorem TcpConnection_stream_witness:
  "\<exists>c. tc_reachable echo c \<and> tc_accepted c = ''hel'' \<and> tc_sent c = ''hello'' \<and>
     content (tc_outputBuffer c) = ''lo'' \<and> isWriting (tc_channel c)"
proof -
  obtain c where c: "tc_reachable echo c" "tc_state c = kConnected" "tc_accepted c = ''hel''"
      "content (tc_outputBuffer c) = ''lo''" "tc_sent c = ''hello''"
    using sample_sending by blast
  with TcpConnection_stream [OF echo_ok c(1)] show ?thesis by auto
qed

text \<open>
  C5: no event makes an assertion of the connection fail or uses it from a wrong thread, as long as the
  client and the owner follow the rules: every step returns, except that a buffer that would exceed the
  largest size of a vector ends the process.
\<close>

theorem TcpConnection_never_asserts:
  assumes "user_ok user" "tc_reachable user c" "tc_enabled e c"
  shows "(\<exists>c'. tc_step user e c = Inr c') \<or> tc_step user e c = Inl Length_error"
  using client_code.intro [OF assms(1)] assms(2,3) by (rule client_code.tc_reach_steps)

theorem TcpConnection_never_asserts_witness:
  "\<exists>c. tc_reachable echo c \<and>
     ((\<exists>c'. tc_step echo Destroyed c = Inr c') \<or> tc_step echo Destroyed c = Inl Length_error)"
proof -
  obtain c where c: "tc_reachable echo c" "tc_state c = kConnected" using sample_sending by blast
  with TcpConnection_never_asserts [OF echo_ok c(1), of Destroyed] show ?thesis by auto
qed

text \<open>
  C12: the user's connection callback is called once when the connection is up and once when it is
  down, in this order and with the state showing which, and the owner's close callback at most once,
  when it is down.
\<close>

theorem connection_goes_up_then_down:
  assumes "user_ok user" "tc_reachable user c"
  shows "tc_connectionCalls c =
      (case tc_state c of
         kConnecting \<Rightarrow> []
       | kConnected \<Rightarrow> [kConnected]
       | kDisconnecting \<Rightarrow> [kConnected]
       | kDisconnected \<Rightarrow> [kConnected, kDisconnected]) \<and>
    tc_closeCalls c \<le> (if tc_state c = kDisconnected then 1 else 0)"
  using tc_reachable_inv [OF assms] by (cases "tc_state c") (auto simp: tc_inv_defs)

theorem connection_goes_up_then_down_witness:
  "\<exists>c. tc_reachable echo c \<and> tc_connectionCalls c = [kConnected] \<and> tc_closeCalls c = 0"
proof -
  obtain c where c: "tc_reachable echo c" "tc_state c = kConnected" using sample_sending by blast
  with connection_goes_up_then_down [OF echo_ok c(1)] show ?thesis by auto
qed

text \<open>
  C13: after \<^verbatim>\<open>shutdown\<close> the buffered output still goes out: once the socket has accepted bytes as many
  times as there were bytes buffered, in portions of any size, everything sent has been written and the
  write side has been shut down.
\<close>

theorem shutdown_drains_output:
  assumes "user_ok user" "tc_reachable user c" "tc_state c = kConnected" "\<not> tc_broken c"
    and "length (content (tc_outputBuffer c)) \<le> length ns"
  shows "\<exists>c'. rbind (tc_shutdown (tc_loopThread c) c)
      (rfold (\<lambda>n. handleWrite (tc_loopThread c) (kernel_write (Wrote (Suc n)))) ns) = Inr c' \<and>
    tc_state c' = kDisconnecting \<and> tc_accepted c' = tc_sent c \<and>
    (kDisconnecting, tc_sent c, tc_sent c) \<in> set (tc_shutdowns c')"
proof -
  have inv: "tc_inv c" using assms(1,2) by (rule tc_reachable_inv)
  have "tc_post c (tc_shutdown (tc_loopThread c) c)" using inv by (rule tc_shutdown_post)
  moreover obtain d where d: "tc_shutdown (tc_loopThread c) c = Inr d"
      "tc_state d = kDisconnecting" "tc_loopThread d = tc_loopThread c" "tc_broken d = tc_broken c"
      "tc_sent d = tc_sent c" "tc_outputBuffer d = tc_outputBuffer c"
      "\<not> isWriting (tc_channel c) \<longrightarrow> (kDisconnecting, tc_accepted d, tc_sent d) \<in> set (tc_shutdowns d)"
    using assms(3) by (auto simp: tc_shutdown_def tc_runInLoop_def setState_def shutdownInLoop_def
        tc_inLoop_def tc_shutdownWrite_def)
  ultimately have "tc_inv d" by simp
  then show ?thesis
    using drain [of d ns] d inv assms(3,4,5)
    by (auto simp: tc_inv_defs simp del: kernel_write.simps length_content)
qed

theorem shutdown_drains_output_witness:
  "\<exists>c c'. rbind (tc_shutdown (tc_loopThread c) c)
      (rfold (\<lambda>n. handleWrite (tc_loopThread c) (kernel_write (Wrote (Suc n)))) [0, 0]) = Inr c' \<and>
    tc_sent c = ''hello'' \<and> tc_accepted c = ''hel'' \<and> tc_accepted c' = ''hello'' \<and>
    (kDisconnecting, ''hello'', ''hello'') \<in> set (tc_shutdowns c')"
proof -
  obtain c where c: "tc_reachable echo c" "tc_state c = kConnected" "\<not> tc_broken c" "tc_accepted c = ''hel''"
      "content (tc_outputBuffer c) = ''lo''" "tc_sent c = ''hello''"
    using sample_sending by blast
  with shutdown_drains_output [OF echo_ok c(1-3), of "[0, 0]"] show ?thesis
    by (auto simp del: length_content rfold.simps kernel_write.simps)
qed

text \<open>
  C39: what breaking the rules leads to. \<^verbatim>\<open>send\<close> of a string from another thread aborts on a connection
  that is up. \<^verbatim>\<open>send\<close> on a connection that was closed with output still buffered is not refused: it
  registers the channel for writing again, and the destruction of the connection then fails an
  assertion. So does the destruction of a connection that is being shut down and still watched.
\<close>

theorem misuse_stops_the_process:
  assumes "Buffer_wf (tc_outputBuffer c)" "0 < length m" "length m < 2 ^ 31"
  shows "(tc_state c = kConnected \<and> tid \<noteq> tc_loopThread c \<longrightarrow>
      send_piece tid (StringPiece_of_string m) write c = Inl Fatal) \<and>
    (tc_state c = kDisconnected \<and> content (tc_outputBuffer c) \<noteq> [] \<and>
       send_piece (tc_loopThread c) (StringPiece_of_string m) write c = Inr c' \<longrightarrow>
       connectDestroyed user (tc_loopThread c) c' = Inl Assert_failed) \<and>
    (tc_state c = kDisconnecting \<and> \<not> isNoneEvent (tc_channel c) \<longrightarrow>
       connectDestroyed user (tc_loopThread c) c = Inl Assert_failed)"
proof (intro conjI impI; (elim conjE)?)
  assume "tc_state c = kConnected" "tid \<noteq> tc_loopThread c"
  then show "send_piece tid (StringPiece_of_string m) write c = Inl Fatal"
    by (simp add: send_piece_def sendInLoop_piece_def sendInLoop_def tc_inLoop_def)
next
  assume st: "tc_state c = kDisconnected" and ne: "content (tc_outputBuffer c) \<noteq> []"
    and sent: "send_piece (tc_loopThread c) (StringPiece_of_string m) write c = Inr c'"
  have "readableBytes (tc_outputBuffer c) \<noteq> 0"
    using ne readableBytes_content [OF assms(1)] by (metis length_0_conv)
  then have "buffer_rest m 0 (length m) (c\<lparr>tc_sent := tc_sent c @ m\<rparr>) = Inr c'"
    using sent st assms(2,3)
    by (simp add: send_piece_def sendInLoop_piece_def tc_runInLoop_def sendInLoop_def tc_inLoop_def
        try_write_def del: readableBytes_wf)
  then have "isWriting (tc_channel c')" "tc_state c' = kDisconnected" "tc_loopThread c' = tc_loopThread c"
    using buffer_rest_writing st by fastforce+
  then show "connectDestroyed user (tc_loopThread c) c' = Inl Assert_failed"
    using isNoneEvent_not_writing [of "tc_channel c'"]
    by (auto simp: connectDestroyed_def tc_inLoop_def require_def)
qed (simp add: connectDestroyed_def tc_inLoop_def)

theorem misuse_stops_the_process_witness:
  "\<exists>c d. tc_reachable echo c \<and> tc_accepted c = ''hel'' \<and> tc_state c = kConnected \<and>
     send_piece 1 (StringPiece_of_string ''x'') (kernel_write (Wrote 1)) c = Inl Fatal \<and>
     handleClose echo 0 c = Inr d \<and>
     rbind (send_piece 0 (StringPiece_of_string ''x'') (kernel_write (Wrote 1)) d)
       (connectDestroyed echo 0) = Inl Assert_failed"
proof -
  obtain c where c: "tc_reachable echo c" "tc_state c = kConnected" "tc_loopThread c = 0"
      "tc_accepted c = ''hel''" "content (tc_outputBuffer c) = ''lo''"
      "writerIndex (tc_outputBuffer c) \<le> 10"
    using sample_sending by blast
  have inv: "tc_inv c" using echo_ok c(1) by (rule tc_reachable_inv)
  obtain d where d: "handleClose echo 0 c = Inr d" "tc_state d = kDisconnected" "tc_loopThread d = 0"
      "tc_outputBuffer d = tc_outputBuffer c"
    using c(2,3) by (auto simp: handleClose_def tc_inLoop_def connectionCallback_def run_callback_def
        echo_def setState_def)
  have wf: "Buffer_wf (tc_outputBuffer d)" using inv d(4) by (simp add: tc_inv_defs)
  have ne: "readableBytes (tc_outputBuffer d) \<noteq> 0"
    using readableBytes_content [OF wf] c(5) d(4) by (simp del: readableBytes_wf length_content)
  obtain b where b: "append_mem ''x'' 1 (tc_outputBuffer d) = Inr b"
    using append_mem_ok [OF wf, of 1 "''x''"] c(6) d(4) by (auto simp: max_size_def)
  obtain e where "buffer_rest ''x'' 0 1 (d\<lparr>tc_sent := tc_sent d @ ''x''\<rparr>) = Inr e"
    using buffer_rest_returns [of 0 "''x''" 1 "d\<lparr>tc_sent := tc_sent d @ ''x''\<rparr>" b] b by auto
  then have e: "send_piece 0 (StringPiece_of_string ''x'') (kernel_write (Wrote 1)) d = Inr e"
    using d(2,3) ne
    by (simp add: send_piece_def sendInLoop_piece_def tc_runInLoop_def sendInLoop_def tc_inLoop_def
        try_write_def del: readableBytes_wf)
  have "connectDestroyed echo 0 e = Inl Assert_failed"
    using misuse_stops_the_process [of d "''x''" 0 "kernel_write (Wrote 1)" e echo] wf c(5) d e by simp
  moreover have "send_piece 1 (StringPiece_of_string ''x'') (kernel_write (Wrote 1)) c = Inl Fatal"
    using misuse_stops_the_process [of c "''x''" 1 "kernel_write (Wrote 1)"] wf c(2,3) d(4) by simp
  ultimately show ?thesis using c(1,2,4) d(1) e by (intro exI [of _ c] exI [of _ d]) simp
qed

end
