(* ===== verification/Tcp_Server.thy ===== *)
theory Tcp_Server
  imports Tcp_Connection_Correct Event_Loop
begin

text \<open>
  The acceptor (\<^verbatim>\<open>networking/Acceptor.h\<close>, \<^verbatim>\<open>networking/Acceptor.cpp\<close>) and the server
  (\<^verbatim>\<open>networking/TcpServer.h\<close>, \<^verbatim>\<open>networking/TcpServer.cpp\<close>): accepting connections, naming them, giving
  each to a loop of the pool, and forgetting it when it closes.

  A loop is identified with its thread. The connections are objects known by their position in
  \<open>sv_conns\<close>; the server's map goes from names to them. The system below puts the server together with
  its connections (theory \<open>Tcp_Connection\<close>) and the functors that travel between the base loop and the
  loops of the connections, and the lemmas follow every interleaving: no assertion of the server or of
  a connection fails, and the map holds exactly the connections that have not been taken down.
\<close>

section \<open>Acceptor\<close>

record Acceptor =
  ac_loop :: addr
  ac_listening :: bool
  ac_watched :: bool
  ac_newConnectionCallback :: bool
  ac_idleFd :: int
  ac_closed :: "int list"

definition EMFILE :: int where "EMFILE = 24"

definition Acceptor_new :: "addr \<Rightarrow> int \<Rightarrow> Acceptor res" where
  "Acceptor_new loop idleFd =
     require (0 \<le> idleFd)
       (Inr \<lparr>ac_loop = loop, ac_listening = False, ac_watched = False,
             ac_newConnectionCallback = False, ac_idleFd = idleFd, ac_closed = []\<rparr>)"

definition Acceptor_destroy :: "Acceptor \<Rightarrow> Acceptor" where
  "Acceptor_destroy a = a\<lparr>ac_watched := False, ac_closed := ac_closed a @ [ac_idleFd a]\<rparr>"

definition setNewConnectionCallback :: "Acceptor \<Rightarrow> Acceptor" where
  "setNewConnectionCallback a = a\<lparr>ac_newConnectionCallback := True\<rparr>"

definition Acceptor_listen :: "addr \<Rightarrow> Acceptor \<Rightarrow> Acceptor res" where
  "Acceptor_listen tid a =
     (if tid \<noteq> ac_loop a then Inl Fatal
      else Inr (a\<lparr>ac_listening := True, ac_watched := True\<rparr>))"

text \<open>
  The kernel's answers: the result of \<^verbatim>\<open>accept\<close> (a descriptor or an error), of the second \<^verbatim>\<open>accept\<close>
  and of reopening \<^verbatim>\<open>/dev/null\<close>. The result of \<^verbatim>\<open>handleRead\<close> is the descriptor to hand over, if any.
\<close>

record accept_answer =
  aa_accept :: "int + nat"
  aa_again :: int
  aa_reopened :: int

definition Acceptor_handleRead :: "addr \<Rightarrow> accept_answer \<Rightarrow> Acceptor \<Rightarrow> (Acceptor \<times> nat option) res" where
  "Acceptor_handleRead tid ans a =
     (if tid \<noteq> ac_loop a then Inl Fatal
      else case aa_accept ans of
        Inr connfd \<Rightarrow>
          if ac_newConnectionCallback a then Inr (a, Some connfd)
          else Inr (a\<lparr>ac_closed := ac_closed a @ [int connfd]\<rparr>, None)
      | Inl errno \<Rightarrow>
          if errno = EMFILE
          then Inr (a\<lparr>ac_closed := ac_closed a @ [ac_idleFd a, aa_again ans], ac_idleFd := aa_reopened ans\<rparr>, None)
          else Inr (a, None))"

section \<open>TcpServer\<close>

record TcpServer =
  ts_loop :: addr
  ts_ipPort :: string
  ts_name :: string
  ts_acceptor :: Acceptor
  ts_threadPool :: EventLoopThreadPool
  ts_writeCompleteCallback :: bool
  ts_started :: "32 word"
  ts_nextConnId :: int
  ts_connections :: "(string, nat) omap"

definition TcpServer_new :: "addr \<Rightarrow> string \<Rightarrow> string \<Rightarrow> int \<Rightarrow> TcpServer res" where
  "TcpServer_new loop ipPort nameArg idleFd =
     rbind (Acceptor_new loop idleFd) (\<lambda>acceptor.
     Inr \<lparr>ts_loop = loop, ts_ipPort = ipPort, ts_name = nameArg,
          ts_acceptor = setNewConnectionCallback acceptor,
          ts_threadPool = EventLoopThreadPool_new loop nameArg, ts_writeCompleteCallback = False,
          ts_started = 0, ts_nextConnId = 1, ts_connections = []\<rparr>)"

definition server_setThreadNum :: "int \<Rightarrow> TcpServer \<Rightarrow> TcpServer res" where
  "server_setThreadNum numThreads s =
     require (0 \<le> numThreads) (Inr (s\<lparr>ts_threadPool := setThreadNum numThreads (ts_threadPool s)\<rparr>))"

definition server_setWriteCompleteCallback :: "TcpServer \<Rightarrow> TcpServer" where
  "server_setWriteCompleteCallback s = s\<lparr>ts_writeCompleteCallback := True\<rparr>"

text \<open>\<open>tid\<close> is the calling thread; \<open>startLoop\<close> the loops that the new threads report.\<close>

definition server_start :: "addr \<Rightarrow> (int \<Rightarrow> addr) \<Rightarrow> bool \<Rightarrow> TcpServer \<Rightarrow> TcpServer res" where
  "server_start tid startLoop has_cb s =
     (let (old, started) = getAndSet 1 (ts_started s);
          s = s\<lparr>ts_started := started\<rparr>
      in if old = 0 then
           rbind (pool_start (tid = ts_loop s) startLoop has_cb (ts_threadPool s)) (\<lambda>(pool, _).
           require (\<not> ac_listening (ts_acceptor s)) (
           rbind (Acceptor_listen tid (ts_acceptor s)) (\<lambda>acceptor.
           Inr (s\<lparr>ts_threadPool := pool, ts_acceptor := acceptor\<rparr>))))
         else Inr s)"

definition connName :: "TcpServer \<Rightarrow> string" where
  "connName s =
     ts_name s @ snprintf_buf 64 (''-'' @ ts_ipPort s @ ''#'' @ dec_int (ts_nextConnId s))"

text \<open>
  \<open>obj\<close> is the new connection object; the connection is returned for the loop that has to establish
  it. \<open>g1\<close> and \<open>g2\<close> are the uninitialised times of its counter. The increment of \<^verbatim>\<open>nextConnId_\<close> at the
  largest \<^verbatim>\<open>int\<close> is undefined.
\<close>

definition server_newConnection ::
  "addr \<Rightarrow> nat \<Rightarrow> nat \<Rightarrow> int \<Rightarrow> int \<Rightarrow> TcpServer \<Rightarrow> (TcpServer \<times> TcpConnection) res" where
  "server_newConnection tid obj sockfd g1 g2 s =
     (if tid \<noteq> ts_loop s then Inl Fatal else
      rbind (getNextLoop True (ts_threadPool s)) (\<lambda>(pool, ioLoop).
      if ts_nextConnId s = 2147483647 then Inl Undefined else
      let name = connName s;
          s = s\<lparr>ts_threadPool := pool, ts_nextConnId := ts_nextConnId s + 1\<rparr>
      in rbind (Buffer_new kInitialSize) (\<lambda>inp.
         rbind (Buffer_new kInitialSize) (\<lambda>out.
         let conn = TcpConnection_new ioLoop ioLoop name (int sockfd) inp out (MinuteHourCounter_new g1 g2);
             conn = (if ts_writeCompleteCallback s then setWriteCompleteCallback conn else conn)
         in Inr (s\<lparr>ts_connections := om_update name obj (ts_connections s)\<rparr>, conn)))))"

definition removeConnectionInLoop :: "addr \<Rightarrow> TcpConnection \<Rightarrow> TcpServer \<Rightarrow> TcpServer res" where
  "removeConnectionInLoop tid conn s =
     (if tid \<noteq> ts_loop s then Inl Fatal else
      require (om_lookup (ts_connections s) (tc_name conn) \<noteq> None)
        (Inr (s\<lparr>ts_connections := om_erase (tc_name conn) (ts_connections s)\<rparr>)))"

text \<open>
  The destructor hands \<^verbatim>\<open>connectDestroyed\<close> of every remaining connection to its loop, in the order of
  the names.
\<close>

definition TcpServer_destroy :: "addr \<Rightarrow> TcpServer \<Rightarrow> nat list res" where
  "TcpServer_destroy tid s =
     (if tid \<noteq> ts_loop s then Inl Fatal else Inr (map snd (ts_connections s)))"

section \<open>The server and its connections\<close>

datatype srv_functor = Establish nat | Destroy nat

record srv_sys =
  sv_server :: TcpServer
  sv_conns :: "TcpConnection list"
  sv_base :: "nat list"
  sv_io :: "addr \<Rightarrow> srv_functor list"
  sv_destroyed :: "nat list"

datatype srv_event =
    Accept accept_answer int int
  | Conn nat tc_event
  | Base
  | Io addr

definition srv_post :: "addr \<Rightarrow> srv_functor \<Rightarrow> srv_sys \<Rightarrow> srv_sys" where
  "srv_post l f s = s\<lparr>sv_io := (sv_io s)(l := sv_io s l @ [f])\<rparr>"

definition srv_conn :: "user \<Rightarrow> nat \<Rightarrow> tc_event \<Rightarrow> srv_sys \<Rightarrow> srv_sys res" where
  "srv_conn user i e s =
     rbind (tc_step user e (sv_conns s ! i)) (\<lambda>c. Inr (s\<lparr>sv_conns := (sv_conns s)[i := c]\<rparr>))"

definition srv_remove :: "nat \<Rightarrow> srv_sys \<Rightarrow> srv_sys res" where
  "srv_remove i s =
     (let conn = sv_conns s ! i in
      rbind (removeConnectionInLoop (ts_loop (sv_server s)) conn (sv_server s)) (\<lambda>server.
      Inr (srv_post (tc_loopThread conn) (Destroy i) (s\<lparr>sv_server := server\<rparr>))))"

text \<open>\<^verbatim>\<open>runInLoop\<close> runs the call at once when the connection lives in the base loop.\<close>

definition server_removeConnection :: "nat \<Rightarrow> srv_sys \<Rightarrow> srv_sys res" where
  "server_removeConnection i s =
     (if tc_loopThread (sv_conns s ! i) = ts_loop (sv_server s) then srv_remove i s
      else Inr (s\<lparr>sv_base := sv_base s @ [i]\<rparr>))"

definition srv_accept :: "user \<Rightarrow> accept_answer \<Rightarrow> int \<Rightarrow> int \<Rightarrow> srv_sys \<Rightarrow> srv_sys res" where
  "srv_accept user ans g1 g2 s =
     (let i = length (sv_conns s); server = sv_server s; tid = ts_loop server in
      rbind (Acceptor_handleRead tid ans (ts_acceptor server)) (\<lambda>(acceptor, fd).
      let server = server\<lparr>ts_acceptor := acceptor\<rparr> in
      case fd of
        None \<Rightarrow> Inr (s\<lparr>sv_server := server\<rparr>)
      | Some sockfd \<Rightarrow>
          rbind (server_newConnection tid i sockfd g1 g2 server) (\<lambda>(server, conn).
          let s = s\<lparr>sv_server := server, sv_conns := sv_conns s @ [conn]\<rparr>
          in if tc_loopThread conn = tid then srv_conn user i (Established i) s
             else Inr (srv_post (tc_loopThread conn) (Establish i) s))))"

text \<open>An event of a connection, and its close callback when it was called.\<close>

definition srv_conn_event :: "user \<Rightarrow> nat \<Rightarrow> tc_event \<Rightarrow> srv_sys \<Rightarrow> srv_sys res" where
  "srv_conn_event user i e s =
     rbind (srv_conn user i e s) (\<lambda>s'.
     if tc_closeCalls (sv_conns s ! i) < tc_closeCalls (sv_conns s' ! i) then server_removeConnection i s'
     else Inr s')"

fun srv_step :: "user \<Rightarrow> srv_event \<Rightarrow> srv_sys \<Rightarrow> srv_sys res" where
  "srv_step user (Accept ans g1 g2) s = srv_accept user ans g1 g2 s"
| "srv_step user (Conn i e) s = srv_conn_event user i e s"
| "srv_step user Base s =
     (case sv_base s of [] \<Rightarrow> Inr s | i # is \<Rightarrow> srv_remove i (s\<lparr>sv_base := is\<rparr>))"
| "srv_step user (Io l) s =
     (case sv_io s l of
        [] \<Rightarrow> Inr s
      | Establish i # fs \<Rightarrow> srv_conn user i (Established i) (s\<lparr>sv_io := (sv_io s)(l := fs)\<rparr>)
      | Destroy i # fs \<Rightarrow>
          srv_conn user i Destroyed
            (s\<lparr>sv_io := (sv_io s)(l := fs), sv_destroyed := sv_destroyed s @ [i]\<rparr>))"

text \<open>The events of connections are those of theory \<open>Tcp_Connection_Correct\<close> but for the owner's own.\<close>

fun srv_enabled :: "srv_event \<Rightarrow> srv_sys \<Rightarrow> bool" where
  "srv_enabled (Accept ans g1 g2) s \<longleftrightarrow> ts_nextConnId (sv_server s) < 2147483647"
| "srv_enabled (Conn i e) s \<longleftrightarrow> i < length (sv_conns s) \<and> tc_enabled e (sv_conns s ! i) \<and>
     (\<forall>self. e \<noteq> Established self) \<and> e \<noteq> Destroyed"
| "srv_enabled Base s \<longleftrightarrow> True"
| "srv_enabled (Io l) s \<longleftrightarrow> True"

definition srv_init :: "TcpServer \<Rightarrow> srv_sys" where
  "srv_init server = \<lparr>sv_server = server, sv_conns = [], sv_base = [], sv_io = (\<lambda>_. []), sv_destroyed = []\<rparr>"

definition srv_started :: "TcpServer \<Rightarrow> bool" where
  "srv_started s \<longleftrightarrow> (\<exists>loop ipPort name idleFd n startLoop has_cb s0 s1. length ipPort \<le> 51 \<and> 0 \<le> n \<and>
     TcpServer_new loop ipPort name idleFd = Inr s0 \<and> server_setThreadNum n s0 = Inr s1 \<and>
     server_start loop startLoop has_cb s1 = Inr s)"

abbreviation srv_reachable :: "user \<Rightarrow> srv_sys \<Rightarrow> bool" where
  "srv_reachable user \<equiv> reach (srv_init ` Collect srv_started) srv_enabled (srv_step user)"

section \<open>Names\<close>

definition nth_name :: "TcpServer \<Rightarrow> nat \<Rightarrow> string" where
  "nth_name s i = ts_name s @ ''-'' @ ts_ipPort s @ ''#'' @ dec_nat (i + 1)"

lemma nth_name_inj: "nth_name s i = nth_name s j \<Longrightarrow> i = j"
proof -
  assume "nth_name s i = nth_name s j"
  then have "dec_nat (i + 1) = dec_nat (j + 1)" by (simp add: nth_name_def)
  then have "dec_value (dec_nat (i + 1)) = dec_value (dec_nat (j + 1))" by simp
  then show ?thesis by (simp only: dec_value_dec_nat)
qed

text \<open>With an address of at most 51 characters the name is not cut off.\<close>

lemma connName_nth:
  assumes "ts_nextConnId s = int i + 1" "int i < 2147483647" "length (ts_ipPort s) \<le> 51"
  shows "connName s = nth_name s i"
proof -
  have "length (dec_nat (i + 1)) \<le> 10" using assms(2) by (intro length_dec_nat) simp_all
  moreover have "dec_int (int i + 1) = dec_nat (i + 1)" by (simp add: dec_int_def nat_add_distrib)
  ultimately show ?thesis
    using assms(1,3) by (simp add: connName_def nth_name_def snprintf_buf_def)
qed

section \<open>Invariant\<close>

definition pool_ok :: "EventLoopThreadPool \<Rightarrow> bool" where
  "pool_ok p \<longleftrightarrow> tp_started p \<and> (tp_loops p = [] \<or> 0 \<le> tp_next p \<and> nat (tp_next p) < length (tp_loops p))"

lemma getNextLoop_ok:
  assumes "pool_ok p"
  shows "\<exists>p' l. getNextLoop True p = Inr (p', l) \<and> pool_ok p'"
  using assms by (cases "tp_loops p = []") (auto simp: pool_ok_def getNextLoop_def Let_def)

text \<open>
  What is due for connection \<open>i\<close>: \<open>E\<close> and \<open>D\<close> count the calls of \<^verbatim>\<open>connectEstablished\<close> and
  \<^verbatim>\<open>connectDestroyed\<close> queued in its loop, \<open>b\<close> the removals queued in the base loop and \<open>d\<close> how often it
  was destroyed.
\<close>

definition conn_ok :: "TcpServer \<Rightarrow> nat \<Rightarrow> nat \<Rightarrow> nat \<Rightarrow> nat \<Rightarrow> nat \<Rightarrow> TcpConnection \<Rightarrow> bool" where
  "conn_ok sv E D b d i c \<longleftrightarrow> tc_inv c \<and> tc_name c = nth_name sv i \<and>
     E = (if tc_state c = kConnecting then 1 else 0) \<and>
     (0 < D \<longrightarrow> tc_state c = kDisconnected) \<and> b \<le> tc_closeCalls c \<and>
     om_lookup (ts_connections sv) (nth_name sv i) = (if tc_closeCalls c = b then Some i else None) \<and>
     D + d + (if tc_closeCalls c = b then 1 else 0) = 1"

definition conn_due :: "srv_sys \<Rightarrow> nat \<Rightarrow> nat \<Rightarrow> bool" where
  "conn_due s k i \<longleftrightarrow> (let c = sv_conns s ! i; q = sv_io s (tc_loopThread c) in
     conn_ok (sv_server s) (count_list q (Establish i)) (count_list q (Destroy i))
       (count_list (sv_base s) i + k) (count_list (sv_destroyed s) i) i c)"

definition functor_conn :: "srv_functor \<Rightarrow> nat" where
  "functor_conn f = (case f of Establish i \<Rightarrow> i | Destroy i \<Rightarrow> i)"

definition srv_wf :: "srv_sys \<Rightarrow> bool" where
  "srv_wf s \<longleftrightarrow>
     ts_nextConnId (sv_server s) = int (length (sv_conns s)) + 1 \<and> length (sv_conns s) < 2147483647 \<and>
     length (ts_ipPort (sv_server s)) \<le> 51 \<and> pool_ok (ts_threadPool (sv_server s)) \<and>
     ac_loop (ts_acceptor (sv_server s)) = ts_loop (sv_server s) \<and>
     (\<forall>l. \<forall>f \<in> set (sv_io s l). functor_conn f < length (sv_conns s) \<and>
        tc_loopThread (sv_conns s ! functor_conn f) = l) \<and>
     (\<forall>i \<in> set (sv_base s). i < length (sv_conns s)) \<and> (\<forall>i \<in> set (sv_destroyed s). i < length (sv_conns s)) \<and>
     (\<forall>n i. om_lookup (ts_connections (sv_server s)) n = Some i \<longrightarrow>
        i < length (sv_conns s) \<and> n = nth_name (sv_server s) i)"

definition srv_inv :: "srv_sys \<Rightarrow> bool" where
  "srv_inv s \<longleftrightarrow> srv_wf s \<and> (\<forall>i < length (sv_conns s). conn_due s 0 i)"

text \<open>An outcome of the whole: a state with the invariant, or a buffer grew beyond all bounds.\<close>

definition srv_ok :: "srv_sys res \<Rightarrow> bool" where
  "srv_ok r \<longleftrightarrow> (case r of Inl e \<Rightarrow> e = Length_error | Inr s \<Rightarrow> srv_inv s)"

lemma srv_ok_simps [simp]: "srv_ok (Inl e) \<longleftrightarrow> e = Length_error" "srv_ok (Inr s) \<longleftrightarrow> srv_inv s"
  by (simp_all add: srv_ok_def)

text \<open>A connection goes on without, or with, a call of its close callback.\<close>

lemma conn_ok_step:
  assumes "conn_ok sv E D b d i c" "tc_inv c'" "tc_later c c'" "tc_closeCalls c' = tc_closeCalls c"
    and "tc_state c = kConnecting \<Longrightarrow> tc_state c' = kConnecting"
  shows "conn_ok sv E D b d i c'"
  using assms by (cases "tc_state c = kConnecting"; cases "tc_state c' = kConnecting")
    (auto simp: conn_ok_def tc_later_def)

lemma conn_ok_close:
  assumes "conn_ok sv E D b d i c" "tc_inv c'" "tc_later c c'" "tc_closeCalls c < tc_closeCalls c'"
    and "tc_state c \<noteq> kConnecting"
  shows "conn_ok sv E D (Suc b) d i c'" "tc_state c' = kDisconnected"
proof -
  have *: "tc_closeCalls c' = 1" "tc_closeCalls c = 0" "tc_state c' = kDisconnected" "tc_name c' = tc_name c"
    using assms(2,3,4) by (auto simp: tc_inv_def tc_history_def tc_later_def split: if_splits)
  then show "tc_state c' = kDisconnected" by simp
  show "conn_ok sv E D (Suc b) d i c'" using * assms by (auto simp: conn_ok_def)
qed

section \<open>Steps\<close>

lemma conn_due_update:
  assumes "i < length (sv_conns s)" "tc_loopThread c' = tc_loopThread (sv_conns s ! i)" "j \<noteq> i"
  shows "conn_due (s\<lparr>sv_conns := (sv_conns s)[i := c']\<rparr>) k j = conn_due s k j"
  using assms by (simp add: conn_due_def)

lemma srv_wf_update:
  assumes "srv_wf s" "i < length (sv_conns s)" "tc_loopThread c' = tc_loopThread (sv_conns s ! i)"
  shows "srv_wf (s\<lparr>sv_conns := (sv_conns s)[i := c']\<rparr>)"
  using assms by (auto simp: srv_wf_def nth_list_update)

text \<open>The base loop takes a closed connection out of the map and sends it to be destroyed.\<close>

lemma srv_remove_ok:
  assumes wf: "srv_wf s" and i: "i < length (sv_conns s)" and due: "conn_due s 1 i"
    and others: "\<And>j. j < length (sv_conns s) \<Longrightarrow> j \<noteq> i \<Longrightarrow> conn_due s 0 j"
    and down: "tc_state (sv_conns s ! i) = kDisconnected"
  shows "srv_ok (srv_remove i s)"
proof -
  define c where "c = sv_conns s ! i"
  define sv where "sv = sv_server s"
  have c: "tc_name c = nth_name sv i" "tc_closeCalls c = Suc (count_list (sv_base s) i)"
      "om_lookup (ts_connections sv) (nth_name sv i) = Some i"
    using due down by (auto simp: conn_due_def conn_ok_def c_def sv_def Let_def tc_inv_def tc_history_def
        split: if_splits)
  define sv' where "sv' = sv\<lparr>ts_connections := om_erase (nth_name sv i) (ts_connections sv)\<rparr>"
  define s' where "s' = srv_post (tc_loopThread c) (Destroy i) (s\<lparr>sv_server := sv'\<rparr>)"
  have r: "srv_remove i s = Inr s'"
    using c by (simp add: srv_remove_def removeConnectionInLoop_def s'_def sv'_def flip: c_def sv_def)
  have names: "nth_name sv' j = nth_name sv j" for j by (simp add: nth_name_def sv'_def)
  have "conn_due s' 0 j" if "j < length (sv_conns s)" for j
  proof (cases "j = i")
    case True
    then show ?thesis
      using due down c names
      by (auto simp: conn_due_def conn_ok_def s'_def srv_post_def c_def [symmetric] Let_def sv'_def
          om_lookup_erase sv_def)
  next
    case False
    then have "nth_name sv j \<noteq> nth_name sv i" using nth_name_inj by blast
    with others [OF that False] False names show ?thesis
      by (auto simp: conn_due_def conn_ok_def s'_def srv_post_def Let_def sv'_def om_lookup_erase sv_def)
  qed
  moreover have "srv_wf s'"
    using wf i names
    by (auto simp: srv_wf_def s'_def srv_post_def sv'_def sv_def om_lookup_erase functor_conn_def c_def)
  ultimately show ?thesis by (simp add: r srv_inv_def s'_def srv_post_def)
qed

lemma srv_conn_event_ok:
  assumes user: "user_ok user" and inv: "srv_inv s" and en: "srv_enabled (Conn i e) s"
  shows "srv_ok (srv_conn_event user i e s)"
proof -
  define c where "c = sv_conns s ! i"
  have i: "i < length (sv_conns s)" and wf: "srv_wf s" and due: "\<And>j. j < length (sv_conns s) \<Longrightarrow> conn_due s 0 j"
    and e: "tc_enabled e c" "\<And>self. e \<noteq> Established self" "e \<noteq> Destroyed"
    using inv en by (auto simp: srv_inv_def c_def)
  have c: "tc_inv c" using due [OF i] by (simp add: conn_due_def conn_ok_def c_def Let_def)
  show ?thesis
  proof (cases "tc_step user e c")
    case (Inl x)
    then show ?thesis using tc_step_safe [OF user c e(1)] by (simp add: srv_conn_event_def srv_conn_def c_def)
  next
    case (Inr c')
    then have c': "tc_inv c'" "tc_later c c'" using tc_step_safe [OF user c e(1)] by simp_all
    have thread: "tc_loopThread c' = tc_loopThread (sv_conns s ! i)" using c'(2) by (simp add: tc_later_def c_def)
    have stay: "tc_state c = kConnecting \<Longrightarrow> tc_state c' = kConnecting"
      using tc_step_connecting [OF e(1) _ e(2,3) Inr] by blast
    define s' where "s' = s\<lparr>sv_conns := (sv_conns s)[i := c']\<rparr>"
    have s': "srv_conn user i e s = Inr s'" using Inr by (simp add: srv_conn_def s'_def c_def)
    have wf': "srv_wf s'" unfolding s'_def by (rule srv_wf_update [OF wf i thread])
    have others: "conn_due s' 0 j" if "j < length (sv_conns s)" "j \<noteq> i" for j
      using due [OF that(1)] conn_due_update [OF i thread that(2)] by (simp add: s'_def)
    show ?thesis
    proof (cases "tc_closeCalls c < tc_closeCalls c'")
      case False
      then have "tc_closeCalls c' = tc_closeCalls c" using c'(2) by (simp add: tc_later_def)
      then have "conn_due s' 0 i"
        using conn_ok_step [OF _ c' _ stay] due [OF i] thread i
        by (simp add: conn_due_def s'_def c_def Let_def)
      with others have "srv_inv s'" using wf' by (auto simp: srv_inv_def s'_def)
      then show ?thesis using False i by (simp add: srv_conn_event_def s' s'_def c_def)
    next
      case True
      have nc: "tc_state c \<noteq> kConnecting"
        using stay True c'(1) by (auto simp: tc_inv_def tc_history_def)
      have closing: "conn_due s' 1 i" "tc_state (sv_conns s' ! i) = kDisconnected"
        using conn_ok_close [OF _ c' True nc] due [OF i] thread i
        by (simp_all add: conn_due_def s'_def c_def Let_def)
      have "srv_ok (srv_remove i s')"
        using wf' i closing others by (intro srv_remove_ok) (simp_all add: s'_def)
      moreover have "srv_inv (s'\<lparr>sv_base := sv_base s' @ [i]\<rparr>)"
      proof -
        have "conn_due (s'\<lparr>sv_base := sv_base s' @ [i]\<rparr>) 0 j" if "j < length (sv_conns s)" for j
          using others [OF that] closing(1) by (cases "j = i") (simp_all add: conn_due_def)
        then show ?thesis using wf' i by (auto simp: srv_inv_def srv_wf_def s'_def)
      qed
      ultimately show ?thesis
        using True i by (simp add: srv_conn_event_def s' server_removeConnection_def) (simp add: s'_def c_def)
    qed
  qed
qed

lemma srv_base_ok:
  assumes inv: "srv_inv s"
  shows "srv_ok (srv_step user Base s)"
proof (cases "sv_base s")
  case (Cons i b)
  let ?s = "s\<lparr>sv_base := b\<rparr>"
  have i: "i < length (sv_conns s)" using inv Cons by (simp add: srv_inv_def srv_wf_def)
  have due: "conn_due ?s (if j = i then 1 else 0) j" if "j < length (sv_conns s)" for j
    using inv that Cons by (auto simp: srv_inv_def conn_due_def)
  have "1 \<le> tc_closeCalls (sv_conns s ! i)" "tc_inv (sv_conns s ! i)"
    using due [OF i] by (simp_all add: conn_due_def conn_ok_def Let_def)
  then have down: "tc_state (sv_conns s ! i) = kDisconnected"
    by (auto simp: tc_inv_def tc_history_def split: if_splits)
  have "srv_wf ?s" using inv Cons by (simp add: srv_inv_def srv_wf_def)
  moreover have "conn_due ?s 1 i" using due [OF i] by simp
  moreover have "conn_due ?s 0 j" if "j < length (sv_conns s)" "j \<noteq> i" for j using due [OF that(1)] that(2) by simp
  ultimately have "srv_ok (srv_remove i ?s)" using i down by (intro srv_remove_ok) simp_all
  then show ?thesis using Cons by simp
qed (simp add: inv)

text \<open>A connection's loop establishes it, or destroys it.\<close>

lemma srv_io_head:
  assumes "srv_inv s" "sv_io s l = f # fs"
  shows "functor_conn f < length (sv_conns s)" "tc_loopThread (sv_conns s ! functor_conn f) = l"
    "tc_inv (sv_conns s ! functor_conn f)" "srv_wf (s\<lparr>sv_io := (sv_io s)(l := fs)\<rparr>)"
proof -
  have f: "f \<in> set (sv_io s l)" by (simp add: assms(2))
  have wf: "srv_wf s" and due: "\<forall>i < length (sv_conns s). conn_due s 0 i" using assms(1) by (simp_all add: srv_inv_def)
  show *: "functor_conn f < length (sv_conns s)" "tc_loopThread (sv_conns s ! functor_conn f) = l"
    using wf f unfolding srv_wf_def by blast+
  show "tc_inv (sv_conns s ! functor_conn f)" using due *(1) by (auto simp: conn_due_def conn_ok_def Let_def)
  have "set fs \<subseteq> set (sv_io s l)" by (auto simp: assms(2))
  then show "srv_wf (s\<lparr>sv_io := (sv_io s)(l := fs)\<rparr>)" using wf by (auto simp: srv_wf_def)
qed

lemma srv_establish_ok:
  assumes user: "user_ok user" and inv: "srv_inv s" and q: "sv_io s l = Establish i # fs"
  shows "srv_ok (srv_conn user i (Established i) (s\<lparr>sv_io := (sv_io s)(l := fs)\<rparr>))"
proof -
  define c where "c = sv_conns s ! i"
  note h = srv_io_head [OF inv q, unfolded functor_conn_def srv_functor.case, folded c_def]
  have due: "conn_due s 0 j" if "j < length (sv_conns s)" for j using inv that by (simp add: srv_inv_def)
  have conn: "tc_state c = kConnecting"
    using due [OF h(1)] q h(2) by (simp add: conn_due_def conn_ok_def Let_def split: if_splits flip: c_def)
  show ?thesis
  proof (cases "tc_step user (Established i) c")
    case (Inl x)
    then show ?thesis
      using connectEstablished_result [OF user h(3) conn, of i] by (auto simp: srv_conn_def c_def)
  next
    case (Inr c')
    then have c': "tc_inv c'" "tc_open c'" "tc_later c c'"
      using connectEstablished_result [OF user h(3) conn, of i] by auto
    define s' where "s' = s\<lparr>sv_io := (sv_io s)(l := fs), sv_conns := (sv_conns s)[i := c']\<rparr>"
    have eq: "srv_conn user i (Established i) (s\<lparr>sv_io := (sv_io s)(l := fs)\<rparr>) = Inr s'"
      using Inr by (simp add: srv_conn_def s'_def flip: c_def)
    have "conn_due s' 0 j" if j: "j < length (sv_conns s)" for j
    proof (cases "j = i")
      case True
      have "tc_loopThread c' = l" "tc_closeCalls c = 0" "tc_closeCalls c' = 0" "tc_name c' = tc_name c"
        using c' h(2,3) conn by (auto simp: tc_later_def tc_inv_def tc_history_def tc_open_def)
      then show ?thesis
        using True due [OF h(1)] q h(1,2) conn c'
        by (auto simp: conn_due_def conn_ok_def Let_def s'_def tc_open_def simp flip: c_def)
    qed (use due [OF j] q in \<open>auto simp: conn_due_def s'_def Let_def\<close>)
    moreover have "srv_wf s'"
      using srv_wf_update [OF h(4), of i c'] h(1,2) c'(3) by (simp add: s'_def tc_later_def c_def)
    ultimately show ?thesis unfolding eq by (simp add: srv_inv_def s'_def)
  qed
qed

lemma srv_destroy_ok:
  assumes user: "user_ok user" and inv: "srv_inv s" and q: "sv_io s l = Destroy i # fs"
  shows "srv_ok (srv_conn user i Destroyed
    (s\<lparr>sv_io := (sv_io s)(l := fs), sv_destroyed := sv_destroyed s @ [i]\<rparr>))"
proof -
  define c where "c = sv_conns s ! i"
  note h = srv_io_head [OF inv q, unfolded functor_conn_def srv_functor.case, folded c_def]
  have due: "conn_due s 0 j" if "j < length (sv_conns s)" for j using inv that by (simp add: srv_inv_def)
  have down: "tc_state c = kDisconnected" and closed: "tc_closeCalls c \<noteq> count_list (sv_base s) i"
    using due [OF h(1)] q h(2) by (auto simp: conn_due_def conn_ok_def Let_def split: if_splits simp flip: c_def)
  have safe: "tc_safe c (tc_step user Destroyed c)" using down by (intro tc_step_safe [OF user h(3)]) simp
  show ?thesis
  proof (cases "tc_step user Destroyed c")
    case (Inl x)
    then show ?thesis using safe by (simp add: srv_conn_def c_def)
  next
    case (Inr c')
    then have c': "tc_inv c'" "tc_later c c'" using safe by simp_all
    define s' where "s' = s\<lparr>sv_io := (sv_io s)(l := fs), sv_destroyed := sv_destroyed s @ [i],
      sv_conns := (sv_conns s)[i := c']\<rparr>"
    have eq: "srv_conn user i Destroyed
        (s\<lparr>sv_io := (sv_io s)(l := fs), sv_destroyed := sv_destroyed s @ [i]\<rparr>) = Inr s'"
      using Inr by (simp add: srv_conn_def s'_def flip: c_def)
    have "conn_due s' 0 j" if j: "j < length (sv_conns s)" for j
    proof (cases "j = i")
      case True
      have "count_list (sv_base s) i \<le> tc_closeCalls c"
        using due [OF h(1)] by (simp add: conn_due_def conn_ok_def Let_def flip: c_def)
      then have "tc_loopThread c' = l" "tc_state c' = kDisconnected" "tc_name c' = tc_name c"
          "tc_closeCalls c' = tc_closeCalls c"
        using c' h(2,3) down closed by (auto simp: tc_later_def tc_inv_def tc_history_def)
      then show ?thesis
        using True due [OF h(1)] q h(1,2) down closed c'(1)
        by (auto simp: conn_due_def conn_ok_def Let_def s'_def simp flip: c_def)
    qed (use due [OF j] q in \<open>auto simp: conn_due_def s'_def Let_def\<close>)
    moreover have "srv_wf s'"
      using srv_wf_update [OF h(4), of i c'] h(1,2) c'(2) by (auto simp: s'_def tc_later_def c_def srv_wf_def)
    ultimately show ?thesis unfolding eq by (simp add: srv_inv_def s'_def)
  qed
qed

text \<open>A new connection.\<close>

lemma server_newConnection_ok:
  assumes wf: "srv_wf s" and small: "ts_nextConnId sv < 2147483647"
    and sv: "sv = (sv_server s)\<lparr>ts_acceptor := a\<rparr>" and i: "i = length (sv_conns s)"
  obtains sv' c where "server_newConnection (ts_loop sv) i fd g1 g2 sv = Inr (sv', c)"
    "tc_inv c" "tc_state c = kConnecting" "tc_closeCalls c = 0" "tc_name c = nth_name (sv_server s) i"
    "ts_connections sv' = om_update (nth_name (sv_server s) i) i (ts_connections (sv_server s))"
    "nth_name sv' = nth_name (sv_server s)" "ts_nextConnId sv' = ts_nextConnId (sv_server s) + 1"
    "ts_ipPort sv' = ts_ipPort (sv_server s)" "pool_ok (ts_threadPool sv')" "ts_acceptor sv' = a"
    "ts_loop sv' = ts_loop (sv_server s)"
proof -
  obtain p l where p: "getNextLoop True (ts_threadPool sv) = Inr (p, l)" "pool_ok p"
    using getNextLoop_ok [of "ts_threadPool sv"] wf sv by (auto simp: srv_wf_def)
  obtain b where b: "Buffer_new kInitialSize = Inr b"
    using Buffer_new_ok [of kInitialSize] by (auto simp: buffer_consts)
  have name: "connName sv = nth_name (sv_server s) i"
    using connName_nth [of sv i] wf sv i small by (simp add: srv_wf_def nth_name_def)
  let ?c = "TcpConnection_new l l (nth_name (sv_server s) i) (int fd) b b (MinuteHourCounter_new g1 g2)"
  let ?s = "sv\<lparr>ts_threadPool := p, ts_nextConnId := ts_nextConnId sv + 1,
    ts_connections := om_update (nth_name (sv_server s) i) i (ts_connections sv)\<rparr>"
  have "server_newConnection (ts_loop sv) i fd g1 g2 sv =
      Inr (?s, if ts_writeCompleteCallback sv then setWriteCompleteCallback ?c else ?c)"
    using p(1) b small name by (simp add: server_newConnection_def Let_def)
  then show thesis
    by (rule that) (use TcpConnection_new_inv [OF b refl] p(2) sv in
      \<open>auto simp: setWriteCompleteCallback_def TcpConnection_new_def nth_name_def fun_eq_iff\<close>)
qed

text \<open>
  The state right after a connection was added, with the call that establishes it queued in its loop,
  first or last.
\<close>

lemma srv_added_inv:
  assumes inv: "srv_inv s" and i: "i = length (sv_conns s)" and small: "ts_nextConnId (sv_server s) < 2147483647"
    and c: "tc_inv c" "tc_state c = kConnecting" "tc_closeCalls c = 0" "tc_name c = nth_name (sv_server s) i"
    and sv': "ts_connections sv' = om_update (nth_name (sv_server s) i) i (ts_connections (sv_server s))"
      "nth_name sv' = nth_name (sv_server s)" "ts_nextConnId sv' = ts_nextConnId (sv_server s) + 1"
      "ts_ipPort sv' = ts_ipPort (sv_server s)" "pool_ok (ts_threadPool sv')" "ac_loop (ts_acceptor sv') = ts_loop sv'"
    and q: "q = sv_io s (tc_loopThread c) @ [Establish i] \<or> q = Establish i # sv_io s (tc_loopThread c)"
  shows "srv_inv (s\<lparr>sv_server := sv', sv_conns := sv_conns s @ [c], sv_io := (sv_io s)(tc_loopThread c := q)\<rparr>)"
proof -
  define s' where "s' = s\<lparr>sv_server := sv', sv_conns := sv_conns s @ [c], sv_io := (sv_io s)(tc_loopThread c := q)\<rparr>"
  have wf: "srv_wf s" and due: "\<And>j. j < length (sv_conns s) \<Longrightarrow> conn_due s 0 j"
    using inv by (simp_all add: srv_inv_def)
  have io: "functor_conn f < i \<and> tc_loopThread (sv_conns s ! functor_conn f) = l" if "f \<in> set (sv_io s l)" for f l
    using wf that i unfolding srv_wf_def by blast
  have new: "count_list (sv_io s l) (Establish i) = 0" "count_list (sv_io s l) (Destroy i) = 0"
    "count_list (sv_base s) i = 0" "count_list (sv_destroyed s) i = 0" for l
    using io [of "Establish i" l] io [of "Destroy i" l] wf i
    by (auto simp: count_list_0_iff functor_conn_def srv_wf_def)
  have "conn_due s' 0 j" if "j < length (sv_conns s')" for j
  proof (cases "j = i")
    case True
    then show ?thesis
      using c new sv' i q by (auto simp: conn_due_def conn_ok_def s'_def om_lookup_update Let_def)
  next
    case False
    then have "nth_name (sv_server s) j \<noteq> nth_name (sv_server s) i" using nth_name_inj by blast
    then show ?thesis
      using due [of j] that False sv' i q
      by (auto simp: conn_due_def conn_ok_def s'_def om_lookup_update nth_append Let_def)
  qed
  moreover have "srv_wf s'"
    using wf sv' io i small q
    by (auto simp: srv_wf_def s'_def functor_conn_def nth_append om_lookup_update less_Suc_eq
        split: if_splits)
  ultimately show ?thesis by (simp add: srv_inv_def s'_def)
qed

lemma srv_acceptor_inv:
  "srv_inv s \<Longrightarrow> ac_loop a = ts_loop (sv_server s) \<Longrightarrow>
     srv_inv (s\<lparr>sv_server := (sv_server s)\<lparr>ts_acceptor := a\<rparr>\<rparr>)"
  by (simp add: srv_inv_def srv_wf_def conn_due_def conn_ok_def nth_name_def)

lemma Acceptor_handleRead_loop:
  "Acceptor_handleRead tid ans a = Inr (a', fd) \<Longrightarrow> ac_loop a' = ac_loop a"
  by (auto simp: Acceptor_handleRead_def split: if_splits sum.splits)

lemma srv_accept_ok:
  assumes user: "user_ok user" and inv: "srv_inv s" and en: "srv_enabled (Accept ans g1 g2) s"
  shows "srv_ok (srv_accept user ans g1 g2 s)"
proof -
  define l where "l = ts_loop (sv_server s)"
  have wf: "srv_wf s" and small: "ts_nextConnId (sv_server s) < 2147483647"
    using inv en by (simp_all add: srv_inv_def)
  have al: "ac_loop (ts_acceptor (sv_server s)) = l" using wf by (simp add: srv_wf_def l_def)
  obtain a fd where a: "Acceptor_handleRead l ans (ts_acceptor (sv_server s)) = Inr (a, fd)" "ac_loop a = l"
    using al by (cases "Acceptor_handleRead l ans (ts_acceptor (sv_server s))")
      (auto simp: Acceptor_handleRead_def split: if_splits sum.splits)
  show ?thesis
  proof (cases fd)
    case None
    then show ?thesis
      using a srv_acceptor_inv [OF inv, of a] by (simp add: srv_accept_def Let_def l_def)
  next
    case (Some sockfd)
    define i where "i = length (sv_conns s)"
    define sv where "sv = (sv_server s)\<lparr>ts_acceptor := a\<rparr>"
    have lsv: "ts_loop sv = l" "ts_nextConnId sv < 2147483647" using small by (simp_all add: sv_def l_def)
    obtain sv' c where n: "server_newConnection (ts_loop sv) i sockfd g1 g2 sv = Inr (sv', c)"
      and c: "tc_inv c" "tc_state c = kConnecting" "tc_closeCalls c = 0" "tc_name c = nth_name (sv_server s) i"
      and sv': "ts_connections sv' = om_update (nth_name (sv_server s) i) i (ts_connections (sv_server s))"
        "nth_name sv' = nth_name (sv_server s)" "ts_nextConnId sv' = ts_nextConnId (sv_server s) + 1"
        "ts_ipPort sv' = ts_ipPort (sv_server s)" "pool_ok (ts_threadPool sv')" "ts_acceptor sv' = a"
        "ts_loop sv' = ts_loop (sv_server s)"
      using server_newConnection_ok [OF wf lsv(2) sv_def i_def] by metis
    let ?t = "s\<lparr>sv_server := sv', sv_conns := sv_conns s @ [c]\<rparr>"
    let ?l = "tc_loopThread c"
    have added: "srv_inv (?t\<lparr>sv_io := (sv_io s)(?l := q)\<rparr>)"
      if "q = sv_io s ?l @ [Establish i] \<or> q = Establish i # sv_io s ?l" for q
      using srv_added_inv [OF inv i_def small c sv'(1-5) _ that] sv'(6,7) a(2) by (simp add: l_def)
    have eq: "srv_accept user ans g1 g2 s =
        (if ?l = l then srv_conn user i (Established i) ?t else Inr (srv_post ?l (Establish i) ?t))"
      using a(1) Some n lsv(1) by (simp add: srv_accept_def Let_def l_def i_def sv_def)
    have "srv_ok (srv_conn user i (Established i)
        (?t\<lparr>sv_io := ((sv_io s)(?l := Establish i # sv_io s ?l))(?l := sv_io s ?l)\<rparr>))"
      using srv_establish_ok [OF user added [of "Establish i # sv_io s ?l"], of ?l i "sv_io s ?l"] by simp
    then have "srv_ok (srv_conn user i (Established i) ?t)" by simp
    moreover have "srv_inv (srv_post ?l (Establish i) ?t)"
      using added [of "sv_io s ?l @ [Establish i]"] by (simp add: srv_post_def)
    ultimately show ?thesis unfolding eq by simp
  qed
qed

lemma srv_step_ok:
  assumes user: "user_ok user" and inv: "srv_inv s" and en: "srv_enabled e s"
  shows "srv_ok (srv_step user e s)"
proof (cases e)
  case (Accept ans g1 g2)
  then show ?thesis using srv_accept_ok [OF user inv] en by simp
next
  case (Conn i ev)
  then show ?thesis using srv_conn_event_ok [OF user inv] en by simp
next
  case Base
  then show ?thesis using srv_base_ok [OF inv] by simp
next
  case (Io l)
  show ?thesis
  proof (cases "sv_io s l")
    case (Cons f fs)
    then show ?thesis
      using Io srv_establish_ok [OF user inv, of l] srv_destroy_ok [OF user inv, of l] by (cases f) simp_all
  qed (simp add: Io inv)
qed

lemma srv_started_inv:
  assumes "srv_started server"
  shows "srv_inv (srv_init server)"
  using assms
  by (auto simp: srv_started_def TcpServer_new_def Acceptor_new_def server_setThreadNum_def server_start_def
      getAndSet_def pool_start_def Acceptor_listen_def EventLoopThreadPool_new_def setThreadNum_def
      setNewConnectionCallback_def rbind_Inr_iff require_Inr_iff Let_def srv_inv_def srv_wf_def srv_init_def
      pool_ok_def)

sublocale client_code \<subseteq> srv: event_system srv_enabled "srv_step user" srv_inv "{Length_error}"
proof
  show "srv_inv s'" if "srv_inv s" "srv_enabled e s" "srv_step user e s = Inr s'" for s e s'
    using srv_step_ok [OF allowed that(1,2)] that(3) by simp
  show "f \<in> {Length_error}" if "srv_inv s" "srv_enabled e s" "srv_step user e s = Inl f" for s e f
    using srv_step_ok [OF allowed that(1,2)] that(3) by simp
qed

context client_code
begin

lemma srv_reach_inv: "srv_reachable user s \<Longrightarrow> srv_inv s"
  by (erule srv.reach_inv) (auto simp: srv_started_inv)

lemma srv_reach_steps:
  assumes "srv_reachable user s" "srv_enabled e s"
  shows "(\<exists>s'. srv_step user e s = Inr s') \<or> srv_step user e s = Inl Length_error"
  using srv.inv_steps [OF srv_reach_inv [OF assms(1)] assms(2)] by blast

end

lemma srv_reachable_inv: "user_ok user \<Longrightarrow> srv_reachable user s \<Longrightarrow> srv_inv s"
  by (rule client_code.srv_reach_inv [OF client_code.intro])

section \<open>Properties\<close>



end
