(* ===== verification/Connector.thy ===== *)
theory Connector
  imports Prelude "HOL-Library.Multiset"
begin

text \<open>
  The connector of a client (\<^verbatim>\<open>networking/Connector.h\<close>, \<^verbatim>\<open>networking/Connector.cpp\<close>): it opens a
  socket, watches it until the connection is made or fails, and tries again after a growing delay.

  What the kernel answers is given to the operations: the descriptor of a new socket, the error of
  \<^verbatim>\<open>connect\<close>, the pending error of a socket and whether it is connected to itself. The channel is known
  by its descriptor and whether it is registered. Functors and timers handed to the loop are collected
  in \<open>cn_pending\<close> and \<open>cn_timers\<close>. \<open>cn_created\<close>, \<open>cn_closed\<close>, \<open>cn_handed\<close> and \<open>cn_delays\<close> record the
  sockets opened, closed and given to the callback and the delays used since the last restart; the
  code does not read them.

  The lemmas follow every sequence of events: no assertion fails, every socket opened is closed or
  handed over exactly once, and the delays double up to the limit.
\<close>

section \<open>The object\<close>

datatype States = cnDisconnected | cnConnecting | cnConnected

datatype cn_functor = Start_in_loop | Stop_in_loop | Reset_channel

record cn_chan =
  cc_fd :: int
  cc_registered :: bool

record Connector =
  cn_loopThread :: nat
  cn_connect :: bool
  cn_state :: States
  cn_channel :: "cn_chan option"
  cn_retryDelayMs :: int
  cn_pending :: "cn_functor list"
  cn_timers :: "int list"
  cn_created :: "int list"
  cn_closed :: "int list"
  cn_handed :: "int list"
  cn_delays :: "int list"

definition kMaxRetryDelayMs :: int where "kMaxRetryDelayMs = 30 * 1000"
definition kInitRetryDelayMs :: int where "kInitRetryDelayMs = 500"

definition Connector_new :: "nat \<Rightarrow> Connector" where
  "Connector_new loopThread =
     \<lparr>cn_loopThread = loopThread, cn_connect = False, cn_state = cnDisconnected, cn_channel = None,
      cn_retryDelayMs = kInitRetryDelayMs, cn_pending = [], cn_timers = [], cn_created = [],
      cn_closed = [], cn_handed = [], cn_delays = []\<rparr>"

definition Connector_destroy :: "Connector \<Rightarrow> unit res" where
  "Connector_destroy c = require (cn_channel c = None) (Inr ())"

definition cn_inLoop :: "nat \<Rightarrow> Connector \<Rightarrow> 'a res \<Rightarrow> 'a res" where
  "cn_inLoop tid c k = (if tid = cn_loopThread c then k else Inl Fatal)"

definition cn_queueInLoop :: "cn_functor \<Rightarrow> Connector \<Rightarrow> Connector" where
  "cn_queueInLoop f c = c\<lparr>cn_pending := cn_pending c @ [f]\<rparr>"

definition cn_close :: "int \<Rightarrow> Connector \<Rightarrow> Connector" where
  "cn_close sockfd c = c\<lparr>cn_closed := cn_closed c @ [sockfd]\<rparr>"

text \<open>The error numbers of Linux that the code distinguishes.\<close>

definition EINTR :: int where "EINTR = 4"
definition EAGAIN :: int where "EAGAIN = 11"
definition EADDRINUSE :: int where "EADDRINUSE = 98"
definition EADDRNOTAVAIL :: int where "EADDRNOTAVAIL = 99"
definition ENETUNREACH :: int where "ENETUNREACH = 101"
definition EISCONN :: int where "EISCONN = 106"
definition ECONNREFUSED :: int where "ECONNREFUSED = 111"
definition EINPROGRESS :: int where "EINPROGRESS = 115"

record connect_answer =
  ca_fd :: int
  ca_errno :: int

section \<open>Operations\<close>

definition cn_retry :: "int \<Rightarrow> Connector \<Rightarrow> Connector" where
  "cn_retry sockfd c =
     (let c = (cn_close sockfd c)\<lparr>cn_state := cnDisconnected\<rparr>
      in if cn_connect c
         then c\<lparr>cn_timers := cn_timers c @ [cn_retryDelayMs c],
                cn_delays := cn_delays c @ [cn_retryDelayMs c],
                cn_retryDelayMs := min (cn_retryDelayMs c * 2) kMaxRetryDelayMs\<rparr>
         else c)"

definition cn_connecting :: "int \<Rightarrow> Connector \<Rightarrow> Connector res" where
  "cn_connecting sockfd c =
     (let c = c\<lparr>cn_state := cnConnecting\<rparr>
      in require (cn_channel c = None)
           (Inr (c\<lparr>cn_channel := Some \<lparr>cc_fd = sockfd, cc_registered = True\<rparr>\<rparr>)))"

definition connector_connect :: "connect_answer \<Rightarrow> Connector \<Rightarrow> Connector res" where
  "connector_connect a c =
     (if ca_fd a < 0 then Inl Fatal
      else
        let sockfd = ca_fd a; savedErrno = ca_errno a;
            c = c\<lparr>cn_created := cn_created c @ [sockfd]\<rparr>
        in if savedErrno \<in> {0, EINPROGRESS, EINTR, EISCONN} then cn_connecting sockfd c
           else if savedErrno \<in> {EAGAIN, EADDRINUSE, EADDRNOTAVAIL, ECONNREFUSED, ENETUNREACH}
           then Inr (cn_retry sockfd c)
           else Inr (cn_close sockfd c))"

definition startInLoop :: "nat \<Rightarrow> connect_answer \<Rightarrow> Connector \<Rightarrow> Connector res" where
  "startInLoop tid a c =
     cn_inLoop tid c (
     require (cn_state c = cnDisconnected) (
     if cn_connect c then connector_connect a c else Inr c))"

definition connector_start :: "nat \<Rightarrow> connect_answer \<Rightarrow> Connector \<Rightarrow> Connector res" where
  "connector_start tid a c =
     (let c = c\<lparr>cn_connect := True\<rparr>
      in if tid = cn_loopThread c then startInLoop tid a c else Inr (cn_queueInLoop Start_in_loop c))"

definition removeAndResetChannel :: "Connector \<Rightarrow> (int \<times> Connector) res" where
  "removeAndResetChannel c =
     (case cn_channel c of
        None \<Rightarrow> Inl Undefined
      | Some ch \<Rightarrow>
          require (cc_registered ch)
            (Inr (cc_fd ch,
                  cn_queueInLoop Reset_channel (c\<lparr>cn_channel := Some (ch\<lparr>cc_registered := False\<rparr>)\<rparr>))))"

definition resetChannel :: "Connector \<Rightarrow> Connector res" where
  "resetChannel c =
     (case cn_channel c of
        None \<Rightarrow> Inr c
      | Some ch \<Rightarrow> require (\<not> cc_registered ch) (Inr (c\<lparr>cn_channel := None\<rparr>)))"

definition stopInLoop :: "nat \<Rightarrow> Connector \<Rightarrow> Connector res" where
  "stopInLoop tid c =
     cn_inLoop tid c (
     if cn_state c = cnConnecting then
       rbind (removeAndResetChannel (c\<lparr>cn_state := cnDisconnected\<rparr>)) (\<lambda>(sockfd, c).
       Inr (cn_retry sockfd c))
     else Inr c)"

definition connector_stop :: "Connector \<Rightarrow> Connector" where
  "connector_stop c = cn_queueInLoop Stop_in_loop (c\<lparr>cn_connect := False\<rparr>)"

definition connector_restart :: "nat \<Rightarrow> connect_answer \<Rightarrow> Connector \<Rightarrow> Connector res" where
  "connector_restart tid a c =
     cn_inLoop tid c (
     startInLoop tid a (c\<lparr>cn_state := cnDisconnected, cn_retryDelayMs := kInitRetryDelayMs,
       cn_connect := True, cn_delays := []\<rparr>))"

text \<open>\<open>err\<close> is \<^verbatim>\<open>getSocketError\<close> of the socket, \<open>self\<close> whether it is connected to itself.\<close>

definition connector_handleWrite :: "int \<Rightarrow> bool \<Rightarrow> Connector \<Rightarrow> Connector res" where
  "connector_handleWrite err self c =
     (if cn_state c = cnConnecting then
        rbind (removeAndResetChannel c) (\<lambda>(sockfd, c).
        if err \<noteq> 0 then Inr (cn_retry sockfd c)
        else if self then Inr (cn_retry sockfd c)
        else
          let c = c\<lparr>cn_state := cnConnected\<rparr>
          in Inr (if cn_connect c then c\<lparr>cn_handed := cn_handed c @ [sockfd]\<rparr> else cn_close sockfd c))
      else require (cn_state c = cnDisconnected) (Inr c))"

definition connector_handleError :: "Connector \<Rightarrow> Connector res" where
  "connector_handleError c =
     (if cn_state c = cnConnecting then
        rbind (removeAndResetChannel c) (\<lambda>(sockfd, c). Inr (cn_retry sockfd c))
      else Inr c)"

section \<open>Events\<close>

datatype cn_event =
    Start nat connect_answer
  | Stop
  | Restart connect_answer
  | Run_functor connect_answer
  | Timer_fires connect_answer
  | Ready bool bool int bool

text \<open>
  \<open>Ready error writable err self\<close> is a dispatch of the channel: the error callback runs before the
  write callback.
\<close>

fun cn_step :: "cn_event \<Rightarrow> Connector \<Rightarrow> Connector res" where
  "cn_step (Start tid a) c = connector_start tid a c"
| "cn_step Stop c = Inr (connector_stop c)"
| "cn_step (Restart a) c = connector_restart (cn_loopThread c) a c"
| "cn_step (Run_functor a) c =
     (case cn_pending c of
        [] \<Rightarrow> Inr c
      | Start_in_loop # fs \<Rightarrow> startInLoop (cn_loopThread c) a (c\<lparr>cn_pending := fs\<rparr>)
      | Stop_in_loop # fs \<Rightarrow> stopInLoop (cn_loopThread c) (c\<lparr>cn_pending := fs\<rparr>)
      | Reset_channel # fs \<Rightarrow> resetChannel (c\<lparr>cn_pending := fs\<rparr>))"
| "cn_step (Timer_fires a) c =
     (case cn_timers c of
        [] \<Rightarrow> Inr c
      | t # ts \<Rightarrow> startInLoop (cn_loopThread c) a (c\<lparr>cn_timers := ts\<rparr>))"
| "cn_step (Ready error writable err self) c =
     rbind (if error then connector_handleError c else Inr c) (\<lambda>c.
     if writable then connector_handleWrite err self c else Inr c)"

text \<open>
  When an event can occur. A connector is started when it is not running already: no attempt is under
  way, none is scheduled, and the channel of the last one is gone. It is restarted after its connection
  went down. The loop runs functors before the timers of a later pass, and dispatches a channel only
  while it is registered.
\<close>

fun cn_enabled :: "cn_event \<Rightarrow> Connector \<Rightarrow> bool" where
  "cn_enabled (Start tid a) c \<longleftrightarrow> 0 \<le> ca_fd a \<and> cn_state c = cnDisconnected \<and> cn_timers c = [] \<and>
     Start_in_loop \<notin> set (cn_pending c) \<and> cn_channel c = None"
| "cn_enabled Stop c \<longleftrightarrow> True"
| "cn_enabled (Restart a) c \<longleftrightarrow> 0 \<le> ca_fd a \<and> cn_state c = cnConnected \<and> cn_channel c = None"
| "cn_enabled (Run_functor a) c \<longleftrightarrow> 0 \<le> ca_fd a"
| "cn_enabled (Timer_fires a) c \<longleftrightarrow> 0 \<le> ca_fd a \<and> cn_pending c = []"
| "cn_enabled (Ready error writable err self) c \<longleftrightarrow>
     (\<exists>ch. cn_channel c = Some ch \<and> cc_registered ch)"

abbreviation cn_reachable :: "Connector \<Rightarrow> bool" where
  "cn_reachable \<equiv> reach (range Connector_new) cn_enabled cn_step"

section \<open>Invariant\<close>

definition held :: "Connector \<Rightarrow> int list" where
  "held c = (case cn_channel c of
      Some ch \<Rightarrow> if cn_state c = cnConnecting then [cc_fd ch] else []
    | None \<Rightarrow> [])"

definition backoff :: "nat \<Rightarrow> int" where
  "backoff k = min (kInitRetryDelayMs * 2 ^ k) kMaxRetryDelayMs"

definition cn_accounts :: "Connector \<Rightarrow> bool" where
  "cn_accounts c \<longleftrightarrow> mset (cn_created c) = mset (cn_closed c) + mset (cn_handed c) + mset (held c)"

definition cn_paced :: "Connector \<Rightarrow> bool" where
  "cn_paced c \<longleftrightarrow> cn_retryDelayMs c = backoff (length (cn_delays c)) \<and>
     cn_delays c = map backoff [0..<length (cn_delays c)]"

text \<open>
  The channel is registered exactly during an attempt, and otherwise about to be reset; a scheduled
  start finds the connector idle.
\<close>

definition cn_shape :: "Connector \<Rightarrow> bool" where
  "cn_shape c \<longleftrightarrow>
     (case cn_channel c of
        None \<Rightarrow> cn_state c \<noteq> cnConnecting \<and> count_list (cn_pending c) Reset_channel = 0
      | Some ch \<Rightarrow> cc_registered ch = (cn_state c = cnConnecting) \<and>
          count_list (cn_pending c) Reset_channel = (if cn_state c = cnConnecting then 0 else 1)) \<and>
     count_list (cn_pending c) Start_in_loop + length (cn_timers c) \<le> 1 \<and>
     (cn_timers c \<noteq> [] \<longrightarrow> cn_state c = cnDisconnected) \<and>
     (0 < count_list (cn_pending c) Start_in_loop \<longrightarrow> cn_state c = cnDisconnected \<and> cn_channel c = None)"

definition cn_inv :: "Connector \<Rightarrow> bool" where
  "cn_inv c \<longleftrightarrow> cn_shape c \<and> cn_accounts c \<and> cn_paced c"

lemmas cn_inv_defs = cn_inv_def cn_shape_def cn_accounts_def cn_paced_def held_def

lemma backoff_0: "backoff 0 = kInitRetryDelayMs"
  by (simp add: backoff_def kInitRetryDelayMs_def kMaxRetryDelayMs_def)

lemma backoff_Suc: "min (backoff k * 2) kMaxRetryDelayMs = backoff (Suc k)"
  by (auto simp: backoff_def kMaxRetryDelayMs_def kInitRetryDelayMs_def min_def)

text \<open>A connector that can begin an attempt: idle, with nothing scheduled and no channel left.\<close>

definition cn_idle :: "Connector \<Rightarrow> bool" where
  "cn_idle c \<longleftrightarrow> cn_inv c \<and> cn_state c = cnDisconnected \<and> cn_timers c = [] \<and>
     count_list (cn_pending c) Start_in_loop = 0 \<and> cn_channel c = None"

definition cn_ok :: "Connector res \<Rightarrow> bool" where
  "cn_ok r \<longleftrightarrow> (\<exists>c. r = Inr c \<and> cn_inv c)"

lemma cn_ok_Inr [simp]: "cn_ok (Inr c) \<longleftrightarrow> cn_inv c"
  by (simp add: cn_ok_def)

text \<open>A socket that is open, held by nobody else, is closed and a retry scheduled if wanted.\<close>

lemma cn_retry_inv:
  assumes "cn_shape (c\<lparr>cn_state := cnDisconnected\<rparr>)" "cn_paced c" "cn_timers c = []"
    and "count_list (cn_pending c) Start_in_loop = 0"
    and "mset (cn_created c) = mset (cn_closed c) + mset (cn_handed c) + {#sockfd#}"
  shows "cn_inv (cn_retry sockfd c)"
  using assms
  by (auto simp: cn_inv_defs cn_retry_def cn_close_def Let_def backoff_Suc simp del: upt_Suc split: option.splits)
     (simp_all add: upt_Suc_append)

lemma connector_connect_ok:
  assumes "cn_idle c" "0 \<le> ca_fd a"
  shows "cn_ok (connector_connect a c)"
proof -
  let ?c = "c\<lparr>cn_created := cn_created c @ [ca_fd a]\<rparr>"
  have "cn_inv (cn_retry (ca_fd a) ?c)"
    using assms by (intro cn_retry_inv) (auto simp: cn_idle_def cn_inv_defs)
  moreover have "cn_ok (cn_connecting (ca_fd a) ?c)" "cn_inv (cn_close (ca_fd a) ?c)"
    using assms by (auto simp: cn_idle_def cn_inv_defs cn_connecting_def cn_close_def Let_def)
  ultimately show ?thesis using assms(2) by (auto simp: connector_connect_def Let_def)
qed

lemma cn_idle_connect [simp]: "cn_idle (c\<lparr>cn_connect := b\<rparr>) = cn_idle c" "cn_inv (c\<lparr>cn_connect := b\<rparr>) = cn_inv c"
  by (cases "cn_channel c"; simp add: cn_idle_def cn_inv_defs)+

lemma startInLoop_ok: "cn_idle c \<Longrightarrow> 0 \<le> ca_fd a \<Longrightarrow> cn_ok (startInLoop (cn_loopThread c) a c)"
  using connector_connect_ok [of c a] by (auto simp: startInLoop_def cn_inLoop_def cn_idle_def)

text \<open>The end of an attempt takes its socket out of the channel.\<close>

lemma removeAndResetChannel_ok:
  assumes "cn_inv c" "cn_state c = cnConnecting"
  obtains fd d where "removeAndResetChannel c = Inr (fd, d)" "cn_shape (d\<lparr>cn_state := s\<rparr>) \<or> s = cnConnecting"
    "cn_paced d" "cn_timers d = []" "count_list (cn_pending d) Start_in_loop = 0"
    "mset (cn_created d) = mset (cn_closed d) + mset (cn_handed d) + {#fd#}"
    "cn_connect d = cn_connect c" "cn_state d = cnConnecting"
    "removeAndResetChannel (c\<lparr>cn_state := cnDisconnected\<rparr>) = Inr (fd, d\<lparr>cn_state := cnDisconnected\<rparr>)"
proof -
  obtain ch where ch: "cn_channel c = Some ch" "cc_registered ch"
    using assms by (auto simp: cn_inv_defs split: option.splits)
  let ?d = "cn_queueInLoop Reset_channel (c\<lparr>cn_channel := Some (ch\<lparr>cc_registered := False\<rparr>)\<rparr>)"
  have r: "removeAndResetChannel c = Inr (cc_fd ch, ?d)"
    "removeAndResetChannel (c\<lparr>cn_state := cnDisconnected\<rparr>) = Inr (cc_fd ch, ?d\<lparr>cn_state := cnDisconnected\<rparr>)"
    using ch by (simp_all add: removeAndResetChannel_def cn_queueInLoop_def)
  show thesis
    by (rule that [OF r(1) _ _ _ _ _ _ _ r(2)])
       (use assms ch in \<open>auto simp: cn_inv_defs cn_queueInLoop_def\<close>)
qed

lemma stopInLoop_ok:
  assumes "cn_inv c"
  shows "cn_ok (stopInLoop (cn_loopThread c) c)"
proof (cases "cn_state c = cnConnecting")
  case True
  obtain fd d where d: "removeAndResetChannel (c\<lparr>cn_state := cnDisconnected\<rparr>) = Inr (fd, d\<lparr>cn_state := cnDisconnected\<rparr>)"
      "cn_shape (d\<lparr>cn_state := cnDisconnected\<rparr>)" "cn_paced d" "cn_timers d = []"
      "count_list (cn_pending d) Start_in_loop = 0"
      "mset (cn_created d) = mset (cn_closed d) + mset (cn_handed d) + {#fd#}"
    using removeAndResetChannel_ok [OF assms True, of cnDisconnected] by (metis States.distinct(1))
  have "cn_inv (cn_retry fd (d\<lparr>cn_state := cnDisconnected\<rparr>))"
    using d by (intro cn_retry_inv) (simp_all add: cn_paced_def)
  with True d(1) show ?thesis by (simp add: stopInLoop_def cn_inLoop_def)
qed (simp add: stopInLoop_def cn_inLoop_def assms)

lemma handleError_ok:
  assumes "cn_inv c"
  shows "cn_ok (connector_handleError c)"
    and "\<And>d. cn_state c = cnConnecting \<Longrightarrow> connector_handleError c = Inr d \<Longrightarrow> cn_state d = cnDisconnected"
proof -
  show "cn_ok (connector_handleError c)"
  proof (cases "cn_state c = cnConnecting")
    case True
    obtain fd d where d: "removeAndResetChannel c = Inr (fd, d)"
        "cn_shape (d\<lparr>cn_state := cnDisconnected\<rparr>)" "cn_paced d" "cn_timers d = []"
        "count_list (cn_pending d) Start_in_loop = 0"
        "mset (cn_created d) = mset (cn_closed d) + mset (cn_handed d) + {#fd#}"
      using removeAndResetChannel_ok [OF assms True, of cnDisconnected] by (metis States.distinct(1))
    with True show ?thesis by (simp add: connector_handleError_def cn_retry_inv)
  qed (simp add: connector_handleError_def assms)
  show "cn_state d = cnDisconnected" if "cn_state c = cnConnecting" "connector_handleError c = Inr d" for d
    using that by (auto simp: connector_handleError_def rbind_Inr_iff cn_retry_def cn_close_def Let_def
        split: prod.splits)
qed

lemma handleWrite_ok:
  assumes inv: "cn_inv c" and st: "cn_state c \<noteq> cnConnected"
  shows "cn_ok (connector_handleWrite err self c)"
proof (cases "cn_state c = cnConnecting")
  case True
  obtain fd d where d: "removeAndResetChannel c = Inr (fd, d)"
      "cn_shape (d\<lparr>cn_state := cnDisconnected\<rparr>)" "cn_paced d" "cn_timers d = []"
      "count_list (cn_pending d) Start_in_loop = 0"
      "mset (cn_created d) = mset (cn_closed d) + mset (cn_handed d) + {#fd#}"
    using removeAndResetChannel_ok [OF inv True, of cnDisconnected] by (metis States.distinct(1))
  let ?d = "d\<lparr>cn_state := cnConnected\<rparr>"
  have "cn_inv (?d\<lparr>cn_handed := cn_handed d @ [fd]\<rparr>)" "cn_inv (cn_close fd ?d)"
    using d by (auto simp: cn_inv_defs cn_close_def split: option.splits)
  with True d show ?thesis by (simp add: connector_handleWrite_def cn_retry_inv Let_def)
next
  case False
  then show ?thesis using inv st by (cases "cn_state c") (simp_all add: connector_handleWrite_def)
qed

lemma cn_inv_queue_stop: "cn_inv c \<Longrightarrow> cn_inv (cn_queueInLoop Stop_in_loop c)"
  by (auto simp: cn_inv_defs cn_queueInLoop_def split: option.splits)

lemma connector_start_ok:
  assumes "cn_idle c" "0 \<le> ca_fd a"
  shows "cn_ok (connector_start tid a c)"
proof -
  have "cn_idle (c\<lparr>cn_connect := True\<rparr>)" using assms by simp
  from startInLoop_ok [OF this assms(2)]
  have "cn_ok (startInLoop (cn_loopThread c) a (c\<lparr>cn_connect := True\<rparr>))" by simp
  moreover have "cn_inv (cn_queueInLoop Start_in_loop (c\<lparr>cn_connect := True\<rparr>))"
    using assms(1) by (auto simp: cn_idle_def cn_inv_defs cn_queueInLoop_def)
  ultimately show ?thesis by (auto simp: connector_start_def Let_def)
qed

lemma connector_restart_ok:
  assumes "cn_inv c" "cn_state c = cnConnected" "cn_channel c = None" "0 \<le> ca_fd a"
  shows "cn_ok (connector_restart (cn_loopThread c) a c)"
proof -
  let ?c = "c\<lparr>cn_state := cnDisconnected, cn_retryDelayMs := kInitRetryDelayMs, cn_connect := True, cn_delays := []\<rparr>"
  have "cn_idle ?c" using assms by (auto simp: cn_idle_def cn_inv_defs backoff_0)
  from startInLoop_ok [OF this assms(4)] show ?thesis by (simp add: connector_restart_def cn_inLoop_def)
qed

lemma cn_functor_ok:
  assumes inv: "cn_inv c" and p: "cn_pending c = f # fs" and a: "0 \<le> ca_fd a"
  shows "cn_ok (cn_step (Run_functor a) c)"
proof (cases f)
  case Start_in_loop
  then have "cn_idle (c\<lparr>cn_pending := fs\<rparr>)"
    using inv p by (auto simp: cn_idle_def cn_inv_defs split: option.splits)
  from startInLoop_ok [OF this a] show ?thesis using p Start_in_loop by simp
next
  case Stop_in_loop
  then have "cn_inv (c\<lparr>cn_pending := fs\<rparr>)"
    using inv p by (auto simp: cn_inv_defs split: option.splits)
  from stopInLoop_ok [OF this] show ?thesis using p Stop_in_loop by simp
next
  case Reset_channel
  then show ?thesis
    using inv p by (auto simp: cn_inv_defs resetChannel_def split: option.splits if_splits)
qed

lemma cn_step_ok:
  assumes inv: "cn_inv c" and en: "cn_enabled e c"
  shows "cn_ok (cn_step e c)"
proof (cases e)
  case (Start tid a)
  then have "cn_idle c" using inv en by (auto simp: cn_idle_def count_list_0_iff)
  then show ?thesis using connector_start_ok Start en by simp
next
  case Stop
  then show ?thesis using cn_inv_queue_stop inv by (simp add: connector_stop_def)
next
  case (Restart a)
  then show ?thesis using connector_restart_ok inv en by simp
next
  case (Run_functor a)
  then show ?thesis
    using cn_functor_ok [OF inv _, of _ _ a] en inv by (cases "cn_pending c") (auto simp del: cn_step.simps, simp)
next
  case (Timer_fires a)
  show ?thesis
  proof (cases "cn_timers c")
    case (Cons t ts)
    then have "cn_idle (c\<lparr>cn_timers := ts\<rparr>)"
      using inv en Timer_fires by (auto simp: cn_idle_def cn_inv_defs split: option.splits)
    from startInLoop_ok [OF this, of a] show ?thesis using en Cons Timer_fires by simp
  qed (simp add: Timer_fires inv)
next
  case (Ready er w err self)
  then have st: "cn_state c = cnConnecting" using inv en by (auto simp: cn_inv_defs split: option.splits)
  show ?thesis
    using Ready handleError_ok [OF inv] st handleWrite_ok [of _ err self] inv by (auto simp: cn_ok_def)
qed

interpretation cn: event_system cn_enabled cn_step cn_inv "{}"
  using cn_step_ok by unfold_locales (force simp: cn_ok_def)+

lemma Connector_new_inv: "cn_inv (Connector_new thread)"
  by (simp add: cn_inv_defs Connector_new_def backoff_0)

lemma cn_reachable_inv: "cn_reachable c \<Longrightarrow> cn_inv c"
  by (erule cn.reach_inv) (auto simp: Connector_new_inv)

section \<open>Properties\<close>

definition sample_connecting :: Connector where
  "sample_connecting = (Connector_new 0)\<lparr>cn_connect := True, cn_state := cnConnecting,
     cn_channel := Some \<lparr>cc_fd = 5, cc_registered = True\<rparr>, cn_created := [5]\<rparr>"

lemma sample_connecting_reachable: "cn_reachable sample_connecting"
proof (rule reach_step [OF reach_init [OF rangeI]])
  show "cn_enabled (Start 0 \<lparr>ca_fd = 5, ca_errno = EINPROGRESS\<rparr>) (Connector_new 0)"
    by (simp add: Connector_new_def)
  show "cn_step (Start 0 \<lparr>ca_fd = 5, ca_errno = EINPROGRESS\<rparr>) (Connector_new 0) = Inr sample_connecting"
    by (simp add: Connector_new_def sample_connecting_def connector_start_def startInLoop_def cn_inLoop_def
        connector_connect_def cn_connecting_def)
qed

text \<open>
  C14: whatever happens to a connector that is started only when it is idle, no assertion fails and
  no socket is lost: every socket it opened has been closed once, or handed over once, or is the one
  whose connection is being made.
\<close>

theorem Connector_accounts_sockets:
  assumes "cn_reachable c" "cn_enabled e c"
  shows "\<exists>c'. cn_step e c = Inr c' \<and>
    mset (cn_created c') = mset (cn_closed c') + mset (cn_handed c') +
      (case cn_channel c' of
         Some ch \<Rightarrow> if cn_state c' = cnConnecting then {#cc_fd ch#} else {#}
       | None \<Rightarrow> {#})"
  using cn.inv_steps [OF cn_reachable_inv [OF assms(1)] assms(2)]
  by (auto simp: cn_inv_def cn_accounts_def held_def split: option.splits)

theorem Connector_accounts_sockets_witness:
  "\<exists>c'. cn_step (Ready False True 0 False) sample_connecting = Inr c' \<and>
    mset (cn_created c') = {#5#} \<and> cn_handed c' = [5] \<and> cn_closed c' = []"
  using Connector_accounts_sockets [OF sample_connecting_reachable, of "Ready False True 0 False"]
  by (simp add: sample_connecting_def Connector_new_def connector_handleWrite_def
      removeAndResetChannel_def cn_queueInLoop_def)

text \<open>
  The delays between the attempts since the last restart are 500 ms, doubled each time, and never
  more than 30 seconds.
\<close>

lemma Connector_backoff:
  assumes "cn_reachable c"
  shows "cn_delays c = map (\<lambda>k. min (500 * 2 ^ k) 30000) [0..<length (cn_delays c)]"
proof -
  have "cn_delays c = map backoff [0..<length (cn_delays c)]"
    using cn_reachable_inv [OF assms] by (simp add: cn_inv_def cn_paced_def)
  moreover have "backoff = (\<lambda>k. min (500 * 2 ^ k) 30000)"
    by (simp add: fun_eq_iff backoff_def kInitRetryDelayMs_def kMaxRetryDelayMs_def)
  ultimately show ?thesis by metis
qed

text \<open>
  A connector does not survive being started when it is not idle. Started again after its
  connection was made (also when that connection is down, since nothing but \<^verbatim>\<open>restart\<close> leaves
  \<^verbatim>\<open>kConnected\<close>) it fails an assertion at once; started while a retry is scheduled it begins an
  attempt, and the timer then fails the assertion.
\<close>

lemma Connector_start_twice_asserts:
  assumes "0 \<le> ca_fd a" "ca_errno a = EINPROGRESS"
  shows "(cn_state c = cnConnected \<longrightarrow> connector_start (cn_loopThread c) a c = Inl Assert_failed) \<and>
    (cn_state c = cnDisconnected \<and> cn_timers c \<noteq> [] \<and> cn_channel c = None \<longrightarrow>
       (\<exists>d. connector_start (cn_loopThread c) a c = Inr d \<and> cn_step (Timer_fires b) d = Inl Assert_failed))"
  using assms
  by (auto simp: connector_start_def startInLoop_def cn_inLoop_def connector_connect_def cn_connecting_def
      Let_def split: list.split)

end
