(* ===== verification/Tcp_Client.thy ===== *)
theory Tcp_Client
  imports Tcp_Connection_Correct Connector
begin

text \<open>
  The client (\<^verbatim>\<open>networking/TcpClient.h\<close>, \<^verbatim>\<open>networking/TcpClient.cpp\<close>): a connector and at most one
  connection. The system below runs them in their loop, with calls from other threads in between; the
  lemmas show that the client knows exactly the connection that is up, that none of the assertions of
  client, connector and connection fails, and that a client that retries begins anew when its
  connection closes.

  Connection objects are known by their position in \<open>cl_conns\<close>; \<open>cl_destroy\<close> holds the calls of
  \<^verbatim>\<open>connectDestroyed\<close> queued in the loop. The texts of the peer's address are arguments.
\<close>

section \<open>The object\<close>

record TcpClient =
  cl_loop :: nat
  cl_connector :: Connector
  cl_name :: string
  cl_retry :: bool
  cl_connect :: bool
  cl_nextConnId :: int
  cl_connection :: "nat option"
  cl_writeCompleteCallback :: bool
  cl_conns :: "TcpConnection list"
  cl_destroy :: "nat list"

definition TcpClient_new :: "nat \<Rightarrow> string \<Rightarrow> TcpClient" where
  "TcpClient_new loop nameArg =
     \<lparr>cl_loop = loop, cl_connector = Connector_new loop, cl_name = nameArg, cl_retry = False,
      cl_connect = True, cl_nextConnId = 1, cl_connection = None, cl_writeCompleteCallback = False,
      cl_conns = [], cl_destroy = []\<rparr>"

definition enableRetry :: "TcpClient \<Rightarrow> TcpClient" where
  "enableRetry c = c\<lparr>cl_retry := True\<rparr>"

definition client_setWriteCompleteCallback :: "TcpClient \<Rightarrow> TcpClient" where
  "client_setWriteCompleteCallback c = c\<lparr>cl_writeCompleteCallback := True\<rparr>"

definition client_connect :: "nat \<Rightarrow> connect_answer \<Rightarrow> TcpClient \<Rightarrow> TcpClient res" where
  "client_connect tid a c =
     (let c = c\<lparr>cl_connect := True\<rparr> in
      rbind (connector_start tid a (cl_connector c)) (\<lambda>k. Inr (c\<lparr>cl_connector := k\<rparr>)))"

definition client_disconnect :: "nat \<Rightarrow> TcpClient \<Rightarrow> TcpClient res" where
  "client_disconnect tid c =
     (let c = c\<lparr>cl_connect := False\<rparr> in
      case cl_connection c of
        None \<Rightarrow> Inr c
      | Some i \<Rightarrow>
          rbind (tc_shutdown tid (cl_conns c ! i)) (\<lambda>conn.
          Inr (c\<lparr>cl_conns := (cl_conns c)[i := conn]\<rparr>)))"

definition client_stop :: "TcpClient \<Rightarrow> TcpClient" where
  "client_stop c = c\<lparr>cl_connect := False, cl_connector := connector_stop (cl_connector c)\<rparr>"

definition client_connName :: "string \<Rightarrow> TcpClient \<Rightarrow> string" where
  "client_connName peer c =
     cl_name c @ snprintf_buf 32 ('':'' @ peer @ ''#'' @ dec_int (cl_nextConnId c))"

definition client_newConnection ::
  "user \<Rightarrow> nat \<Rightarrow> int \<Rightarrow> string \<Rightarrow> int \<Rightarrow> int \<Rightarrow> TcpClient \<Rightarrow> TcpClient res" where
  "client_newConnection user tid sockfd peer g1 g2 c =
     (if tid \<noteq> cl_loop c then Inl Fatal else
      if cl_nextConnId c = 2147483647 then Inl Undefined else
      let name = client_connName peer c; i = length (cl_conns c);
          c = c\<lparr>cl_nextConnId := cl_nextConnId c + 1\<rparr>
      in rbind (Buffer_new kInitialSize) (\<lambda>inp.
         rbind (Buffer_new kInitialSize) (\<lambda>out.
         let conn = TcpConnection_new (cl_loop c) (cl_loop c) name sockfd inp out (MinuteHourCounter_new g1 g2);
             conn = (if cl_writeCompleteCallback c then setWriteCompleteCallback conn else conn);
             c = c\<lparr>cl_connection := Some i\<rparr>
         in rbind (connectEstablished user tid i conn) (\<lambda>conn.
            Inr (c\<lparr>cl_conns := cl_conns c @ [conn]\<rparr>)))))"

definition client_removeConnection :: "nat \<Rightarrow> connect_answer \<Rightarrow> nat \<Rightarrow> TcpClient \<Rightarrow> TcpClient res" where
  "client_removeConnection tid a i c =
     (if tid \<noteq> cl_loop c then Inl Fatal else
      require (cl_loop c = tc_loopThread (cl_conns c ! i)) (
      require (cl_connection c = Some i) (
      let c = c\<lparr>cl_connection := None, cl_destroy := cl_destroy c @ [i]\<rparr>
      in if cl_retry c \<and> cl_connect c
         then rbind (connector_restart tid a (cl_connector c)) (\<lambda>k. Inr (c\<lparr>cl_connector := k\<rparr>))
         else Inr c)))"

text \<open>
  The destructor: a live connection gets a close callback that only destroys it, and is closed at once
  if the client held the last reference (\<open>unique\<close>); without one the connector is stopped.
\<close>

definition TcpClient_destroy :: "bool \<Rightarrow> TcpClient \<Rightarrow> TcpClient res" where
  "TcpClient_destroy unique c =
     (case cl_connection c of
        Some i \<Rightarrow>
          require (cl_loop c = tc_loopThread (cl_conns c ! i)) (
          Inr (if unique then c\<lparr>cl_conns := (cl_conns c)[i := forceClose (cl_conns c ! i)]\<rparr> else c))
      | None \<Rightarrow> Inr (c\<lparr>cl_connector := connector_stop (cl_connector c)\<rparr>))"

section \<open>The client at work\<close>

datatype cl_event =
    Connect nat connect_answer
  | Disconnect nat
  | Stop_client
  | Connector_event cn_event string int int
  | Connection_event nat tc_event connect_answer
  | Run_destroy

text \<open>The connector hands over a socket as the last thing it does in its write callback.\<close>

definition cl_connector_event ::
  "user \<Rightarrow> cn_event \<Rightarrow> string \<Rightarrow> int \<Rightarrow> int \<Rightarrow> TcpClient \<Rightarrow> TcpClient res" where
  "cl_connector_event user e peer g1 g2 c =
     rbind (cn_step e (cl_connector c)) (\<lambda>k.
     let handed = drop (length (cn_handed (cl_connector c))) (cn_handed k);
         c = c\<lparr>cl_connector := k\<rparr>
     in case handed of
          [] \<Rightarrow> Inr c
        | sockfd # _ \<Rightarrow> client_newConnection user (cl_loop c) sockfd peer g1 g2 c)"

definition cl_connection_event :: "user \<Rightarrow> nat \<Rightarrow> tc_event \<Rightarrow> connect_answer \<Rightarrow> TcpClient \<Rightarrow> TcpClient res" where
  "cl_connection_event user i e a c =
     rbind (tc_step user e (cl_conns c ! i)) (\<lambda>conn.
     let closed = tc_closeCalls (cl_conns c ! i) < tc_closeCalls conn;
         c = c\<lparr>cl_conns := (cl_conns c)[i := conn]\<rparr>
     in if closed then client_removeConnection (cl_loop c) a i c else Inr c)"

fun cl_step :: "user \<Rightarrow> cl_event \<Rightarrow> TcpClient \<Rightarrow> TcpClient res" where
  "cl_step user (Connect tid a) c = client_connect tid a c"
| "cl_step user (Disconnect tid) c = client_disconnect tid c"
| "cl_step user Stop_client c = Inr (client_stop c)"
| "cl_step user (Connector_event e peer g1 g2) c = cl_connector_event user e peer g1 g2 c"
| "cl_step user (Connection_event i e a) c = cl_connection_event user i e a c"
| "cl_step user Run_destroy c =
     (case cl_destroy c of
        [] \<Rightarrow> Inr c
      | i # is \<Rightarrow>
          rbind (connectDestroyed user (cl_loop c) (cl_conns c ! i)) (\<lambda>conn.
          Inr (c\<lparr>cl_destroy := is, cl_conns := (cl_conns c)[i := conn]\<rparr>)))"

text \<open>
  The rules: \<^verbatim>\<open>connect\<close> is called when the connector is idle; the connector's own events are those of
  theory \<open>Connector\<close>; the loop dispatches a connection only in a pass after the one that made it, when
  the connector's channel has been reset.
\<close>

fun cl_enabled :: "cl_event \<Rightarrow> TcpClient \<Rightarrow> bool" where
  "cl_enabled (Connect tid a) c \<longleftrightarrow> cn_enabled (Start tid a) (cl_connector c)"
| "cl_enabled (Disconnect tid) c \<longleftrightarrow> True"
| "cl_enabled Stop_client c \<longleftrightarrow> True"
| "cl_enabled (Connector_event e peer g1 g2) c \<longleftrightarrow> cn_enabled e (cl_connector c) \<and>
     (case e of Run_functor _ \<Rightarrow> True | Timer_fires _ \<Rightarrow> True | Ready _ _ _ _ \<Rightarrow> True | _ \<Rightarrow> False) \<and>
     cl_nextConnId c < 2147483647"
| "cl_enabled (Connection_event i e a) c \<longleftrightarrow> i < length (cl_conns c) \<and> tc_enabled e (cl_conns c ! i) \<and>
     e \<noteq> Destroyed \<and> 0 \<le> ca_fd a \<and>
     (case e of Api _ _ \<Rightarrow> True | _ \<Rightarrow> cn_channel (cl_connector c) = None)"
| "cl_enabled Run_destroy c \<longleftrightarrow> True"

definition cl_new :: "TcpClient set" where
  "cl_new = {(TcpClient_new loop name)\<lparr>cl_retry := r, cl_writeCompleteCallback := w\<rparr> | loop name r w. True}"

abbreviation cl_reachable :: "user \<Rightarrow> TcpClient \<Rightarrow> bool" where
  "cl_reachable user \<equiv> reach cl_new cl_enabled (cl_step user)"

section \<open>Invariant\<close>

definition cl_conn_ok :: "TcpClient \<Rightarrow> nat \<Rightarrow> TcpConnection \<Rightarrow> bool" where
  "cl_conn_ok c i conn \<longleftrightarrow> tc_inv conn \<and> tc_loopThread conn = cl_loop c \<and> tc_state conn \<noteq> kConnecting \<and>
     (cl_connection c = Some i \<longleftrightarrow> tc_closeCalls conn = 0) \<and>
     (i \<in> set (cl_destroy c) \<longrightarrow> tc_state conn = kDisconnected)"

definition cl_inv :: "TcpClient \<Rightarrow> bool" where
  "cl_inv c \<longleftrightarrow> cn_inv (cl_connector c) \<and> cn_loopThread (cl_connector c) = cl_loop c \<and>
     (\<forall>i < length (cl_conns c). cl_conn_ok c i (cl_conns c ! i)) \<and>
     (\<forall>i. cl_connection c = Some i \<longrightarrow> i < length (cl_conns c) \<and> cn_state (cl_connector c) = cnConnected) \<and>
     (\<forall>i \<in> set (cl_destroy c). i < length (cl_conns c))"

definition cl_ok :: "TcpClient res \<Rightarrow> bool" where
  "cl_ok r \<longleftrightarrow> (case r of Inl e \<Rightarrow> e = Length_error | Inr c \<Rightarrow> cl_inv c)"

lemma cl_ok_simps [simp]: "cl_ok (Inl e) \<longleftrightarrow> e = Length_error" "cl_ok (Inr c) \<longleftrightarrow> cl_inv c"
  by (simp_all add: cl_ok_def)

section \<open>What the connector's steps leave\<close>

definition cn_frame :: "Connector \<Rightarrow> Connector \<Rightarrow> bool" where
  "cn_frame k k' \<longleftrightarrow> cn_loopThread k' = cn_loopThread k \<and>
     (cn_handed k' = cn_handed k \<or> (\<exists>fd. cn_handed k' = cn_handed k @ [fd]) \<and> cn_state k' = cnConnected)"

lemma cn_retry_frame: "cn_loopThread (cn_retry fd k) = cn_loopThread k" "cn_handed (cn_retry fd k) = cn_handed k"
  by (simp_all add: cn_retry_def cn_close_def Let_def)

lemma startInLoop_frame:
  "startInLoop tid a k = Inr k' \<Longrightarrow> cn_loopThread k' = cn_loopThread k \<and> cn_handed k' = cn_handed k"
  by (auto simp: startInLoop_def cn_inLoop_def connector_connect_def cn_connecting_def cn_retry_frame
      cn_close_def require_Inr_iff Let_def split: if_splits)

lemma removeAndResetChannel_frame:
  "removeAndResetChannel k = Inr (fd, k') \<Longrightarrow> cn_loopThread k' = cn_loopThread k \<and> cn_handed k' = cn_handed k"
  by (auto simp: removeAndResetChannel_def require_Inr_iff cn_queueInLoop_def split: option.splits)

lemma connector_restart_frame:
  "connector_restart tid a k = Inr k' \<Longrightarrow> cn_loopThread k' = cn_loopThread k"
  by (auto simp: connector_restart_def cn_inLoop_def dest: startInLoop_frame split: if_splits)

lemma handleError_frame:
  "connector_handleError k = Inr k' \<Longrightarrow> cn_loopThread k' = cn_loopThread k \<and> cn_handed k' = cn_handed k"
  by (auto simp: connector_handleError_def rbind_Inr_iff cn_retry_frame dest!: removeAndResetChannel_frame
      split: if_splits prod.splits)

lemma handleWrite_frame: "connector_handleWrite err self k = Inr k' \<Longrightarrow> cn_frame k k'"
  by (auto simp: connector_handleWrite_def cn_frame_def rbind_Inr_iff cn_retry_frame require_Inr_iff
      cn_close_def Let_def dest!: removeAndResetChannel_frame split: if_splits prod.splits)

lemma stopInLoop_frame:
  "stopInLoop tid k = Inr k' \<Longrightarrow> cn_loopThread k' = cn_loopThread k \<and> cn_handed k' = cn_handed k"
  by (auto simp: stopInLoop_def cn_inLoop_def rbind_Inr_iff cn_retry_frame dest!: removeAndResetChannel_frame
      split: if_splits prod.splits)

lemma cn_step_frame:
  assumes "cn_step e k = Inr k'" "case e of Run_functor _ \<Rightarrow> True | Timer_fires _ \<Rightarrow> True | Ready _ _ _ _ \<Rightarrow> True | _ \<Rightarrow> False"
  shows "cn_frame k k'"
  using assms
proof (cases e)
  case (Ready er w err self)
  then obtain k1 where k1: "cn_loopThread k1 = cn_loopThread k" "cn_handed k1 = cn_handed k"
      "(if w then connector_handleWrite err self k1 else Inr k1) = Inr k'"
    using assms(1) by (auto simp: rbind_Inr_iff split: if_splits dest: handleError_frame)
  then show ?thesis using handleWrite_frame [of err self k1 k'] by (auto simp: cn_frame_def split: if_splits)
qed (auto simp: cn_frame_def resetChannel_def require_Inr_iff
      split: list.splits cn_functor.splits option.splits dest!: startInLoop_frame stopInLoop_frame)

text \<open>While the connection it made is up, the connector rests.\<close>

lemma cn_step_connected:
  assumes "cn_inv k" "cn_enabled e k" "cn_step e k = Inr k'" "cn_state k = cnConnected"
    "case e of Run_functor _ \<Rightarrow> True | Timer_fires _ \<Rightarrow> True | Ready _ _ _ _ \<Rightarrow> True | _ \<Rightarrow> False"
  shows "cn_state k' = cnConnected \<and> cn_handed k' = cn_handed k"
  using assms
  by (cases e)
     (auto simp: cn_inv_def cn_shape_def resetChannel_def stopInLoop_def cn_inLoop_def require_Inr_iff
      split: list.splits cn_functor.splits option.splits if_splits)

section \<open>Steps\<close>

lemma cl_conn_ok_frame:
  "cl_loop c' = cl_loop c \<Longrightarrow> cl_connection c' = cl_connection c \<Longrightarrow> cl_destroy c' = cl_destroy c \<Longrightarrow>
     cl_conn_ok c' i conn = cl_conn_ok c i conn"
  by (simp add: cl_conn_ok_def)

lemma cl_inv_connector:
  assumes "cl_inv c" "cn_inv k" "cn_loopThread k = cn_loopThread (cl_connector c)"
    and "cl_connection c \<noteq> None \<Longrightarrow> cn_state k = cnConnected"
  shows "cl_inv (c\<lparr>cl_connector := k\<rparr>)"
  using assms by (auto simp: cl_inv_def cl_conn_ok_def)

lemma cl_inv_conn:
  assumes inv: "cl_inv c" and i: "i < length (cl_conns c)" and "cl_conn_ok c i conn"
  shows "cl_inv (c\<lparr>cl_conns := (cl_conns c)[i := conn]\<rparr>)"
  using assms by (auto simp: cl_inv_def nth_list_update cl_conn_ok_def)

lemma client_connect_ok:
  assumes inv: "cl_inv c" and en: "cn_enabled (Start tid a) (cl_connector c)"
  shows "cl_ok (client_connect tid a c)"
proof -
  obtain k where k: "connector_start tid a (cl_connector c) = Inr k" "cn_inv k"
    using cn_step_ok [of "cl_connector c" "Start tid a"] inv en by (auto simp: cn_ok_def cl_inv_def)
  have "cn_loopThread k = cn_loopThread (cl_connector c)"
    using k(1) by (auto simp: connector_start_def cn_queueInLoop_def Let_def dest!: startInLoop_frame split: if_splits)
  moreover have "cl_connection c = None" using inv en by (cases "cl_connection c") (auto simp: cl_inv_def)
  moreover have "cl_inv (c\<lparr>cl_connect := True\<rparr>)" using inv by (simp add: cl_inv_def cl_conn_ok_def)
  ultimately have "cl_inv (c\<lparr>cl_connect := True, cl_connector := k\<rparr>)"
    using cl_inv_connector [of "c\<lparr>cl_connect := True\<rparr>" k] k(2) by simp
  then show ?thesis using k(1) by (simp add: client_connect_def Let_def)
qed

lemma cl_conn_ok_moves:
  assumes "cl_conn_ok c i conn" "tc_inv conn'" "tc_later conn conn'" "tc_closeCalls conn' = tc_closeCalls conn"
  shows "cl_conn_ok c i conn'"
  using assms by (auto simp: cl_conn_ok_def tc_later_def)

lemma cl_update_post:
  assumes inv: "cl_inv c" and i: "i < length (cl_conns c)" and post: "tc_post (cl_conns c ! i) r"
  shows "cl_ok (rbind r (\<lambda>conn. Inr (c\<lparr>cl_conns := (cl_conns c)[i := conn]\<rparr>)))"
proof (cases r)
  case (Inl e)
  with post show ?thesis by simp
next
  case (Inr conn)
  with post have conn: "tc_inv conn" "tc_moves (cl_conns c ! i) conn" by simp_all
  have "cl_conn_ok c i (cl_conns c ! i)" using inv i by (simp add: cl_inv_def)
  then have "cl_conn_ok c i conn"
    by (rule cl_conn_ok_moves [OF _ conn(1) tc_moves_later [OF conn(2)] tc_moves_keeps(2) [OF conn(2)]])
  from cl_inv_conn [OF inv i this] Inr show ?thesis by simp
qed

lemma client_disconnect_ok:
  assumes inv: "cl_inv c"
  shows "cl_ok (client_disconnect tid c)"
proof -
  let ?c = "c\<lparr>cl_connect := False\<rparr>"
  have inv': "cl_inv ?c" using inv by (simp add: cl_inv_def cl_conn_ok_def)
  show ?thesis
  proof (cases "cl_connection c")
    case None
    then show ?thesis using inv' by (simp add: client_disconnect_def Let_def)
  next
    case (Some i)
    then have i: "i < length (cl_conns c)" using inv by (simp add: cl_inv_def)
    then have "tc_inv (cl_conns c ! i)" using inv by (simp add: cl_inv_def cl_conn_ok_def)
    from cl_update_post [OF inv', of i, OF _ tc_shutdown_post] i this Some show ?thesis
      by (simp add: client_disconnect_def Let_def)
  qed
qed

lemma client_stop_ok: "cl_inv c \<Longrightarrow> cl_inv (client_stop c)"
  using cn_inv_queue_stop [of "(cl_connector c)\<lparr>cn_connect := False\<rparr>"]
  by (auto simp: client_stop_def connector_stop_def cl_inv_def cl_conn_ok_def cn_queueInLoop_def)

lemma client_newConnection_ok:
  assumes user: "user_ok user" and inv: "cl_inv c" and st: "cn_state (cl_connector c) = cnConnected"
    and none: "cl_connection c = None" and small: "cl_nextConnId c < 2147483647"
  shows "cl_ok (client_newConnection user (cl_loop c) fd peer g1 g2 c)"
proof -
  obtain b where b: "Buffer_new kInitialSize = Inr b"
    using Buffer_new_ok [of kInitialSize] by (auto simp: buffer_consts)
  define i where "i = length (cl_conns c)"
  define conn0 where "conn0 = TcpConnection_new (cl_loop c) (cl_loop c) (client_connName peer c) fd b b (MinuteHourCounter_new g1 g2)"
  define conn where "conn = (if cl_writeCompleteCallback c then setWriteCompleteCallback conn0 else conn0)"
  have conn: "tc_inv conn" "tc_state conn = kConnecting" "tc_loopThread conn = cl_loop c"
    using TcpConnection_new_inv [OF b conn0_def]
    by (auto simp: conn_def conn0_def TcpConnection_new_def setWriteCompleteCallback_def)
  have eq: "client_newConnection user (cl_loop c) fd peer g1 g2 c =
      rbind (connectEstablished user (cl_loop c) i conn) (\<lambda>conn. Inr (c\<lparr>cl_nextConnId := cl_nextConnId c + 1,
        cl_connection := Some i, cl_conns := cl_conns c @ [conn]\<rparr>))"
    using b small by (simp add: client_newConnection_def Let_def conn_def conn0_def i_def client_connName_def)
  show ?thesis
  proof (cases "connectEstablished user (cl_loop c) i conn")
    case (Inl e)
    then show ?thesis using connectEstablished_result [OF user conn(1,2), of i] conn(3) by (auto simp: eq)
  next
    case (Inr conn')
    then have "tc_inv conn'" "tc_open conn'" "tc_later conn conn'"
      using connectEstablished_result [OF user conn(1,2), of i] conn(3) by auto
    then have "tc_inv conn'" "tc_state conn' \<noteq> kConnecting" "tc_loopThread conn' = cl_loop c" "tc_closeCalls conn' = 0"
      using conn(3) by (auto simp: tc_later_def tc_open_def tc_inv_def tc_history_def)
    moreover have "i \<notin> set (cl_destroy c)" using inv by (auto simp: cl_inv_def i_def)
    ultimately show ?thesis
      using Inr inv none st by (auto simp: eq cl_inv_def cl_conn_ok_def nth_append i_def less_Suc_eq)
  qed
qed

lemma cl_connector_event_ok:
  assumes user: "user_ok user" and inv: "cl_inv c" and en: "cl_enabled (Connector_event e peer g1 g2) c"
  shows "cl_ok (cl_connector_event user e peer g1 g2 c)"
proof -
  let ?k = "cl_connector c"
  have k: "cn_inv ?k" using inv by (simp add: cl_inv_def)
  obtain k' where k': "cn_step e ?k = Inr k'" "cn_inv k'"
    using cn_step_ok [OF k, of e] en by (auto simp: cn_ok_def)
  have own: "case e of Run_functor _ \<Rightarrow> True | Timer_fires _ \<Rightarrow> True | Ready _ _ _ _ \<Rightarrow> True | _ \<Rightarrow> False"
    using en by simp
  have fr: "cn_frame ?k k'" using k'(1) own by (rule cn_step_frame)
  have up: "cn_state k' = cnConnected \<and> cn_handed k' = cn_handed ?k" if "cl_connection c \<noteq> None"
    using cn_step_connected [OF k _ k'(1) _ own] en inv that by (auto simp: cl_inv_def)
  have inv': "cl_inv (c\<lparr>cl_connector := k'\<rparr>)"
    using cl_inv_connector [OF inv k'(2)] fr up by (simp add: cn_frame_def)
  show ?thesis
  proof (cases "cn_handed k' = cn_handed ?k")
    case True
    then show ?thesis using k'(1) inv' by (simp add: cl_connector_event_def Let_def)
  next
    case False
    then obtain fd where h: "cn_handed k' = cn_handed ?k @ [fd]" and st: "cn_state k' = cnConnected"
      using fr by (auto simp: cn_frame_def)
    have "cl_connection c = None" using up False by blast
    then have "cl_ok (client_newConnection user (cl_loop (c\<lparr>cl_connector := k'\<rparr>)) fd peer g1 g2 (c\<lparr>cl_connector := k'\<rparr>))"
      using st en by (intro client_newConnection_ok [OF user inv']) simp_all
    then show ?thesis using k'(1) h by (simp add: cl_connector_event_def Let_def)
  qed
qed

text \<open>The close callback finds the connection the client knows; the connector is at rest and can restart.\<close>

lemma cl_connection_event_ok:
  assumes user: "user_ok user" and inv: "cl_inv c" and en: "cl_enabled (Connection_event i e a) c"
  shows "cl_ok (cl_connection_event user i e a c)"
proof -
  define conn where "conn = cl_conns c ! i"
  have i: "i < length (cl_conns c)" and ok: "cl_conn_ok c i conn" and e: "tc_enabled e conn"
    using inv en by (auto simp: cl_inv_def conn_def)
  have ci: "tc_inv conn" using ok by (simp add: cl_conn_ok_def)
  have safe: "tc_safe conn (tc_step user e conn)" using tc_step_safe [OF user ci e] .
  show ?thesis
  proof (cases "tc_step user e conn")
    case (Inl x)
    then show ?thesis using safe by (simp add: cl_connection_event_def conn_def)
  next
    case (Inr conn')
    then have c': "tc_inv conn'" "tc_later conn conn'" using safe by simp_all
    let ?c = "c\<lparr>cl_conns := (cl_conns c)[i := conn']\<rparr>"
    show ?thesis
    proof (cases "tc_closeCalls conn < tc_closeCalls conn'")
      case False
      then have "tc_closeCalls conn' = tc_closeCalls conn" using c'(2) by (simp add: tc_later_def)
      from cl_inv_conn [OF inv i cl_conn_ok_moves [OF ok c' this]] show ?thesis
        using Inr False by (simp add: cl_connection_event_def Let_def conn_def)
    next
      case True
      have closed: "tc_closeCalls conn = 0" "tc_closeCalls conn' = 1" "tc_state conn' = kDisconnected"
        "tc_loopThread conn' = cl_loop c"
        using True c' ok by (auto simp: cl_conn_ok_def tc_inv_def tc_history_def tc_later_def split: if_splits)
      have known: "cl_connection c = Some i" using ok closed(1) by (simp add: cl_conn_ok_def)
      then have st: "cn_state (cl_connector c) = cnConnected" and k: "cn_inv (cl_connector c)"
        "cn_loopThread (cl_connector c) = cl_loop c" using inv by (auto simp: cl_inv_def)
      let ?d = "?c\<lparr>cl_connection := None, cl_destroy := cl_destroy c @ [i]\<rparr>"
      have d: "cl_inv ?d"
        using inv i closed c'(1) known by (auto simp: cl_inv_def cl_conn_ok_def nth_list_update)
      have idle: "cn_channel (cl_connector c) = None"
      proof (cases e)
        case (Api tid op)
        then have "tc_closeCalls conn' = tc_closeCalls conn"
          using tc_call_post [OF ci, of tid op] e Inr by (simp add: tc_moves_def)
        then show ?thesis using True by simp
      qed (use en in simp_all)
      obtain k' where k': "connector_restart (cl_loop c) a (cl_connector c) = Inr k'" "cn_inv k'"
        using connector_restart_ok [OF k(1) st idle, of a] en k(2) by (auto simp: cn_ok_def)
      have "cl_inv (?d\<lparr>cl_connector := k'\<rparr>)"
        using cl_inv_connector [OF d k'(2)] connector_restart_frame [OF k'(1)] by simp
      then have "cl_ok (client_removeConnection (cl_loop c) a i ?c)"
        using known closed(4) i d k'(1) by (simp add: client_removeConnection_def Let_def)
      then show ?thesis using Inr True by (simp add: cl_connection_event_def Let_def conn_def)
    qed
  qed
qed

lemma cl_destroy_ok:
  assumes user: "user_ok user" and inv: "cl_inv c"
  shows "cl_ok (cl_step user Run_destroy c)"
proof (cases "cl_destroy c")
  case (Cons i ds)
  let ?c = "c\<lparr>cl_destroy := ds\<rparr>"
  have i: "i < length (cl_conns c)" and inv': "cl_inv ?c"
    using inv Cons by (auto simp: cl_inv_def cl_conn_ok_def)
  then have ok: "cl_conn_ok ?c i (cl_conns c ! i)" by (simp add: cl_inv_def)
  have conn: "tc_inv (cl_conns c ! i)" "tc_state (cl_conns c ! i) = kDisconnected" "tc_loopThread (cl_conns c ! i) = cl_loop c"
    using inv i Cons by (auto simp: cl_inv_def cl_conn_ok_def)
  have safe: "tc_safe (cl_conns c ! i) (connectDestroyed user (cl_loop c) (cl_conns c ! i))"
    using connectDestroyed_safe [OF user conn(1)] conn(2,3) by simp
  show ?thesis
  proof (cases "connectDestroyed user (cl_loop c) (cl_conns c ! i)")
    case (Inl e)
    then show ?thesis using safe Cons by simp
  next
    case (Inr d)
    then have "tc_inv d" "tc_later (cl_conns c ! i) d" using safe by simp_all
    moreover have "tc_closeCalls d = tc_closeCalls (cl_conns c ! i)"
      using Inr conn(2) by (auto simp: connectDestroyed_def tc_inLoop_def require_Inr_iff split: if_splits)
    ultimately have "cl_conn_ok ?c i d" using cl_conn_ok_moves [OF ok] by blast
    then show ?thesis using cl_inv_conn [OF inv'] i Inr Cons by simp
  qed
qed (simp add: inv)

lemma cl_step_ok:
  assumes user: "user_ok user" and inv: "cl_inv c" and en: "cl_enabled e c"
  shows "cl_ok (cl_step user e c)"
proof (cases e)
  case Run_destroy
  then show ?thesis using cl_destroy_ok [OF user inv] by simp
qed (use en inv client_connect_ok client_disconnect_ok client_stop_ok cl_connector_event_ok [OF user inv]
      cl_connection_event_ok [OF user inv] in \<open>simp_all del: cl_enabled.simps add: cl_enabled.simps(1)\<close>)

sublocale client_code \<subseteq> cl: event_system cl_enabled "cl_step user" cl_inv "{Length_error}"
proof
  show "cl_inv c'" if "cl_inv c" "cl_enabled e c" "cl_step user e c = Inr c'" for c e c'
    using cl_step_ok [OF allowed that(1,2)] that(3) by simp
  show "f \<in> {Length_error}" if "cl_inv c" "cl_enabled e c" "cl_step user e c = Inl f" for c e f
    using cl_step_ok [OF allowed that(1,2)] that(3) by simp
qed

lemma cl_new_inv: "c \<in> cl_new \<Longrightarrow> cl_inv c"
  by (auto simp: cl_new_def cl_inv_def TcpClient_new_def Connector_new_inv) (simp_all add: Connector_new_def)

context client_code
begin

lemma cl_reach_inv: "cl_reachable user c \<Longrightarrow> cl_inv c"
  by (erule cl.reach_inv) (rule cl_new_inv)

lemma cl_reach_steps:
  assumes "cl_reachable user c" "cl_enabled e c"
  shows "(\<exists>c'. cl_step user e c = Inr c') \<or> cl_step user e c = Inl Length_error"
  using cl.inv_steps [OF cl_reach_inv [OF assms(1)] assms(2)] by blast

end

lemma cl_reachable_inv: "user_ok user \<Longrightarrow> cl_reachable user c \<Longrightarrow> cl_inv c"
  by (rule client_code.cl_reach_inv [OF client_code.intro])

lemma connector_restart_tries:
  assumes "cn_inv k" "cn_state k = cnConnected" "connector_restart tid a k = Inr k'"
    and "ca_errno a \<in> {0, EINPROGRESS, ECONNREFUSED}"
  shows "cn_state k' = cnConnecting \<or> cn_timers k' = [500]"
proof -
  have "cn_timers k = []" using assms(1,2) by (auto simp: cn_inv_def cn_shape_def)
  then show ?thesis
    using assms(3,4)
    by (auto simp: connector_restart_def cn_inLoop_def startInLoop_def connector_connect_def cn_connecting_def
        cn_retry_def cn_close_def kInitRetryDelayMs_def require_Inr_iff Let_def split: if_splits)
qed

section \<open>Properties\<close>

text \<open>
  C15: a client, its connector and its connections in one loop, with calls from any thread in between and
  used by the rules: no assertion of any of them fails (a buffer beyond the largest size apart), and the
  client knows a connection exactly while that connection is up, so it never has two. A step in which the
  connection of a retrying client closes leaves the connector trying anew, with a socket being
  connected or a retry in half a second, when \<^verbatim>\<open>connect\<close> succeeds, is in progress or is refused.
\<close>

theorem TcpClient_knows_connection:
  assumes "user_ok user" "cl_reachable user c" "cl_enabled e c"
  shows "((\<exists>c'. cl_step user e c = Inr c') \<or> cl_step user e c = Inl Length_error) \<and>
    (\<forall>i. cl_connection c = Some i \<longleftrightarrow> i < length (cl_conns c) \<and> tc_closeCalls (cl_conns c ! i) = 0) \<and>
    (\<forall>c' i a ev. e = Connection_event i ev a \<and> cl_step user e c = Inr c' \<and> cl_retry c \<and> cl_connect c \<and>
       cl_connection c = Some i \<and> cl_connection c' = None \<and> ca_errno a \<in> {0, EINPROGRESS, ECONNREFUSED} \<longrightarrow>
       cn_state (cl_connector c') = cnConnecting \<or> cn_timers (cl_connector c') = [500])"
proof -
  have inv: "cl_inv c" using assms(1,2) by (rule cl_reachable_inv)
  have "(\<exists>c'. cl_step user e c = Inr c') \<or> cl_step user e c = Inl Length_error"
    using client_code.intro [OF assms(1)] assms(2,3) by (rule client_code.cl_reach_steps)
  moreover have "cl_connection c = Some i \<longleftrightarrow> i < length (cl_conns c) \<and> tc_closeCalls (cl_conns c ! i) = 0" for i
    using inv by (auto simp: cl_inv_def cl_conn_ok_def)
  moreover have "cn_state (cl_connector c') = cnConnecting \<or> cn_timers (cl_connector c') = [500]"
    if "e = Connection_event i ev a" "cl_step user e c = Inr c'" "cl_retry c" "cl_connect c"
      "cl_connection c = Some i" "cl_connection c' = None" "ca_errno a \<in> {0, EINPROGRESS, ECONNREFUSED}" for c' i a ev
  proof -
    let ?k = "cl_connector c"
    note step = that
    have k: "cn_inv ?k" "cn_state ?k = cnConnected" using inv step(5) by (auto simp: cl_inv_def)
    obtain k' where "connector_restart (cl_loop c) a ?k = Inr k'" "cl_connector c' = k'"
      using step(1-6) by (auto simp: cl_connection_event_def client_removeConnection_def rbind_Inr_iff
          require_Inr_iff Let_def split: if_splits)
    then show ?thesis using connector_restart_tries [OF k _ step(7)] by blast
  qed
  ultimately show ?thesis by blast
qed

theorem TcpClient_knows_connection_witness:
  "\<exists>c. cl_reachable echo c \<and> cl_connection c = None \<and> cn_state (cl_connector c) = cnConnecting \<and>
     ((\<exists>c'. cl_step echo (Connector_event (Ready False True 0 False) ''1.2.3.4:80'' 0 0) c = Inr c') \<or>
      cl_step echo (Connector_event (Ready False True 0 False) ''1.2.3.4:80'' 0 0) c = Inl Length_error)"
proof -
  define c where "c = (TcpClient_new 0 ''c'')\<lparr>cl_connector := sample_connecting\<rparr>"
  have "cl_reachable echo ((TcpClient_new 0 ''c'')\<lparr>cl_retry := False, cl_writeCompleteCallback := False\<rparr>)"
    by (rule reach_init) (auto simp: cl_new_def)
  then have r0: "cl_reachable echo (TcpClient_new 0 ''c'')" by (simp add: TcpClient_new_def)
  have "cl_step echo (Connect 0 \<lparr>ca_fd = 5, ca_errno = EINPROGRESS\<rparr>) (TcpClient_new 0 ''c'') = Inr c"
    by (simp add: c_def TcpClient_new_def client_connect_def Connector_new_def sample_connecting_def
        connector_start_def startInLoop_def cn_inLoop_def connector_connect_def cn_connecting_def)
  moreover have "cl_enabled (Connect 0 \<lparr>ca_fd = 5, ca_errno = EINPROGRESS\<rparr>) (TcpClient_new 0 ''c'')"
    by (simp add: TcpClient_new_def Connector_new_def)
  ultimately have r: "cl_reachable echo c" using reach_step [OF r0] by blast
  have en: "cl_enabled (Connector_event (Ready False True 0 False) ''1.2.3.4:80'' 0 0) c"
    by (simp add: c_def TcpClient_new_def sample_connecting_def)
  from TcpClient_knows_connection [OF echo_ok r en] r show ?thesis
    by (intro exI [of _ c]) (simp add: c_def TcpClient_new_def sample_connecting_def del: cl_step.simps)
qed

end
