(* ===== verification/Sync.thy ===== *)
theory Sync
  imports Prelude
begin

text \<open>
  Thread coordination: condition variables (\<^verbatim>\<open>utility/Condition.h\<close>, \<^verbatim>\<open>utility/Condition.cpp\<close>), the
  latch (\<^verbatim>\<open>utility/CountDownLatch.cpp\<close>), the queues (\<^verbatim>\<open>utility/BlockingQueue.h\<close>,
  \<^verbatim>\<open>utility/BoundedBlockingQueue.h\<close>) and the thread pool (\<^verbatim>\<open>utility/ThreadPool.cpp\<close>).

  A mutex makes each critical section one step, up to a \<^verbatim>\<open>wait\<close>, which ends the step with the thread
  blocked on the condition. A condition has the threads blocked on it and those that were woken and
  have yet to get the mutex again. Which of the blocked threads a \<^verbatim>\<open>notify\<close> wakes is up to the system
  and an argument; a blocked thread may also wake spuriously. Every loop around a \<^verbatim>\<open>wait\<close> tests its
  condition again when the thread runs on.

  The lemmas show that items come out once and in order, that bounds are kept, and that no wake-up is
  lost: a thread stays blocked only while the threads already woken account for all it waits for.
\<close>

section \<open>Condition\<close>

record 'w Condition =
  blocked :: "'w list"
  woken :: "'w list"

definition Condition_new :: "'w Condition" where
  "Condition_new = \<lparr>blocked = [], woken = []\<rparr>"

definition cond_wait :: "'w \<Rightarrow> 'w Condition \<Rightarrow> 'w Condition" where
  "cond_wait t c = c\<lparr>blocked := blocked c @ [t]\<rparr>"

text \<open>\<open>k\<close> chooses the thread that is woken.\<close>

definition cond_notify :: "nat \<Rightarrow> 'w Condition \<Rightarrow> 'w Condition" where
  "cond_notify k c =
     (if blocked c = [] then c
      else
        let i = k mod length (blocked c)
        in \<lparr>blocked = take i (blocked c) @ drop (Suc i) (blocked c), woken = woken c @ [blocked c ! i]\<rparr>)"

definition cond_notifyAll :: "'w Condition \<Rightarrow> 'w Condition" where
  "cond_notifyAll c = \<lparr>blocked = [], woken = woken c @ blocked c\<rparr>"

text \<open>
  A thread returns from \<^verbatim>\<open>wait\<close>: a woken one, or spuriously a blocked one. The result is the thread
  and the condition without it.
\<close>

definition cond_return :: "bool \<Rightarrow> nat \<Rightarrow> 'w Condition \<Rightarrow> ('w \<times> 'w Condition) option" where
  "cond_return spurious i c =
     (if spurious then
        if i < length (blocked c)
        then Some (blocked c ! i, c\<lparr>blocked := take i (blocked c) @ drop (Suc i) (blocked c)\<rparr>) else None
      else
        if i < length (woken c)
        then Some (woken c ! i, c\<lparr>woken := take i (woken c) @ drop (Suc i) (woken c)\<rparr>) else None)"

text \<open>
  The deadline of \<^verbatim>\<open>waitForSeconds\<close>: seconds and nanoseconds of the clock, and the wait in nanoseconds
  (the conversion of the argument). The remainder by zero is undefined.
\<close>

definition kNanoSecondsPerSecond :: int where "kNanoSecondsPerSecond = 1000000000"

definition wait_deadline :: "int \<Rightarrow> int \<times> int \<Rightarrow> (int \<times> int) res" where
  "wait_deadline nanoseconds now =
     (let (tv_sec, tv_nsec) = now in
      if nanoseconds = 0 then Inl Undefined
      else Inr (tv_sec + cdiv (tv_nsec + nanoseconds) kNanoSecondsPerSecond,
                cmod (tv_nsec + nanoseconds) nanoseconds))"

section \<open>CountDownLatch\<close>

record CountDownLatch =
  la_count :: int
  la_condition :: "nat Condition"

definition CountDownLatch_new :: "int \<Rightarrow> CountDownLatch" where
  "CountDownLatch_new count = \<lparr>la_count = count, la_condition = Condition_new\<rparr>"

text \<open>The test of the loop: the thread passes, or blocks.\<close>

definition latch_wait :: "nat \<Rightarrow> CountDownLatch \<Rightarrow> bool \<times> CountDownLatch" where
  "latch_wait t l =
     (if 0 < la_count l then (False, l\<lparr>la_condition := cond_wait t (la_condition l)\<rparr>) else (True, l))"

definition countDown :: "CountDownLatch \<Rightarrow> CountDownLatch" where
  "countDown l =
     (let l = l\<lparr>la_count := la_count l - 1\<rparr>
      in if la_count l = 0 then l\<lparr>la_condition := cond_notifyAll (la_condition l)\<rparr> else l)"

definition getCount :: "CountDownLatch \<Rightarrow> int" where
  "getCount l = la_count l"

section \<open>BlockingQueue\<close>

record 'a BlockingQueue =
  bq_queue :: "'a list"
  bq_notEmpty :: "nat Condition"

definition BlockingQueue_new :: "'a BlockingQueue" where
  "BlockingQueue_new = \<lparr>bq_queue = [], bq_notEmpty = Condition_new\<rparr>"

definition bq_put :: "nat \<Rightarrow> 'a \<Rightarrow> 'a BlockingQueue \<Rightarrow> 'a BlockingQueue" where
  "bq_put k x q = q\<lparr>bq_queue := bq_queue q @ [x], bq_notEmpty := cond_notify k (bq_notEmpty q)\<rparr>"

definition bq_take :: "nat \<Rightarrow> 'a BlockingQueue \<Rightarrow> 'a option \<times> 'a BlockingQueue" where
  "bq_take t q =
     (case bq_queue q of
        [] \<Rightarrow> (None, q\<lparr>bq_notEmpty := cond_wait t (bq_notEmpty q)\<rparr>)
      | x # xs \<Rightarrow> (Some x, q\<lparr>bq_queue := xs\<rparr>))"

definition bq_drain :: "'a BlockingQueue \<Rightarrow> 'a list \<times> 'a BlockingQueue" where
  "bq_drain q = (bq_queue q, q\<lparr>bq_queue := []\<rparr>)"

definition bq_size :: "'a BlockingQueue \<Rightarrow> nat" where
  "bq_size q = length (bq_queue q)"

section \<open>BoundedBlockingQueue\<close>

text \<open>A thread blocked in \<^verbatim>\<open>put\<close> has its item with it.\<close>

record 'a BoundedBlockingQueue =
  bb_queue :: "'a list"
  bb_capacity :: nat
  bb_notEmpty :: "nat Condition"
  bb_notFull :: "(nat \<times> 'a) Condition"

definition BoundedBlockingQueue_new :: "nat \<Rightarrow> 'a BoundedBlockingQueue" where
  "BoundedBlockingQueue_new maxSize =
     \<lparr>bb_queue = [], bb_capacity = maxSize, bb_notEmpty = Condition_new, bb_notFull = Condition_new\<rparr>"

definition bb_full :: "'a BoundedBlockingQueue \<Rightarrow> bool" where
  "bb_full q \<longleftrightarrow> length (bb_queue q) = bb_capacity q"

definition bb_empty :: "'a BoundedBlockingQueue \<Rightarrow> bool" where
  "bb_empty q \<longleftrightarrow> bb_queue q = []"

definition bb_size :: "'a BoundedBlockingQueue \<Rightarrow> nat" where
  "bb_size q = length (bb_queue q)"

definition bb_put :: "nat \<Rightarrow> nat \<Rightarrow> 'a \<Rightarrow> 'a BoundedBlockingQueue \<Rightarrow> (bool \<times> 'a BoundedBlockingQueue) res" where
  "bb_put k t x q =
     (if bb_full q then Inr (False, q\<lparr>bb_notFull := cond_wait (t, x) (bb_notFull q)\<rparr>)
      else
        require (\<not> bb_full q)
          (Inr (True, q\<lparr>bb_queue := bb_queue q @ [x], bb_notEmpty := cond_notify k (bb_notEmpty q)\<rparr>)))"

definition bb_take :: "nat \<Rightarrow> nat \<Rightarrow> 'a BoundedBlockingQueue \<Rightarrow> ('a option \<times> 'a BoundedBlockingQueue) res" where
  "bb_take k t q =
     (if bb_empty q then Inr (None, q\<lparr>bb_notEmpty := cond_wait t (bb_notEmpty q)\<rparr>)
      else
        require (\<not> bb_empty q)
          (Inr (Some (hd (bb_queue q)),
                q\<lparr>bb_queue := tl (bb_queue q), bb_notFull := cond_notify k (bb_notFull q)\<rparr>)))"

text \<open>The queue in use, with what was put into it and taken out so far.\<close>

record 'a bb_sys =
  by_queue :: "'a BoundedBlockingQueue"
  by_put :: "'a list"
  by_taken :: "'a list"

definition by_put_section :: "nat \<Rightarrow> nat \<Rightarrow> 'a \<Rightarrow> 'a bb_sys \<Rightarrow> 'a bb_sys res" where
  "by_put_section k t x s =
     rbind (bb_put k t x (by_queue s)) (\<lambda>(through, q).
     Inr (s\<lparr>by_queue := q, by_put := by_put s @ (if through then [x] else [])\<rparr>))"

definition by_take_section :: "nat \<Rightarrow> nat \<Rightarrow> 'a bb_sys \<Rightarrow> 'a bb_sys res" where
  "by_take_section k t s =
     rbind (bb_take k t (by_queue s)) (\<lambda>(x, q).
     Inr (s\<lparr>by_queue := q, by_taken := by_taken s @ (case x of None \<Rightarrow> [] | Some x \<Rightarrow> [x])\<rparr>))"

datatype 'a bb_event =
    Put nat 'a nat
  | Take nat nat
  | Resume_put bool nat nat
  | Resume_take bool nat nat

fun bb_step :: "'a bb_event \<Rightarrow> 'a bb_sys \<Rightarrow> 'a bb_sys res" where
  "bb_step (Put t x k) s = by_put_section k t x s"
| "bb_step (Take t k) s = by_take_section k t s"
| "bb_step (Resume_put spurious i k) s =
     (case cond_return spurious i (bb_notFull (by_queue s)) of
        None \<Rightarrow> Inr s
      | Some ((t, x), c) \<Rightarrow> by_put_section k t x (s\<lparr>by_queue := (by_queue s)\<lparr>bb_notFull := c\<rparr>\<rparr>))"
| "bb_step (Resume_take spurious i k) s =
     (case cond_return spurious i (bb_notEmpty (by_queue s)) of
        None \<Rightarrow> Inr s
      | Some (t, c) \<Rightarrow> by_take_section k t (s\<lparr>by_queue := (by_queue s)\<lparr>bb_notEmpty := c\<rparr>\<rparr>))"

definition bb_init :: "nat \<Rightarrow> 'a bb_sys" where
  "bb_init maxSize = \<lparr>by_queue = BoundedBlockingQueue_new maxSize, by_put = [], by_taken = []\<rparr>"

section \<open>ThreadPool\<close>

text \<open>
  Tasks are values of type \<open>'t\<close>; \<open>po_accepted\<close>, \<open>po_started\<close> and \<open>po_refused\<close> record the tasks queued,
  those a worker took, and those given to \<^verbatim>\<open>run\<close> too late. A worker of \<^verbatim>\<open>runInThread\<close> is the sequence of
  its calls of \<^verbatim>\<open>take\<close>, which it stops making when it finds \<^verbatim>\<open>running_\<close> false. The thread init callback
  and exceptions of tasks are left out.
\<close>

record 't ThreadPool =
  po_name :: string
  po_maxQueueSize :: nat
  po_running :: bool
  po_threads :: "string list"
  po_queue :: "'t list"
  po_notEmpty :: "nat Condition"
  po_notFull :: "(nat \<times> 't) Condition"
  po_accepted :: "'t list"
  po_started :: "'t list"
  po_refused :: "'t list"

definition ThreadPool_new :: "string \<Rightarrow> 't ThreadPool" where
  "ThreadPool_new nameArg =
     \<lparr>po_name = nameArg, po_maxQueueSize = 0, po_running = False, po_threads = [], po_queue = [],
      po_notEmpty = Condition_new, po_notFull = Condition_new, po_accepted = [], po_started = [],
      po_refused = []\<rparr>"

definition setMaxQueueSize :: "nat \<Rightarrow> 't ThreadPool \<Rightarrow> 't ThreadPool" where
  "setMaxQueueSize maxSize p = p\<lparr>po_maxQueueSize := maxSize\<rparr>"

definition threadpool_start :: "nat \<Rightarrow> 't ThreadPool \<Rightarrow> 't ThreadPool res" where
  "threadpool_start numThreads p =
     require (po_threads p = [])
       (Inr (p\<lparr>po_running := True,
               po_threads := map (\<lambda>i. po_name p @ snprintf_buf 32 (dec_int (int i + 1))) [0..<numThreads]\<rparr>))"

definition isFull :: "'t ThreadPool \<Rightarrow> bool" where
  "isFull p \<longleftrightarrow> 0 < po_maxQueueSize p \<and> po_maxQueueSize p \<le> length (po_queue p)"

text \<open>Without threads \<^verbatim>\<open>run\<close> calls the task itself.\<close>

definition threadpool_run :: "nat \<Rightarrow> nat \<Rightarrow> 't \<Rightarrow> 't ThreadPool \<Rightarrow> 't ThreadPool res" where
  "threadpool_run k t task p =
     (if po_threads p = [] then Inr (p\<lparr>po_accepted := po_accepted p @ [task], po_started := po_started p @ [task]\<rparr>)
      else if isFull p \<and> po_running p then Inr (p\<lparr>po_notFull := cond_wait (t, task) (po_notFull p)\<rparr>)
      else if \<not> po_running p then Inr (p\<lparr>po_refused := po_refused p @ [task]\<rparr>)
      else
        require (\<not> isFull p)
          (Inr (p\<lparr>po_queue := po_queue p @ [task], po_accepted := po_accepted p @ [task],
                  po_notEmpty := cond_notify k (po_notEmpty p)\<rparr>)))"

text \<open>\<^verbatim>\<open>take\<close> in worker \<open>t\<close>, and the start of the task it yields.\<close>

definition threadpool_take :: "nat \<Rightarrow> nat \<Rightarrow> 't ThreadPool \<Rightarrow> 't ThreadPool" where
  "threadpool_take k t p =
     (if po_queue p = [] \<and> po_running p then p\<lparr>po_notEmpty := cond_wait t (po_notEmpty p)\<rparr>
      else case po_queue p of
        [] \<Rightarrow> p
      | task # rest \<Rightarrow>
          let p = p\<lparr>po_queue := rest, po_started := po_started p @ [task]\<rparr>
          in if 0 < po_maxQueueSize p then p\<lparr>po_notFull := cond_notify k (po_notFull p)\<rparr> else p)"

definition threadpool_stop :: "'t ThreadPool \<Rightarrow> 't ThreadPool" where
  "threadpool_stop p =
     p\<lparr>po_running := False, po_notEmpty := cond_notifyAll (po_notEmpty p),
       po_notFull := cond_notifyAll (po_notFull p)\<rparr>"

definition threadpool_queueSize :: "'t ThreadPool \<Rightarrow> nat" where
  "threadpool_queueSize p = length (po_queue p)"

datatype 't pool_event =
    Run nat 't nat
  | Work nat nat
  | Resume_run bool nat nat
  | Resume_work bool nat nat
  | Stop_pool

fun pool_step :: "'t pool_event \<Rightarrow> 't ThreadPool \<Rightarrow> 't ThreadPool res" where
  "pool_step (Run t task k) p = threadpool_run k t task p"
| "pool_step (Work t k) p = Inr (threadpool_take k t p)"
| "pool_step (Resume_run spurious i k) p =
     (case cond_return spurious i (po_notFull p) of
        None \<Rightarrow> Inr p
      | Some ((t, task), c) \<Rightarrow> threadpool_run k t task (p\<lparr>po_notFull := c\<rparr>))"
| "pool_step (Resume_work spurious i k) p =
     (case cond_return spurious i (po_notEmpty p) of
        None \<Rightarrow> Inr p
      | Some (t, c) \<Rightarrow> Inr (threadpool_take k t (p\<lparr>po_notEmpty := c\<rparr>)))"
| "pool_step Stop_pool p = Inr (threadpool_stop p)"

section \<open>Wake-ups\<close>

text \<open>
  \<open>covered n c\<close>: if a thread is blocked on \<open>c\<close>, at least \<open>n\<close> threads have been woken. With \<open>n\<close> the number
  of things to be had this says that no wake-up was lost.
\<close>

definition covered :: "nat \<Rightarrow> 'w Condition \<Rightarrow> bool" where
  "covered n c \<longleftrightarrow> (blocked c \<noteq> [] \<longrightarrow> n \<le> length (woken c))"

lemma covered_mono: "covered n c \<Longrightarrow> m \<le> n \<Longrightarrow> covered m c"
  by (auto simp: covered_def)

lemma covered_0 [simp]: "covered 0 c"
  by (simp add: covered_def)

lemma covered_notify: "covered n c \<Longrightarrow> covered (Suc n) (cond_notify k c)"
  by (auto simp: covered_def cond_notify_def Let_def split: if_splits)

lemma covered_notifyAll [simp]: "covered n (cond_notifyAll c)" "blocked (cond_notifyAll c) = []"
  by (simp_all add: covered_def cond_notifyAll_def)

lemma notify_unblocked [simp]: "blocked c = [] \<Longrightarrow> blocked (cond_notify k c) = []"
  by (simp add: cond_notify_def)

lemma covered_return: "cond_return spurious i c = Some (t, c') \<Longrightarrow> covered n c \<Longrightarrow> covered (n - 1) c'"
  by (auto simp: cond_return_def covered_def split: if_splits)

lemma return_unblocked: "cond_return spurious i c = Some (t, c') \<Longrightarrow> blocked c = [] \<Longrightarrow> blocked c' = []"
  by (auto simp: cond_return_def split: if_splits)

lemma Condition_new_simps [simp]: "blocked Condition_new = []" "covered n Condition_new"
  by (simp_all add: Condition_new_def covered_def)

section \<open>Latch and unbounded queue\<close>

definition latch_ok :: "CountDownLatch \<Rightarrow> bool" where
  "latch_ok l \<longleftrightarrow> (blocked (la_condition l) \<noteq> [] \<longrightarrow> 0 < la_count l)"

text \<open>Threads are blocked on a latch only before it is down; a thread passes exactly when it is.\<close>

lemma latch_ok_new: "latch_ok (CountDownLatch_new n)"
  by (simp add: latch_ok_def CountDownLatch_new_def)

lemma latch_ok_wait: "latch_ok l \<Longrightarrow> latch_wait t l = (through, l') \<Longrightarrow> latch_ok l' \<and> (through \<longleftrightarrow> getCount l \<le> 0)"
  by (auto simp: latch_ok_def latch_wait_def getCount_def split: if_splits)

lemma latch_ok_countDown: "latch_ok l \<Longrightarrow> latch_ok (countDown l)"
  by (auto simp: latch_ok_def countDown_def Let_def)

definition bq_ok :: "'a BlockingQueue \<Rightarrow> bool" where
  "bq_ok q \<longleftrightarrow> covered (length (bq_queue q)) (bq_notEmpty q)"

lemma bq_ok_new: "bq_ok BlockingQueue_new"
  by (simp add: bq_ok_def BlockingQueue_new_def)

lemma bq_ok_put: "bq_ok q \<Longrightarrow> bq_ok (bq_put k x q)"
  by (simp add: bq_ok_def bq_put_def covered_notify)

lemma bq_ok_take:
  assumes "covered (length (bq_queue q) - 1) (bq_notEmpty q)"
  shows "bq_ok (snd (bq_take t q))"
  using assms by (cases "bq_queue q") (simp_all add: bq_ok_def bq_take_def)

lemma bq_ok_drain: "bq_ok (snd (bq_drain q))"
  by (simp add: bq_ok_def bq_drain_def)

section \<open>The bounded queue\<close>

definition bb_ok :: "'a bb_sys \<Rightarrow> bool" where
  "bb_ok s \<longleftrightarrow> (let q = by_queue s in by_taken s @ bb_queue q = by_put s \<and> length (bb_queue q) \<le> bb_capacity q)"

definition bb_inv :: "'a bb_sys \<Rightarrow> bool" where
  "bb_inv s \<longleftrightarrow> bb_ok s \<and> (let q = by_queue s in covered (length (bb_queue q)) (bb_notEmpty q) \<and>
     covered (bb_capacity q - length (bb_queue q)) (bb_notFull q))"

text \<open>
  A critical section restores the invariant also for the thread that has just been woken and so no
  longer counts as woken.
\<close>

lemma put_section_inv:
  assumes "bb_ok s" "covered (length (bb_queue (by_queue s))) (bb_notEmpty (by_queue s))"
    and "covered (bb_capacity (by_queue s) - length (bb_queue (by_queue s)) - 1) (bb_notFull (by_queue s))"
  shows "\<exists>s'. by_put_section k t x s = Inr s' \<and> bb_inv s' \<and> bb_capacity (by_queue s') = bb_capacity (by_queue s)"
proof (cases "bb_full (by_queue s)")
  case True
  then show ?thesis using assms by (simp add: by_put_section_def bb_put_def bb_inv_def bb_ok_def bb_full_def Let_def)
next
  case False
  then show ?thesis
    using assms covered_notify [OF assms(2)]
    by (auto simp: by_put_section_def bb_put_def bb_inv_def bb_ok_def bb_full_def Let_def elim: covered_mono)
qed

lemma take_section_inv:
  assumes "bb_ok s" "covered (length (bb_queue (by_queue s)) - 1) (bb_notEmpty (by_queue s))"
    and "covered (bb_capacity (by_queue s) - length (bb_queue (by_queue s))) (bb_notFull (by_queue s))"
  shows "\<exists>s'. by_take_section k t s = Inr s' \<and> bb_inv s' \<and> bb_capacity (by_queue s') = bb_capacity (by_queue s)"
proof (cases "bb_queue (by_queue s)")
  case Nil
  then show ?thesis using assms by (simp add: by_take_section_def bb_take_def bb_empty_def bb_inv_def bb_ok_def Let_def)
next
  case (Cons x xs)
  then have "bb_capacity (by_queue s) - length xs = Suc (bb_capacity (by_queue s) - length (x # xs))"
    using assms(1) Cons by (auto simp: bb_ok_def Let_def)
  then show ?thesis
    using Cons assms covered_notify [OF assms(3)]
    by (simp add: by_take_section_def bb_take_def bb_empty_def bb_inv_def bb_ok_def Let_def)
qed

lemma bb_step_inv:
  assumes inv: "bb_inv s"
  shows "\<exists>s'. bb_step e s = Inr s' \<and> bb_inv s' \<and> bb_capacity (by_queue s') = bb_capacity (by_queue s)"
proof -
  let ?q = "by_queue s"
  have ok: "bb_ok s" and ne: "covered (length (bb_queue ?q)) (bb_notEmpty ?q)"
    and nf: "covered (bb_capacity ?q - length (bb_queue ?q)) (bb_notFull ?q)"
    using inv by (simp_all add: bb_inv_def Let_def)
  show ?thesis
  proof (cases e)
    case (Put t x k)
    then show ?thesis using put_section_inv [OF ok ne] covered_mono [OF nf] by simp
  next
    case (Take t k)
    then show ?thesis using take_section_inv [OF ok _ nf] covered_mono [OF ne] by simp
  next
    case (Resume_put sp i k)
    show ?thesis
    proof (cases "cond_return sp i (bb_notFull ?q)")
      case (Some r)
      obtain t x c where r: "r = ((t, x), c)" by (cases r) auto
      have "covered (bb_capacity ?q - length (bb_queue ?q) - 1) c" using covered_return [OF _ nf] Some r by blast
      then show ?thesis
        using put_section_inv [of "s\<lparr>by_queue := ?q\<lparr>bb_notFull := c\<rparr>\<rparr>" k t x] ok ne Resume_put Some r
        by (simp add: bb_ok_def Let_def)
    qed (simp add: Resume_put inv)
  next
    case (Resume_take sp i k)
    show ?thesis
    proof (cases "cond_return sp i (bb_notEmpty ?q)")
      case (Some r)
      obtain t c where r: "r = (t, c)" by (cases r) auto
      have "covered (length (bb_queue ?q) - 1) c" using covered_return [OF _ ne] Some r by blast
      then show ?thesis
        using take_section_inv [of "s\<lparr>by_queue := ?q\<lparr>bb_notEmpty := c\<rparr>\<rparr>" k t] ok nf Resume_take Some r
        by (simp add: bb_ok_def Let_def)
    qed (simp add: Resume_take inv)
  qed
qed

section \<open>The thread pool\<close>

definition threadpool_ok :: "'t ThreadPool \<Rightarrow> bool" where
  "threadpool_ok p \<longleftrightarrow> po_started p @ po_queue p = po_accepted p \<and>
     (0 < po_maxQueueSize p \<longrightarrow> length (po_queue p) \<le> po_maxQueueSize p) \<and>
     (po_threads p = [] \<longrightarrow> po_queue p = [] \<and> blocked (po_notFull p) = []) \<and>
     (\<not> po_running p \<longrightarrow> blocked (po_notEmpty p) = [] \<and> blocked (po_notFull p) = []) \<and>
     (po_maxQueueSize p = 0 \<longrightarrow> blocked (po_notFull p) = [])"

definition threadpool_inv :: "'t ThreadPool \<Rightarrow> bool" where
  "threadpool_inv p \<longleftrightarrow> threadpool_ok p \<and> covered (length (po_queue p)) (po_notEmpty p) \<and>
     covered (po_maxQueueSize p - length (po_queue p)) (po_notFull p)"

lemma isFull_iff: "threadpool_ok p \<Longrightarrow> isFull p \<longleftrightarrow> 0 < po_maxQueueSize p \<and> length (po_queue p) = po_maxQueueSize p"
  by (auto simp: isFull_def threadpool_ok_def)

lemma threadpool_run_inv:
  assumes ok: "threadpool_ok p" and ne: "covered (length (po_queue p)) (po_notEmpty p)"
    and nf: "covered (po_maxQueueSize p - length (po_queue p) - 1) (po_notFull p)"
  shows "\<exists>p'. threadpool_run k t task p = Inr p' \<and> threadpool_inv p' \<and> (po_running p' \<longleftrightarrow> po_running p)"
proof -
  consider "po_threads p = []" | "po_threads p \<noteq> []" "isFull p" "po_running p"
    | "po_threads p \<noteq> []" "\<not> po_running p" | "po_threads p \<noteq> []" "\<not> isFull p" "po_running p"
    by blast
  then show ?thesis
  proof cases
    case 4
    then have "0 < po_maxQueueSize p \<longrightarrow> length (po_queue p) < po_maxQueueSize p"
      using ok isFull_iff [OF ok] by (auto simp: threadpool_ok_def)
    then show ?thesis
      using 4 ok nf covered_notify [OF ne, of k]
      by (auto simp: threadpool_run_def threadpool_inv_def threadpool_ok_def elim: covered_mono)
  next
    case 1
    then show ?thesis
      using ok nf by (auto simp: threadpool_run_def threadpool_inv_def threadpool_ok_def covered_def)
  next
    case 2
    then show ?thesis
      using ok ne isFull_iff [OF ok] by (auto simp: threadpool_run_def threadpool_inv_def threadpool_ok_def)
  next
    case 3
    then show ?thesis
      using ok by (auto simp: threadpool_run_def threadpool_inv_def threadpool_ok_def covered_def)
  qed
qed

lemma threadpool_take_inv:
  assumes ok: "threadpool_ok p" and ne: "covered (length (po_queue p) - 1) (po_notEmpty p)"
    and nf: "covered (po_maxQueueSize p - length (po_queue p)) (po_notFull p)"
  shows "threadpool_inv (threadpool_take k t p) \<and> (po_running (threadpool_take k t p) \<longleftrightarrow> po_running p)"
proof (cases "po_queue p")
  case Nil
  then show ?thesis using ok ne nf by (auto simp: threadpool_take_def threadpool_inv_def threadpool_ok_def covered_def)
next
  case (Cons task rest)
  have nf': "covered (po_maxQueueSize p - length rest) (if 0 < po_maxQueueSize p then cond_notify k (po_notFull p) else po_notFull p)"
    using covered_notify [OF nf, of k] Cons by (auto elim: covered_mono)
  show ?thesis
    using ok ne nf' Cons
    by (auto simp: threadpool_take_def threadpool_inv_def threadpool_ok_def Let_def)
qed

lemma pool_stop_inv: "threadpool_inv p \<Longrightarrow> threadpool_inv (threadpool_stop p)"
  by (simp add: threadpool_inv_def threadpool_ok_def threadpool_stop_def)

lemma pool_step_inv:
  assumes inv: "threadpool_inv p"
  shows "\<exists>p'. pool_step e p = Inr p' \<and> threadpool_inv p' \<and> (po_running p' \<longrightarrow> po_running p)"
proof -
  have ok: "threadpool_ok p" and ne: "covered (length (po_queue p)) (po_notEmpty p)"
    and nf: "covered (po_maxQueueSize p - length (po_queue p)) (po_notFull p)"
    using inv by (simp_all add: threadpool_inv_def)
  show ?thesis
  proof (cases e)
    case (Run t task k)
    then show ?thesis using threadpool_run_inv [OF ok ne] covered_mono [OF nf] by fastforce
  next
    case (Work t k)
    then show ?thesis using threadpool_take_inv [OF ok _ nf, of k t] covered_mono [OF ne] by simp
  next
    case (Resume_run sp i k)
    show ?thesis
    proof (cases "cond_return sp i (po_notFull p)")
      case (Some r)
      obtain t task c where r: "r = ((t, task), c)" by (cases r) auto
      have "covered (po_maxQueueSize p - length (po_queue p) - 1) c"
        using covered_return [OF _ nf] Some r by blast
      moreover have "threadpool_ok (p\<lparr>po_notFull := c\<rparr>)"
        using ok return_unblocked [of sp i "po_notFull p" "(t, task)" c] Some r by (auto simp: threadpool_ok_def)
      ultimately show ?thesis
        using threadpool_run_inv [of "p\<lparr>po_notFull := c\<rparr>" k t task] ne Resume_run Some r by fastforce
    qed (simp add: Resume_run inv)
  next
    case (Resume_work sp i k)
    show ?thesis
    proof (cases "cond_return sp i (po_notEmpty p)")
      case (Some r)
      obtain t c where r: "r = (t, c)" by (cases r) auto
      have "covered (length (po_queue p) - 1) c" using covered_return [OF _ ne] Some r by blast
      moreover have "threadpool_ok (p\<lparr>po_notEmpty := c\<rparr>)"
        using ok return_unblocked [of sp i "po_notEmpty p" t c] Some r by (auto simp: threadpool_ok_def)
      ultimately show ?thesis
        using threadpool_take_inv [of "p\<lparr>po_notEmpty := c\<rparr>" k t] nf Resume_work Some r by simp
    qed (simp add: Resume_work inv)
  next
    case Stop_pool
    then show ?thesis using pool_stop_inv [OF inv] by (simp add: threadpool_stop_def)
  qed
qed

lemma pool_step_max:
  assumes "pool_step e p = Inr p'"
  shows "po_maxQueueSize p' = po_maxQueueSize p"
proof -
  have run: "threadpool_run k t task q = Inr q' \<Longrightarrow> po_maxQueueSize q' = po_maxQueueSize q" for k t task and q q' :: "'a ThreadPool"
    by (auto simp: threadpool_run_def require_Inr_iff split: if_splits)
  have work: "po_maxQueueSize (threadpool_take k t q) = po_maxQueueSize q" for k t and q :: "'a ThreadPool"
    by (simp add: threadpool_take_def Let_def split: list.split)
  show ?thesis
    using assms by (cases e) (auto simp: work threadpool_stop_def dest: run split: option.splits)
qed

lemma pool_run_inv:
  assumes "threadpool_inv p"
  shows "\<exists>p'. rfold pool_step es p = Inr p' \<and> threadpool_inv p' \<and> po_maxQueueSize p' = po_maxQueueSize p \<and>
    (po_running p' \<longrightarrow> po_running p \<and> Stop_pool \<notin> set es)"
  using assms
proof (induction es arbitrary: p)
  case (Cons e es)
  obtain p1 where p1: "pool_step e p = Inr p1" "threadpool_inv p1" "po_running p1 \<longrightarrow> po_running p"
    using pool_step_inv [OF Cons.prems, of e] by blast
  moreover have "\<not> po_running p1" if "e = Stop_pool" using p1(1) that by (auto simp: threadpool_stop_def)
  ultimately show ?case using Cons.IH [of p1] pool_step_max [of e p p1] by auto
qed simp

lemma bb_run_inv:
  assumes "bb_inv s"
  shows "\<exists>s'. rfold bb_step es s = Inr s' \<and> bb_inv s' \<and> bb_capacity (by_queue s') = bb_capacity (by_queue s)"
  using rfold_inv [of "\<lambda>s'. bb_inv s' \<and> bb_capacity (by_queue s') = bb_capacity (by_queue s)" s es bb_step]
    bb_step_inv assms by metis

section \<open>Properties\<close>

text \<open>
  C16: a bounded blocking queue under any sequence of calls, wake-ups (spurious ones included) and
  choices of the woken thread: no assertion fails, the items taken followed by those in the queue are
  the items put, in order, and the capacity is never exceeded. No wake-up is lost: while a taker is
  blocked, at least as many takers have been woken as there are items, and while a putter is blocked,
  at least as many putters as there are free places.
\<close>

theorem BoundedBlockingQueue_fifo:
  fixes es :: "'a bb_event list"
  shows "\<exists>s. rfold bb_step es (bb_init maxSize) = Inr s \<and>
    by_taken s @ bb_queue (by_queue s) = by_put s \<and> length (bb_queue (by_queue s)) \<le> maxSize \<and>
    (blocked (bb_notEmpty (by_queue s)) = [] \<or>
       length (bb_queue (by_queue s)) \<le> length (woken (bb_notEmpty (by_queue s)))) \<and>
    (blocked (bb_notFull (by_queue s)) = [] \<or>
       maxSize - length (bb_queue (by_queue s)) \<le> length (woken (bb_notFull (by_queue s))))"
proof -
  have "bb_inv (bb_init maxSize :: 'a bb_sys)"
    by (simp add: bb_inv_def bb_ok_def bb_init_def BoundedBlockingQueue_new_def)
  from bb_run_inv [OF this, of es] obtain s where
    "rfold bb_step es (bb_init maxSize) = Inr s" "bb_inv s" "bb_capacity (by_queue s) = maxSize"
    by (auto simp: bb_init_def BoundedBlockingQueue_new_def)
  then show ?thesis by (auto simp: bb_inv_def bb_ok_def covered_def Let_def)
qed

text \<open>
  C17: a started thread pool under any sequence of calls and wake-ups: no assertion fails; tasks are
  started in the order in which they were queued, each once; the queue keeps its bound; no wake-up is
  lost. Once the pool is stopped nobody is blocked on it, and no thread blocks again, so that the
  workers it joins come to their end.
\<close>

theorem ThreadPool_runs_tasks_in_order:
  fixes p :: "'t ThreadPool"
  assumes "threadpool_start n (setMaxQueueSize m (ThreadPool_new name)) = Inr p"
  shows "\<exists>q. rfold pool_step es p = Inr q \<and> po_started q @ po_queue q = po_accepted q \<and>
    (m = 0 \<or> length (po_queue q) \<le> m) \<and>
    (blocked (po_notEmpty q) = [] \<or> length (po_queue q) \<le> length (woken (po_notEmpty q))) \<and>
    (blocked (po_notFull q) = [] \<or> m - length (po_queue q) \<le> length (woken (po_notFull q))) \<and>
    (Stop_pool \<notin> set es \<or> \<not> po_running q \<and> blocked (po_notEmpty q) = [] \<and> blocked (po_notFull q) = [])"
proof -
  have p: "threadpool_inv p" "po_maxQueueSize p = m"
    using assms by (auto simp: threadpool_start_def setMaxQueueSize_def ThreadPool_new_def threadpool_inv_def threadpool_ok_def)
  obtain q where "rfold pool_step es p = Inr q" "threadpool_inv q" "po_maxQueueSize q = m"
      "po_running q \<longrightarrow> Stop_pool \<notin> set es"
    using pool_run_inv [OF p(1), of es] p(2) by auto
  then show ?thesis by (auto simp: threadpool_inv_def threadpool_ok_def covered_def)
qed

theorem ThreadPool_runs_tasks_in_order_witness:
  "\<exists>p q. threadpool_start 2 (setMaxQueueSize 1 (ThreadPool_new ''pool'')) = Inr p \<and>
     rfold pool_step [Work 1 0, Run 7 (10 :: nat) 0, Run 8 11 0, Resume_work False 0 0, Resume_run False 0 0, Stop_pool] p =
       Inr q \<and> po_started q = [10] \<and> po_queue q = [11] \<and> \<not> po_running q \<and> blocked (po_notEmpty q) = []"
proof -
  have d: "dec_int 1 = ''1''" "dec_int 2 = ''2''" by code_simp+
  define p :: "nat ThreadPool" where "p = (ThreadPool_new ''pool'')\<lparr>po_maxQueueSize := 1, po_running := True,
    po_threads := [''pool1'', ''pool2'']\<rparr>"
  have p: "threadpool_start 2 (setMaxQueueSize 1 (ThreadPool_new ''pool'')) = Inr p"
    by (simp add: p_def threadpool_start_def setMaxQueueSize_def ThreadPool_new_def snprintf_buf_def d
        numeral_2_eq_2 [symmetric] upt_rec)
  let ?es = "[Work 1 0, Run 7 10 0, Run 8 11 0, Resume_work False 0 0, Resume_run False 0 0, Stop_pool]"
  obtain q where q: "rfold pool_step ?es p = Inr q" "blocked (po_notEmpty q) = []" "\<not> po_running q"
    using ThreadPool_runs_tasks_in_order [OF p, of ?es] by auto
  moreover have "po_started q = [10] \<and> po_queue q = [11]"
    using q(1)
    by (simp add: p_def ThreadPool_new_def Condition_new_def threadpool_take_def threadpool_run_def isFull_def
        cond_wait_def cond_notify_def cond_return_def threadpool_stop_def cond_notifyAll_def)
       (auto simp: ThreadPool.defs)
  ultimately show ?thesis using p by blast
qed

text \<open>
  The deadline of a timed wait is right for whole seconds. For other times it is not: the
  remainder is taken by the length of the wait and not by a second, so that a wait that ends within
  the current second of the clock gets a deadline that is not later than the present time. A wait of
  zero seconds divides by zero.
\<close>

lemma waitForSeconds_deadline:
  assumes "0 \<le> nsec" "nsec < 1000000000"
  shows "(0 < k \<longrightarrow> wait_deadline (k * 1000000000) (sec, nsec) = Inr (sec + k, nsec)) \<and>
    (0 < n \<and> nsec + n < 1000000000 \<longrightarrow> (\<exists>d. wait_deadline n (sec, nsec) = Inr (sec, d) \<and> d \<le> nsec)) \<and>
    wait_deadline 0 (sec, nsec) = Inl Undefined"
proof (intro conjI impI)
  assume k: "0 < k"
  then have "(nsec + k * 1000000000) div 1000000000 = k" "(nsec + k * 1000000000) mod (k * 1000000000) = nsec"
    using assms by (simp_all add: mod_pos_pos_trivial)
  then show "wait_deadline (k * 1000000000) (sec, nsec) = Inr (sec + k, nsec)"
    using k assms by (simp add: wait_deadline_def kNanoSecondsPerSecond_def cdiv_nonneg cmod_nonneg)
next
  assume n: "0 < n \<and> nsec + n < 1000000000"
  then have "(nsec + n) div 1000000000 = 0" "(nsec + n) mod n \<le> nsec"
    using assms by (simp_all add: div_pos_pos_trivial zmod_le_nonneg_dividend)
  then show "\<exists>d. wait_deadline n (sec, nsec) = Inr (sec, d) \<and> d \<le> nsec"
    using n assms by (simp add: wait_deadline_def kNanoSecondsPerSecond_def cdiv_nonneg cmod_nonneg)
qed (simp add: wait_deadline_def)

end
