(* ===== verification/Inspect.thy ===== *)
theory Inspect
  imports Http
begin

text \<open>
  \<^verbatim>\<open>networking/inspect/Inspector.cpp\<close>: the table of commands that can be asked for by HTTP, and the
  request handler.

  A callback is the function from method and arguments to the text it returns; an empty
  \<^verbatim>\<open>std::function\<close> is \<^term>\<open>None\<close>. The bytes of the icon are an argument. The mutex makes every call one step.

  The lemmas relate the two nested maps to one partial function from module and command to callback and
  help text, and show what every path is answered with.
\<close>

section \<open>Paths\<close>

text \<open>The loop of \<^verbatim>\<open>split\<close>; \<open>rest\<close> is what starts at \<^verbatim>\<open>start\<close>.\<close>

function split_loop :: "string \<Rightarrow> string list" where
  "split_loop rest =
     (let pos = find_char (CHR ''/'') rest in
      if pos \<noteq> length rest
      then (if 0 < pos then [take pos rest] else []) @ split_loop (drop (pos + 1) rest)
      else if 0 < length rest then [rest] else [])"
  by pat_completeness auto
termination
proof (relation "measure length")
  fix rest :: string and pos
  assume "pos = find_char (CHR ''/'') rest" "pos \<noteq> length rest"
  then have "rest \<noteq> []" by (auto simp: find_char_def)
  then show "(drop (pos + 1) rest, rest) \<in> measure length" by simp
qed simp

declare split_loop.simps [simp del]

definition split :: "string \<Rightarrow> string list" where
  "split str = split_loop str"

section \<open>Inspector\<close>

type_synonym Callback = "(Method \<Rightarrow> string list \<Rightarrow> string) option"

record Inspector =
  in_modules :: "(string, (string, Callback) omap) omap"
  in_helps :: "(string, (string, string) omap) omap"

definition Inspector_tables :: Inspector where
  "Inspector_tables = \<lparr>in_modules = [], in_helps = []\<rparr>"

text \<open>\<^verbatim>\<open>operator[]\<close> of a map yields an empty entry for a new key.\<close>

definition om_get :: "('k::linorder, ('a, 'b) omap) omap \<Rightarrow> 'k \<Rightarrow> ('a, 'b) omap" where
  "om_get m k = (case om_lookup m k of None \<Rightarrow> [] | Some v \<Rightarrow> v)"

definition inspector_add :: "string \<Rightarrow> string \<Rightarrow> Callback \<Rightarrow> string \<Rightarrow> Inspector \<Rightarrow> Inspector" where
  "inspector_add module command cb help i =
     i\<lparr>in_modules := om_update module (om_update command cb (om_get (in_modules i) module)) (in_modules i),
       in_helps := om_update module (om_update command help (om_get (in_helps i) module)) (in_helps i)\<rparr>"

definition inspector_remove :: "string \<Rightarrow> string \<Rightarrow> Inspector \<Rightarrow> Inspector" where
  "inspector_remove module command i =
     (case om_lookup (in_modules i) module of
        None \<Rightarrow> i
      | Some list \<Rightarrow>
          i\<lparr>in_modules := om_update module (om_erase command list) (in_modules i),
            in_helps := om_update module (om_erase command (om_get (in_helps i) module)) (in_helps i)\<rparr>)"

definition help_line :: "string \<Rightarrow> string \<times> string \<Rightarrow> string" where
  "help_line module it =
     ''/'' @ module @ ''/'' @ fst it @
     (let len = length module + length (fst it) in replicate (if 25 \<le> len then 1 else 25 - len) (CHR '' '')) @
     snd it @ [CHR 0x0A]"

definition help_page :: "Inspector \<Rightarrow> string" where
  "help_page i = concat (map (\<lambda>(module, list). concat (map (help_line module) list)) (in_helps i))"

definition answer_ok :: "string \<Rightarrow> string \<Rightarrow> HttpResponse \<Rightarrow> HttpResponse" where
  "answer_ok contentType body resp =
     setBody body (setContentType contentType (setStatusMessage ''OK'' (setStatusCode k200Ok resp)))"

definition find_command :: "string \<Rightarrow> string \<Rightarrow> Inspector \<Rightarrow> Callback" where
  "find_command module command i =
     (case om_lookup (in_modules i) module of
        None \<Rightarrow> None
      | Some list \<Rightarrow> (case om_lookup list command of None \<Rightarrow> None | Some cb \<Rightarrow> cb))"

definition inspector_onRequest :: "string \<Rightarrow> HttpRequest \<Rightarrow> Inspector \<Rightarrow> HttpResponse \<Rightarrow> HttpResponse" where
  "inspector_onRequest favicon req i resp =
     (if rq_path req = ''/'' then answer_ok ''text/plain'' (help_page i) resp
      else
        let not_found = setStatusMessage ''Not Found'' (setStatusCode k404NotFound resp) in
        case split (rq_path req) of
          [] \<Rightarrow> not_found
        | [module] \<Rightarrow> if module = ''favicon.ico'' then answer_ok ''image/png'' favicon resp else not_found
        | module # command # args \<Rightarrow>
            (case find_command module command i of
               None \<Rightarrow> not_found
             | Some cb \<Rightarrow> answer_ok ''text/plain'' (cb (rq_method req) args) resp))"

section \<open>The table as a partial function\<close>

datatype inspector_op =
    Add_command string string Callback string
  | Remove_command string string

fun inspector_step :: "inspector_op \<Rightarrow> Inspector \<Rightarrow> Inspector" where
  "inspector_step (Add_command module command cb help) = inspector_add module command cb help"
| "inspector_step (Remove_command module command) = inspector_remove module command"

fun spec_step :: "inspector_op \<Rightarrow> (string \<times> string \<rightharpoonup> Callback \<times> string) \<Rightarrow> (string \<times> string \<rightharpoonup> Callback \<times> string)" where
  "spec_step (Add_command module command cb help) r = r((module, command) \<mapsto> (cb, help))"
| "spec_step (Remove_command module command) r = r((module, command) := None)"

definition registered :: "inspector_op list \<Rightarrow> (string \<times> string \<rightharpoonup> Callback \<times> string)" where
  "registered ops = fold spec_step ops (\<lambda>_. None)"

text \<open>The entry of a command in a table of tables.\<close>

definition entry :: "('k::linorder, ('k2::linorder, 'v) omap) omap \<Rightarrow> 'k \<times> 'k2 \<Rightarrow> 'v option" where
  "entry m mc = om_lookup (om_get m (fst mc)) (snd mc)"

definition nested_wf :: "('k::linorder, ('k2::linorder, 'v) omap) omap \<Rightarrow> bool" where
  "nested_wf m \<longleftrightarrow> om_wf m \<and> (\<forall>list \<in> set (map snd m). om_wf list)"

definition inspector_rel :: "Inspector \<Rightarrow> (string \<times> string \<rightharpoonup> Callback \<times> string) \<Rightarrow> bool" where
  "inspector_rel i r \<longleftrightarrow> nested_wf (in_modules i) \<and> nested_wf (in_helps i) \<and>
     entry (in_modules i) = (\<lambda>mc. map_option fst (r mc)) \<and> entry (in_helps i) = (\<lambda>mc. map_option snd (r mc))"

lemma om_get_update: "om_get (om_update k v m) k' = (if k' = k then v else om_get m k')"
  by (simp add: om_get_def om_lookup_update)

lemma entry_update: "entry (om_update k list m) = (\<lambda>(k1, k2). if k1 = k then om_lookup list k2 else entry m (k1, k2))"
  by (auto simp: entry_def om_get_update fun_eq_iff)

lemma set_om_update: "set (map snd (om_update k v m)) \<subseteq> insert v (set (map snd m))"
  by (induction k v m rule: om_update.induct) auto

lemma nested_wf_update: "nested_wf m \<Longrightarrow> om_wf v \<Longrightarrow> nested_wf (om_update k v m)"
  using set_om_update [of k v m] om_wf_update [of m k v] unfolding nested_wf_def by blast

lemma nested_wf_get: "nested_wf m \<Longrightarrow> om_wf (om_get m k)"
  by (auto simp: nested_wf_def om_get_def om_lookup_def split: option.splits dest!: map_of_SomeD)

lemma inspector_add_rel:
  assumes "inspector_rel i r"
  shows "inspector_rel (inspector_add module command cb help i) (r((module, command) \<mapsto> (cb, help)))"
  using assms
  by (auto simp: inspector_rel_def inspector_add_def nested_wf_update nested_wf_get om_wf_update entry_update
      om_lookup_update fun_eq_iff entry_def)

lemma inspector_remove_rel:
  assumes "inspector_rel i r"
  shows "inspector_rel (inspector_remove module command i) (r((module, command) := None))"
proof (cases "om_lookup (in_modules i) module")
  case None
  then have "entry (in_modules i) (module, command) = None" by (simp add: entry_def om_get_def)
  then have "r (module, command) = None" using assms by (simp add: inspector_rel_def)
  then have "r((module, command) := None) = r" by auto
  then show ?thesis using assms None by (simp add: inspector_remove_def)
next
  case (Some list)
  then have "om_get (in_modules i) module = list" by (simp add: om_get_def)
  then show ?thesis
    using assms Some nested_wf_get [of "in_modules i" module] nested_wf_get [of "in_helps i" module]
    by (auto simp: inspector_rel_def inspector_remove_def nested_wf_update om_wf_erase entry_update om_lookup_erase
        fun_eq_iff entry_def)
qed

lemma inspector_run_rel:
  "inspector_rel i r \<Longrightarrow> inspector_rel (fold inspector_step ops i) (fold spec_step ops r)"
proof (induction ops arbitrary: i r)
  case (Cons op ops)
  have "inspector_rel (inspector_step op i) (spec_step op r)"
    using inspector_add_rel [OF Cons.prems] inspector_remove_rel [OF Cons.prems] by (cases op) simp_all
  from Cons.IH [OF this] show ?case by simp
qed simp

lemma inspector_registered: "inspector_rel (fold inspector_step ops Inspector_tables) (registered ops)"
  unfolding registered_def
  by (rule inspector_run_rel) (simp add: inspector_rel_def Inspector_tables_def nested_wf_def entry_def om_get_def fun_eq_iff)

lemma find_command_entry: "find_command module command i = (case entry (in_modules i) (module, command) of None \<Rightarrow> None | Some cb \<Rightarrow> cb)"
  by (auto simp: find_command_def entry_def om_get_def split: option.splits)

text \<open>The entries of a table of tables in the order in which the two loops visit them.\<close>

definition entries :: "('a, ('b, 'v) omap) omap \<Rightarrow> (('a \<times> 'b) \<times> 'v) list" where
  "entries m = concat (map (\<lambda>(k, list). map (\<lambda>(c, v). ((k, c), v)) list) m)"

lemma help_lines: "concat (map (\<lambda>(m, list). concat (map (help_line m) list)) hs) =
    concat (map (\<lambda>((m, c), help). help_line m (c, help)) (entries hs))"
  by (induction hs) (auto simp: entries_def comp_def case_prod_beta)

lemma map_of_entries: "om_wf m \<Longrightarrow> map_of (entries m) = entry m"
proof (induction m)
  case Nil
  then show ?case by (simp add: entries_def entry_def om_get_def fun_eq_iff)
next
  case (Cons e m)
  obtain k list where e: "e = (k, list)" by (cases e)
  have wf: "om_wf m" and k: "k \<notin> fst ` set m" using Cons.prems by (auto simp: e om_wf_def)
  have head: "map_of (map (\<lambda>(c, v). ((k, c), v)) list) (k', c) = (if k' = k then om_lookup list c else None)" for k' c
    by (induction list) (auto simp: om_lookup_def)
  have "om_lookup m k = None" using k by (simp add: om_lookup_def map_of_eq_None_iff)
  then have tail: "entry m (k, c) = None" for c by (simp add: entry_def om_get_def)
  have "entries (e # m) = map (\<lambda>(c, v). ((k, c), v)) list @ entries m" by (simp add: entries_def e)
  moreover have "om_get (e # m) k' = (if k' = k then list else om_get m k')" for k'
    by (simp add: om_get_def om_lookup_def e)
  ultimately show ?case
    using Cons.IH [OF wf] tail
    by (auto simp: fun_eq_iff map_add_def head entry_def split: option.splits)
qed

lemma distinct_entries: "nested_wf m \<Longrightarrow> distinct (map fst (entries m))"
proof (induction m)
  case (Cons e m)
  obtain k list where e: "e = (k, list)" by (cases e)
  have wf: "nested_wf m" "om_wf list" and k: "k \<notin> fst ` set m"
    using Cons.prems by (auto simp: e nested_wf_def om_wf_def)
  have "distinct (map fst list)" using wf(2) strict_sorted_iff by (auto simp: om_wf_def)
  then have "distinct (map (\<lambda>x. (k, fst x)) list)"
    by (auto simp: distinct_map inj_on_def)
  moreover have "fst ` set (entries m) \<subseteq> {(k', c). k' \<in> fst ` set m}" by (force simp: entries_def)
  ultimately show ?case
    using Cons.IH [OF wf(1)] k by (auto simp: e entries_def comp_def case_prod_beta)
qed (simp add: entries_def)

lemma help_entries:
  assumes "nested_wf hs"
  shows "\<exists>es. concat (map (\<lambda>(m, list). concat (map (help_line m) list)) hs) =
      concat (map (\<lambda>((m, c), help). help_line m (c, help)) es) \<and> distinct (map fst es) \<and> map_of es = entry hs"
  using assms help_lines [of hs] distinct_entries [OF assms] map_of_entries [of hs] by (auto simp: nested_wf_def)

section \<open>Paths of components\<close>

definition path_of :: "string list \<Rightarrow> string" where
  "path_of ps = concat (map (\<lambda>p. ''/'' @ p) ps)"

definition component :: "string \<Rightarrow> bool" where
  "component p \<longleftrightarrow> p \<noteq> [] \<and> CHR ''/'' \<notin> set p"

lemma find_slash: "CHR ''/'' \<notin> set p \<Longrightarrow> find_char (CHR ''/'') (p @ CHR ''/'' # s) = length p"
  and find_no_slash: "CHR ''/'' \<notin> set p \<Longrightarrow> find_char (CHR ''/'') p = length p"
  by (induction p) (auto simp: find_char_def)

lemma split_loop_path:
  assumes "component p" "list_all component ps"
  shows "split_loop (p @ path_of ps) = p # ps"
  using assms
proof (induction ps arbitrary: p)
  case Nil
  then show ?case by (subst split_loop.simps) (simp add: path_of_def component_def find_no_slash Let_def)
next
  case (Cons q ps)
  have path: "p @ path_of (q # ps) = p @ CHR ''/'' # (q @ path_of ps)" by (simp add: path_of_def)
  have "find_char (CHR ''/'') (p @ path_of (q # ps)) = length p"
    unfolding path using Cons.prems(1) by (simp add: component_def find_slash)
  moreover have "split_loop (drop (length p + 1) (p @ path_of (q # ps))) = q # ps"
    using Cons unfolding path by simp
  ultimately show ?case
    using Cons.prems(1) by (subst split_loop.simps) (simp add: Let_def component_def path_of_def)
qed

lemma split_path: "list_all component ps \<Longrightarrow> split (path_of ps) = ps"
proof (cases ps)
  case Nil
  then show ?thesis by (subst split_def, subst split_loop.simps) (simp add: path_of_def find_char_def)
next
  case (Cons p qs)
  assume ok: "list_all component ps"
  have "path_of ps = CHR ''/'' # (p @ path_of qs)" by (simp add: Cons path_of_def)
  then show ?thesis
    using split_loop_path [of p qs] ok Cons
    by (subst split_def, subst split_loop.simps) (simp add: find_char_def Let_def)
qed

lemma split_loop_components: "list_all component (split_loop s)"
proof (induction s rule: split_loop.induct)
  case (1 rest)
  let ?pos = "find_char (CHR ''/'') rest"
  have take: "CHR ''/'' \<notin> set (take ?pos rest)"
    by (metis (full_types) find_char_def set_takeWhileD takeWhile_eq_take)
  show ?case
  proof (cases "?pos = length rest")
    case True
    then show ?thesis using take by (subst split_loop.simps) (simp add: Let_def component_def)
  next
    case False
    have "0 < ?pos \<longrightarrow> component (take ?pos rest)" using take by (auto simp: component_def)
    then show ?thesis
      using False 1 [OF refl False] by (subst split_loop.simps) (simp add: Let_def)
  qed
qed

section \<open>Properties\<close>

text \<open>
  C34: the inspector serves exactly what is registered. After any sequence of additions and removals a
  request for \<^verbatim>\<open>/module/command/arg/...\<close> is answered with status 200 and the text the callback of the last
  addition gives for the method and the arguments; with 404 if the command was never added, was removed
  since, or has an empty callback. The start page lists the registered commands, each once, in order, with
  their help texts.
\<close>

theorem Inspector_serves_registered:
  assumes "list_all component (module # command # args)" "rq_path req = path_of (module # command # args)"
    and "rq_path root = ''/''"
  shows "(let i = fold inspector_step ops Inspector_tables; resp' = inspector_onRequest favicon req i resp in
      case registered ops (module, command) of
        Some (Some cb, help) \<Rightarrow> rs_statusCode resp' = k200Ok \<and> rs_body resp' = cb (rq_method req) args
      | _ \<Rightarrow> rs_statusCode resp' = k404NotFound) \<and>
    (\<exists>es. rs_body (inspector_onRequest favicon root (fold inspector_step ops Inspector_tables) resp) =
        concat (map (\<lambda>((m, c), help). help_line m (c, help)) es) \<and>
      distinct (map fst es) \<and> map_of es = (\<lambda>mc. map_option snd (registered ops mc)))"
proof
  let ?i = "fold inspector_step ops Inspector_tables"
  note rel = inspector_registered [of ops]
  have path: "rq_path req \<noteq> ''/''" using assms(1,2) by (auto simp: path_of_def component_def)
  have "find_command module command ?i =
      (case registered ops (module, command) of None \<Rightarrow> None | Some (cb, help) \<Rightarrow> cb)"
    using rel by (auto simp: find_command_entry inspector_rel_def split: option.splits)
  with split_path [OF assms(1)] path show "let i = ?i; resp' = inspector_onRequest favicon req i resp in
      case registered ops (module, command) of
        Some (Some cb, help) \<Rightarrow> rs_statusCode resp' = k200Ok \<and> rs_body resp' = cb (rq_method req) args
      | _ \<Rightarrow> rs_statusCode resp' = k404NotFound"
    by (auto simp: inspector_onRequest_def assms(2) answer_ok_def setBody_def setContentType_def response_addHeader_def
        setStatusMessage_def setStatusCode_def Let_def split: option.splits)
  show "\<exists>es. rs_body (inspector_onRequest favicon root ?i resp) =
        concat (map (\<lambda>((m, c), help). help_line m (c, help)) es) \<and>
      distinct (map fst es) \<and> map_of es = (\<lambda>mc. map_option snd (registered ops mc))"
    using help_entries [of "in_helps ?i"] rel assms(3)
    by (auto simp: inspector_onRequest_def answer_ok_def setBody_def help_page_def inspector_rel_def)
qed

theorem Inspector_serves_registered_witness:
  "let i = fold inspector_step
         [Add_command ''proc'' ''pid'' (Some (\<lambda>m args. ''42'' @ concat args)) ''print pid'', Add_command ''sys'' ''load'' None ''load'']
         Inspector_tables;
       ask = (\<lambda>path. inspector_onRequest [] (HttpRequest_new\<lparr>rq_path := path\<rparr>) i (HttpResponse_new True))
   in rs_body (ask ''/proc/pid/x'') = ''42x'' \<and> rs_statusCode (ask ''/sys/load'') = k404NotFound"
proof -
  let ?ops = "[Add_command ''proc'' ''pid'' (Some (\<lambda>m args. ''42'' @ concat args)) ''print pid'', Add_command ''sys'' ''load'' None ''load'']"
  have "list_all component [''proc'', ''pid'', ''x'']" "list_all component [''sys'', ''load'']" by (simp_all add: component_def)
  then show ?thesis
    using Inspector_serves_registered [of "''proc''" "''pid''" "[''x'']" "HttpRequest_new\<lparr>rq_path := ''/proc/pid/x''\<rparr>"
        "HttpRequest_new\<lparr>rq_path := ''/''\<rparr>" ?ops "[]" "HttpResponse_new True"]
      Inspector_serves_registered [of "''sys''" "''load''" "[]" "HttpRequest_new\<lparr>rq_path := ''/sys/load''\<rparr>"
        "HttpRequest_new\<lparr>rq_path := ''/''\<rparr>" ?ops "[]" "HttpResponse_new True"]
    by (simp add: path_of_def registered_def Let_def del: fold_simps)
qed

end
