(* ===== verification/Inet_Address.thy ===== *)
theory Inet_Address
  imports Endian
begin

text \<open>
  \<^verbatim>\<open>networking/InetAddress.cpp\<close>, the address functions of \<^verbatim>\<open>networking/SocketsOps.cpp\<close> and what
  \<^verbatim>\<open>networking/Socket.cpp\<close> adds to the system calls.

  An \<^verbatim>\<open>InetAddress\<close> is the union of \<^verbatim>\<open>sockaddr_in\<close> and \<^verbatim>\<open>sockaddr_in6\<close>: its 28 bytes, in which the fields
  are found at their offsets (family 0, port 2, IPv4 address 4, IPv6 address 8, scope id 24), so that
  the fields of the one can be read after the other was written. New memory is an argument. The texts
  of IPv4 addresses are those of \<^verbatim>\<open>inet_ntop\<close> and \<^verbatim>\<open>inet_pton\<close>; for IPv6 the two functions are arguments.
  System calls are represented by what they return.
\<close>

section \<open>The C library\<close>

definition AF_INET :: "16 word" where "AF_INET = 2"
definition AF_INET6 :: "16 word" where "AF_INET6 = 10"

definition inet_ntop4 :: "string \<Rightarrow> string" where
  "inet_ntop4 b =
     dec_nat (of_char (b ! 0)) @ ''.'' @ dec_nat (of_char (b ! 1)) @ ''.'' @
     dec_nat (of_char (b ! 2)) @ ''.'' @ dec_nat (of_char (b ! 3))"

fun split_dots :: "string \<Rightarrow> string list" where
  "split_dots [] = [[]]"
| "split_dots (c # s) =
     (if c = CHR ''.'' then [] # split_dots s
      else case split_dots s of [] \<Rightarrow> [[c]] | p # ps \<Rightarrow> (c # p) # ps)"

text \<open>A number of the dotted form: decimal, at most 255, without leading zeros.\<close>

definition octet :: "string \<Rightarrow> char option" where
  "octet s =
     (let n = dec_value s in if list_all (\<lambda>c. c \<in> set ''0123456789'') s \<and> n \<le> 255 \<and> dec_nat n = s then Some (char_of n) else None)"

definition inet_pton4 :: "string \<Rightarrow> string option" where
  "inet_pton4 s =
     (case map octet (split_dots s) of
        [Some a, Some b, Some c, Some d] \<Rightarrow> Some [a, b, c, d]
      | _ \<Rightarrow> None)"

section \<open>The object\<close>

record InetAddress =
  ia_mem :: string

definition put_at :: "nat \<Rightarrow> string \<Rightarrow> string \<Rightarrow> string" where
  "put_at off bytes mem = take off mem @ bytes @ drop (off + length bytes) mem"

definition zeros :: "nat \<Rightarrow> string" where
  "zeros n = replicate n (CHR 0x00)"

definition family :: "InetAddress \<Rightarrow> 16 word" where
  "family a = word_of_mem (subrange 0 2 (ia_mem a))"

definition portNetEndian :: "InetAddress \<Rightarrow> 16 word" where
  "portNetEndian a = word_of_mem (subrange 2 4 (ia_mem a))"

definition sin_addr :: "InetAddress \<Rightarrow> string" where
  "sin_addr a = subrange 4 8 (ia_mem a)"

definition sin6_addr :: "InetAddress \<Rightarrow> string" where
  "sin6_addr a = subrange 8 24 (ia_mem a)"

definition ia_port :: "InetAddress \<Rightarrow> 16 word" where
  "ia_port a = networkToHost16 (portNetEndian a)"

definition ipv4NetEndian :: "InetAddress \<Rightarrow> 32 word res" where
  "ipv4NetEndian a = require (family a = AF_INET) (Inr (word_of_mem (sin_addr a)))"

definition kInaddrAny :: "32 word" where "kInaddrAny = 0"
definition kInaddrLoopback :: "32 word" where "kInaddrLoopback = 0x7F000001"

definition InetAddress_port :: "string \<Rightarrow> 16 word \<Rightarrow> bool \<Rightarrow> bool \<Rightarrow> InetAddress" where
  "InetAddress_port mem portArg loopbackOnly ipv6 =
     (if ipv6 then
        let m = put_at 0 (mem_of_word AF_INET6) (put_at 0 (zeros 28) mem);
            m = put_at 8 (if loopbackOnly then zeros 15 @ [CHR 0x01] else zeros 16) m
        in \<lparr>ia_mem = put_at 2 (mem_of_word (hostToNetwork16 portArg)) m\<rparr>
      else
        let m = put_at 0 (mem_of_word AF_INET) (put_at 0 (zeros 16) mem);
            ip = (if loopbackOnly then kInaddrLoopback else kInaddrAny);
            m = put_at 4 (mem_of_word (hostToNetwork32 ip)) m
        in \<lparr>ia_mem = put_at 2 (mem_of_word (hostToNetwork16 portArg)) m\<rparr>)"

text \<open>\<^verbatim>\<open>fromIpPort\<close>: an address that cannot be read is logged and left as it was.\<close>

definition fromIpPort4 :: "string \<Rightarrow> 16 word \<Rightarrow> string \<Rightarrow> string" where
  "fromIpPort4 ip port mem =
     (let m = put_at 2 (mem_of_word (hostToNetwork16 port)) (put_at 0 (mem_of_word AF_INET) mem)
      in case inet_pton4 ip of None \<Rightarrow> m | Some b \<Rightarrow> put_at 4 b m)"

definition fromIpPort6 :: "(string \<Rightarrow> string option) \<Rightarrow> string \<Rightarrow> 16 word \<Rightarrow> string \<Rightarrow> string" where
  "fromIpPort6 inet_pton6 ip port mem =
     (let m = put_at 2 (mem_of_word (hostToNetwork16 port)) (put_at 0 (mem_of_word AF_INET6) mem)
      in case inet_pton6 ip of None \<Rightarrow> m | Some b \<Rightarrow> put_at 8 (take 16 b) m)"

definition InetAddress_ip ::
    "(string \<Rightarrow> string option) \<Rightarrow> string \<Rightarrow> string \<Rightarrow> 16 word \<Rightarrow> bool \<Rightarrow> InetAddress" where
  "InetAddress_ip inet_pton6 mem ip portArg ipv6 =
     (if ipv6 \<or> CHR '':'' \<in> set ip
      then \<lparr>ia_mem = fromIpPort6 inet_pton6 ip portArg (put_at 0 (zeros 28) mem)\<rparr>
      else \<lparr>ia_mem = fromIpPort4 ip portArg (put_at 0 (zeros 16) mem)\<rparr>)"

definition InetAddress_sockaddr_in :: "string \<Rightarrow> string \<Rightarrow> InetAddress" where
  "InetAddress_sockaddr_in mem addr = \<lparr>ia_mem = put_at 0 addr mem\<rparr>"

definition setSockAddrInet6 :: "string \<Rightarrow> InetAddress \<Rightarrow> InetAddress" where
  "setSockAddrInet6 addr6 a = a\<lparr>ia_mem := addr6\<rparr>"

definition setScopeId :: "32 word \<Rightarrow> InetAddress \<Rightarrow> InetAddress" where
  "setScopeId scope_id a =
     (if family a = AF_INET6 then a\<lparr>ia_mem := put_at 24 (mem_of_word scope_id) (ia_mem a)\<rparr> else a)"

text \<open>\<^verbatim>\<open>gethostbyname_r\<close> returns an error, no entry, or the type and the bytes of an address.\<close>

datatype host_answer = Host_error | Host_none | Host_entry "16 word" string

definition resolve :: "host_answer \<Rightarrow> InetAddress \<Rightarrow> (bool \<times> InetAddress) res" where
  "resolve answer out =
     (case answer of
        Host_entry h_addrtype h_addr \<Rightarrow>
          require (h_addrtype = AF_INET \<and> length h_addr = 4)
            (Inr (True, out\<lparr>ia_mem := put_at 4 h_addr (ia_mem out)\<rparr>))
      | _ \<Rightarrow> Inr (False, out))"

section \<open>Texts\<close>

text \<open>What is in \<^verbatim>\<open>buf\<close> afterwards, up to the terminating zero; \<open>buf\<close> is what was there.\<close>

definition sockets_toIp :: "(string \<Rightarrow> string) \<Rightarrow> string \<Rightarrow> nat \<Rightarrow> InetAddress \<Rightarrow> string res" where
  "sockets_toIp inet_ntop6 buf sz a =
     (if family a = AF_INET then require (16 \<le> sz) (Inr (inet_ntop4 (sin_addr a)))
      else if family a = AF_INET6 then require (46 \<le> sz) (Inr (inet_ntop6 (sin6_addr a)))
      else Inr buf)"

definition sockets_toIpPort :: "(string \<Rightarrow> string) \<Rightarrow> nat \<Rightarrow> InetAddress \<Rightarrow> string res" where
  "sockets_toIpPort inet_ntop6 sz a =
     (if family a = AF_INET6 then
        rbind (sockets_toIp inet_ntop6 [] (sz - 1) a) (\<lambda>ip.
        let buf = ''['' @ ip; fin = length buf in
        require (fin < sz)
          (Inr (buf @ snprintf_buf (sz - fin) ('']:'' @ dec_nat (unat (networkToHost16 (portNetEndian a)))))))
      else
        rbind (sockets_toIp inet_ntop6 [] sz a) (\<lambda>buf.
        let fin = length buf in
        require (fin < sz)
          (Inr (buf @ snprintf_buf (sz - fin) ('':'' @ dec_nat (unat (networkToHost16 (portNetEndian a))))))))"

definition toIp :: "(string \<Rightarrow> string) \<Rightarrow> InetAddress \<Rightarrow> string res" where
  "toIp inet_ntop6 a = sockets_toIp inet_ntop6 [] 64 a"

definition toIpPort :: "(string \<Rightarrow> string) \<Rightarrow> InetAddress \<Rightarrow> string res" where
  "toIpPort inet_ntop6 a = sockets_toIpPort inet_ntop6 64 a"

section \<open>Sockets\<close>

definition createNonblockingOrDie :: "int \<Rightarrow> int res" where
  "createNonblockingOrDie sockfd = (if sockfd < 0 then Inl Fatal else Inr sockfd)"

definition bindOrDie :: "int \<Rightarrow> unit res" where
  "bindOrDie ret = (if ret < 0 then Inl Fatal else Inr ())"

definition listenOrDie :: "int \<Rightarrow> unit res" where
  "listenOrDie ret = (if ret < 0 then Inl Fatal else Inr ())"

text \<open>The errors of \<^verbatim>\<open>accept4\<close> that the caller gets to see; any other one is fatal.\<close>

datatype accept_errno =
    EAGAIN | ECONNABORTED | EINTR | EPROTO | EPERM | EMFILE
  | EBADF | EFAULT | EINVAL | ENFILE | ENOBUFS | ENOMEM | ENOTSOCK | EOPNOTSUPP | Other_errno int

definition sockets_accept :: "int \<Rightarrow> int \<Rightarrow> accept_errno \<Rightarrow> int res" where
  "sockets_accept sockfd connfd errno =
     require (connfd \<noteq> sockfd)
       (if connfd < 0 then
          if errno \<in> {EAGAIN, ECONNABORTED, EINTR, EPROTO, EPERM, EMFILE} then Inr connfd else Inl Fatal
        else Inr connfd)"

definition Socket_accept ::
    "int \<Rightarrow> int \<Rightarrow> accept_errno \<Rightarrow> string \<Rightarrow> InetAddress \<Rightarrow> (int \<times> InetAddress) res" where
  "Socket_accept sockfd connfd errno addr peeraddr =
     rbind (sockets_accept sockfd connfd errno) (\<lambda>connfd.
     require (sockfd \<noteq> connfd)
       (Inr (connfd, if 0 \<le> connfd then setSockAddrInet6 addr peeraddr else peeraddr)))"

definition getSocketError :: "int \<Rightarrow> int \<Rightarrow> int \<Rightarrow> int" where
  "getSocketError ret errno optval = (if ret < 0 then errno else optval)"

text \<open>The bytes that \<^verbatim>\<open>getsockname\<close> or \<^verbatim>\<open>getpeername\<close> stored, zeros if it failed.\<close>

definition getAddr :: "string option \<Rightarrow> InetAddress" where
  "getAddr answer = \<lparr>ia_mem = (case answer of None \<Rightarrow> zeros 28 | Some m \<Rightarrow> put_at 0 m (zeros 28))\<rparr>"

definition isSelfConnect :: "string option \<Rightarrow> string option \<Rightarrow> bool" where
  "isSelfConnect local_answer peer_answer =
     (let localaddr = getAddr local_answer; peeraddr = getAddr peer_answer in
      if family localaddr = AF_INET then
        portNetEndian localaddr = portNetEndian peeraddr \<and> sin_addr localaddr = sin_addr peeraddr
      else if family localaddr = AF_INET6 then
        portNetEndian localaddr = portNetEndian peeraddr \<and> sin6_addr localaddr = sin6_addr peeraddr
      else False)"

section \<open>Memory\<close>

lemma length_put_at [simp]: "off + length bytes \<le> length mem \<Longrightarrow> length (put_at off bytes mem) = length mem"
  by (simp add: put_at_def)

lemma put_at_same: "off + length bytes \<le> length mem \<Longrightarrow> subrange off (off + length bytes) (put_at off bytes mem) = bytes"
  by (simp add: put_at_def subrange_def)

lemma put_at_before: "j \<le> off \<Longrightarrow> off \<le> length mem \<Longrightarrow> subrange i j (put_at off bytes mem) = subrange i j mem"
  by (simp add: put_at_def subrange_def drop_take)

lemma put_at_behind:
  "off + length bytes \<le> i \<Longrightarrow> off + length bytes \<le> length mem \<Longrightarrow>
   subrange i j (put_at off bytes mem) = subrange i j mem"
  by (simp add: put_at_def subrange_def)

lemma length_zeros [simp]: "length (zeros n) = n"
  by (simp add: zeros_def)

lemma length_mem16 [simp]: "length (mem_of_word (w :: 16 word)) = 2" and length_mem32 [simp]: "length (mem_of_word (v :: 32 word)) = 4"
  by simp_all

section \<open>Dotted addresses\<close>

lemma split_dots_nonempty: "split_dots s \<noteq> []"
  by (induction s) (auto split: list.splits)

lemma split_dots_append: "CHR ''.'' \<notin> set s \<Longrightarrow> split_dots (s @ ''.'' @ t) = s # split_dots t"
  by (induction s) auto

lemma split_dots_single: "CHR ''.'' \<notin> set s \<Longrightarrow> split_dots s = [s]"
  by (induction s) auto

lemma digit_char_digits: "d < 10 \<Longrightarrow> digit_char d \<in> set ''0123456789''"
proof -
  have "list_all (\<lambda>d. digit_char d \<in> set ''0123456789'') [0..<10]" by code_simp
  then show "d < 10 \<Longrightarrow> digit_char d \<in> set ''0123456789''" by (simp add: list_all_iff)
qed

lemma dec_nat_set: "set (dec_nat n) \<subseteq> set ''0123456789''"
  using dec_nat_digits digit_char_digits by blast

lemma dec_nat_no_dot: "CHR ''.'' \<notin> set (dec_nat n)" "CHR '':'' \<notin> set (dec_nat n)"
  using dec_nat_set [of n] by auto

lemma octet_dec_nat: "octet (dec_nat (of_char c)) = Some c"
proof -
  have "list_all (\<lambda>c. c \<in> set ''0123456789'') (dec_nat (of_char c))"
    unfolding list_all_iff using dec_nat_set by blast
  moreover have "(of_char c :: nat) \<le> 255"
    using nat_of_char_less_256 [of c] by linarith
  ultimately show ?thesis by (simp only: octet_def Let_def dec_value_dec_nat simp_thms if_True char_of_char)
qed

lemma inet_pton4_ntop4:
  assumes "length b = 4"
  shows "inet_pton4 (inet_ntop4 b) = Some b"
proof -
  obtain a1 a2 a3 a4 where b: "b = [a1, a2, a3, a4]"
    using assms by (auto simp: length_Suc_conv numeral_eq_Suc)
  have "split_dots (inet_ntop4 b) = map (\<lambda>c. dec_nat (of_char c)) b"
    by (simp add: b inet_ntop4_def split_dots_append [OF dec_nat_no_dot(1)] split_dots_single [OF dec_nat_no_dot(1)]
        del: append.simps)
  then show ?thesis by (simp add: inet_pton4_def b octet_dec_nat)
qed

lemma length_inet_ntop4: "length (inet_ntop4 b) \<le> 15"
proof -
  have "length (dec_nat (of_char c)) \<le> 3" for c :: char
    by (rule length_dec_nat [OF order_less_trans [OF nat_of_char_less_256]]) simp_all
  from this [of "b ! 0"] this [of "b ! 1"] this [of "b ! 2"] this [of "b ! 3"] show ?thesis
    by (simp add: inet_ntop4_def)
qed

lemma inet_ntop4_no_colon: "CHR '':'' \<notin> set (inet_ntop4 b)"
  using dec_nat_no_dot(2) by (auto simp: inet_ntop4_def)

section \<open>Addresses from texts\<close>

lemma port_roundtrip: "networkToHost16 (word_of_mem (mem_of_word (hostToNetwork16 p))) = p"
  by (simp add: mem_hostToNetwork networkToHost_be_bytes)

text \<open>The three fields of an address that \<^verbatim>\<open>fromIpPort\<close> has filled in.\<close>

lemma filled_fields:
  assumes "length m = 28" and off: "4 \<le> off" "off + length b \<le> 28"
    and a_def: "a = \<lparr>ia_mem = put_at off b (put_at 2 (mem_of_word (hostToNetwork16 port)) (put_at 0 (mem_of_word f) m))\<rparr>"
  shows "family a = f" "ia_port a = port" "subrange off (off + length b) (ia_mem a) = b"
proof -
  let ?head = "put_at 0 (mem_of_word f) m"
  let ?full = "put_at 2 (mem_of_word (hostToNetwork16 port)) ?head"
  have len: "length ?head = 28" "length ?full = 28" using assms(1) by simp_all
  have "subrange 0 2 ?head = mem_of_word f"
    using put_at_same [of 0 "mem_of_word f" m] assms(1) by (simp add: numeral_2_eq_2)
  then have "subrange 0 2 (ia_mem a) = mem_of_word f" using off len by (simp add: a_def put_at_before)
  then show "family a = f" by (simp add: family_def word_of_mem_of_word)
  have "subrange 2 4 (ia_mem a) = subrange 2 4 ?full" using off len by (simp add: a_def put_at_before)
  also have "\<dots> = mem_of_word (hostToNetwork16 port)"
    using put_at_same [of 2 "mem_of_word (hostToNetwork16 port)" ?head] len by simp
  finally show "ia_port a = port" by (simp add: ia_port_def portNetEndian_def port_roundtrip)
  show "subrange off (off + length b) (ia_mem a) = b" using off len by (simp add: a_def put_at_same)
qed

lemma InetAddress_ip4:
  assumes "length mem = 28" "length b = 4"
    and a_def: "a = InetAddress_ip pton6 mem (inet_ntop4 b) port False"
  shows "family a = AF_INET" "ia_port a = port" "sin_addr a = b"
proof -
  let ?m = "put_at 0 (zeros 16) mem"
  have a: "a = \<lparr>ia_mem = put_at 4 b (put_at 2 (mem_of_word (hostToNetwork16 port)) (put_at 0 (mem_of_word AF_INET) ?m))\<rparr>"
    using inet_ntop4_no_colon [of b] assms(2)
    by (simp add: a_def InetAddress_ip_def fromIpPort4_def inet_pton4_ntop4 Let_def)
  note f = filled_fields [of ?m 4 b, OF _ _ _ a]
  show "family a = AF_INET" "ia_port a = port" "sin_addr a = b"
    using f assms(1,2) by (simp_all add: sin_addr_def)
qed

lemma InetAddress_ip6:
  assumes "length mem = 28" "length b = 16" "pton6 ip = Some b" "CHR '':'' \<in> set ip"
    and a_def: "a = InetAddress_ip pton6 mem ip port v6"
  shows "family a = AF_INET6" "ia_port a = port" "sin6_addr a = b"
proof -
  let ?m = "put_at 0 (zeros 28) mem"
  have a: "a = \<lparr>ia_mem = put_at 8 b (put_at 2 (mem_of_word (hostToNetwork16 port)) (put_at 0 (mem_of_word AF_INET6) ?m))\<rparr>"
    using assms(2-4) by (simp add: a_def InetAddress_ip_def fromIpPort6_def Let_def)
  note f = filled_fields [of ?m 8 b, OF _ _ _ a]
  show "family a = AF_INET6" "ia_port a = port" "sin6_addr a = b"
    using f assms(1,2) by (simp_all add: sin6_addr_def)
qed

lemma length_port_text: "length (dec_nat (unat (p :: 16 word))) \<le> 5"
proof -
  have "unat p < 2 ^ LENGTH(16)" by (rule unsigned_less)
  then have "unat p < 10 ^ 5" by simp
  then show ?thesis by (rule length_dec_nat) simp
qed

lemma families_differ: "AF_INET \<noteq> AF_INET6"
  by (simp add: AF_INET_def AF_INET6_def)

section \<open>Self-connections\<close>

lemma isSelfConnect_spec:
  assumes "length l = 28" "length p = 28"
  shows "isSelfConnect (Some l) (Some p) \<longleftrightarrow>
    (let a = \<lparr>ia_mem = l\<rparr>; b = \<lparr>ia_mem = p\<rparr> in
     (family a = AF_INET \<and> sin_addr a = sin_addr b \<or> family a = AF_INET6 \<and> sin6_addr a = sin6_addr b) \<and>
     portNetEndian a = portNetEndian b)"
  using assms families_differ by (auto simp: isSelfConnect_def getAddr_def put_at_def Let_def)

section \<open>Properties\<close>

text \<open>
  C35: addresses survive the way through their texts. An address that is made from the text of an IPv4
  address and a port, with whatever was in its memory before, has this port, prints as this text, and
  prints with the port as \<^verbatim>\<open>ip:port\<close>; likewise for IPv6 with \<^verbatim>\<open>[ip]:port\<close>, if the library reads back what
  it prints. No text is cut off by the 64 bytes of the buffer, and distinct addresses have distinct texts.
\<close>

theorem InetAddress_text_roundtrip:
  assumes "length mem = 28" "length b = 4" "length b6 = 16"
    and "pton6 (ntop6 b6) = Some b6" "CHR '':'' \<in> set (ntop6 b6)" "length (ntop6 b6) \<le> 45"
  shows "(let a = InetAddress_ip pton6 mem (inet_ntop4 b) port False in
      toIp ntop6 a = Inr (inet_ntop4 b) \<and> ia_port a = port \<and> ipv4NetEndian a = Inr (word_of_mem b) \<and>
      toIpPort ntop6 a = Inr (inet_ntop4 b @ '':'' @ dec_nat (unat port))) \<and>
    (let a = InetAddress_ip pton6 mem (ntop6 b6) port v6 in
      toIp ntop6 a = Inr (ntop6 b6) \<and> ia_port a = port \<and>
      toIpPort ntop6 a = Inr (''['' @ ntop6 b6 @ '']:'' @ dec_nat (unat port))) \<and>
    inet_pton4 (inet_ntop4 b) = Some b"
proof (intro conjI)
  note four = InetAddress_ip4 [OF assms(1,2) refl, of pton6 port]
  show "let a = InetAddress_ip pton6 mem (inet_ntop4 b) port False in
      toIp ntop6 a = Inr (inet_ntop4 b) \<and> ia_port a = port \<and> ipv4NetEndian a = Inr (word_of_mem b) \<and>
      toIpPort ntop6 a = Inr (inet_ntop4 b @ '':'' @ dec_nat (unat port))"
    using four families_differ length_inet_ntop4 [of b] length_port_text [of port]
    by (simp add: toIp_def toIpPort_def sockets_toIp_def sockets_toIpPort_def ipv4NetEndian_def snprintf_buf_def Let_def
        flip: ia_port_def)
  note six = InetAddress_ip6 [of mem b6 pton6 "ntop6 b6", OF assms(1,3,4,5) refl, of port v6]
  show "let a = InetAddress_ip pton6 mem (ntop6 b6) port v6 in
      toIp ntop6 a = Inr (ntop6 b6) \<and> ia_port a = port \<and>
      toIpPort ntop6 a = Inr (''['' @ ntop6 b6 @ '']:'' @ dec_nat (unat port))"
    using six families_differ assms(6) length_port_text [of port]
    by (simp add: toIp_def toIpPort_def sockets_toIp_def sockets_toIpPort_def snprintf_buf_def Let_def flip: ia_port_def)
  show "inet_pton4 (inet_ntop4 b) = Some b" by (rule inet_pton4_ntop4 [OF assms(2)])
qed

theorem InetAddress_text_roundtrip_witness:
  "toIpPort (\<lambda>_. ''::1'')
     (InetAddress_ip (\<lambda>s. if s = ''::1'' then Some (zeros 15 @ [CHR 0x01]) else None) (zeros 28)
       (inet_ntop4 [CHR 0x7F, CHR 0x00, CHR 0x00, CHR 0x01]) 80 False) = Inr ''127.0.0.1:80''"
proof -
  have texts: "inet_ntop4 [CHR 0x7F, CHR 0x00, CHR 0x00, CHR 0x01] = ''127.0.0.1''" "dec_nat 80 = ''80''"
    by code_simp+
  show ?thesis
    using InetAddress_text_roundtrip [of "zeros 28" "[CHR 0x7F, CHR 0x00, CHR 0x00, CHR 0x01]" "zeros 15 @ [CHR 0x01]"
        "\<lambda>s. if s = ''::1'' then Some (zeros 15 @ [CHR 0x01]) else None" "\<lambda>_. ''::1''" 80 True]
    by (simp add: Let_def texts)
qed

end
