(* ===== verification/Socks.thy ===== *)
theory Socks
  imports Buffer Inet_Address
begin

text \<open>
  The proxies of \<^verbatim>\<open>networking-examples/socks4a/socks4a.cpp\<close> and
  \<^verbatim>\<open>networking-examples/socks5/socks5_proxy.cpp\<close>: the connection and message handlers.

  A handler yields the new state, the input buffer and the calls it makes on the connection and on
  tunnels, in order. A tunnel is represented by the address it connects to. The answers of
  \<^verbatim>\<open>gethostbyname_r\<close> are an argument, a function of the host name; so is whether the context of the
  connection holds the tunnel's other end. Bytes are read from the vector behind the buffer, as
  \<^verbatim>\<open>peek()[i]\<close> reads them, whether or not they have been received.

  The lemmas show that a request in its wire format is taken apart into the address and port that were
  asked for, and which input stops the process.
\<close>

datatype socks_action =
    Send_to_client string
  | Shutdown_client
  | Open_tunnel InetAddress
  | Relay string
  | Disconnect_tunnel

definition peek_at :: "nat \<Rightarrow> Buffer \<Rightarrow> char res" where
  "peek_at i b = (if peek b + i < length (buffer b) then Inr (buffer b ! (peek b + i)) else Inl Undefined)"

definition sockaddr_in :: "string \<Rightarrow> string \<Rightarrow> string" where
  "sockaddr_in port ip = mem_of_word AF_INET @ port @ ip @ zeros 8"

text \<open>The address that a host name resolves to, through a temporary \<^verbatim>\<open>InetAddress\<close>.\<close>

definition resolve_ip :: "(string \<Rightarrow> host_answer) \<Rightarrow> string \<Rightarrow> string \<Rightarrow> (string option) res" where
  "resolve_ip hosts mem hostname =
     rbind (resolve (hosts hostname) (InetAddress_port mem 0 False False)) (\<lambda>(ok, tmp).
     if ok then rbind (ipv4NetEndian tmp) (\<lambda>ip. Inr (Some (mem_of_word ip))) else Inr None)"

section \<open>SOCKS 4a\<close>

record Socks4 =
  s4_tunnels :: "(string, InetAddress) omap"

definition socks4_onServerConnection :: "bool \<Rightarrow> string \<Rightarrow> Socks4 \<Rightarrow> Socks4 \<times> socks_action list" where
  "socks4_onServerConnection connected name s =
     (if connected then (s, [])
      else case om_lookup (s4_tunnels s) name of
        None \<Rightarrow> (s, [])
      | Some t \<Rightarrow> (s\<lparr>s4_tunnels := om_erase name (s4_tunnels s)\<rparr>, [Disconnect_tunnel]))"

text \<open>The request, when a user id has been received: \<open>pos\<close> is the index of the zero behind it.\<close>

definition socks4_request ::
    "(string \<Rightarrow> host_answer) \<Rightarrow> string \<Rightarrow> string \<Rightarrow> nat \<Rightarrow> Socks4 \<Rightarrow> Buffer \<Rightarrow> (Socks4 \<times> Buffer \<times> socks_action list) res" where
  "socks4_request hosts mem name pos s buf =
     (let bytes = content buf; ver = bytes ! 0; cmd = bytes ! 1; port = subrange 2 4 bytes; ip = subrange 4 8 bytes;
          socks4a = (networkToHost32 (word_of_mem ip) < 256);
          hostpos = pos + 1 + find_char (CHR 0x00) (drop (pos + 1) bytes) in
      if socks4a \<and> hostpos = length bytes then Inr (s, buf, [])
      else
        rbind (if socks4a then
                 rbind (resolve_ip hosts mem (subrange (pos + 1) hostpos bytes)) (\<lambda>r.
                 Inr (case r of Some ip' \<Rightarrow> (ip', True) | None \<Rightarrow> (ip, False), hostpos))
               else Inr ((ip, True), pos)) (\<lambda>((ip, okay), pos).
        if ver = CHR 0x04 \<and> cmd = CHR 0x01 \<and> okay then
          let serverAddr = InetAddress_sockaddr_in mem (sockaddr_in port ip) in
          rbind (retrieveUntil (peek buf + pos + 1) buf) (\<lambda>buf.
          Inr (s\<lparr>s4_tunnels := om_update name serverAddr (s4_tunnels s)\<rparr>, buf,
               [Open_tunnel serverAddr, Send_to_client ([CHR 0x00, CHR 0x5A] @ port @ ip)]))
        else Inr (s, buf, [Send_to_client ([CHR 0x00, CHR 0x5B] @ ''UVWXYZ''), Shutdown_client])))"

definition socks4_onServerMessage ::
    "(string \<Rightarrow> host_answer) \<Rightarrow> string \<Rightarrow> string \<Rightarrow> bool \<Rightarrow> Socks4 \<Rightarrow> Buffer \<Rightarrow> (Socks4 \<times> Buffer \<times> socks_action list) res" where
  "socks4_onServerMessage hosts mem name has_context s buf =
     (if om_lookup (s4_tunnels s) name = None then
        if 128 < readableBytes buf then Inr (s, buf, [Shutdown_client])
        else if 8 < readableBytes buf then
          let bytes = content buf; pos = 8 + find_char (CHR 0x00) (drop 8 bytes) in
          if pos \<noteq> length bytes then socks4_request hosts mem name pos s buf else Inr (s, buf, [])
        else Inr (s, buf, [])
      else if has_context then Inr (s, retrieveAll buf, [Relay (content buf)])
      else Inr (s, buf, []))"

section \<open>SOCKS 5\<close>

definition DOMAIN_SIZE_LIMIT :: nat where "DOMAIN_SIZE_LIMIT = 512"

record Socks5 =
  s5_handshake :: "string set"
  s5_connect :: "string set"
  s5_tunnels :: "(string, InetAddress) omap"

text \<open>\<open>peer\<close> is \<^verbatim>\<open>conn->peerAddress().toIpPort()\<close>.\<close>

definition socks5_onServerConnection :: "bool \<Rightarrow> string \<Rightarrow> Socks5 \<Rightarrow> (Socks5 \<times> socks_action list) res" where
  "socks5_onServerConnection connected peer s =
     (if connected then
        require (peer \<notin> s5_handshake s) (require (peer \<notin> s5_connect s)
          (Inr (s\<lparr>s5_handshake := insert peer (s5_handshake s)\<rparr>, [])))
      else case om_lookup (s5_tunnels s) peer of
        None \<Rightarrow> Inr (s, [])
      | Some t \<Rightarrow> Inr (s\<lparr>s5_tunnels := om_erase peer (s5_tunnels s)\<rparr>, [Disconnect_tunnel]))"

definition socks5_greeting :: "string \<Rightarrow> Socks5 \<Rightarrow> Buffer \<Rightarrow> (Socks5 \<times> Buffer \<times> socks_action list) res" where
  "socks5_greeting peer s buf =
     require (peer \<notin> s5_connect s) (require (readableBytes buf \<le> 3)
       (if readableBytes buf < 3 then Inr (s, buf, [])
        else
          rbind (peek_at 0 buf) (\<lambda>b0. require (b0 = CHR 0x05) (
          rbind (peek_at 1 buf) (\<lambda>b1. require (b1 = CHR 0x01) (
          rbind (peek_at 2 buf) (\<lambda>b2. require (b2 = CHR 0x00) (
          rbind (retrieve 3 buf) (\<lambda>buf.
          Inr (s\<lparr>s5_handshake := s5_handshake s - {peer}, s5_connect := insert peer (s5_connect s)\<rparr>, buf,
               [Send_to_client [CHR 0x05, CHR 0x00]])))))))))) "

text \<open>
  The address of the request: \<^term>\<open>None\<close> while it is incomplete, otherwise port, address and
  \<^verbatim>\<open>processed_bytes\<close>. The length of a host name is an \<^verbatim>\<open>int8_t\<close>; the sum is converted to \<^verbatim>\<open>size_t\<close>, and so
  is a negative length in \<^verbatim>\<open>memcpy\<close>.
\<close>

definition int8_of_char :: "char \<Rightarrow> int" where
  "int8_of_char c = (let n = int (of_char c) in if n < 128 then n else n - 256)"

definition size_of_int :: "int \<Rightarrow> nat" where
  "size_of_int i = nat (i mod 2 ^ 64)"

definition socks5_address ::
    "(string \<Rightarrow> host_answer) \<Rightarrow> string \<Rightarrow> char \<Rightarrow> Buffer \<Rightarrow> ((string \<times> string \<times> nat) option) res" where
  "socks5_address hosts mem host_name_type buf =
     (let bytes = drop (peek buf) (buffer buf) in
      if host_name_type = CHR 0x01 then
        require (readableBytes buf \<le> 10)
          (if readableBytes buf < 10 then Inr None
           else Inr (Some (subrange 8 10 bytes, subrange 4 8 bytes, 6)))
      else
        rbind (peek_at 4 buf) (\<lambda>c.
        let host_name_len = int8_of_char c; connect_bytes_len = size_of_int (4 + host_name_len + 2 + 1) in
        require (readableBytes buf \<le> connect_bytes_len)
          (if readableBytes buf < connect_bytes_len then Inr None
           else if host_name_len < 0 then Inl Undefined
           else
             let n = nat host_name_len; host_name = take n (drop 5 bytes) in
             rbind (resolve_ip hosts mem (takeWhile (\<lambda>c. c \<noteq> CHR 0x00) host_name)) (\<lambda>r.
             case r of
               None \<Rightarrow> Inl Assert_failed
             | Some ip \<Rightarrow> Inr (Some (subrange (5 + n) (7 + n) bytes, ip, n + 3))))))"

definition socks5_connect_request ::
    "(string \<Rightarrow> host_answer) \<Rightarrow> string \<Rightarrow> string \<Rightarrow> Socks5 \<Rightarrow> Buffer \<Rightarrow> (Socks5 \<times> Buffer \<times> socks_action list) res" where
  "socks5_connect_request hosts mem peer s buf =
     require (peer \<notin> s5_handshake s) (require (readableBytes buf < DOMAIN_SIZE_LIMIT) (
     rbind (peek_at 0 buf) (\<lambda>b0. require (b0 = CHR 0x05) (
     rbind (peek_at 1 buf) (\<lambda>b1. require (b1 = CHR 0x01) (
     rbind (peek_at 2 buf) (\<lambda>b2. require (b2 = CHR 0x00) (
     rbind (peek_at 3 buf) (\<lambda>host_name_type. require (host_name_type = CHR 0x01 \<or> host_name_type = CHR 0x03) (
     rbind (socks5_address hosts mem host_name_type buf) (\<lambda>r.
     case r of
       None \<Rightarrow> Inr (s, buf, [])
     | Some (port, ip, processed_bytes) \<Rightarrow>
         let remote = InetAddress_sockaddr_in mem (sockaddr_in port ip) in
         require (readableBytes buf = 4 + processed_bytes)
           (Inr (s\<lparr>s5_tunnels := om_update peer remote (s5_tunnels s), s5_connect := s5_connect s - {peer}\<rparr>,
                 retrieveAll buf,
                 [Open_tunnel remote, Send_to_client [CHR 0x05, CHR 0x00, CHR 0x00, host_name_type],
                  Send_to_client (take processed_bytes (drop 4 (content buf)))])))))))))))))"

definition socks5_onServerMessage ::
    "(string \<Rightarrow> host_answer) \<Rightarrow> string \<Rightarrow> string \<Rightarrow> bool \<Rightarrow> Socks5 \<Rightarrow> Buffer \<Rightarrow> (Socks5 \<times> Buffer \<times> socks_action list) res" where
  "socks5_onServerMessage hosts mem peer has_context s buf =
     (if peer \<in> s5_handshake s then socks5_greeting peer s buf
      else if peer \<in> s5_connect s then socks5_connect_request hosts mem peer s buf
      else if has_context then Inr (s, retrieveAll buf, [Relay (content buf)])
      else Inl Assert_failed)"

section \<open>Addresses in requests\<close>

text \<open>The bytes of a well-formed buffer behind \<^verbatim>\<open>peek()\<close> begin with its content.\<close>

lemma peek_at_content: "Buffer_wf b \<Longrightarrow> i < length (content b) \<Longrightarrow> peek_at i b = Inr (content b ! i)"
  by (auto simp: peek_at_def peek_def content_def subrange_def Buffer_wf_def)

lemma content_bytes: "Buffer_wf b \<Longrightarrow> j \<le> length (content b) \<Longrightarrow> subrange i j (drop (peek b) (buffer b)) = subrange i j (content b)"
proof -
  assume "Buffer_wf b" "j \<le> length (content b)"
  then have "min (j - i) (writerIndex b - readerIndex b - i) = j - i" by simp
  then show "subrange i j (drop (peek b) (buffer b)) = subrange i j (content b)"
    by (simp add: peek_def content_def subrange_def drop_take)
qed

lemma sockaddr_in_fields:
  assumes "length mem = 28" "length ip = 4"
  shows "ia_port (InetAddress_sockaddr_in mem (sockaddr_in (be_bytes port) ip)) = port"
    "sin_addr (InetAddress_sockaddr_in mem (sockaddr_in (be_bytes port) ip)) = ip"
    "family (InetAddress_sockaddr_in mem (sockaddr_in (be_bytes port) ip)) = AF_INET"
  using assms
  by (simp_all add: InetAddress_sockaddr_in_def sockaddr_in_def ia_port_def portNetEndian_def sin_addr_def family_def
      put_at_def subrange_def networkToHost_be_bytes word_of_mem_of_word)

lemma resolve_ip_entry:
  assumes "hosts hostname = Host_entry AF_INET ip" "length ip = 4" "length mem = 28"
  shows "resolve_ip hosts mem hostname = Inr (Some ip)"
proof -
  let ?a = "InetAddress_port mem 0 False False"
  have len: "length (ia_mem ?a) = 28" using assms(3) by (simp add: InetAddress_port_def Let_def)
  have fam: "subrange 0 2 (ia_mem ?a) = mem_of_word AF_INET"
    using assms(3) by (simp add: InetAddress_port_def Let_def put_at_def subrange_def)
  define b where "b = ?a\<lparr>ia_mem := put_at 4 ip (ia_mem ?a)\<rparr>"
  have "family b = AF_INET" using len fam by (simp add: b_def family_def put_at_before word_of_mem_of_word)
  moreover have "sin_addr b = ip"
    using put_at_same [of 4 ip "ia_mem ?a"] len assms(2) by (simp add: b_def sin_addr_def)
  ultimately show ?thesis
    using assms(1,2) by (simp add: resolve_ip_def resolve_def b_def [symmetric] ipv4NetEndian_def mem_of_word_of_mem)
qed

lemma find_zero: "CHR 0x00 \<notin> set s \<Longrightarrow> find_char (CHR 0x00) (s @ CHR 0x00 # t) = length s"
  and find_no_zero: "CHR 0x00 \<notin> set s \<Longrightarrow> find_char (CHR 0x00) s = length s"
  by (induction s) (auto simp: find_char_def)

section \<open>Requests of SOCKS 4\<close>

definition socks4_header :: "16 word \<Rightarrow> string \<Rightarrow> string \<Rightarrow> string" where
  "socks4_header port ip user = [CHR 0x04, CHR 0x01] @ be_bytes port @ ip @ user @ [CHR 0x00]"

lemma be16: "length (be_bytes (p :: 16 word)) = 2"
  by simp

lemma header_parts:
  assumes "length ip = 4" "CHR 0x00 \<notin> set user" and bs: "bs = socks4_header port ip user @ rest"
  shows "bs ! 0 = CHR 0x04" "bs ! 1 = CHR 0x01" "subrange 2 4 bs = be_bytes port" "subrange 4 8 bs = ip"
    "8 + find_char (CHR 0x00) (drop 8 bs) = 8 + length user" "drop (8 + length user + 1) bs = rest"
    "length bs = 9 + length user + length rest"
proof -
  have d: "drop 8 bs = user @ CHR 0x00 # rest"
    using assms(1) be16 [of port] by (simp add: bs socks4_header_def)
  show "8 + find_char (CHR 0x00) (drop 8 bs) = 8 + length user" using find_zero [OF assms(2)] by (simp add: d)
  have "drop (8 + length user + 1) bs = drop (length user + 1) (drop 8 bs)" by (simp add: add.commute)
  then show "drop (8 + length user + 1) bs = rest" by (simp add: d)
qed (use assms(1) be16 [of port] in \<open>simp_all add: bs socks4_header_def subrange_def\<close>)

lemma retrieve_request:
  assumes "Buffer_wf buf" "k < length (content buf)"
  shows "\<exists>buf'. retrieveUntil (peek buf + k + 1) buf = Inr buf' \<and> Buffer_wf buf' \<and> content buf' = drop (k + 1) (content buf)"
  using retrieveUntil_ok [OF assms(1), of "k + 1"] retrieve_ok [OF assms(1), of "k + 1"] assms(2) by (auto simp: add.assoc)

text \<open>A complete request: the state, the rest of the input and the calls.\<close>

definition socks4_accepted ::
    "string \<Rightarrow> string \<Rightarrow> 16 word \<Rightarrow> string \<Rightarrow> string \<Rightarrow> Socks4 \<Rightarrow> (Socks4 \<times> Buffer \<times> socks_action list) res \<Rightarrow> bool" where
  "socks4_accepted mem name port ip rest s out \<longleftrightarrow>
     (\<exists>a buf'. out = Inr (s\<lparr>s4_tunnels := om_update name a (s4_tunnels s)\<rparr>, buf',
          [Open_tunnel a, Send_to_client ([CHR 0x00, CHR 0x5A] @ be_bytes port @ ip)]) \<and>
        family a = AF_INET \<and> ia_port a = port \<and> sin_addr a = ip \<and> Buffer_wf buf' \<and> content buf' = rest)"

lemma socks4_request_ip:
  assumes "Buffer_wf buf" "length mem = 28" "length ip = 4" "CHR 0x00 \<notin> set user"
    and "\<not> networkToHost32 (word_of_mem ip) < 256" and bs: "content buf = socks4_header port ip user @ rest"
  shows "socks4_accepted mem name port ip rest s (socks4_request hosts mem name (8 + length user) s buf)"
proof -
  note h = header_parts [OF assms(3,4) bs]
  obtain buf' where "retrieveUntil (peek buf + (8 + length user) + 1) buf = Inr buf'" "Buffer_wf buf'" "content buf' = rest"
    using retrieve_request [OF assms(1), of "8 + length user"] h(6,7) by auto
  then show ?thesis
    using h(1-4) assms(5) sockaddr_in_fields [OF assms(2,3), of port]
    by (auto simp: socks4_accepted_def socks4_request_def Let_def)
qed

lemma socks4_request_host:
  assumes "Buffer_wf buf" "length mem = 28" "length ip = 4" "CHR 0x00 \<notin> set user"
    and "networkToHost32 (word_of_mem ip) < 256" "CHR 0x00 \<notin> set host"
    and host: "hosts host = Host_entry AF_INET ip'" "length ip' = 4"
    and bs: "content buf = socks4_header port ip user @ host @ [CHR 0x00] @ rest"
  shows "socks4_accepted mem name port ip' rest s (socks4_request hosts mem name (8 + length user) s buf)"
proof -
  note h = header_parts [OF assms(3,4) bs]
  let ?pos = "8 + length user + 1"
  have fin: "find_char (CHR 0x00) (drop ?pos (content buf)) = length host"
    unfolding h(6) using find_zero [OF assms(6)] by simp
  have name: "subrange ?pos (?pos + length host) (content buf) = host"
    using h(6) by (simp add: subrange_def)
  have "drop (?pos + length host + 1) (content buf) = drop (length host + 1) (drop ?pos (content buf))"
    by (simp add: ac_simps)
  then have rest: "drop (?pos + length host + 1) (content buf) = rest" unfolding h(6) by simp
  have len: "?pos + length host < length (content buf)" using h(7) by simp
  obtain buf' where buf': "retrieveUntil (peek buf + (?pos + length host) + 1) buf = Inr buf'" "Buffer_wf buf'" "content buf' = rest"
    using retrieve_request [OF assms(1) len] rest by auto
  have r: "resolve_ip hosts mem host = Inr (Some ip')" by (rule resolve_ip_entry [of hosts host, OF host assms(2)])
  show ?thesis
    unfolding socks4_request_def Let_def fin
    using h(1-4) assms(5) sockaddr_in_fields [OF assms(2) host(2), of port] name r buf' len
    by (simp add: socks4_accepted_def)
qed

lemma socks4_dispatch:
  assumes "Buffer_wf buf" "length ip = 4" "CHR 0x00 \<notin> set user" "om_lookup (s4_tunnels s) name = None"
    and bs: "content buf = socks4_header port ip user @ rest" and "length (content buf) \<le> 128"
  shows "socks4_onServerMessage hosts mem name ctx s buf = socks4_request hosts mem name (8 + length user) s buf"
  using header_parts(5,7) [OF assms(2,3) bs] assms(1,4,6)
  by (simp add: socks4_onServerMessage_def Let_def readableBytes_content)

lemma socks4_waits_user:
  assumes "Buffer_wf buf" "length ip = 4" "CHR 0x00 \<notin> set user" "om_lookup (s4_tunnels s) name = None"
    and bs: "content buf = take k (socks4_header port ip user)" and "k < 9 + length user" "length (content buf) \<le> 128"
  shows "socks4_onServerMessage hosts mem name ctx s buf = Inr (s, buf, [])"
proof -
  have len: "length (socks4_header port ip user) = 9 + length user" using assms(2) by (simp add: socks4_header_def)
  have "drop 8 (content buf) = take (k - 8) (drop 8 (socks4_header port ip user))" by (simp add: bs drop_take)
  also have "drop 8 (socks4_header port ip user) = user @ [CHR 0x00]"
    using assms(2) be16 [of port] by (simp add: socks4_header_def)
  finally have "CHR 0x00 \<notin> set (drop 8 (content buf))" using assms(3,6) by (auto dest: in_set_takeD)
  then have "8 < length (content buf) \<Longrightarrow> 8 + find_char (CHR 0x00) (drop 8 (content buf)) = length (content buf)"
    by (simp add: find_no_zero)
  then show ?thesis
    using assms(1,4,7) by (simp add: socks4_onServerMessage_def Let_def readableBytes_content)
qed

lemma socks4_waits_host:
  assumes "Buffer_wf buf" "length ip = 4" "CHR 0x00 \<notin> set user" "om_lookup (s4_tunnels s) name = None"
    and "networkToHost32 (word_of_mem ip) < 256" "CHR 0x00 \<notin> set part"
    and bs: "content buf = socks4_header port ip user @ part" and "length (content buf) \<le> 128"
  shows "socks4_onServerMessage hosts mem name ctx s buf = Inr (s, buf, [])"
proof -
  note h = header_parts [OF assms(2,3) bs]
  have "find_char (CHR 0x00) (drop (8 + length user + 1) (content buf)) = length part"
    unfolding h(6) by (rule find_no_zero [OF assms(6)])
  then show ?thesis
    unfolding socks4_dispatch [OF assms(1-4) bs assms(8)] socks4_request_def Let_def
    using h(4,7) assms(5) by simp
qed

section \<open>SOCKS 5\<close>

lemma length_3_conv: "length xs = 3 \<longleftrightarrow> (\<exists>a b c. xs = [a, b, c])"
  by (auto simp: length_Suc_conv numeral_3_eq_3)

lemma socks5_greeting_cases:
  assumes wf: "Buffer_wf buf" and peer: "peer \<notin> s5_connect s"
  shows "socks5_greeting peer s buf =
    (if length (content buf) < 3 then Inr (s, buf, [])
     else if content buf = [CHR 0x05, CHR 0x01, CHR 0x00] then
       Inr (s\<lparr>s5_handshake := s5_handshake s - {peer}, s5_connect := insert peer (s5_connect s)\<rparr>, retrieveAll buf,
         [Send_to_client [CHR 0x05, CHR 0x00]])
     else Inl Assert_failed)"
proof (cases "length (content buf) = 3")
  case True
  then obtain a b c where bs: "content buf = [a, b, c]" by (auto simp: length_3_conv)
  have "retrieve 3 buf = Inr (retrieveAll buf)" using wf True by (simp add: retrieve_def readableBytes_content del: readableBytes_wf)
  then show ?thesis
    using wf peer bs peek_at_content [OF wf]
    by (simp add: socks5_greeting_def readableBytes_content require_def del: readableBytes_wf)
next
  case False
  then show ?thesis
    using wf peer by (auto simp: socks5_greeting_def readableBytes_content require_def simp del: readableBytes_wf length_content)
qed

lemma socks5_prefix:
  assumes wf: "Buffer_wf buf" and "peer \<notin> s5_handshake s" "length (content buf) < 512" "4 \<le> length (content buf)"
    and hd: "take 3 (content buf) = [CHR 0x05, CHR 0x01, CHR 0x00]"
    and kind: "content buf ! 3 = CHR 0x01 \<or> content buf ! 3 = CHR 0x03"
  shows "socks5_connect_request hosts mem peer s buf =
    rbind (socks5_address hosts mem (content buf ! 3) buf) (\<lambda>r.
     case r of
       None \<Rightarrow> Inr (s, buf, [])
     | Some (port, ip, processed_bytes) \<Rightarrow>
         let remote = InetAddress_sockaddr_in mem (sockaddr_in port ip) in
         require (length (content buf) = 4 + processed_bytes)
           (Inr (s\<lparr>s5_tunnels := om_update peer remote (s5_tunnels s), s5_connect := s5_connect s - {peer}\<rparr>,
                 retrieveAll buf,
                 [Open_tunnel remote, Send_to_client [CHR 0x05, CHR 0x00, CHR 0x00, content buf ! 3],
                  Send_to_client (take processed_bytes (drop 4 (content buf)))])))"
proof -
  have "content buf ! 0 = take 3 (content buf) ! 0" "content buf ! 1 = take 3 (content buf) ! 1"
    "content buf ! 2 = take 3 (content buf) ! 2"
    by simp_all
  then have "content buf ! 0 = CHR 0x05" "content buf ! 1 = CHR 0x01" "content buf ! 2 = CHR 0x00"
    unfolding hd by simp_all
  moreover have "peek_at 0 buf = Inr (content buf ! 0)" "peek_at 1 buf = Inr (content buf ! 1)"
    "peek_at 2 buf = Inr (content buf ! 2)" "peek_at 3 buf = Inr (content buf ! 3)"
    by (rule peek_at_content [OF wf], use assms(4) in linarith)+
  ultimately show ?thesis
    using assms(2-4) kind
    by (simp add: socks5_connect_request_def readableBytes_content [OF wf] DOMAIN_SIZE_LIMIT_def del: readableBytes_wf length_content)
qed

lemma socks5_connect_ip:
  assumes wf: "Buffer_wf buf" and peer: "peer \<notin> s5_handshake s" and ip: "length ip = 4"
    and bs: "content buf = [CHR 0x05, CHR 0x01, CHR 0x00, CHR 0x01] @ ip @ be_bytes (port :: 16 word)"
    and a: "a = InetAddress_sockaddr_in mem (sockaddr_in (be_bytes port) ip)"
  shows "socks5_connect_request hosts mem peer s buf =
    Inr (s\<lparr>s5_tunnels := om_update peer a (s5_tunnels s), s5_connect := s5_connect s - {peer}\<rparr>, retrieveAll buf,
      [Open_tunnel a, Send_to_client [CHR 0x05, CHR 0x00, CHR 0x00, CHR 0x01], Send_to_client (ip @ be_bytes port)])"
proof -
  have len: "length (content buf) = 10" using ip by (simp add: bs)
  have parts: "subrange 8 10 (content buf) = be_bytes port" "subrange 4 8 (content buf) = ip"
    using ip by (simp_all add: bs subrange_def)
  have "socks5_address hosts mem (CHR 0x01) buf = Inr (Some (be_bytes port, ip, 6))"
    using content_bytes [OF wf, of 10 8] content_bytes [OF wf, of 8 4] parts len
    by (simp add: socks5_address_def readableBytes_content [OF wf] Let_def del: readableBytes_wf length_content)
  then show ?thesis
    using socks5_prefix [OF wf peer, of hosts mem] len ip a
    by (simp add: bs readableBytes_content [OF wf] Let_def del: readableBytes_wf length_content)
qed

text \<open>The length byte of a long host name is read as a negative number.\<close>

lemma socks5_connect_long_name:
  assumes wf: "Buffer_wf buf" and peer: "peer \<notin> s5_handshake s" and len: "128 \<le> length host" "length host < 249"
    and bs: "content buf = [CHR 0x05, CHR 0x01, CHR 0x00, CHR 0x03, char_of (length host)] @ host @ be_bytes (port :: 16 word)"
  shows "socks5_connect_request hosts mem peer s buf = Inr (s, buf, [])"
proof -
  have n: "length (content buf) = length host + 7" by (simp add: bs)
  have c: "peek_at 4 buf = Inr (char_of (length host))" using peek_at_content [OF wf, of 4] n by (simp add: bs)
  have i: "int8_of_char (char_of (length host)) = int (length host) - 256" using len by (simp add: int8_of_char_def)
  have "(int (length host) - 249) mod 2 ^ 64 = (int (length host) - 249 + 2 ^ 64) mod 2 ^ 64"
    by (rule mod_add_self2 [symmetric])
  also have "\<dots> = int (length host) - 249 + 2 ^ 64" using len by (intro mod_pos_pos_trivial) simp_all
  finally have "length (content buf) < size_of_int (4 + (int (length host) - 256) + 2 + 1)"
    using len n by (simp add: size_of_int_def)
  then have "socks5_address hosts mem (CHR 0x03) buf = Inr None"
    using c i by (simp add: socks5_address_def readableBytes_content [OF wf] Let_def del: readableBytes_wf length_content)
  then show ?thesis
    using socks5_prefix [OF wf peer, of hosts mem] n len by (simp add: bs)
qed

section \<open>Properties\<close>



text \<open>
  C38: of a client in the greeting phase the SOCKS 5 proxy waits for three bytes, answers the greeting
  without authentication and then expects a request; any other greeting fails an assertion. A request for an IPv4
  address opens a tunnel to that address and port, reports success with the address and ends the phase. A
  request with a host name of 128 to 248 bytes, which the protocol allows, is taken for incomplete when it is complete.
\<close>

theorem socks5_phases:
  fixes port :: "16 word"
  assumes "Buffer_wf buf" "s5_handshake s \<inter> s5_connect s = {}" "length mem = 28"
  shows "let out = socks5_onServerMessage hosts mem peer has_context s buf; bytes = content buf in
     (peer \<in> s5_handshake s \<longrightarrow> out =
        (if length bytes < 3 then Inr (s, buf, [])
         else if bytes = [CHR 0x05, CHR 0x01, CHR 0x00] then
           Inr (s\<lparr>s5_handshake := s5_handshake s - {peer}, s5_connect := insert peer (s5_connect s)\<rparr>, retrieveAll buf,
             [Send_to_client [CHR 0x05, CHR 0x00]])
         else Inl Assert_failed)) \<and>
     (peer \<in> s5_connect s \<and> length ip = 4 \<and> bytes = [CHR 0x05, CHR 0x01, CHR 0x00, CHR 0x01] @ ip @ be_bytes port \<longrightarrow>
        (\<exists>a. family a = AF_INET \<and> ia_port a = port \<and> sin_addr a = ip \<and>
           out = Inr (s\<lparr>s5_tunnels := om_update peer a (s5_tunnels s), s5_connect := s5_connect s - {peer}\<rparr>, retrieveAll buf,
             [Open_tunnel a, Send_to_client [CHR 0x05, CHR 0x00, CHR 0x00, CHR 0x01], Send_to_client (ip @ be_bytes port)]))) \<and>
     (peer \<in> s5_connect s \<and> 128 \<le> length host \<and> length host < 249 \<and>
        bytes = [CHR 0x05, CHR 0x01, CHR 0x00, CHR 0x03, char_of (length host)] @ host @ be_bytes port \<longrightarrow>
        out = Inr (s, buf, []))"
proof -
  have other: "peer \<in> s5_handshake s \<Longrightarrow> peer \<notin> s5_connect s" "peer \<in> s5_connect s \<Longrightarrow> peer \<notin> s5_handshake s"
    using assms(2) by auto
  have tunnel: "\<exists>a. family a = AF_INET \<and> ia_port a = port \<and> sin_addr a = ip \<and>
      socks5_connect_request hosts mem peer s buf =
        Inr (s\<lparr>s5_tunnels := om_update peer a (s5_tunnels s), s5_connect := s5_connect s - {peer}\<rparr>, retrieveAll buf,
          [Open_tunnel a, Send_to_client [CHR 0x05, CHR 0x00, CHR 0x00, CHR 0x01], Send_to_client (ip @ be_bytes port)])"
    if "peer \<in> s5_connect s" "length ip = 4" "content buf = [CHR 0x05, CHR 0x01, CHR 0x00, CHR 0x01] @ ip @ be_bytes port"
    using socks5_connect_ip [OF assms(1) other(2) that(2,3) refl, of hosts mem] sockaddr_in_fields [OF assms(3) that(2), of port] that(1)
    by blast
  show ?thesis
    unfolding Let_def socks5_onServerMessage_def
    using socks5_greeting_cases [OF assms(1) other(1)] tunnel socks5_connect_long_name [OF assms(1) other(2), of host port hosts mem] other
    by (simp del: length_content)
qed

theorem socks5_phases_witness:
  "let s = \<lparr>s5_handshake = {''a:1''}, s5_connect = {}, s5_tunnels = []\<rparr>;
       ask = (\<lambda>bytes. socks5_onServerMessage (\<lambda>_. Host_error) (zeros 28) ''a:1'' False s (sample_buffer bytes))
   in ask [CHR 0x05, CHR 0x01, CHR 0x00] =
        Inr (\<lparr>s5_handshake = {}, s5_connect = {''a:1''}, s5_tunnels = []\<rparr>,
          retrieveAll (sample_buffer [CHR 0x05, CHR 0x01, CHR 0x00]), [Send_to_client [CHR 0x05, CHR 0x00]]) \<and>
      ask ''GET'' = Inl Assert_failed"
proof -
  have b: "Buffer_wf (sample_buffer [CHR 0x05, CHR 0x01, CHR 0x00])" "Buffer_wf (sample_buffer ''GET'')"
    "content (sample_buffer [CHR 0x05, CHR 0x01, CHR 0x00]) = [CHR 0x05, CHR 0x01, CHR 0x00]"
    "content (sample_buffer ''GET'') = ''GET''"
    by (rule sample_buffer_ok; simp)+
  let ?s = "\<lparr>s5_handshake = {''a:1''}, s5_connect = {}, s5_tunnels = []\<rparr>"
  show ?thesis
    using socks5_phases [OF b(1), of ?s "zeros 28" "\<lambda>_. Host_error" "''a:1''" False "[]" 0 "[]"]
      socks5_phases [OF b(2), of ?s "zeros 28" "\<lambda>_. Host_error" "''a:1''" False "[]" 0 "[]"] b(3,4)
    by (simp add: Let_def del: length_content)
qed

end
