(* ===== verification/Tunnel.thy ===== *)
theory Tunnel
  imports Tcp_Connection_Correct
begin

text \<open>
  The tunnel of the SOCKS proxies, \<^verbatim>\<open>networking-examples/socks4a/tunnel.h\<close>: two connections of one loop, one
  from the user of the proxy (\<^verbatim>\<open>serverConn_\<close>) and one to the requested host (\<^verbatim>\<open>clientConn_\<close>), each relaying
  to the other, with back pressure when a peer reads slowly.

  The connections are those of theory \<^verbatim>\<open>Tcp_Connection\<close>. \<open>tn_client\<close> is the connection of \<^verbatim>\<open>client_\<close>, \<open>tn_clientConn\<close>
  says that the pointer \<^verbatim>\<open>clientConn_\<close> is set, and \<open>tn_context\<close> that the context of \<^verbatim>\<open>serverConn_\<close> holds the other end.
  The last two fields record the bytes received from either side. The lemmas show that both streams are relayed
  unchanged and that a stopped side is always started again, while both ends are open.
\<close>

section \<open>The tunnel\<close>

datatype ServerClient = kServer | kClient

record Tunnel =
  tn_server :: TcpConnection
  tn_context :: bool
  tn_client :: TcpConnection
  tn_clientConn :: bool
  tn_fromServer :: string
  tn_fromClient :: string

definition tunnel_setup :: "Tunnel \<Rightarrow> Tunnel" where
  "tunnel_setup t = t\<lparr>tn_server := setHighWaterMarkCallback (1024 * 1024) (tn_server t)\<rparr>"

definition tunnel_teardown :: "nat \<Rightarrow> Tunnel \<Rightarrow> Tunnel res" where
  "tunnel_teardown tid t =
     rbind (tc_shutdown tid (tn_server t)) (\<lambda>s. Inr (t\<lparr>tn_context := False, tn_clientConn := False, tn_server := s\<rparr>))"

text \<open>Data that has arrived for the tunnel before the connection is sent on when it is up.\<close>

definition relay_to_client :: "nat \<Rightarrow> (string \<Rightarrow> write_result) \<Rightarrow> Tunnel \<Rightarrow> Tunnel res" where
  "relay_to_client tid write t =
     rbind (send_buffer tid (tc_inputBuffer (tn_server t)) write (tn_client t)) (\<lambda>(c, b).
     Inr (t\<lparr>tn_client := c, tn_server := (tn_server t)\<lparr>tc_inputBuffer := b\<rparr>\<rparr>))"

definition onClientConnection :: "nat \<Rightarrow> (string \<Rightarrow> write_result) \<Rightarrow> Tunnel \<Rightarrow> Tunnel res" where
  "onClientConnection tid write t =
     (if tc_connected (tn_client t) then
        rbind (startRead tid (tn_server t)) (\<lambda>s.
        let t = t\<lparr>tn_client := setHighWaterMarkCallback (1024 * 1024) (tn_client t), tn_server := s, tn_context := True,
              tn_clientConn := True\<rparr>
        in if 0 < readableBytes (tc_inputBuffer s) then relay_to_client tid write t else Inr t)
      else tunnel_teardown tid t)"

text \<open>\<^verbatim>\<open>serverConn_\<close> is never reset, so that the other branch of the test is not taken.\<close>

definition onClientMessage :: "nat \<Rightarrow> (string \<Rightarrow> write_result) \<Rightarrow> Tunnel \<Rightarrow> Tunnel res" where
  "onClientMessage tid write t =
     rbind (send_buffer tid (tc_inputBuffer (tn_client t)) write (tn_server t)) (\<lambda>(s, b).
     Inr (t\<lparr>tn_server := s, tn_client := (tn_client t)\<lparr>tc_inputBuffer := b\<rparr>\<rparr>))"

text \<open>The end of \<^verbatim>\<open>onServerMessage\<close> of the proxies, once the tunnel is there.\<close>

definition onTunnelMessage :: "nat \<Rightarrow> (string \<Rightarrow> write_result) \<Rightarrow> Tunnel \<Rightarrow> Tunnel res" where
  "onTunnelMessage tid write t = (if tn_context t then relay_to_client tid write t else Inr t)"

text \<open>A call through \<^verbatim>\<open>clientConn_\<close> after the teardown goes through a null pointer.\<close>

definition onHighWaterMark :: "nat \<Rightarrow> ServerClient \<Rightarrow> Tunnel \<Rightarrow> Tunnel res" where
  "onHighWaterMark tid which t =
     (case which of
        kServer \<Rightarrow>
          if 0 < readableBytes (tc_outputBuffer (tn_server t)) then
            if tn_clientConn t then
              rbind (stopRead tid (tn_client t)) (\<lambda>c.
              Inr (t\<lparr>tn_client := c, tn_server := setWriteCompleteCallback (tn_server t)\<rparr>))
            else Inl Undefined
          else Inr t
      | kClient \<Rightarrow>
          if tn_clientConn t then
            if 0 < readableBytes (tc_outputBuffer (tn_client t)) then
              rbind (stopRead tid (tn_server t)) (\<lambda>s.
              Inr (t\<lparr>tn_server := s, tn_client := setWriteCompleteCallback (tn_client t)\<rparr>))
            else Inr t
          else Inl Undefined)"

definition onWriteComplete :: "nat \<Rightarrow> ServerClient \<Rightarrow> Tunnel \<Rightarrow> Tunnel res" where
  "onWriteComplete tid which t =
     (if tn_clientConn t then
        (case which of
           kServer \<Rightarrow>
             rbind (startRead tid (tn_client t)) (\<lambda>c.
             Inr (t\<lparr>tn_client := c, tn_server := (tn_server t)\<lparr>tc_writeCompleteCallback := False\<rparr>\<rparr>))
         | kClient \<Rightarrow>
             rbind (startRead tid (tn_server t)) (\<lambda>s.
             Inr (t\<lparr>tn_server := s, tn_client := (tn_client t)\<lparr>tc_writeCompleteCallback := False\<rparr>\<rparr>)))
      else Inl Undefined)"

section \<open>The tunnel in its loop\<close>

text \<open>
  What the loop does to the two connections, with the callbacks that the tunnel and the proxy have set: a read,
  a write of buffered output, the next functor of a connection, and the ways up and down. The count of received
  bytes is left out.
\<close>

datatype tunnel_event =
    Readable ServerClient read_result write_result
  | Writable ServerClient write_result
  | Run_functor ServerClient
  | Client_up addr write_result
  | Client_down
  | Server_down

definition no_user :: user where "no_user = (\<lambda>_ _. [])"

definition client_down :: "Tunnel \<Rightarrow> Tunnel res" where
  "client_down t =
     rbind (handleClose no_user (tc_loopThread (tn_client t)) (tn_client t)) (\<lambda>c.
     onClientConnection (tc_loopThread c) (\<lambda>_. Wrote 0) (t\<lparr>tn_client := c\<rparr>))"

definition server_down :: "Tunnel \<Rightarrow> Tunnel res" where
  "server_down t =
     rbind (handleClose no_user (tc_loopThread (tn_server t)) (tn_server t)) (\<lambda>s.
     rbind (tc_shutdown (tc_loopThread s) (tn_client t)) (\<lambda>c. Inr (t\<lparr>tn_server := s, tn_client := c\<rparr>)))"

definition server_readable :: "read_result \<Rightarrow> write_result \<Rightarrow> Tunnel \<Rightarrow> Tunnel res" where
  "server_readable r w t =
     rbind (readFd (kernel_readv r) (tc_inputBuffer (tn_server t))) (\<lambda>(r, b).
     let t = t\<lparr>tn_server := (tn_server t)\<lparr>tc_inputBuffer := b\<rparr>\<rparr> in
     case r of
       Read_data bytes \<Rightarrow>
         if bytes = [] then server_down t
         else onTunnelMessage (tc_loopThread (tn_server t)) (kernel_write w) (t\<lparr>tn_fromServer := tn_fromServer t @ bytes\<rparr>)
     | Read_error e \<Rightarrow> Inr t)"

definition client_readable :: "read_result \<Rightarrow> write_result \<Rightarrow> Tunnel \<Rightarrow> Tunnel res" where
  "client_readable r w t =
     rbind (readFd (kernel_readv r) (tc_inputBuffer (tn_client t))) (\<lambda>(r, b).
     let t = t\<lparr>tn_client := (tn_client t)\<lparr>tc_inputBuffer := b\<rparr>\<rparr> in
     case r of
       Read_data bytes \<Rightarrow>
         if bytes = [] then client_down t
         else onClientMessage (tc_loopThread (tn_client t)) (kernel_write w) (t\<lparr>tn_fromClient := tn_fromClient t @ bytes\<rparr>)
     | Read_error e \<Rightarrow> Inr t)"

text \<open>The connections are used in their loop only, so that these callbacks are all they ever queue.\<close>

fun run_tunnel_functor :: "ServerClient \<Rightarrow> tc_functor \<Rightarrow> Tunnel \<Rightarrow> Tunnel res" where
  "run_tunnel_functor which Write_complete t = onWriteComplete (tc_loopThread (tn_server t)) which t"
| "run_tunnel_functor which (High_water_mark n) t = onHighWaterMark (tc_loopThread (tn_server t)) which t"
| "run_tunnel_functor which f t = Inr t"

fun tn_step :: "tunnel_event \<Rightarrow> Tunnel \<Rightarrow> Tunnel res" where
  "tn_step (Readable kServer r w) t = server_readable r w t"
| "tn_step (Readable kClient r w) t = client_readable r w t"
| "tn_step (Writable kServer w) t =
     rbind (handleWrite (tc_loopThread (tn_server t)) (kernel_write w) (tn_server t)) (\<lambda>s. Inr (t\<lparr>tn_server := s\<rparr>))"
| "tn_step (Writable kClient w) t =
     rbind (handleWrite (tc_loopThread (tn_client t)) (kernel_write w) (tn_client t)) (\<lambda>c. Inr (t\<lparr>tn_client := c\<rparr>))"
| "tn_step (Run_functor kServer) t =
     (case tc_pending (tn_server t) of
        [] \<Rightarrow> Inr t
      | f # fs \<Rightarrow> run_tunnel_functor kServer f (t\<lparr>tn_server := (tn_server t)\<lparr>tc_pending := fs\<rparr>\<rparr>))"
| "tn_step (Run_functor kClient) t =
     (case tc_pending (tn_client t) of
        [] \<Rightarrow> Inr t
      | f # fs \<Rightarrow> run_tunnel_functor kClient f (t\<lparr>tn_client := (tn_client t)\<lparr>tc_pending := fs\<rparr>\<rparr>))"
| "tn_step (Client_up self w) t =
     rbind (connectEstablished no_user (tc_loopThread (tn_client t)) self (tn_client t)) (\<lambda>c.
     onClientConnection (tc_loopThread c) (kernel_write w) (t\<lparr>tn_client := c\<rparr>))"
| "tn_step Client_down t = client_down t"
| "tn_step Server_down t = server_down t"

text \<open>
  The events that are taken into account: reads and closes of open connections, and the callbacks of the flow control
  while both ends are open. What the callbacks do later is shown separately.
\<close>

fun tn_enabled :: "tunnel_event \<Rightarrow> Tunnel \<Rightarrow> bool" where
  "tn_enabled (Readable kServer r w) t = tc_open (tn_server t)"
| "tn_enabled (Readable kClient r w) t = tc_open (tn_client t)"
| "tn_enabled (Writable kServer w) t = True"
| "tn_enabled (Writable kClient w) t = (tc_state (tn_client t) \<noteq> kConnecting)"
| "tn_enabled (Run_functor which) t = (tc_open (tn_server t) \<and> tc_open (tn_client t))"
| "tn_enabled (Client_up self w) t = (tc_state (tn_client t) = kConnecting \<and> tc_open (tn_server t))"
| "tn_enabled Client_down t = tc_open (tn_client t)"
| "tn_enabled Server_down t = tc_open (tn_server t)"

section \<open>What the connections keep\<close>

definition relay_functor :: "tc_functor \<Rightarrow> bool" where
  "relay_functor f \<longleftrightarrow> f = Write_complete \<or> (\<exists>n. f = High_water_mark n)"

text \<open>Output is left, or the functor that reports its end is queued.\<close>

definition draining :: "TcpConnection \<Rightarrow> bool" where
  "draining c \<longleftrightarrow> content (tc_outputBuffer c) \<noteq> [] \<or> Write_complete \<in> set (tc_pending c)"

definition tc_keeps :: "TcpConnection \<Rightarrow> TcpConnection \<Rightarrow> bool" where
  "tc_keeps c c' \<longleftrightarrow> tc_inputBuffer c' = tc_inputBuffer c \<and> tc_reading c' = tc_reading c \<and>
     isReading (tc_channel c') = isReading (tc_channel c) \<and> tc_writeCompleteCallback c' = tc_writeCompleteCallback c \<and>
     (list_all relay_functor (tc_pending c) \<longrightarrow> list_all relay_functor (tc_pending c')) \<and>
     set (tc_pending c) \<subseteq> set (tc_pending c')"

text \<open>The effect of an operation that hands the bytes \<open>s\<close> to the output path.\<close>

definition tc_adds :: "string \<Rightarrow> TcpConnection \<Rightarrow> TcpConnection \<Rightarrow> bool" where
  "tc_adds s c c' \<longleftrightarrow> tc_inv c' \<and> tc_moves c c' \<and> tc_keeps c c' \<and> tc_sent c' = tc_sent c @ s \<and>
     (tc_writeCompleteCallback c \<and> draining c \<longrightarrow> draining c')"

lemma tc_keeps_refl [simp]: "tc_keeps c c"
  by (simp add: tc_keeps_def)

lemma tc_adds_refl: "tc_inv c \<Longrightarrow> tc_adds [] c c"
  by (simp add: tc_adds_def)

lemma read_bits:
  "has_bits (e OR kReadEvent) kReadEvent"
  "has_bits (e OR kWriteEvent) kReadEvent \<longleftrightarrow> has_bits e kReadEvent"
  "\<not> has_bits (e AND NOT kReadEvent) kReadEvent"
  "has_bits (e AND NOT kWriteEvent) kReadEvent \<longleftrightarrow> has_bits e kReadEvent"
  "\<not> has_bits 0 kReadEvent"
proof -
  have *: "kWriteEvent AND kReadEvent = 0" "kReadEvent AND kReadEvent = kReadEvent" "kReadEvent \<noteq> 0"
    by (simp_all add: kReadEvent_def kWriteEvent_def poll_bits)
  then have n: "NOT kWriteEvent AND kReadEvent = kReadEvent"
    by (simp add: kReadEvent_def kWriteEvent_def poll_bits)
  show "has_bits (e OR kReadEvent) kReadEvent"
    "has_bits (e OR kWriteEvent) kReadEvent \<longleftrightarrow> has_bits e kReadEvent"
    "\<not> has_bits (e AND NOT kReadEvent) kReadEvent"
    "has_bits (e AND NOT kWriteEvent) kReadEvent \<longleftrightarrow> has_bits e kReadEvent"
    "\<not> has_bits 0 kReadEvent"
    by (simp_all add: has_bits_def bit.conj_disj_distrib2 and.assoc * n or_eq_0_iff)
qed

lemma tc_events_reading [simp]:
  "isReading (tc_channel (tc_enableReading c))"
  "\<not> isReading (tc_channel (tc_disableReading c))"
  "isReading (tc_channel (tc_enableWriting c)) = isReading (tc_channel c)"
  "isReading (tc_channel (tc_disableWriting c)) = isReading (tc_channel c)"
  by (simp_all add: tc_event_ops tc_events_def isReading_def read_bits)

lemma try_write_keeps:
  assumes "try_write data len write c = (c', n, r, f)"
  shows "tc_keeps c c'" "tc_sent c' = tc_sent c" "tc_outputBuffer c' = tc_outputBuffer c"
  using assms
  by (auto simp: try_write_def tc_keeps_def tc_queueInLoop_def tc_socket_write_def relay_functor_def Let_def
      split: if_splits write_result.splits)

lemma buffer_rest_keeps:
  assumes "buffer_rest data n r c = Inr c'"
  shows "tc_keeps c c'" "tc_sent c' = tc_sent c"
  using assms
  by (auto simp: buffer_rest_def tc_keeps_def tc_queueInLoop_def relay_functor_def Let_def rbind_Inr_iff split: if_splits)

lemma tc_keeps_trans: "tc_keeps a b \<Longrightarrow> tc_keeps b c \<Longrightarrow> tc_keeps a c"
  by (auto simp: tc_keeps_def)

lemma writing_draining: "tc_inv c \<Longrightarrow> tc_open c \<Longrightarrow> isWriting (tc_channel c) \<Longrightarrow> draining c"
  by (auto simp: tc_inv_defs tc_open_def draining_def)

lemma draining_keeps: "tc_keeps c c' \<Longrightarrow> Write_complete \<in> set (tc_pending c) \<Longrightarrow> draining c'"
  by (auto simp: tc_keeps_def draining_def)

lemma sendInLoop_adds:
  assumes inv: "tc_inv c" and "open": "tc_open c" and len: "len \<le> length data" "len \<le> max_size"
  shows "sendInLoop (tc_loopThread c) data len (kernel_write w) c = Inl Length_error \<or>
    (\<exists>c'. sendInLoop (tc_loopThread c) data len (kernel_write w) c = Inr c' \<and> tc_adds (take len data) c c')"
proof (cases "sendInLoop (tc_loopThread c) data len (kernel_write w) c")
  case (Inl e)
  then show ?thesis using sendInLoop_post [OF inv "open" refl len, of w] by simp
next
  case (Inr c')
  then have post: "tc_inv c'" "tc_moves c c'" using sendInLoop_post [OF inv "open" refl len, of w] by simp_all
  define c0 where "c0 = c\<lparr>tc_sent := tc_sent c @ take len data\<rparr>"
  obtain c1 n r f where t: "try_write data len (kernel_write w) c0 = (c1, n, r, f)"
    by (cases "try_write data len (kernel_write w) c0") auto
  have r: "(if \<not> f \<and> 0 < r then buffer_rest data n r c1 else Inr c1) = Inr c'"
    using Inr t len by (auto simp: sendInLoop_def tc_inLoop_def require_Inr_iff simp flip: c0_def split: if_splits)
  have "tc_keeps c1 c'" "tc_sent c' = tc_sent c1" using r buffer_rest_keeps [of data n r c1 c'] by (auto split: if_splits)
  moreover have c0: "tc_keeps c c0" "tc_sent c0 = tc_sent c @ take len data" by (simp_all add: c0_def tc_keeps_def)
  ultimately have keeps: "tc_keeps c c'" "tc_sent c' = tc_sent c @ take len data"
    using try_write_keeps [OF t] by (auto intro: tc_keeps_trans)
  have "draining c'" if "draining c"
  proof (cases "\<not> f \<and> 0 < r")
    case True
    then have "isWriting (tc_channel c')" using r buffer_rest_writing [of data n r c1 c'] by simp
    then show ?thesis using writing_draining [of c'] post "open" by (auto simp: tc_moves_def tc_open_def)
  next
    case False
    then have "c' = c1" using r by auto
    then have "tc_outputBuffer c' = tc_outputBuffer c" using try_write_keeps(3) [OF t] by (simp add: c0_def)
    then show ?thesis using that draining_keeps [OF keeps(1)] by (auto simp: draining_def)
  qed
  then show ?thesis using Inr post keeps by (simp add: tc_adds_def)
qed

lemma send_buffer_adds:
  assumes inv: "tc_inv c" and wf: "Buffer_wf m"
  shows "send_buffer (tc_loopThread c) m (kernel_write w) c = Inl Length_error \<or>
    (\<exists>c' m' s. send_buffer (tc_loopThread c) m (kernel_write w) c = Inr (c', m') \<and> tc_adds s c c' \<and> Buffer_wf m' \<and>
       content m = s @ content m' \<and> (tc_state c = kConnected \<longrightarrow> content m' = []))"
proof (cases "tc_state c = kConnected")
  case True
  have len: "readableBytes m \<le> length (content m)" "readableBytes m \<le> max_size" "readableBytes m = length (content m)"
    using Buffer_wfD [OF wf] wf by (simp_all add: max_size_def)
  have all: "take (readableBytes m) (content m) = content m" unfolding len(3) by simp
  have "Buffer_wf (retrieveAll m)" "content (retrieveAll m) = []" using wf by simp_all
  then show ?thesis
    using sendInLoop_adds [OF inv _ len(1,2), of w] True by (auto simp: send_buffer_def tc_open_def all)
next
  case False
  then show ?thesis using tc_adds_refl [OF inv] wf by (auto simp: send_buffer_def)
qed

lemma shutdownInLoop_eq:
  "shutdownInLoop (tc_loopThread c) c = Inr (if isWriting (tc_channel c) then c else tc_shutdownWrite c)"
  by (simp add: shutdownInLoop_def tc_inLoop_def)

lemma shutdown_adds:
  assumes "tc_inv c"
  shows "\<exists>c'. tc_shutdown (tc_loopThread c) c = Inr c' \<and> tc_adds [] c c' \<and>
    (tc_state c' = kConnected \<longrightarrow> c' = c)"
proof -
  have "\<exists>c'. tc_shutdown (tc_loopThread c) c = Inr c' \<and> tc_keeps c c' \<and> tc_sent c' = tc_sent c \<and>
      tc_outputBuffer c' = tc_outputBuffer c \<and> (tc_state c' = kConnected \<longrightarrow> c' = c)"
    using shutdownInLoop_eq [of "setState kDisconnecting c"]
    by (auto simp: tc_shutdown_def tc_runInLoop_def tc_keeps_def tc_shutdownWrite_def setState_def)
  then show ?thesis using tc_shutdown_post [OF assms, of "tc_loopThread c"] by (auto simp: tc_adds_def draining_def tc_keeps_def)
qed

lemma shutdownInLoop_keeps:
  "tc_keeps c e \<Longrightarrow> tc_loopThread e = tc_loopThread c \<Longrightarrow>
   \<exists>c'. shutdownInLoop (tc_loopThread c) e = Inr c' \<and> tc_keeps c c' \<and> tc_sent c' = tc_sent e \<and>
     tc_pending c' = tc_pending e \<and> tc_outputBuffer c' = tc_outputBuffer e"
  using shutdownInLoop_eq [of e] by (simp add: tc_shutdownWrite_def tc_keeps_def)

lemma handleWrite_keeps:
  assumes inv: "tc_inv c" and writing: "isWriting (tc_channel c)" and ne: "content (tc_outputBuffer c) \<noteq> []" and m: "0 < m"
  shows "\<exists>c'. handleWrite (tc_loopThread c) (kernel_write (Wrote m)) c = Inr c' \<and> tc_keeps c c' \<and> tc_sent c' = tc_sent c \<and>
    (tc_writeCompleteCallback c \<longrightarrow> draining c')"
proof -
  have wf: "Buffer_wf (tc_outputBuffer c)" using inv by (simp add: tc_inv_defs)
  define n where "n = min m (length (content (tc_outputBuffer c)))"
  have n: "0 < n" using m ne by (simp add: n_def del: length_content)
  obtain out where out: "retrieve n (tc_outputBuffer c) = Inr out" "Buffer_wf out"
    using retrieve_ok [OF wf, of n] by (auto simp: n_def)
  define d where "d = (tc_socket_write (take n (content (tc_outputBuffer c))) c)\<lparr>tc_outputBuffer := out\<rparr>"
  define e where "e = (if tc_writeCompleteCallback (tc_disableWriting d)
    then tc_queueInLoop Write_complete (tc_disableWriting d) else tc_disableWriting d)"
  note eq = handleWrite_wrote [OF writing n n_def out d_def e_def]
  have d: "tc_keeps c d" "tc_sent d = tc_sent c" "tc_outputBuffer d = out"
    by (simp_all add: d_def tc_keeps_def tc_socket_write_def)
  have e: "tc_keeps c e" "tc_sent e = tc_sent c" "tc_loopThread e = tc_loopThread c"
    "tc_writeCompleteCallback c \<longrightarrow> Write_complete \<in> set (tc_pending e)"
    by (auto simp: e_def d_def tc_keeps_def tc_socket_write_def tc_queueInLoop_def relay_functor_def)
  show ?thesis using shutdownInLoop_keeps [OF e(1,3)] d e(1,2,4) by (auto simp: eq draining_def)
qed

lemma handleWrite_adds:
  assumes inv: "tc_inv c" and st: "tc_state c \<noteq> kConnecting"
  shows "\<exists>c'. handleWrite (tc_loopThread c) (kernel_write w) c = Inr c' \<and> tc_adds [] c c'"
proof (cases "isWriting (tc_channel c) \<and> (\<exists>m. w = Wrote m \<and> 0 < m)")
  case False
  then show ?thesis using tc_adds_refl [OF inv] by (cases w) (auto simp: handleWrite_def tc_inLoop_def)
next
  case True
  then obtain m where w: "w = Wrote m" "0 < m" and writing: "isWriting (tc_channel c)" by blast
  then have "content (tc_outputBuffer c) \<noteq> []"
    using inv isNoneEvent_not_writing [of "tc_channel c"] by (auto simp: tc_inv_defs split: if_splits)
  from handleWrite_keeps [OF inv writing this w(2)] handleWrite_post [OF inv st, of w] show ?thesis
    by (auto simp: tc_adds_def w(1) simp del: kernel_write.simps)
qed

lemma startRead_effect:
  assumes "tc_inv c" "tc_open c"
  shows "\<exists>c'. startRead (tc_loopThread c) c = Inr c' \<and> tc_inv c' \<and> tc_moves c c' \<and> tc_state c' = tc_state c \<and>
    tc_reading c' \<and> isReading (tc_channel c') \<and>
    tc_inputBuffer c' = tc_inputBuffer c \<and> tc_outputBuffer c' = tc_outputBuffer c \<and> tc_sent c' = tc_sent c \<and>
    tc_pending c' = tc_pending c \<and> tc_writeCompleteCallback c' = tc_writeCompleteCallback c"
  using startReadInLoop_post [OF assms] by (auto simp: startRead_def tc_runInLoop_def startReadInLoop_def tc_inLoop_def)

lemma stopRead_effect:
  assumes "tc_inv c"
  shows "\<exists>c'. stopRead (tc_loopThread c) c = Inr c' \<and> tc_inv c' \<and> tc_moves c c' \<and> tc_state c' = tc_state c \<and>
    \<not> tc_reading c' \<and> \<not> isReading (tc_channel c') \<and>
    tc_inputBuffer c' = tc_inputBuffer c \<and> tc_outputBuffer c' = tc_outputBuffer c \<and> tc_sent c' = tc_sent c \<and>
    tc_pending c' = tc_pending c \<and> tc_writeCompleteCallback c' = tc_writeCompleteCallback c"
  using stopReadInLoop_post [OF assms] by (auto simp: stopRead_def tc_runInLoop_def stopReadInLoop_def tc_inLoop_def)

lemma no_user_ok: "user_ok no_user"
  by (simp add: user_ok_def no_user_def)

lemma no_callback: "run_callback no_user i cb c = Inr c"
  by (simp add: run_callback_def no_user_def)

lemma handleClose_effect:
  assumes "tc_inv c" "tc_open c"
  shows "\<exists>c'. handleClose no_user (tc_loopThread c) c = Inr c' \<and> tc_inv c' \<and> tc_state c' = kDisconnected \<and>
    tc_loopThread c' = tc_loopThread c \<and> tc_reading c' = tc_reading c \<and>
    tc_inputBuffer c' = tc_inputBuffer c \<and> tc_outputBuffer c' = tc_outputBuffer c \<and> tc_sent c' = tc_sent c \<and>
    tc_pending c' = tc_pending c \<and> tc_writeCompleteCallback c' = tc_writeCompleteCallback c"
  using handleClose_result [OF no_user_ok assms] assms(2)
  by (auto simp: handleClose_def tc_inLoop_def tc_open_def connectionCallback_def no_callback setState_def)

lemma connectEstablished_effect:
  assumes "tc_inv c" "tc_state c = kConnecting"
  shows "\<exists>c'. connectEstablished no_user (tc_loopThread c) self c = Inr c' \<and> tc_inv c' \<and> tc_state c' = kConnected \<and>
    tc_loopThread c' = tc_loopThread c \<and> tc_reading c' = tc_reading c \<and> isReading (tc_channel c') \<and>
    tc_inputBuffer c' = tc_inputBuffer c \<and> tc_outputBuffer c' = tc_outputBuffer c \<and> tc_sent c' = tc_sent c \<and>
    tc_pending c' = tc_pending c \<and> tc_writeCompleteCallback c' = tc_writeCompleteCallback c"
  using connectEstablished_result [OF no_user_ok assms, of self] assms(2)
  by (auto simp: connectEstablished_def tc_inLoop_def connectionCallback_def no_callback setState_def Let_def)

section \<open>The invariant\<close>

text \<open>The output of one end governs the reading of the other.\<close>

definition flow :: "TcpConnection \<Rightarrow> TcpConnection \<Rightarrow> bool" where
  "flow c other \<longleftrightarrow> (tc_writeCompleteCallback c \<longleftrightarrow> \<not> tc_reading other) \<and> (tc_writeCompleteCallback c \<longrightarrow> draining c)"

definition end_ok :: "TcpConnection \<Rightarrow> bool" where
  "end_ok c \<longleftrightarrow> tc_inv c \<and> list_all relay_functor (tc_pending c) \<and>
     (tc_open c \<longrightarrow> (tc_reading c \<longleftrightarrow> isReading (tc_channel c)))"

definition tn_links :: "Tunnel \<Rightarrow> bool" where
  "tn_links t \<longleftrightarrow> tc_loopThread (tn_client t) = tc_loopThread (tn_server t) \<and> tc_state (tn_server t) \<noteq> kConnecting \<and>
     tn_context t = tn_clientConn t \<and> (tn_clientConn t \<longleftrightarrow> tc_open (tn_client t)) \<and>
     (tc_state (tn_client t) = kConnecting \<longrightarrow> tc_reading (tn_server t) \<and> tc_reading (tn_client t))"

text \<open>\<open>base\<close> is what the proxy itself has sent to its user.\<close>

definition tn_relayed :: "string \<Rightarrow> Tunnel \<Rightarrow> bool" where
  "tn_relayed base t \<longleftrightarrow>
     base @ tn_fromClient t = tc_sent (tn_server t) @ content (tc_inputBuffer (tn_client t)) \<and>
     tn_fromServer t = tc_sent (tn_client t) @ content (tc_inputBuffer (tn_server t)) \<and>
     (tc_state (tn_server t) = kConnected \<longrightarrow> content (tc_inputBuffer (tn_client t)) = []) \<and>
     (tc_state (tn_client t) = kConnected \<longrightarrow> content (tc_inputBuffer (tn_server t)) = [])"

definition tn_inv :: "string \<Rightarrow> Tunnel \<Rightarrow> bool" where
  "tn_inv base t \<longleftrightarrow> end_ok (tn_server t) \<and> end_ok (tn_client t) \<and> tn_links t \<and> tn_relayed base t \<and>
     flow (tn_server t) (tn_client t) \<and> flow (tn_client t) (tn_server t)"

definition tn_good :: "string \<Rightarrow> Tunnel res \<Rightarrow> bool" where
  "tn_good base r \<longleftrightarrow> (case r of Inl e \<Rightarrow> e = Length_error | Inr t \<Rightarrow> tn_inv base t)"

lemma tn_good_simps [simp]:
  "tn_good base (Inl e) \<longleftrightarrow> e = Length_error" "tn_good base (Inr t) \<longleftrightarrow> tn_inv base t"
  by (simp_all add: tn_good_def)

text \<open>One end takes more output, or writes some.\<close>

lemma tc_addsD:
  assumes "tc_adds s c c'"
  shows "tc_sent c' = tc_sent c @ s" "tc_inputBuffer c' = tc_inputBuffer c" "tc_loopThread c' = tc_loopThread c"
    "tc_state c' = kConnected \<Longrightarrow> tc_state c = kConnected" "tc_state c' = kConnecting \<longleftrightarrow> tc_state c = kConnecting"
    "tc_open c' \<longleftrightarrow> tc_open c" "tc_writeCompleteCallback c' = tc_writeCompleteCallback c" "tc_reading c' = tc_reading c"
  using assms by (auto simp: tc_adds_def tc_keeps_def tc_moves_def tc_open_def)

lemma adds_end_ok: "end_ok c \<Longrightarrow> tc_adds s c c' \<Longrightarrow> end_ok c'"
  using tc_addsD(6) [of s c c'] by (simp add: end_ok_def tc_adds_def tc_keeps_def)

lemma adds_flow: "tc_adds s c c' \<Longrightarrow> flow c other \<Longrightarrow> flow c' other" "tc_adds s c c' \<Longrightarrow> flow other c \<Longrightarrow> flow other c'"
  using tc_addsD(7,8) [of s c c'] by (auto simp: flow_def tc_adds_def)

lemma adds_links:
  assumes "tn_links t"
  shows "tc_adds s (tn_server t) c' \<Longrightarrow> tn_links (t\<lparr>tn_server := c'\<rparr>)"
    "tc_adds s (tn_client t) c' \<Longrightarrow> tn_links (t\<lparr>tn_client := c'\<rparr>)"
  using assms tc_addsD(3,5,6,8) [of s "tn_server t" c'] tc_addsD(3,5,6,8) [of s "tn_client t" c'] by (simp_all add: tn_links_def)

lemma adds_relayed:
  assumes "tn_relayed base t"
  shows "tc_adds [] (tn_server t) c' \<Longrightarrow> tn_relayed base (t\<lparr>tn_server := c'\<rparr>)"
    "tc_adds [] (tn_client t) c' \<Longrightarrow> tn_relayed base (t\<lparr>tn_client := c'\<rparr>)"
  using assms tc_addsD [of "[]" "tn_server t" c'] tc_addsD [of "[]" "tn_client t" c'] by (simp_all add: tn_relayed_def)

lemma adds_nothing:
  assumes "tn_inv base t"
  shows "tc_adds [] (tn_server t) c' \<Longrightarrow> tn_inv base (t\<lparr>tn_server := c'\<rparr>)"
    "tc_adds [] (tn_client t) c' \<Longrightarrow> tn_inv base (t\<lparr>tn_client := c'\<rparr>)"
  using assms adds_links [of t "[]" c'] adds_relayed [of base t c'] adds_end_ok [of _ "[]" c'] adds_flow [of "[]" _ c']
  unfolding tn_inv_def by simp_all blast+

text \<open>The bytes of a message go from the input of one end to the output of the other.\<close>

lemma relay_ends:
  assumes ends: "end_ok src" "end_ok dst" and flows: "flow src dst" "flow dst src"
  obtains "send_buffer (tc_loopThread dst) (tc_inputBuffer src) (kernel_write w) dst = Inl Length_error"
  | dst' b s where "send_buffer (tc_loopThread dst) (tc_inputBuffer src) (kernel_write w) dst = Inr (dst', b)"
    "tc_adds s dst dst'" "end_ok (src\<lparr>tc_inputBuffer := b\<rparr>)" "end_ok dst'"
    "flow (src\<lparr>tc_inputBuffer := b\<rparr>) dst'" "flow dst' (src\<lparr>tc_inputBuffer := b\<rparr>)"
    "content (tc_inputBuffer src) = s @ content b" "tc_state dst = kConnected \<longrightarrow> content b = []"
proof -
  have inv: "tc_inv dst" "Buffer_wf (tc_inputBuffer src)" using ends by (simp_all add: end_ok_def tc_inv_defs)
  consider "send_buffer (tc_loopThread dst) (tc_inputBuffer src) (kernel_write w) dst = Inl Length_error"
    | dst' b s where "send_buffer (tc_loopThread dst) (tc_inputBuffer src) (kernel_write w) dst = Inr (dst', b)"
      "tc_adds s dst dst'" "Buffer_wf b" "content (tc_inputBuffer src) = s @ content b"
      "tc_state dst = kConnected \<longrightarrow> content b = []"
    using send_buffer_adds [OF inv, of w] by blast
  then show ?thesis
  proof cases
    case 2
    have "end_ok (src\<lparr>tc_inputBuffer := b\<rparr>)" using ends(1) 2(3) by (simp add: end_ok_def tc_inv_defs tc_open_def)
    moreover have "flow (src\<lparr>tc_inputBuffer := b\<rparr>) dst" "flow dst (src\<lparr>tc_inputBuffer := b\<rparr>)"
      using flows by (simp_all add: flow_def draining_def)
    ultimately show ?thesis
      using that(2) [OF 2(1,2)] adds_end_ok [OF ends(2) 2(2)] adds_flow [OF 2(2)] 2(4,5) by blast
  qed (rule that(1))
qed

definition tn_received :: "string \<Rightarrow> Tunnel \<Rightarrow> bool" where
  "tn_received base t \<longleftrightarrow> end_ok (tn_server t) \<and> end_ok (tn_client t) \<and> tn_links t \<and>
     flow (tn_server t) (tn_client t) \<and> flow (tn_client t) (tn_server t) \<and>
     base @ tn_fromClient t = tc_sent (tn_server t) @ content (tc_inputBuffer (tn_client t)) \<and>
     tn_fromServer t = tc_sent (tn_client t) @ content (tc_inputBuffer (tn_server t))"

lemma tn_inv_received:
  "tn_inv base t \<longleftrightarrow> tn_received base t \<and>
     (tc_state (tn_server t) = kConnected \<longrightarrow> content (tc_inputBuffer (tn_client t)) = []) \<and>
     (tc_state (tn_client t) = kConnected \<longrightarrow> content (tc_inputBuffer (tn_server t)) = [])"
  by (auto simp: tn_inv_def tn_received_def tn_relayed_def)

lemma relay_good:
  assumes t: "tn_received base t"
    and empty: "tc_state (tn_server t) = kConnected \<longrightarrow> content (tc_inputBuffer (tn_client t)) = []"
  shows "tn_good base (relay_to_client (tc_loopThread (tn_client t)) (kernel_write w) t)"
proof -
  have ok: "end_ok (tn_server t)" "end_ok (tn_client t)" "flow (tn_server t) (tn_client t)" "flow (tn_client t) (tn_server t)"
    "tn_links t"
    using t by (simp_all add: tn_received_def)
  show ?thesis
  proof (rule relay_ends [OF ok(1-4), of w])
    fix c' b s assume r: "send_buffer (tc_loopThread (tn_client t)) (tc_inputBuffer (tn_server t)) (kernel_write w) (tn_client t) = Inr (c', b)"
      "tc_adds s (tn_client t) c'" "end_ok ((tn_server t)\<lparr>tc_inputBuffer := b\<rparr>)" "end_ok c'"
      "flow ((tn_server t)\<lparr>tc_inputBuffer := b\<rparr>) c'" "flow c' ((tn_server t)\<lparr>tc_inputBuffer := b\<rparr>)"
      "content (tc_inputBuffer (tn_server t)) = s @ content b" "tc_state (tn_client t) = kConnected \<longrightarrow> content b = []"
    have "tn_links (t\<lparr>tn_client := c', tn_server := (tn_server t)\<lparr>tc_inputBuffer := b\<rparr>\<rparr>)"
      using adds_links(2) [OF ok(5) r(2)] by (simp add: tn_links_def)
    then show ?thesis
      using t empty r tc_addsD [OF r(2)] by (simp add: relay_to_client_def tn_inv_received tn_received_def)
  qed (simp add: relay_to_client_def)
qed

lemma onClientMessage_good:
  assumes t: "tn_received base t"
    and empty: "tc_state (tn_client t) = kConnected \<longrightarrow> content (tc_inputBuffer (tn_server t)) = []"
  shows "tn_good base (onClientMessage (tc_loopThread (tn_server t)) (kernel_write w) t)"
proof -
  have ok: "end_ok (tn_client t)" "end_ok (tn_server t)" "flow (tn_client t) (tn_server t)" "flow (tn_server t) (tn_client t)"
    "tn_links t"
    using t by (simp_all add: tn_received_def)
  show ?thesis
  proof (rule relay_ends [OF ok(1-4), of w])
    fix s' b d assume r: "send_buffer (tc_loopThread (tn_server t)) (tc_inputBuffer (tn_client t)) (kernel_write w) (tn_server t) = Inr (s', b)"
      "tc_adds d (tn_server t) s'" "end_ok ((tn_client t)\<lparr>tc_inputBuffer := b\<rparr>)" "end_ok s'"
      "flow ((tn_client t)\<lparr>tc_inputBuffer := b\<rparr>) s'" "flow s' ((tn_client t)\<lparr>tc_inputBuffer := b\<rparr>)"
      "content (tc_inputBuffer (tn_client t)) = d @ content b" "tc_state (tn_server t) = kConnected \<longrightarrow> content b = []"
    have "tn_links (t\<lparr>tn_server := s', tn_client := (tn_client t)\<lparr>tc_inputBuffer := b\<rparr>\<rparr>)"
      using adds_links(1) [OF ok(5) r(2)] by (simp add: tn_links_def tc_open_def)
    then show ?thesis
      using t empty r tc_addsD [OF r(2)] by (simp add: onClientMessage_def tn_inv_received tn_received_def)
  qed (simp add: onClientMessage_def)
qed

section \<open>Every event\<close>

lemma teardown_good:
  assumes "tn_received base t'" "t' = t\<lparr>tn_context := False, tn_clientConn := False\<rparr>"
    and "tc_state (tn_server t) = kConnected \<longrightarrow> content (tc_inputBuffer (tn_client t)) = []"
    and "tc_state (tn_client t) = kDisconnected"
  shows "tn_good base (tunnel_teardown (tc_loopThread (tn_server t)) t)"
proof -
  have t': "tn_inv base t'" using assms by (simp add: tn_inv_received)
  then have "tc_inv (tn_server t)" using assms(2) by (simp add: tn_inv_def end_ok_def)
  from shutdown_adds [OF this] obtain s where s: "tc_shutdown (tc_loopThread (tn_server t)) (tn_server t) = Inr s"
    "tc_adds [] (tn_server t') s" using assms(2) by auto
  from adds_nothing(1) [OF t' s(2)] show ?thesis using s(1) assms(2) by (simp add: tunnel_teardown_def)
qed

lemma client_down_good:
  assumes inv: "tn_inv base t" and "open": "tc_open (tn_client t)"
  shows "tn_good base (client_down t)"
proof -
  have "tc_inv (tn_client t)" using inv by (simp add: tn_inv_def end_ok_def)
  from handleClose_effect [OF this "open"] obtain c where
    c: "handleClose no_user (tc_loopThread (tn_client t)) (tn_client t) = Inr c" "tc_inv c" "tc_state c = kDisconnected"
      "tc_loopThread c = tc_loopThread (tn_client t)" "tc_reading c = tc_reading (tn_client t)"
      "tc_inputBuffer c = tc_inputBuffer (tn_client t)" "tc_outputBuffer c = tc_outputBuffer (tn_client t)"
      "tc_sent c = tc_sent (tn_client t)" "tc_pending c = tc_pending (tn_client t)"
      "tc_writeCompleteCallback c = tc_writeCompleteCallback (tn_client t)"
    by blast
  have tid: "tc_loopThread (tn_client t) = tc_loopThread (tn_server t)" using inv by (simp add: tn_inv_def tn_links_def)
  have "tn_received base (t\<lparr>tn_client := c, tn_context := False, tn_clientConn := False\<rparr>)"
    using inv c(2-) by (simp add: tn_inv_received tn_received_def end_ok_def tn_links_def flow_def draining_def tc_open_def)
  then have "tn_good base (tunnel_teardown (tc_loopThread (tn_server t)) (t\<lparr>tn_client := c\<rparr>))"
    using inv c(3,6) teardown_good [of base _ "t\<lparr>tn_client := c\<rparr>"] by (simp add: tn_inv_received)
  then show ?thesis
    using c(1,3,4) tid by (simp add: client_down_def onClientConnection_def tc_connected_def)
qed

lemma server_down_good:
  assumes inv: "tn_inv base t" and "open": "tc_open (tn_server t)"
  shows "tn_good base (server_down t)"
proof -
  have "tc_inv (tn_server t)" using inv by (simp add: tn_inv_def end_ok_def)
  from handleClose_effect [OF this "open"] obtain s where
    s: "handleClose no_user (tc_loopThread (tn_server t)) (tn_server t) = Inr s" "tc_inv s" "tc_state s = kDisconnected"
      "tc_loopThread s = tc_loopThread (tn_server t)" "tc_reading s = tc_reading (tn_server t)"
      "tc_inputBuffer s = tc_inputBuffer (tn_server t)" "tc_outputBuffer s = tc_outputBuffer (tn_server t)"
      "tc_sent s = tc_sent (tn_server t)" "tc_pending s = tc_pending (tn_server t)"
      "tc_writeCompleteCallback s = tc_writeCompleteCallback (tn_server t)"
    by blast
  have t: "tn_inv base (t\<lparr>tn_server := s\<rparr>)"
    using inv s(2-) by (simp add: tn_inv_received tn_received_def end_ok_def tn_links_def flow_def draining_def tc_open_def)
  then have "tc_inv (tn_client t)" by (simp add: tn_inv_def end_ok_def)
  from shutdown_adds [OF this] obtain c where c: "tc_shutdown (tc_loopThread (tn_client t)) (tn_client t) = Inr c"
    "tc_adds [] (tn_client t) c" by blast
  have "tc_loopThread s = tc_loopThread (tn_client t)" using inv s(4) by (simp add: tn_inv_def tn_links_def)
  with adds_nothing(2) [OF t, of c] c s(1) show ?thesis by (simp add: server_down_def)
qed

lemma append_more: "a @ b = c @ d \<Longrightarrow> a @ b @ e = c @ d @ e"
  by (metis append_assoc)

lemma end_ok_input: "end_ok c \<Longrightarrow> Buffer_wf b \<Longrightarrow> end_ok (c\<lparr>tc_inputBuffer := b\<rparr>)"
  by (simp add: end_ok_def tc_inv_defs tc_open_def)

lemma input_received:
  assumes "tn_inv base t" "Buffer_wf b"
  shows "content b = content (tc_inputBuffer (tn_server t)) @ bytes \<Longrightarrow>
      tn_received base (t\<lparr>tn_server := (tn_server t)\<lparr>tc_inputBuffer := b\<rparr>, tn_fromServer := tn_fromServer t @ bytes\<rparr>)"
    "content b = content (tc_inputBuffer (tn_client t)) @ bytes \<Longrightarrow>
      tn_received base (t\<lparr>tn_client := (tn_client t)\<lparr>tc_inputBuffer := b\<rparr>, tn_fromClient := tn_fromClient t @ bytes\<rparr>)"
  using assms append_more [of base "tn_fromClient t" "tc_sent (tn_server t)" "content (tc_inputBuffer (tn_client t))" bytes]
  by (simp_all add: tn_inv_received tn_received_def end_ok_input tn_links_def tc_open_def flow_def draining_def)

lemma server_readable_good:
  assumes inv: "tn_inv base t" and "open": "tc_open (tn_server t)"
  shows "tn_good base (server_readable r w t)"
proof -
  have "Buffer_wf (tc_inputBuffer (tn_server t))" using inv by (simp add: tn_inv_def end_ok_def tc_inv_defs)
  from readFd_total [OF this kernel_readv_bounded, of r] show ?thesis
  proof (elim disjE exE conjE)
    fix r' b assume rd: "readFd (kernel_readv r) (tc_inputBuffer (tn_server t)) = Inr (r', b)" "Buffer_wf b"
      "content b = content (tc_inputBuffer (tn_server t)) @ (case r' of Read_data bytes \<Rightarrow> bytes | Read_error e \<Rightarrow> [])"
    let ?t = "t\<lparr>tn_server := (tn_server t)\<lparr>tc_inputBuffer := b\<rparr>\<rparr>"
    show ?thesis
    proof (cases "\<exists>bytes. r' = Read_data bytes \<and> bytes \<noteq> []")
      case False
      then have "content b = content (tc_inputBuffer (tn_server t)) @ []" using rd(3) by (cases r') auto
      then have "tn_inv base ?t" using input_received(1) [OF inv rd(2), of "[]"] inv by (simp add: tn_inv_received)
      then show ?thesis
        using server_down_good [of base ?t] "open" False rd(1) by (cases r') (auto simp: server_readable_def tc_open_def)
    next
      case True
      then obtain bytes where bytes: "r' = Read_data bytes" "bytes \<noteq> []" by blast
      define t' where "t' = ?t\<lparr>tn_fromServer := tn_fromServer t @ bytes\<rparr>"
      have t': "tn_received base t'" using input_received(1) [OF inv rd(2), of bytes] rd(3) bytes by (simp add: t'_def)
      moreover have c: "tc_state (tn_server t') = kConnected \<longrightarrow> content (tc_inputBuffer (tn_client t')) = []"
        "tc_loopThread (tn_server t') = tc_loopThread (tn_client t')"
        "\<not> tn_context t' \<Longrightarrow> tc_state (tn_client t') \<noteq> kConnected"
        using inv by (auto simp: t'_def tn_inv_received tn_received_def tn_links_def tc_open_def)
      ultimately have "tn_good base (onTunnelMessage (tc_loopThread (tn_server t')) (kernel_write w) t')"
        using relay_good [of base t' w] by (auto simp: onTunnelMessage_def tn_inv_received)
      then show ?thesis using rd(1) bytes by (simp add: server_readable_def t'_def)
    qed
  qed (simp add: server_readable_def)
qed

lemma client_readable_good:
  assumes inv: "tn_inv base t" and "open": "tc_open (tn_client t)"
  shows "tn_good base (client_readable r w t)"
proof -
  have "Buffer_wf (tc_inputBuffer (tn_client t))" using inv by (simp add: tn_inv_def end_ok_def tc_inv_defs)
  from readFd_total [OF this kernel_readv_bounded, of r] show ?thesis
  proof (elim disjE exE conjE)
    fix r' b assume rd: "readFd (kernel_readv r) (tc_inputBuffer (tn_client t)) = Inr (r', b)" "Buffer_wf b"
      "content b = content (tc_inputBuffer (tn_client t)) @ (case r' of Read_data bytes \<Rightarrow> bytes | Read_error e \<Rightarrow> [])"
    let ?t = "t\<lparr>tn_client := (tn_client t)\<lparr>tc_inputBuffer := b\<rparr>\<rparr>"
    show ?thesis
    proof (cases "\<exists>bytes. r' = Read_data bytes \<and> bytes \<noteq> []")
      case False
      then have "content b = content (tc_inputBuffer (tn_client t)) @ []" using rd(3) by (cases r') auto
      then have "tn_inv base ?t" using input_received(2) [OF inv rd(2), of "[]"] inv by (simp add: tn_inv_received)
      then show ?thesis
        using client_down_good [of base ?t] "open" False rd(1) by (cases r') (auto simp: client_readable_def tc_open_def)
    next
      case True
      then obtain bytes where bytes: "r' = Read_data bytes" "bytes \<noteq> []" by blast
      define t' where "t' = ?t\<lparr>tn_fromClient := tn_fromClient t @ bytes\<rparr>"
      have "tn_received base t'" using input_received(2) [OF inv rd(2), of bytes] rd(3) bytes by (simp add: t'_def)
      moreover have "tc_state (tn_client t') = kConnected \<longrightarrow> content (tc_inputBuffer (tn_server t')) = []"
        "tc_loopThread (tn_client t') = tc_loopThread (tn_server t')"
        using inv by (auto simp: t'_def tn_inv_received tn_received_def tn_links_def)
      ultimately have "tn_good base (onClientMessage (tc_loopThread (tn_client t')) (kernel_write w) t')"
        using onClientMessage_good [of base t' w] by simp
      then show ?thesis using rd(1) bytes by (simp add: client_readable_def t'_def)
    qed
  qed (simp add: client_readable_def)
qed

text \<open>Stopping and starting one end for the other.\<close>

lemma end_ok_pop: "end_ok c \<Longrightarrow> tc_pending c = f # fs \<Longrightarrow> end_ok (c\<lparr>tc_pending := fs\<rparr>)"
  using tc_pending_inv [of c f fs] by (simp add: end_ok_def tc_open_def)

lemma stop_other:
  assumes ends: "end_ok c" "end_ok other" and flows: "flow c other" "flow other c" and out: "content (tc_outputBuffer c) \<noteq> []"
  obtains other' where "stopRead (tc_loopThread other) other = Inr other'" "end_ok other'" "tc_moves other other'"
    "tc_state other' = tc_state other" "tc_inputBuffer other' = tc_inputBuffer other" "tc_sent other' = tc_sent other"
    "end_ok (setWriteCompleteCallback c)" "flow (setWriteCompleteCallback c) other'" "flow other' (setWriteCompleteCallback c)"
proof -
  have "tc_inv other" using ends by (simp add: end_ok_def)
  from stopRead_effect [OF this] obtain o' where o': "stopRead (tc_loopThread other) other = Inr o'" "tc_inv o'" "tc_moves other o'"
    "tc_state o' = tc_state other" "\<not> tc_reading o'" "\<not> isReading (tc_channel o')" "tc_inputBuffer o' = tc_inputBuffer other"
    "tc_outputBuffer o' = tc_outputBuffer other" "tc_sent o' = tc_sent other" "tc_pending o' = tc_pending other"
    "tc_writeCompleteCallback o' = tc_writeCompleteCallback other"
    by blast
  show ?thesis
  proof (rule that)
    show "end_ok o'" using ends(2) o' by (simp add: end_ok_def)
    show "end_ok (setWriteCompleteCallback c)" using ends(1) by (simp add: end_ok_def setWriteCompleteCallback_def tc_inv_defs tc_open_def)
    show "flow (setWriteCompleteCallback c) o'" using o' out by (simp add: flow_def setWriteCompleteCallback_def draining_def)
    show "flow o' (setWriteCompleteCallback c)" using flows(2) o' by (simp add: flow_def setWriteCompleteCallback_def draining_def)
  qed (use o' in simp_all)
qed

lemma start_other:
  assumes ends: "end_ok c" "end_ok other" and "open": "tc_open other"
    and flow: "flow other c"
  obtains other' where "startRead (tc_loopThread other) other = Inr other'" "end_ok other'" "tc_moves other other'"
    "tc_state other' = tc_state other" "tc_inputBuffer other' = tc_inputBuffer other" "tc_sent other' = tc_sent other" "tc_reading other'"
    "end_ok (c\<lparr>tc_writeCompleteCallback := False\<rparr>)" "flow (c\<lparr>tc_writeCompleteCallback := False\<rparr>) other'"
    "flow other' (c\<lparr>tc_writeCompleteCallback := False\<rparr>)"
proof -
  have "tc_inv other" using ends by (simp add: end_ok_def)
  from startRead_effect [OF this "open"] obtain o' where o': "startRead (tc_loopThread other) other = Inr o'" "tc_inv o'" "tc_moves other o'"
    "tc_state o' = tc_state other" "tc_reading o'" "isReading (tc_channel o')" "tc_inputBuffer o' = tc_inputBuffer other"
    "tc_outputBuffer o' = tc_outputBuffer other" "tc_sent o' = tc_sent other" "tc_pending o' = tc_pending other"
    "tc_writeCompleteCallback o' = tc_writeCompleteCallback other"
    by blast
  show ?thesis
  proof (rule that)
    show "end_ok o'" using ends(2) o' by (simp add: end_ok_def)
    show "end_ok (c\<lparr>tc_writeCompleteCallback := False\<rparr>)" using ends(1) by (simp add: end_ok_def tc_inv_defs tc_open_def)
    show "flow (c\<lparr>tc_writeCompleteCallback := False\<rparr>) o'" using o' by (simp add: flow_def)
    show "flow o' (c\<lparr>tc_writeCompleteCallback := False\<rparr>)" using flow o' by (simp add: flow_def draining_def)
  qed (use o' in simp_all)
qed

text \<open>The functor is taken from the queue, then runs.\<close>

definition popped :: "ServerClient \<Rightarrow> tc_functor list \<Rightarrow> Tunnel \<Rightarrow> Tunnel" where
  "popped which fs t =
     (case which of
        kServer \<Rightarrow> t\<lparr>tn_server := (tn_server t)\<lparr>tc_pending := fs\<rparr>\<rparr>
      | kClient \<Rightarrow> t\<lparr>tn_client := (tn_client t)\<lparr>tc_pending := fs\<rparr>\<rparr>)"

lemma popped_mark:
  assumes "tn_inv base t"
  shows "tc_pending (tn_server t) = High_water_mark n # fs \<Longrightarrow> tn_inv base (popped kServer fs t)"
    "tc_pending (tn_client t) = High_water_mark n # fs \<Longrightarrow> tn_inv base (popped kClient fs t)"
  using assms end_ok_pop [of "tn_server t" "High_water_mark n" fs] end_ok_pop [of "tn_client t" "High_water_mark n" fs]
  by (simp_all add: popped_def tn_inv_received tn_received_def tn_links_def tc_open_def flow_def draining_def)

lemma onHighWaterMark_good:
  assumes inv: "tn_inv base t" and "open": "tc_open (tn_server t)" "tc_open (tn_client t)"
  shows "tn_good base (onHighWaterMark (tc_loopThread (tn_server t)) which t)"
proof -
  have ok: "end_ok (tn_server t)" "end_ok (tn_client t)" "flow (tn_server t) (tn_client t)" "flow (tn_client t) (tn_server t)"
    and conn: "tn_clientConn t" "tc_loopThread (tn_client t) = tc_loopThread (tn_server t)"
    using inv "open" by (simp_all add: tn_inv_def tn_links_def)
  have out: "0 < readableBytes (tc_outputBuffer c) \<longleftrightarrow> content (tc_outputBuffer c) \<noteq> []" if "end_ok c" for c
    using that readableBytes_content [of "tc_outputBuffer c"] by (simp add: end_ok_def tc_inv_defs del: readableBytes_wf length_content)
  show ?thesis
  proof (cases which)
    case kServer
    show ?thesis
    proof (cases "content (tc_outputBuffer (tn_server t)) = []")
      case False
      from stop_other [OF ok(1-4) False] obtain c where c: "stopRead (tc_loopThread (tn_client t)) (tn_client t) = Inr c" "end_ok c"
        "tc_moves (tn_client t) c" "tc_state c = tc_state (tn_client t)" "tc_inputBuffer c = tc_inputBuffer (tn_client t)"
        "tc_sent c = tc_sent (tn_client t)" "end_ok (setWriteCompleteCallback (tn_server t))"
        "flow (setWriteCompleteCallback (tn_server t)) c" "flow c (setWriteCompleteCallback (tn_server t))"
        by metis
      have "tn_inv base (t\<lparr>tn_client := c, tn_server := setWriteCompleteCallback (tn_server t)\<rparr>)"
        using inv c(2-) "open" tc_moves_keeps(3) [OF c(3)]
        by (simp add: tn_inv_def tn_links_def tn_relayed_def setWriteCompleteCallback_def tc_open_def) auto
      then show ?thesis using c(1) False out [OF ok(1)] conn kServer by (simp add: onHighWaterMark_def)
    qed (use inv kServer out [OF ok(1)] in \<open>simp add: onHighWaterMark_def\<close>)
  next
    case kClient
    show ?thesis
    proof (cases "content (tc_outputBuffer (tn_client t)) = []")
      case False
      from stop_other [OF ok(2,1,4,3) False] obtain s where s: "stopRead (tc_loopThread (tn_server t)) (tn_server t) = Inr s" "end_ok s"
        "tc_moves (tn_server t) s" "tc_state s = tc_state (tn_server t)" "tc_inputBuffer s = tc_inputBuffer (tn_server t)"
        "tc_sent s = tc_sent (tn_server t)" "end_ok (setWriteCompleteCallback (tn_client t))"
        "flow (setWriteCompleteCallback (tn_client t)) s" "flow s (setWriteCompleteCallback (tn_client t))"
        by metis
      have "tn_inv base (t\<lparr>tn_server := s, tn_client := setWriteCompleteCallback (tn_client t)\<rparr>)"
        using inv s(2-) "open" tc_moves_keeps(3) [OF s(3)]
        by (simp add: tn_inv_def tn_links_def tn_relayed_def setWriteCompleteCallback_def tc_open_def) auto
      then show ?thesis using s(1) False out [OF ok(2)] conn kClient by (simp add: onHighWaterMark_def)
    qed (use inv kClient conn out [OF ok(2)] in \<open>simp add: onHighWaterMark_def\<close>)
  qed
qed

lemma onWriteComplete_server_good:
  assumes inv: "tn_inv base t" and "open": "tc_open (tn_client t)" and pending: "tc_pending (tn_server t) = f # fs"
  shows "tn_good base (onWriteComplete (tc_loopThread (tn_server t)) kServer (popped kServer fs t))"
proof -
  let ?s = "(tn_server t)\<lparr>tc_pending := fs\<rparr>" and ?c = "tn_client t"
  have ok: "end_ok ?s" "end_ok ?c" "flow ?c ?s" and conn: "tn_clientConn t" "tc_loopThread ?c = tc_loopThread (tn_server t)"
    using inv "open" end_ok_pop [OF _ pending] by (simp_all add: tn_inv_def tn_links_def flow_def)
  from start_other [OF ok(1,2) "open" ok(3)] obtain c where c: "startRead (tc_loopThread ?c) ?c = Inr c" "end_ok c" "tc_moves ?c c"
    "tc_state c = tc_state ?c" "tc_inputBuffer c = tc_inputBuffer ?c" "tc_sent c = tc_sent ?c"
    "end_ok (?s\<lparr>tc_writeCompleteCallback := False\<rparr>)" "flow (?s\<lparr>tc_writeCompleteCallback := False\<rparr>) c"
    "flow c (?s\<lparr>tc_writeCompleteCallback := False\<rparr>)"
    by metis
  have "tn_inv base (t\<lparr>tn_client := c, tn_server := ?s\<lparr>tc_writeCompleteCallback := False\<rparr>\<rparr>)"
    using inv c(2-) "open" tc_moves_keeps(3) [OF c(3)]
    by (simp add: tn_inv_def tn_links_def tn_relayed_def tc_open_def) auto
  then show ?thesis using c(1) conn by (simp add: onWriteComplete_def popped_def)
qed

lemma onWriteComplete_client_good:
  assumes inv: "tn_inv base t" and "open": "tc_open (tn_server t)" "tc_open (tn_client t)" and pending: "tc_pending (tn_client t) = f # fs"
  shows "tn_good base (onWriteComplete (tc_loopThread (tn_server t)) kClient (popped kClient fs t))"
proof -
  let ?c = "(tn_client t)\<lparr>tc_pending := fs\<rparr>" and ?s = "tn_server t"
  have ok: "end_ok ?c" "end_ok ?s" "flow ?s ?c" and conn: "tn_clientConn t"
    using inv "open" end_ok_pop [OF _ pending] by (simp_all add: tn_inv_def tn_links_def flow_def)
  from start_other [OF ok(1,2) "open"(1) ok(3)] obtain s where s: "startRead (tc_loopThread ?s) ?s = Inr s" "end_ok s" "tc_moves ?s s"
    "tc_state s = tc_state ?s" "tc_inputBuffer s = tc_inputBuffer ?s" "tc_sent s = tc_sent ?s"
    "end_ok (?c\<lparr>tc_writeCompleteCallback := False\<rparr>)" "flow (?c\<lparr>tc_writeCompleteCallback := False\<rparr>) s"
    "flow s (?c\<lparr>tc_writeCompleteCallback := False\<rparr>)"
    by metis
  have "tn_inv base (t\<lparr>tn_server := s, tn_client := ?c\<lparr>tc_writeCompleteCallback := False\<rparr>\<rparr>)"
    using inv s(2-) "open" tc_moves_keeps(3) [OF s(3)]
    by (simp add: tn_inv_def tn_links_def tn_relayed_def tc_open_def) auto
  then show ?thesis using s(1) conn by (simp add: onWriteComplete_def popped_def)
qed

lemma run_functor_good:
  assumes inv: "tn_inv base t" and "open": "tc_open (tn_server t)" "tc_open (tn_client t)"
  shows "tn_good base (tn_step (Run_functor which) t)"
proof -
  have relay: "list_all relay_functor (tc_pending (tn_server t))" "list_all relay_functor (tc_pending (tn_client t))"
    using inv by (simp_all add: tn_inv_def end_ok_def)
  show ?thesis
  proof (cases which)
    case kServer
    show ?thesis
    proof (cases "tc_pending (tn_server t)")
      case (Cons f fs)
      then have "f = Write_complete \<or> (\<exists>n. f = High_water_mark n)" using relay(1) by (simp add: relay_functor_def)
      then show ?thesis
        using onWriteComplete_server_good [OF inv "open"(2) Cons] onHighWaterMark_good [OF popped_mark(1) [OF inv], of _ fs kServer]
          "open" Cons kServer
        by (auto simp: popped_def tc_open_def)
    qed (use inv kServer in simp)
  next
    case kClient
    show ?thesis
    proof (cases "tc_pending (tn_client t)")
      case (Cons f fs)
      then have "f = Write_complete \<or> (\<exists>n. f = High_water_mark n)" using relay(2) by (simp add: relay_functor_def)
      then show ?thesis
        using onWriteComplete_client_good [OF inv "open" Cons] onHighWaterMark_good [OF popped_mark(2) [OF inv], of _ fs kClient]
          "open" Cons kClient
        by (auto simp: popped_def tc_open_def)
    qed (use inv kClient in simp)
  qed
qed

lemma client_up_good:
  assumes inv: "tn_inv base t" and st: "tc_state (tn_client t) = kConnecting" and "open": "tc_open (tn_server t)"
  shows "tn_good base (tn_step (Client_up self w) t)"
proof -
  have ok: "end_ok (tn_server t)" "end_ok (tn_client t)" "flow (tn_server t) (tn_client t)" "flow (tn_client t) (tn_server t)"
    and tid: "tc_loopThread (tn_client t) = tc_loopThread (tn_server t)"
    and reading: "tc_reading (tn_server t)" "tc_reading (tn_client t)"
    using inv st by (simp_all add: tn_inv_def tn_links_def)
  then have tinv: "tc_inv (tn_client t)" "tc_inv (tn_server t)" by (simp_all add: end_ok_def)
  from connectEstablished_effect [OF tinv(1) st, of self] obtain c where
    c: "connectEstablished no_user (tc_loopThread (tn_client t)) self (tn_client t) = Inr c" "tc_inv c" "tc_state c = kConnected"
      "tc_loopThread c = tc_loopThread (tn_client t)" "tc_reading c = tc_reading (tn_client t)" "isReading (tc_channel c)"
      "tc_inputBuffer c = tc_inputBuffer (tn_client t)" "tc_outputBuffer c = tc_outputBuffer (tn_client t)"
      "tc_sent c = tc_sent (tn_client t)" "tc_pending c = tc_pending (tn_client t)"
      "tc_writeCompleteCallback c = tc_writeCompleteCallback (tn_client t)"
    by blast
  from startRead_effect [OF tinv(2) "open"] obtain s where
    s: "startRead (tc_loopThread (tn_server t)) (tn_server t) = Inr s" "tc_inv s" "tc_moves (tn_server t) s" "tc_state s = tc_state (tn_server t)"
      "tc_reading s" "isReading (tc_channel s)" "tc_inputBuffer s = tc_inputBuffer (tn_server t)"
      "tc_outputBuffer s = tc_outputBuffer (tn_server t)" "tc_sent s = tc_sent (tn_server t)" "tc_pending s = tc_pending (tn_server t)"
      "tc_writeCompleteCallback s = tc_writeCompleteCallback (tn_server t)"
    by blast
  define t' where "t' = t\<lparr>tn_client := setHighWaterMarkCallback (1024 * 1024) c, tn_server := s, tn_context := True, tn_clientConn := True\<rparr>"
  have "tc_inv (setHighWaterMarkCallback (1024 * 1024) c)" using c(2) by (simp add: setHighWaterMarkCallback_def tc_inv_defs)
  then have rcv: "tn_received base t'"
    using inv c(3-) s(2-) tc_moves_keeps(3) [OF s(3)] reading st
    by (simp add: t'_def tn_inv_received tn_received_def end_ok_def tn_links_def flow_def draining_def tc_open_def setHighWaterMarkCallback_def)
  have empty: "tc_state (tn_server t') = kConnected \<longrightarrow> content (tc_inputBuffer (tn_client t')) = []"
    using inv c(7) s(4) by (simp add: t'_def tn_inv_received setHighWaterMarkCallback_def)
  have "Buffer_wf (tc_inputBuffer s)" using s(2) by (simp add: tc_inv_defs)
  then have none: "\<not> 0 < readableBytes (tc_inputBuffer s) \<Longrightarrow> content (tc_inputBuffer s) = []"
    using readableBytes_content [of "tc_inputBuffer s"] by (simp del: readableBytes_wf length_content)
  have "tn_step (Client_up self w) t = (if 0 < readableBytes (tc_inputBuffer s)
      then relay_to_client (tc_loopThread (tn_client t')) (kernel_write w) t' else Inr t')"
    using c(1,3,4) s(1) tid by (simp add: onClientConnection_def tc_connected_def t'_def setHighWaterMarkCallback_def Let_def)
  then show ?thesis
    using relay_good [OF rcv empty, of w] rcv empty none by (simp add: tn_inv_received t'_def)
qed

lemma tn_step_good:
  assumes "tn_inv base t" "tn_enabled e t"
  shows "tn_good base (tn_step e t)"
proof (cases e)
  case (Writable which w)
  have inv: "tc_inv (tn_server t)" "tc_inv (tn_client t)" "tc_state (tn_server t) \<noteq> kConnecting"
    using assms(1) by (simp_all add: tn_inv_def end_ok_def tn_links_def)
  show ?thesis
    using handleWrite_adds [OF inv(1,3), of w] handleWrite_adds [OF inv(2), of w] adds_nothing [OF assms(1)] assms(2) Writable
    by (cases which) auto
next
  case (Readable which r w)
  then show ?thesis
    using assms server_readable_good [OF assms(1)] client_readable_good [OF assms(1)] by (cases which) simp_all
next
  case (Run_functor which)
  then show ?thesis using run_functor_good [OF assms(1), of which] assms(2) by (simp del: tn_step.simps)
next
  case (Client_up self w)
  then show ?thesis using client_up_good [OF assms(1), of self w] assms(2) by (simp del: tn_step.simps)
qed (use assms client_down_good [OF assms(1)] server_down_good [OF assms(1)] in simp_all)

section \<open>After one end is closed\<close>

text \<open>
  The user reads slowly, the host is stopped, and its connection is closed. When the output to the user is written, the
  callback starts the reading of a connection that the tunnel has let go of.
\<close>

lemma handleWrite_all:
  assumes inv: "tc_inv c" and "open": "tc_open c" and ne: "content (tc_outputBuffer c) \<noteq> []"
    and cb: "tc_writeCompleteCallback c" "tc_pending c = []"
  shows "\<exists>c'. handleWrite (tc_loopThread c) (kernel_write (Wrote (length (content (tc_outputBuffer c))))) c = Inr c' \<and>
    tc_pending c' = [Write_complete]"
proof -
  define n where "n = min (length (content (tc_outputBuffer c))) (length (content (tc_outputBuffer c)))"
  have wf: "Buffer_wf (tc_outputBuffer c)" and writing: "isWriting (tc_channel c)"
    using inv "open" ne by (auto simp: tc_inv_defs tc_open_def)
  have n: "0 < n" using ne by (simp add: n_def del: length_content)
  obtain out where out: "retrieve n (tc_outputBuffer c) = Inr out" "Buffer_wf out" "content out = drop n (content (tc_outputBuffer c))"
    using retrieve_ok [OF wf, of n] by (auto simp: n_def)
  then have "content out = []" by (simp add: n_def del: length_content)
  then show ?thesis
    using handleWrite_wrote [OF writing n n_def out(1,2) refl refl] shutdownInLoop_eq cb
    by (simp add: tc_queueInLoop_def tc_socket_write_def shutdownInLoop_def tc_inLoop_def tc_shutdownWrite_def
        del: length_content kernel_write.simps)
qed

lemma teardown_then_written:
  assumes inv: "tn_inv base t" and "open": "tc_open (tn_server t)" "tc_open (tn_client t)"
    and slow: "tc_writeCompleteCallback (tn_server t)" "tc_pending (tn_server t) = []"
  shows "\<exists>t1 t2 n. tn_step Client_down t = Inr t1 \<and> tn_step (Writable kServer (Wrote n)) t1 = Inr t2 \<and>
    tn_step (Run_functor kServer) t2 = Inl Undefined"
proof -
  have ne: "content (tc_outputBuffer (tn_server t)) \<noteq> []" using inv slow by (simp add: tn_inv_def flow_def draining_def)
  have tinv: "tc_inv (tn_client t)" "tc_inv (tn_server t)" and tid: "tc_loopThread (tn_client t) = tc_loopThread (tn_server t)"
    using inv by (simp_all add: tn_inv_def end_ok_def tn_links_def)
  obtain c where c: "handleClose no_user (tc_loopThread (tn_client t)) (tn_client t) = Inr c" "tc_state c = kDisconnected"
    "tc_loopThread c = tc_loopThread (tn_client t)"
    using handleClose_effect [OF tinv(1) "open"(2)] by blast
  obtain s where s: "tc_shutdown (tc_loopThread (tn_server t)) (tn_server t) = Inr s" "tc_adds [] (tn_server t) s"
    using shutdown_adds [OF tinv(2)] by blast
  have same: "tc_outputBuffer s = tc_outputBuffer (tn_server t)" "tc_pending s = tc_pending (tn_server t)"
    using s(1) shutdownInLoop_eq [of "setState kDisconnecting (tn_server t)"]
    by (auto simp: tc_shutdown_def tc_runInLoop_def tc_shutdownWrite_def setState_def split: if_splits)
  have down: "tn_step Client_down t = Inr (t\<lparr>tn_client := c, tn_context := False, tn_clientConn := False, tn_server := s\<rparr>)"
    using c s(1) tid by (simp add: client_down_def onClientConnection_def tc_connected_def tunnel_teardown_def)
  have "tc_inv s" "tc_open s" "tc_writeCompleteCallback s" using s(2) tc_addsD(6,7) [OF s(2)] "open"(1) slow(1)
    by (simp_all add: tc_adds_def)
  from handleWrite_all [OF this(1,2) _ this(3)] obtain s' where
    s': "handleWrite (tc_loopThread s) (kernel_write (Wrote (length (content (tc_outputBuffer s))))) s = Inr s'" "tc_pending s' = [Write_complete]"
    using ne slow(2) same by auto
  let ?t1 = "t\<lparr>tn_client := c, tn_context := False, tn_clientConn := False, tn_server := s\<rparr>"
  have "tn_step (Writable kServer (Wrote (length (content (tc_outputBuffer s))))) ?t1 = Inr (?t1\<lparr>tn_server := s'\<rparr>)"
    using s'(1) by (simp del: kernel_write.simps length_content)
  moreover have "tn_step (Run_functor kServer) (?t1\<lparr>tn_server := s'\<rparr>) = Inl Undefined"
    using s'(2) by (simp add: onWriteComplete_def)
  ultimately show ?thesis using down by blast
qed

text \<open>
  The user is gone before the host answers: the connection is made all the same, since \<^verbatim>\<open>disconnect\<close> does not stop the
  connector, and the closed connection of the user is registered for reading again.
\<close>

lemma late_connection_reads_closed_end:
  assumes inv: "tn_inv base t" and st: "tc_state (tn_client t) = kConnecting" "tc_state (tn_server t) = kDisconnected"
    and none: "content (tc_inputBuffer (tn_server t)) = []"
  shows "\<exists>t'. tn_step (Client_up self w) t = Inr t' \<and> tc_state (tn_server t') = kDisconnected \<and> isReading (tc_channel (tn_server t'))"
proof -
  have ok: "tc_inv (tn_client t)" "tc_inv (tn_server t)" "tc_loopThread (tn_client t) = tc_loopThread (tn_server t)"
    using inv by (simp_all add: tn_inv_def end_ok_def tn_links_def)
  obtain c where c: "connectEstablished no_user (tc_loopThread (tn_client t)) self (tn_client t) = Inr c" "tc_state c = kConnected"
    "tc_loopThread c = tc_loopThread (tn_client t)"
    using connectEstablished_effect [OF ok(1) st(1), of self] by blast
  have "\<not> isReading (tc_channel (tn_server t))"
    using ok(2) st(2) by (simp add: tc_inv_defs isNoneEvent_def isReading_def kNoneEvent_def read_bits)
  then have s: "startRead (tc_loopThread (tn_server t)) (tn_server t) = Inr ((tc_enableReading (tn_server t))\<lparr>tc_reading := True\<rparr>)"
    by (simp add: startRead_def tc_runInLoop_def startReadInLoop_def tc_inLoop_def)
  have "Buffer_wf (tc_inputBuffer (tn_server t))" using ok(2) by (simp add: tc_inv_defs)
  then have "readableBytes (tc_inputBuffer (tn_server t)) = 0"
    using none readableBytes_content [of "tc_inputBuffer (tn_server t)"] by (simp del: readableBytes_wf length_content)
  then show ?thesis using c s ok(3) st(2) by (simp add: onClientConnection_def tc_connected_def Let_def)
qed

section \<open>Properties\<close>

text \<open>A tunnel when the handler of the request returns: the user's connection, and one that is not yet established.\<close>

definition tn_start :: "Tunnel \<Rightarrow> bool" where
  "tn_start t \<longleftrightarrow> end_ok (tn_server t) \<and> end_ok (tn_client t) \<and> tc_loopThread (tn_client t) = tc_loopThread (tn_server t) \<and>
     tc_state (tn_server t) = kConnected \<and> tc_state (tn_client t) = kConnecting \<and> \<not> tn_context t \<and> \<not> tn_clientConn t \<and>
     tc_reading (tn_server t) \<and> tc_reading (tn_client t) \<and>
     \<not> tc_writeCompleteCallback (tn_server t) \<and> \<not> tc_writeCompleteCallback (tn_client t) \<and>
     tc_sent (tn_client t) = [] \<and> content (tc_inputBuffer (tn_client t)) = [] \<and>
     tn_fromClient t = [] \<and> tn_fromServer t = content (tc_inputBuffer (tn_server t))"

abbreviation tn_reachable :: "string \<Rightarrow> Tunnel \<Rightarrow> bool" where
  "tn_reachable base \<equiv> reach (tunnel_setup ` {t. tn_start t \<and> base = tc_sent (tn_server t)}) tn_enabled tn_step"

lemma mark_fields [simp]:
  "tc_loopThread (setHighWaterMarkCallback n c) = tc_loopThread c" "tc_state (setHighWaterMarkCallback n c) = tc_state c"
  "tc_reading (setHighWaterMarkCallback n c) = tc_reading c" "tc_sent (setHighWaterMarkCallback n c) = tc_sent c"
  "tc_writeCompleteCallback (setHighWaterMarkCallback n c) = tc_writeCompleteCallback c"
  "tc_inputBuffer (setHighWaterMarkCallback n c) = tc_inputBuffer c" "end_ok (setHighWaterMarkCallback n c) = end_ok c"
  by (simp_all add: setHighWaterMarkCallback_def end_ok_def tc_inv_defs tc_open_def)

lemma writing_iff: "end_ok c \<Longrightarrow> tc_open c \<Longrightarrow> isWriting (tc_channel c) \<longleftrightarrow> content (tc_outputBuffer c) \<noteq> []"
  by (auto simp: end_ok_def tc_inv_defs tc_open_def)

interpretation tn: event_system tn_enabled tn_step "tn_inv base" "{Length_error}" for base
proof
  show "tn_inv base t'" if "tn_inv base t" "tn_enabled e t" "tn_step e t = Inr t'" for t e t'
    using tn_step_good [OF that(1,2)] that(3) by simp
  show "f \<in> {Length_error}" if "tn_inv base t" "tn_enabled e t" "tn_step e t = Inl f" for t e f
    using tn_step_good [OF that(1,2)] that(3) by simp
qed

lemma tunnel_setup_inv: "tn_start t \<Longrightarrow> tn_inv (tc_sent (tn_server t)) (tunnel_setup t)"
  by (simp add: tn_start_def tunnel_setup_def tn_inv_received tn_received_def tn_links_def flow_def tc_open_def)

lemma tn_reachable_inv: "tn_reachable base t \<Longrightarrow> tn_inv base t"
  by (erule tn.reach_inv) (auto simp: tunnel_setup_inv)


lemma tunnel_starts: "\<exists>t. tn_start t \<and> tc_sent (tn_server t) = []"
proof -
  obtain b where b: "Buffer_new kInitialSize = Inr b" "content b = []"
    using Buffer_new_ok [of kInitialSize] by (auto simp: buffer_consts)
  define c where "c = TcpConnection_new 0 1 ''c'' 5 b b (MinuteHourCounter_new 0 0)"
  have c: "tc_inv c" "tc_state c = kConnecting" "tc_reading c" "tc_pending c = []" "tc_sent c = []" "\<not> tc_writeCompleteCallback c"
    "tc_inputBuffer c = b"
    using TcpConnection_new_inv(1) [OF b(1) c_def] by (simp_all add: c_def TcpConnection_new_def)
  from connectEstablished_effect [OF c(1,2), of 9] obtain s where
    s: "tc_inv s" "tc_state s = kConnected" "tc_loopThread s = tc_loopThread c" "tc_reading s = tc_reading c" "isReading (tc_channel s)"
      "tc_inputBuffer s = tc_inputBuffer c" "tc_sent s = tc_sent c" "tc_pending s = tc_pending c"
      "tc_writeCompleteCallback s = tc_writeCompleteCallback c"
    by blast
  define t where "t = \<lparr>tn_server = s, tn_context = False, tn_client = c, tn_clientConn = False, tn_fromServer = [], tn_fromClient = []\<rparr>"
  have "tn_start t" "tc_sent (tn_server t) = []" using c s b(2) by (simp_all add: t_def tn_start_def end_ok_def tc_open_def)
  then show ?thesis by blast
qed


end
