(* ===== verification/Spec2Isabelle.thy ===== *)
theory Spec2Isabelle
  imports Http_Correct Zone_File Logging Async_Logging Counters Pollers_Agree Timers Loop_Thread Tcp_Server Tcp_Client Sync Inspect Socks Tunnel
begin

text \<open>
  A verification development for the C++ network library under \<^verbatim>\<open>src/\<close>: an event-driven TCP library in
  \<^verbatim>\<open>networking/\<close>, the utilities it rests on in \<^verbatim>\<open>utility/\<close>, and the SOCKS proxies in
  \<^verbatim>\<open>networking-examples/\<close>. The theories hold a model of the code, definition by definition, and the
  theorems that make it correct. Theorems that state a property of the program stand behind a text
  with its number, C1 to C40.

  \<^bold>\<open>The program.\<close> A thread runs an \<^verbatim>\<open>EventLoop\<close>. The loop asks a \<^verbatim>\<open>Poller\<close> (\<^verbatim>\<open>poll\<close> or \<^verbatim>\<open>epoll\<close>) for the
  \<^verbatim>\<open>Channel\<close>s with events, lets each call its handlers, runs the functors that other threads have queued,
  and sleeps until the next event; a \<^verbatim>\<open>TimerQueue\<close> sets a timer descriptor. On top of it a
  \<^verbatim>\<open>TcpConnection\<close> moves bytes between a socket and two \<^verbatim>\<open>Buffer\<close>s. A \<^verbatim>\<open>TcpServer\<close> gets its connections from an
  \<^verbatim>\<open>Acceptor\<close> and gives each to a loop of a pool, a \<^verbatim>\<open>TcpClient\<close> gets its one from a \<^verbatim>\<open>Connector\<close>. The HTTP
  server, the inspector and the proxies are clients of these. The utilities are time, logging, counters and the
  coordination of threads.

  \<^bold>\<open>How the code is modelled.\<close> A class is a record with the fields of the class, an enumeration a datatype,
  and a member function one definition that takes the object and returns it changed; definitions keep the names
  of the source, with the class in front where names meet. A call yields a value or the reason why the process
  stops (theory \<open>Prelude\<close>: \<open>Assert_failed\<close>, \<open>Fatal\<close> for \<^verbatim>\<open>LOG_FATAL\<close> and \<^verbatim>\<open>abort\<close>, the exceptions of
  the standard library, and \<open>Undefined\<close> for undefined behaviour), so that every assertion and every
  error path is a branch. \<^verbatim>\<open>size_t\<close> arithmetic wraps where it can wrap, wire integers are words, and other
  integers are unbounded with the conversions of C written out. System calls, the clock, random
  choices of the scheduler and what user callbacks do are arguments. Where objects live in several threads, a
  step relation or a function of explicit events interleaves them, one critical section or one atomic write
  being a step, and the properties hold in every reachable state.

  \<^bold>\<open>Bytes and requests.\<close>
  \<^item> \<open>Endian\<close>, \<open>String_Piece\<close>, \<open>Buffer\<close> (\<^verbatim>\<open>networking/Endian.h\<close>, \<^verbatim>\<open>utility/StringPiece.h\<close>, \<^verbatim>\<open>networking/Buffer.h\<close>,
    \<^verbatim>\<open>networking/Buffer.cpp\<close>): the buffer refines a queue of bytes, \<^verbatim>\<open>readFd\<close> appends what was received, integers
    written in network order are read back. The locale \<open>byte_queue\<close> is the contract that its clients use.
  \<^item> \<open>Http\<close>, \<open>Http_Correct\<close> (\<^verbatim>\<open>networking/http/\<close>): the incremental parser, the response and the handlers.
    \<^verbatim>\<open>parseRequest\<close> is a partial function, because its loop need not end in general; it is proved to return, its
    result not to depend on how the network cuts the stream, and a request to be answered once.
  \<^item> \<open>Inet_Address\<close> (\<^verbatim>\<open>networking/InetAddress.cpp\<close>, \<^verbatim>\<open>networking/SocketsOps.cpp\<close>, \<^verbatim>\<open>networking/Socket.cpp\<close>): an address is
    the bytes of its union; texts of addresses are read back.
  \<^item> \<open>Inspect\<close> (\<^verbatim>\<open>networking/inspect/Inspector.cpp\<close>): the nested tables of commands refine one map of what is
    registered, and requests are answered from it.
  \<^item> \<open>Socks\<close> (\<^verbatim>\<open>socks4a.cpp\<close>, \<^verbatim>\<open>socks5_proxy.cpp\<close>) and \<open>Tunnel\<close> (\<^verbatim>\<open>tunnel.h\<close>): requests in their wire format open the
    tunnel they ask for; the tunnel, over two connections of theory \<open>Tcp_Connection\<close>, relays both
    streams unchanged and its back pressure never leaves an end stopped.

  \<^bold>\<open>Events and connections.\<close>
  \<^item> \<open>Channel\<close>, \<open>Pollers\<close>, \<open>Pollers_Correct\<close>, \<open>Pollers_Agree\<close> (\<^verbatim>\<open>networking/Channel.cpp\<close>, \<^verbatim>\<open>networking/poller/\<close>):
    channels are objects in a store that pollers write to. Both pollers satisfy the locale \<open>poller\<close>, and the
    one simulates the other. What the code relies on of \<^verbatim>\<open>epoll_ctl\<close> is the hypothesis \<open>epoll_ctl_documented\<close>, which a
    concrete kernel is shown to meet.
  \<^item> \<open>Timers\<close> (\<^verbatim>\<open>networking/TimerQueue.cpp\<close>): the two ordered sets agree, and expired timers run and are set again.
  \<^item> \<open>Event_Loop\<close>, \<open>Event_Loop_Correct\<close>, \<open>Loop_Thread\<close> (\<^verbatim>\<open>networking/EventLoop.cpp\<close>, \<^verbatim>\<open>EventLoopThreadPool.cpp\<close>,
    \<^verbatim>\<open>EventLoopThread.cpp\<close>): the wakeup protocol loses no functor and keeps their order; the pool deals out loops in
    turn; a new thread hands over its loop.
  \<^item> \<open>Tcp_Connection\<close>, \<open>Tcp_Connection_Correct\<close> (\<^verbatim>\<open>networking/TcpConnection.cpp\<close>): the bytes accepted by the socket and
    those in the output buffer are the bytes sent, shutdown waits for them, the callbacks see one up and one down, and
    no assertion fails if user code follows the rules stated there.
  \<^item> \<open>Tcp_Server\<close>, \<open>Connector\<close>, \<open>Tcp_Client\<close> (\<^verbatim>\<open>networking/TcpServer.cpp\<close>, \<^verbatim>\<open>Acceptor.cpp\<close>, \<^verbatim>\<open>Connector.cpp\<close>,
    \<^verbatim>\<open>TcpClient.cpp\<close>): each is put together with its connections and with the functors that travel between loops; server
    and client know exactly the connections that are up, and every socket that was opened is accounted for.

  \<^bold>\<open>Utilities.\<close>
  \<^item> \<open>Dates\<close>, \<open>Time_Zone\<close>, \<open>Zone_File\<close> (\<^verbatim>\<open>utility/Date.cpp\<close>, \<^verbatim>\<open>Timestamp.cpp\<close>, \<^verbatim>\<open>TimeZone.cpp\<close>): Julian day numbers count the days
    of the Gregorian calendar within 32 bits, local times are read back outside ambiguous hours, and zone files are
    read as they were written.
  \<^item> \<open>Log_Stream\<close>, \<open>Logging\<close>, \<open>Log_File\<close>, \<open>Async_Logging\<close>, \<open>Threads\<close> (\<^verbatim>\<open>utility/LogStream.cpp\<close>, \<^verbatim>\<open>Logging.cpp\<close>,
    \<^verbatim>\<open>FileUtil.cpp\<close>, \<^verbatim>\<open>LogFile.cpp\<close>, \<^verbatim>\<open>AsyncLogging.cpp\<close>, \<^verbatim>\<open>Thread.cpp\<close>, \<^verbatim>\<open>CurrentThread.cpp\<close>): from an insertion operator
    to the file. A line is recorded whole or not at all, files hold the lines in order (locale \<open>line_sink\<close>),
    and so does the asynchronous back end until it is stopped.
  \<^item> \<open>Counters\<close> (\<^verbatim>\<open>utility/MinuteHourCounter.h\<close>, \<^verbatim>\<open>Atomic.h\<close>): a trailing count is the sum of the events of its window.
  \<^item> \<open>Sync\<close> (\<^verbatim>\<open>utility/Condition.cpp\<close>, \<^verbatim>\<open>CountDownLatch.cpp\<close>, \<^verbatim>\<open>BlockingQueue.h\<close>, \<^verbatim>\<open>BoundedBlockingQueue.h\<close>, \<^verbatim>\<open>ThreadPool.cpp\<close>): monitors
    with spurious wakeups; queues are first in, first out, and no thread is left waiting for what is there.

  Shared vocabulary and lemmas are in \<open>Prelude\<close>, with the locale \<open>assoc_container\<close> for \<^verbatim>\<open>std::map\<close> and the
  locale \<open>event_system\<close> for an object driven by events: what is reachable, an invariant, and the faults that may end
  an event. It holds for the connector, the asynchronous log and the tunnel, and under the contract \<open>client_code\<close> of the
  user's callbacks for a connection, a client and a server. Every locale is interpreted on the definitions of the model.

  \<^bold>\<open>Bounds.\<close> No definition uses fuel. Loops whose end is not evident are partial functions, or functions with
  a termination proof. A vector grows to at most \<open>max_size\<close> (\<open>2\<^sup>6\<^sup>3 - 1\<close> bytes); beyond it the model has
  \<open>Length_error\<close>, as the standard library has, and theorems about buffers allow this outcome. Theorems on
  lengths kept in an \<^verbatim>\<open>int\<close> assume less than \<open>2\<^sup>3\<^sup>1\<close> bytes.

  \<^bold>\<open>Not modelled.\<close>
  \<^item> Log output of the library about itself, memory exhaustion, and data races inside a critical section or on the
    flags that the code reads without a mutex, beyond the interleavings above.
  \<^item> Functions that only pass their arguments to one system call (the rest of \<^verbatim>\<open>SocketsOps.cpp\<close> and
    \<^verbatim>\<open>Socket.cpp\<close>), and \<^verbatim>\<open>ProcessInfo.cpp\<close>, \<^verbatim>\<open>ProcessInspector.cpp\<close>, \<^verbatim>\<open>SystemInspector.cpp\<close>,
    \<^verbatim>\<open>PerformanceInspector.cpp\<close> and \<^verbatim>\<open>Exception.cpp\<close>, which format files of \<^verbatim>\<open>/proc\<close>, a profiler's output and stack traces.
  \<^item> Thread-local and singleton helpers (\<^verbatim>\<open>Singleton.h\<close>, \<^verbatim>\<open>ThreadLocal.h\<close>, \<^verbatim>\<open>WeakCallback.h\<close>): wrappers of the language and of
    pthread keys. \<^verbatim>\<open>MutexLock.h\<close> is the atomicity of the steps.
  \<^item> Floating point (\<^verbatim>\<open>formatSI\<close>, \<^verbatim>\<open>formatIEC\<close>, \<^verbatim>\<open>timeDifference\<close>): doubles appear as the values they are converted to.
  \<^item> The clients of c-ares, libcurl and libco (\<^verbatim>\<open>cdns\<close>, \<^verbatim>\<open>curl\<close>, \<^verbatim>\<open>socks5_proxy_libco.cpp\<close>), whose behaviour is that of
    libraries outside \<^verbatim>\<open>src/\<close>, the multithreaded variant of the SOCKS 5 proxy, and \<^verbatim>\<open>balancer.cpp\<close>.
\<close>

end
